(* ===== verification/Wire.thy ===== *)
theory Wire
  imports FB_Prelude
begin

text \<open>
  The wire protocol of \<open>client/include/net/common.h\<close>: operation codes, the packed structures
  \<open>MsgHeader\<close>, \<open>WireAttr\<close> and \<open>WireStatvfs\<close>, the payload \<open>Writer\<close> and \<open>Reader\<close>, and their
  round trips. A writer is the bytes written so far; a reader is the bytes still unread, and each
  of its operations returns the value read (\<open>None\<close> where the code returns false) with the bytes
  left, which a failed string read has already advanced past the length field.
\<close>

section \<open>Constants\<close>

definition kMagic :: u32 where "kMagic = 0x46424459"
definition kProtocolVersion :: u32 where "kProtocolVersion = 2"
definition kMaxIO :: u32 where "kMaxIO = push_bit 20 1"
definition kDefaultConns :: nat where "kDefaultConns = 8"
definition kMaxHandshakeMsg :: u32 where "kMaxHandshakeMsg = 64 * 1024"

lemma kMaxIO_val: "kMaxIO = 1048576"
  by (simp add: kMaxIO_def)

section \<open>Operation codes\<close>

datatype op =
    OP_HELLO | OP_CHALLENGE | OP_AUTH | OP_AUTH_OK | OP_AUTH_FAIL
  | OP_GETATTR | OP_READDIR | OP_OPEN | OP_READ | OP_WRITE | OP_CREATE | OP_MKDIR | OP_UNLINK
  | OP_RMDIR | OP_RENAME | OP_TRUNCATE | OP_RELEASE | OP_FSYNC | OP_STATFS | OP_UTIMENS
  | OP_CHMOD | OP_FLUSH | OP_ACCESS | OP_INVALIDATE

primrec op_code :: "op \<Rightarrow> u16" where
  "op_code OP_HELLO = 1"
| "op_code OP_CHALLENGE = 2"
| "op_code OP_AUTH = 3"
| "op_code OP_AUTH_OK = 4"
| "op_code OP_AUTH_FAIL = 5"
| "op_code OP_GETATTR = 10"
| "op_code OP_READDIR = 11"
| "op_code OP_OPEN = 12"
| "op_code OP_READ = 13"
| "op_code OP_WRITE = 14"
| "op_code OP_CREATE = 15"
| "op_code OP_MKDIR = 16"
| "op_code OP_UNLINK = 17"
| "op_code OP_RMDIR = 18"
| "op_code OP_RENAME = 19"
| "op_code OP_TRUNCATE = 20"
| "op_code OP_RELEASE = 21"
| "op_code OP_FSYNC = 22"
| "op_code OP_STATFS = 23"
| "op_code OP_UTIMENS = 24"
| "op_code OP_CHMOD = 25"
| "op_code OP_FLUSH = 26"
| "op_code OP_ACCESS = 27"
| "op_code OP_INVALIDATE = 28"

definition all_ops :: "op list" where
  "all_ops = [OP_HELLO, OP_CHALLENGE, OP_AUTH, OP_AUTH_OK, OP_AUTH_FAIL, OP_GETATTR, OP_READDIR,
     OP_OPEN, OP_READ, OP_WRITE, OP_CREATE, OP_MKDIR, OP_UNLINK, OP_RMDIR, OP_RENAME,
     OP_TRUNCATE, OP_RELEASE, OP_FSYNC, OP_STATFS, OP_UTIMENS, OP_CHMOD, OP_FLUSH, OP_ACCESS,
     OP_INVALIDATE]"

text \<open>A \<open>switch\<close> on a raw code: the enumerator it equals, if there is one.\<close>

definition op_of :: "u16 \<Rightarrow> op option" where
  "op_of c = find (\<lambda>x. op_code x = c) all_ops"

lemma op_of_code [simp, codec_simps]: "op_of (op_code x) = Some x"
  by (cases x) (simp_all add: op_of_def all_ops_def)

lemma op_of_Some: "op_of c = Some x \<longleftrightarrow> c = op_code x"
proof
  assume "op_of c = Some x"
  then show "c = op_code x" unfolding op_of_def by (auto simp: find_Some_iff)
next
  assume "c = op_code x"
  then show "op_of c = Some x" by simp
qed

lemma op_code_inj: "op_code x = op_code y \<longleftrightarrow> x = y"
  by (metis op_of_code option.inject)

section \<open>Packed structures\<close>

record msg_header =
  h_magic :: u32
  h_op :: u16
  h_status :: u16
  h_req_id :: u64
  h_length :: u32

record wire_attr =
  a_ino :: u64
  a_size :: u64
  a_blocks :: u64
  a_atime :: u64
  a_mtime :: u64
  a_ctime :: u64
  a_mode :: u32
  a_nlink :: u32
  a_uid :: u32
  a_gid :: u32

record wire_statvfs =
  v_bsize :: u64
  v_frsize :: u64
  v_blocks :: u64
  v_bfree :: u64
  v_bavail :: u64
  v_files :: u64
  v_ffree :: u64
  v_namemax :: u64

text \<open>
  \<open>status\<close> (\<open>int16_t\<close>) and the times (\<open>int64_t\<close>) are kept as words of their width; their
  signed value is \<open>sint\<close>. The structures are packed, so their bytes are the fields' bytes in
  order and their sizes are the 20, 64 and 64 bytes that the code asserts.
\<close>

definition enc_header :: "msg_header \<Rightarrow> bytes" where
  "enc_header h = le_bytes 4 (h_magic h) @ le_bytes 2 (h_op h) @ le_bytes 2 (h_status h) @
     le_bytes 8 (h_req_id h) @ le_bytes 4 (h_length h)"

definition field :: "nat \<Rightarrow> nat \<Rightarrow> bytes \<Rightarrow> 'a::len word" where
  "field off n bs = le_word (take n (drop off bs))"

definition dec_header :: "bytes \<Rightarrow> msg_header" where
  "dec_header bs = \<lparr>h_magic = field 0 4 bs, h_op = field 4 2 bs, h_status = field 6 2 bs,
     h_req_id = field 8 8 bs, h_length = field 16 4 bs\<rparr>"

definition enc_attr :: "wire_attr \<Rightarrow> bytes" where
  "enc_attr a = le_bytes 8 (a_ino a) @ le_bytes 8 (a_size a) @ le_bytes 8 (a_blocks a) @
     le_bytes 8 (a_atime a) @ le_bytes 8 (a_mtime a) @ le_bytes 8 (a_ctime a) @
     le_bytes 4 (a_mode a) @ le_bytes 4 (a_nlink a) @ le_bytes 4 (a_uid a) @
     le_bytes 4 (a_gid a)"

definition dec_attr :: "bytes \<Rightarrow> wire_attr" where
  "dec_attr bs = \<lparr>a_ino = field 0 8 bs, a_size = field 8 8 bs, a_blocks = field 16 8 bs,
     a_atime = field 24 8 bs, a_mtime = field 32 8 bs, a_ctime = field 40 8 bs,
     a_mode = field 48 4 bs, a_nlink = field 52 4 bs, a_uid = field 56 4 bs,
     a_gid = field 60 4 bs\<rparr>"

definition enc_statvfs :: "wire_statvfs \<Rightarrow> bytes" where
  "enc_statvfs s = le_bytes 8 (v_bsize s) @ le_bytes 8 (v_frsize s) @ le_bytes 8 (v_blocks s) @
     le_bytes 8 (v_bfree s) @ le_bytes 8 (v_bavail s) @ le_bytes 8 (v_files s) @
     le_bytes 8 (v_ffree s) @ le_bytes 8 (v_namemax s)"

definition dec_statvfs :: "bytes \<Rightarrow> wire_statvfs" where
  "dec_statvfs bs = \<lparr>v_bsize = field 0 8 bs, v_frsize = field 8 8 bs, v_blocks = field 16 8 bs,
     v_bfree = field 24 8 bs, v_bavail = field 32 8 bs, v_files = field 40 8 bs,
     v_ffree = field 48 8 bs, v_namemax = field 56 8 bs\<rparr>"

lemma length_enc_header [simp, len_simps]: "length (enc_header h) = 20"
  by (simp add: enc_header_def)

lemma length_enc_attr [simp, len_simps]: "length (enc_attr a) = 64"
  by (simp add: enc_attr_def)

lemma length_enc_statvfs [simp, len_simps]: "length (enc_statvfs s) = 64"
  by (simp add: enc_statvfs_def)

lemma dec_enc_header [simp, codec_simps]: "dec_header (enc_header h) = h"
  by (simp add: dec_header_def enc_header_def field_def le_word_le_bytes)

lemma dec_enc_attr [simp, codec_simps]: "dec_attr (enc_attr a) = a"
  by (simp add: dec_attr_def enc_attr_def field_def le_word_le_bytes)

lemma dec_enc_statvfs [simp, codec_simps]: "dec_statvfs (enc_statvfs s) = s"
  by (simp add: dec_statvfs_def enc_statvfs_def field_def le_word_le_bytes)

lemma field_append: "off + n \<le> length xs \<Longrightarrow> field off n (xs @ ys) = field off n xs"
  by (simp add: field_def)

lemma dec_header_prefix [simp, codec_simps]: "dec_header (enc_header h @ ys) = h"
proof -
  have "dec_header (enc_header h @ ys) = dec_header (enc_header h)"
    unfolding dec_header_def by (simp add: field_append)
  then show ?thesis by simp
qed

lemma bytes_eq_take_drop: "n \<le> length bs \<Longrightarrow> bs = take n bs @ drop n bs"
  by simp

lemma enc_dec_header:
  assumes "length bs = 20"
  shows "enc_header (dec_header bs) = bs"
proof -
  have s: "take 4 (drop 0 bs) @ take 2 (drop 4 bs) @ take 2 (drop 6 bs) @ take 8 (drop 8 bs) @
      take 4 (drop 16 bs) = bs"
  proof (rule nth_equalityI)
    show "length (take 4 (drop 0 bs) @ take 2 (drop 4 bs) @ take 2 (drop 6 bs) @
        take 8 (drop 8 bs) @ take 4 (drop 16 bs)) = length bs"
      using assms by simp
  qed (auto simp: assms nth_append)
  then show ?thesis
    using assms
    by (simp add: enc_header_def dec_header_def field_def le_bytes_le_word)
qed

section \<open>Writer\<close>

definition w_raw :: "bytes \<Rightarrow> bytes \<Rightarrow> bytes" where
  "w_raw w bs = w @ bs"

definition w_pod :: "bytes \<Rightarrow> 'a::len word \<Rightarrow> bytes" where
  "w_pod w v = w_raw w (le_bytes (LENGTH('a) div 8) v)"

definition w_str :: "bytes \<Rightarrow> string \<Rightarrow> bytes" where
  "w_str w s = (let n = of_nat (length s) :: u32
                in w_raw (w_pod w n) (take (unat n) (str_bytes s)))"

definition w_bytes :: "bytes \<Rightarrow> bytes \<Rightarrow> u32 \<Rightarrow> bytes" where
  "w_bytes w p n = w_raw (w_pod w n) (take (unat n) p)"

definition w_attr :: "bytes \<Rightarrow> wire_attr \<Rightarrow> bytes" where
  "w_attr w a = w_raw w (enc_attr a)"

definition w_statvfs :: "bytes \<Rightarrow> wire_statvfs \<Rightarrow> bytes" where
  "w_statvfs w s = w_raw w (enc_statvfs s)"

lemmas writer_defs = w_raw_def w_pod_def w_str_def w_bytes_def w_attr_def w_statvfs_def

section \<open>Reader\<close>

definition r_raw :: "nat \<Rightarrow> bytes \<Rightarrow> bytes option \<times> bytes" where
  "r_raw n r = (if length r < n then (None, r) else (Some (take n r), drop n r))"

definition r_pod :: "bytes \<Rightarrow> 'a::len word option \<times> bytes" where
  "r_pod r = (case r_raw (LENGTH('a) div 8) r of
      (None, r') \<Rightarrow> (None, r')
    | (Some bs, r') \<Rightarrow> (Some (le_word bs), r'))"

definition r_str :: "bytes \<Rightarrow> string option \<times> bytes" where
  "r_str r = (case (r_pod r :: u32 option \<times> bytes) of
      (None, r') \<Rightarrow> (None, r')
    | (Some n, r') \<Rightarrow>
        if length r' < unat n then (None, r')
        else (Some (bytes_str (take (unat n) r')), drop (unat n) r'))"

definition r_bytes :: "bytes \<Rightarrow> bytes option \<times> bytes" where
  "r_bytes r = (case (r_pod r :: u32 option \<times> bytes) of
      (None, r') \<Rightarrow> (None, r')
    | (Some n, r') \<Rightarrow>
        if length r' < unat n then (None, r')
        else (Some (take (unat n) r'), drop (unat n) r'))"

definition r_attr :: "bytes \<Rightarrow> wire_attr option \<times> bytes" where
  "r_attr r = (case r_raw 64 r of (None, r') \<Rightarrow> (None, r')
    | (Some bs, r') \<Rightarrow> (Some (dec_attr bs), r'))"

definition r_statvfs :: "bytes \<Rightarrow> wire_statvfs option \<times> bytes" where
  "r_statvfs r = (case r_raw 64 r of (None, r') \<Rightarrow> (None, r')
    | (Some bs, r') \<Rightarrow> (Some (dec_statvfs bs), r'))"

subsection \<open>Reading back what was written\<close>

lemma r_raw_append [simp]: "length bs = n \<Longrightarrow> r_raw n (bs @ rest) = (Some bs, rest)"
  by (simp add: r_raw_def)

lemma r_pod_append [codec_simps]:
  fixes v :: "'a::len word"
  assumes "8 dvd LENGTH('a)"
  shows "r_pod (le_bytes (LENGTH('a) div 8) v @ rest) = (Some v, rest)"
  using assms by (simp add: r_pod_def le_word_le_bytes)

lemma r_pod_u8 [simp, codec_simps]: "r_pod (le_bytes (Suc 0) v @ rest) = (Some (v :: byte), rest)"
  using r_pod_append [of v rest] by simp

lemma r_pod_u16 [simp, codec_simps]: "r_pod (le_bytes 2 v @ rest) = (Some (v :: u16), rest)"
  using r_pod_append [of v rest] by simp

lemma r_pod_u32 [simp, codec_simps]: "r_pod (le_bytes 4 v @ rest) = (Some (v :: u32), rest)"
  using r_pod_append [of v rest] by simp

lemma r_pod_u64 [simp, codec_simps]: "r_pod (le_bytes 8 v @ rest) = (Some (v :: u64), rest)"
  using r_pod_append [of v rest] by simp

lemma r_pod_u32_nil [simp, codec_simps]: "r_pod (le_bytes 4 v) = (Some (v :: u32), [])"
  using r_pod_u32 [of v "[]"] by simp

lemma r_pod_u64_nil [simp, codec_simps]: "r_pod (le_bytes 8 v) = (Some (v :: u64), [])"
  using r_pod_u64 [of v "[]"] by simp

lemma u32_len: "length s < 2 ^ 32 \<Longrightarrow> unat (of_nat (length s) :: u32) = length s"
  by (simp add: unat_of_nat)

lemma r_str_append [codec_simps]:
  assumes "length s < 2 ^ 32"
  shows "r_str (le_bytes 4 (of_nat (length s) :: u32) @ str_bytes s @ rest) = (Some s, rest)"
  using assms by (simp add: r_str_def u32_len)

lemma r_bytes_append [codec_simps]:
  assumes "length p < 2 ^ 32"
  shows "r_bytes (le_bytes 4 (of_nat (length p) :: u32) @ p @ rest) = (Some p, rest)"
  using assms by (simp add: r_bytes_def u32_len)

lemma w_str_eq:
  "length s < 2 ^ 32 \<Longrightarrow> w_str w s = w @ le_bytes 4 (of_nat (length s) :: u32) @ str_bytes s"
  by (simp add: writer_defs Let_def u32_len)

lemma r_attr_append [simp, codec_simps]: "r_attr (enc_attr a @ rest) = (Some a, rest)"
  by (simp add: r_attr_def)

lemma r_attr_nil [simp, codec_simps]: "r_attr (enc_attr a) = (Some a, [])"
  using r_attr_append [of a "[]"] by simp

lemma r_statvfs_append [simp, codec_simps]: "r_statvfs (enc_statvfs s @ rest) = (Some s, rest)"
  by (simp add: r_statvfs_def)

subsection \<open>A reader never grows and never invents bytes\<close>

lemma r_raw_suffix: "r_raw n r = (v, r') \<Longrightarrow> \<exists>p. r = p @ r'"
  by (auto simp: r_raw_def split: if_splits intro: exI [of _ "take n r"])

lemma r_pod_suffix: "r_pod r = (v, r') \<Longrightarrow> \<exists>p. r = p @ r'"
  by (auto simp: r_pod_def split: prod.splits option.splits dest: r_raw_suffix)

lemma r_str_suffix: "r_str r = (v, r') \<Longrightarrow> \<exists>p. r = p @ r'"
proof -
  assume h: "r_str r = (v, r')"
  obtain n r1 where n: "(r_pod r :: u32 option \<times> bytes) = (n, r1)" by fastforce
  then obtain p where p: "r = p @ r1" using r_pod_suffix by blast
  from h n have "r' = r1 \<or> (\<exists>k. r' = drop k r1)"
    by (auto simp: r_str_def split: option.splits if_splits)
  then show ?thesis using p
    by (metis append.assoc append_take_drop_id)
qed

end
