(* ===== verification/Streams.thy ===== *)
theory Streams
  imports Wire
begin

text \<open>
  Reliable byte streams (\<open>ByteStream\<close> of \<open>common.h\<close>), the TCP implementation of
  \<open>stream.cpp\<close> on top of partial \<open>recv\<close> and \<open>send\<close> calls, and the plaintext framing
  \<open>send_message\<close> / \<open>recv_message\<close> used before a channel is sealed.

  A \<open>ByteStream\<close> is a record of its three methods over the state of the implementation, as the
  virtual calls of the code are. The locale \<open>byte_stream_laws\<close> is the contract the framing relies
  on: \<open>unread\<close> is what the peer has sent (or will send before it closes) and was not read yet,
  \<open>sent\<close> is what was handed to the peer. A read that would need more bytes than will ever arrive
  returns false, as it does when the connection ends while it waits.
\<close>

section \<open>The interface\<close>

record 's byte_stream =
  bs_read :: "nat \<Rightarrow> 's \<Rightarrow> bytes option \<times> 's"
  bs_write :: "bytes \<Rightarrow> 's \<Rightarrow> bool \<times> 's"
  bs_close :: "'s \<Rightarrow> 's"

locale byte_stream_laws =
  fixes m :: "'s byte_stream"
    and unread :: "'s \<Rightarrow> bytes"
    and sent :: "'s \<Rightarrow> bytes"
    and ready :: "'s \<Rightarrow> bool"
  assumes read_ok: "ready s \<Longrightarrow> n \<le> length (unread s) \<Longrightarrow>
      \<exists>s'. bs_read m n s = (Some (take n (unread s)), s') \<and> unread s' = drop n (unread s) \<and>
        sent s' = sent s \<and> ready s'"
    and read_short: "ready s \<Longrightarrow> length (unread s) < n \<Longrightarrow> fst (bs_read m n s) = None"
    and write_ok: "ready s \<Longrightarrow> bs_write m bs s = (True, s') \<Longrightarrow>
      sent s' = sent s @ bs \<and> unread s' = unread s \<and> ready s'"
    and write_fail: "ready s \<Longrightarrow> bs_write m bs s = (False, s') \<Longrightarrow>
      \<exists>k \<le> length bs. sent s' = sent s @ take k bs"
    and close_not_ready: "\<not> ready (bs_close m s)"
    and closed_write: "\<not> ready s \<Longrightarrow> \<not> fst (bs_write m bs s)"

section \<open>Plaintext framing\<close>

definition recv_message :: "'s byte_stream \<Rightarrow> 's \<Rightarrow> (msg_header \<times> bytes) option \<times> 's" where
  "recv_message m s = (case bs_read m 20 s of
      (None, s1) \<Rightarrow> (None, s1)
    | (Some bs, s1) \<Rightarrow>
        let h = dec_header bs in
        if h_magic h \<noteq> kMagic \<or> h_length h > kMaxHandshakeMsg then (None, s1)
        else if h_length h = 0 then (Some (h, []), s1)
        else (case bs_read m (unat (h_length h)) s1 of
            (None, s2) \<Rightarrow> (None, s2)
          | (Some p, s2) \<Rightarrow> (Some (h, p), s2)))"

definition mk_header :: "u16 \<Rightarrow> u16 \<Rightarrow> u64 \<Rightarrow> u32 \<Rightarrow> msg_header" where
  "mk_header opc status req_id len =
     \<lparr>h_magic = kMagic, h_op = opc, h_status = status, h_req_id = req_id, h_length = len\<rparr>"

text \<open>
  The pointer and length arguments of the C++ function are the payload itself; its length is
  narrowed to 32 bits where the callers narrow it.
\<close>

definition send_message ::
    "'s byte_stream \<Rightarrow> u16 \<Rightarrow> u16 \<Rightarrow> u64 \<Rightarrow> bytes \<Rightarrow> 's \<Rightarrow> bool \<times> 's" where
  "send_message m opc status req_id payload s =
     (let len = of_nat (length payload) :: u32;
          h = mk_header opc status req_id len
      in case bs_write m (enc_header h) s of
          (False, s1) \<Rightarrow> (False, s1)
        | (True, s1) \<Rightarrow>
            if len = 0 then (True, s1) else bs_write m (take (unat len) payload) s1)"

lemma mk_header_simps [simp]:
  "h_magic (mk_header opc st rid len) = kMagic"
  "h_op (mk_header opc st rid len) = opc"
  "h_status (mk_header opc st rid len) = st"
  "h_req_id (mk_header opc st rid len) = rid"
  "h_length (mk_header opc st rid len) = len"
  by (simp_all add: mk_header_def)

definition frame_bytes :: "u16 \<Rightarrow> u16 \<Rightarrow> u64 \<Rightarrow> bytes \<Rightarrow> bytes" where
  "frame_bytes opc status req_id payload =
     enc_header (mk_header opc status req_id (of_nat (length payload))) @ payload"

context byte_stream_laws
begin

lemma read_cases:
  assumes "ready s"
  obtains (ok) s' where "n \<le> length (unread s)" "bs_read m n s = (Some (take n (unread s)), s')"
      "unread s' = drop n (unread s)" "sent s' = sent s" "ready s'"
    | (short) s' where "length (unread s) < n" "bs_read m n s = (None, s')"
  using read_ok [OF assms, of n] read_short [OF assms, of n]
  by (metis not_less prod.collapse)

lemma recv_message_frame:
  assumes r: "ready s" and u: "unread s = frame_bytes opc st rid p @ rest"
    and len: "length p \<le> 65536"
  shows "\<exists>s'. recv_message m s = (Some (mk_header opc st rid (of_nat (length p)), p), s') \<and>
     unread s' = rest \<and> sent s' = sent s \<and> ready s'"
proof -
  let ?h = "mk_header opc st rid (of_nat (length p))"
  have un: "unat (of_nat (length p) :: u32) = length p" using len by (simp add: unat_of_nat)
  have le: "\<not> h_length ?h > kMaxHandshakeMsg"
    using len by (simp add: kMaxHandshakeMsg_def word_less_nat_alt un)
  from r obtain s1 where s1: "bs_read m 20 s = (Some (enc_header ?h), s1)"
      "unread s1 = p @ rest" "sent s1 = sent s" "ready s1"
    by (rule read_cases [of s 20]) (auto simp: u frame_bytes_def)
  show ?thesis
  proof (cases "p = []")
    case True
    with s1 le show ?thesis by (simp add: recv_message_def)
  next
    case False
    then have nz: "(of_nat (length p) :: u32) \<noteq> 0" using un by (metis length_0_conv unsigned_0)
    from s1(4) obtain s2 where "bs_read m (length p) s1 = (Some p, s2)"
        "unread s2 = rest" "sent s2 = sent s1" "ready s2"
      by (rule read_cases [of s1 "length p"]) (auto simp: s1)
    with s1 le nz un show ?thesis by (simp add: recv_message_def)
  qed
qed

lemma recv_message_sound:
  assumes r: "ready s" and ret: "recv_message m s = (Some (h, p), s')"
  shows "unread s = enc_header h @ p @ unread s' \<and> h_magic h = kMagic \<and>
     length p = unat (h_length h) \<and> length p \<le> 65536 \<and> ready s'"
  using r
proof (cases rule: read_cases [of s 20])
  case (short s1)
  with ret show ?thesis by (simp add: recv_message_def)
next
  case (ok s1)
  have hb: "enc_header (dec_header (take 20 (unread s))) = take 20 (unread s)"
    using ok(1) by (intro enc_dec_header) simp
  have split: "unread s = take 20 (unread s) @ unread s1" using ok by simp
  have h: "h = dec_header (take 20 (unread s))" "h_magic h = kMagic"
      "\<not> h_length h > kMaxHandshakeMsg"
    using ret ok(2) by (auto simp: recv_message_def Let_def split: if_splits prod.splits option.splits)
  then have le: "unat (h_length h) \<le> 65536"
    by (simp add: kMaxHandshakeMsg_def word_less_nat_alt)
  show ?thesis
  proof (cases "h_length h = 0")
    case True
    then show ?thesis using ret ok h hb split le
      by (auto simp: recv_message_def Let_def split: if_splits)
  next
    case False
    then have rd: "bs_read m (unat (h_length h)) s1 = (Some p, s')"
      using ret ok(2) h by (auto simp: recv_message_def Let_def split: if_splits prod.splits option.splits)
    with ok(5) have "p = take (unat (h_length h)) (unread s1) \<and>
        unat (h_length h) \<le> length (unread s1) \<and> unread s' = drop (unat (h_length h)) (unread s1) \<and>
        ready s'"
      by (cases rule: read_cases [of s1 "unat (h_length h)"]) auto
    then show ?thesis using h hb split le by (metis append_take_drop_id length_take min.absorb2)
  qed
qed

lemma send_message_ok:
  assumes r: "ready s" and len: "length p < 2 ^ 32"
    and ret: "send_message m opc st rid p s = (True, s')"
  shows "sent s' = sent s @ frame_bytes opc st rid p \<and> unread s' = unread s \<and> ready s'"
proof -
  let ?n = "of_nat (length p) :: u32"
  have un: "unat ?n = length p" using len by (simp add: unat_of_nat)
  from ret obtain s1 where w1: "bs_write m (enc_header (mk_header opc st rid ?n)) s = (True, s1)"
    and w2: "(if ?n = 0 then (True, s1) else bs_write m (take (unat ?n) p) s1) = (True, s')"
    by (auto simp: send_message_def Let_def split: prod.splits bool.splits)
  note a = write_ok [OF r w1]
  show ?thesis
  proof (cases "?n = 0")
    case True
    then have "p = []" using un by simp
    then show ?thesis using True w2 a by (simp add: frame_bytes_def)
  next
    case False
    then show ?thesis using w2 a un write_ok [of s1 p s'] by (simp add: frame_bytes_def)
  qed
qed

end

section \<open>TCP: \<open>recv_all\<close> and \<open>send_all\<close> over partial kernel calls\<close>

text \<open>
  The kernel is the environment. It hands out what the peer sent in segments of its own choosing
  (one \<open>recv\<close> returns at most one segment, never more than was asked for; an empty segment is an
  orderly shutdown and no segment an error) and takes any part of what a \<open>send\<close> offers
  (\<open>k_accept\<close> lists how many bytes the successive calls take, none left is an error).
\<close>

record socket =
  k_in :: "bytes list"
  k_accept :: "nat list"
  k_out :: bytes
  k_open :: bool

definition os_recv :: "nat \<Rightarrow> socket \<Rightarrow> bytes \<times> socket" where
  "os_recv n k = (case k_in k of
      [] \<Rightarrow> ([], k)
    | seg # rest \<Rightarrow>
        (take n seg, k\<lparr>k_in := (if drop n seg = [] then rest else drop n seg # rest)\<rparr>))"

definition os_send :: "bytes \<Rightarrow> socket \<Rightarrow> nat \<times> socket" where
  "os_send bs k = (case k_accept k of
      [] \<Rightarrow> (0, k)
    | a # as \<Rightarrow>
        let r = min a (length bs)
        in (r, k\<lparr>k_accept := as, k_out := k_out k @ take r bs\<rparr>))"

lemma length_os_recv: "os_recv n k = (b, k') \<Longrightarrow> length b \<le> n"
  by (auto simp: os_recv_def split: list.splits)

function recv_all :: "nat \<Rightarrow> socket \<Rightarrow> bytes option \<times> socket" where
  "recv_all n k =
     (if n = 0 then (Some [], k)
      else (case os_recv n k of (b, k1) \<Rightarrow>
        if b = [] then (None, k1)
        else (case recv_all (n - length b) k1 of
            (None, k2) \<Rightarrow> (None, k2)
          | (Some bs, k2) \<Rightarrow> (Some (b @ bs), k2))))"
  by pat_completeness auto
termination
  by (relation "measure fst") auto

declare recv_all.simps [simp del]

function send_all :: "bytes \<Rightarrow> socket \<Rightarrow> bool \<times> socket" where
  "send_all bs k =
     (if bs = [] then (True, k)
      else (case os_send bs k of (r, k1) \<Rightarrow>
        if r = 0 then (False, k1) else send_all (drop r bs) k1))"
  by pat_completeness auto
termination
  by (relation "measure (length \<circ> fst)") auto

declare send_all.simps [simp del]

definition socket_read :: "nat \<Rightarrow> socket \<Rightarrow> bytes option \<times> socket" where
  "socket_read n k = (if k_open k then recv_all n k else (None, k))"

definition socket_write :: "bytes \<Rightarrow> socket \<Rightarrow> bool \<times> socket" where
  "socket_write bs k = (if k_open k then send_all bs k else (False, k))"

definition socket_close :: "socket \<Rightarrow> socket" where
  "socket_close k = (if k_open k then k\<lparr>k_open := False, k_in := []\<rparr> else k)"

definition socket_stream :: "socket byte_stream" where
  "socket_stream = \<lparr>bs_read = socket_read, bs_write = socket_write, bs_close = socket_close\<rparr>"

text \<open>What will still arrive: the segments up to the first empty one.\<close>

definition k_unread :: "socket \<Rightarrow> bytes" where
  "k_unread k = concat (takeWhile (\<lambda>s. s \<noteq> []) (k_in k))"

lemma os_recv_frame:
  assumes "os_recv n k = (b, k')"
  shows "k_out k' = k_out k" and "k_open k' = k_open k" and "k_accept k' = k_accept k"
  using assms by (auto simp: os_recv_def split: list.splits)

lemma os_recv_unread:
  assumes o: "os_recv n k = (b, k')" and n: "n > 0"
  shows "(b = [] \<and> k_unread k = []) \<or> (b \<noteq> [] \<and> k_unread k = b @ k_unread k')"
proof (cases "k_in k")
  case Nil
  with o show ?thesis by (simp add: os_recv_def k_unread_def)
next
  case (Cons seg rest)
  show ?thesis
  proof (cases "seg = []")
    case True
    with Cons o show ?thesis by (simp add: os_recv_def k_unread_def)
  next
    case False
    with Cons o n have b: "b = take n seg" "b \<noteq> []"
      and k': "k' = k\<lparr>k_in := (if drop n seg = [] then rest else drop n seg # rest)\<rparr>"
      by (auto simp: os_recv_def)
    have "seg = b @ drop n seg" using b by simp
    with False Cons b(2) k' show ?thesis
      by (cases "drop n seg = []") (auto simp: k_unread_def)
  qed
qed

lemma recv_all_spec:
  "case recv_all n k of (r, k') \<Rightarrow>
     (if n \<le> length (k_unread k)
      then r = Some (take n (k_unread k)) \<and> k_unread k' = drop n (k_unread k)
      else r = None) \<and> k_out k' = k_out k \<and> k_open k' = k_open k"
proof (induction n k rule: recv_all.induct)
  case (1 n k)
  show ?case
  proof (cases "n = 0")
    case True
    then show ?thesis by (simp add: recv_all.simps)
  next
    case False
    obtain b k1 where o: "os_recv n k = (b, k1)" by fastforce
    note fr = os_recv_frame [OF o] and le = length_os_recv [OF o]
    from False have un: "(b = [] \<and> k_unread k = []) \<or> (b \<noteq> [] \<and> k_unread k = b @ k_unread k1)"
      by (intro os_recv_unread [OF o]) simp
    show ?thesis
    proof (cases "b = []")
      case True
      with False un fr show ?thesis by (simp add: recv_all.simps [of n k] o)
    next
      case b: False
      with un have u: "k_unread k = b @ k_unread k1" by simp
      obtain r k2 where r: "recv_all (n - length b) k1 = (r, k2)" by fastforce
      from "1.IH" [OF False o [symmetric] b] r
      have ih: "(if n - length b \<le> length (k_unread k1)
          then r = Some (take (n - length b) (k_unread k1)) \<and>
            k_unread k2 = drop (n - length b) (k_unread k1)
          else r = None) \<and> k_out k2 = k_out k1 \<and> k_open k2 = k_open k1" by simp
      show ?thesis using ih u le fr b False
        by (auto simp: recv_all.simps [of n k] o r split: if_splits option.splits)
    qed
  qed
qed

lemma send_all_spec:
  "case send_all bs k of (r, k') \<Rightarrow>
     (\<exists>j \<le> length bs. k_out k' = k_out k @ take j bs \<and> (r \<longleftrightarrow> j = length bs)) \<and>
     k_in k' = k_in k \<and> k_open k' = k_open k"
proof (induction bs k rule: send_all.induct)
  case (1 bs k)
  show ?case
  proof (cases "bs = []")
    case True
    then show ?thesis by (simp add: send_all.simps)
  next
    case False
    obtain r k1 where o: "os_send bs k = (r, k1)" by fastforce
    then have r: "r \<le> length bs" "k_out k1 = k_out k @ take r bs" "k_in k1 = k_in k"
        "k_open k1 = k_open k"
      by (auto simp: os_send_def Let_def split: list.splits)
    show ?thesis
    proof (cases "r = 0")
      case True
      with False r show ?thesis
        by (auto simp: send_all.simps [of bs k] o intro!: exI [of _ 0])
    next
      case nz: False
      obtain res k2 where s: "send_all (drop r bs) k1 = (res, k2)" by fastforce
      from "1.IH" [OF False o [symmetric] nz] s obtain j where j: "j \<le> length bs - r"
          "k_out k2 = k_out k1 @ take j (drop r bs)" "res \<longleftrightarrow> j = length bs - r"
          "k_in k2 = k_in k1" "k_open k2 = k_open k1" by auto
      have "k_out k2 = k_out k @ take (r + j) bs" using j r by (simp add: take_add)
      moreover have "res \<longleftrightarrow> r + j = length bs" using j r by auto
      moreover have "r + j \<le> length bs" using j r by simp
      ultimately show ?thesis using False nz j r
        by (auto simp: send_all.simps [of bs k] o s intro!: exI [of _ "r + j"])
    qed
  qed
qed

interpretation tcp: byte_stream_laws socket_stream k_unread k_out k_open
proof (unfold_locales, goal_cases)
  case (1 s n)
  obtain r k' where r: "recv_all n s = (r, k')" by fastforce
  with recv_all_spec [of n s] 1 show ?case
    by (auto simp: socket_stream_def socket_read_def)
next
  case (2 s n)
  with recv_all_spec [of n s] show ?case
    by (auto simp: socket_stream_def socket_read_def split: prod.splits)
next
  case (3 s bs s')
  with send_all_spec [of bs s] show ?case
    by (auto simp: socket_stream_def socket_write_def k_unread_def)
next
  case (4 s bs s')
  with send_all_spec [of bs s] show ?case
    by (auto simp: socket_stream_def socket_write_def)
next
  case (5 s)
  then show ?case by (simp add: socket_stream_def socket_close_def)
next
  case (6 s bs)
  then show ?case by (simp add: socket_stream_def socket_write_def)
qed

section \<open>The socket overloads\<close>

text \<open>
  \<open>common.h\<close> also has the framing functions on a bare socket; they agree with the stream versions
  on an open socket.
\<close>

definition recv_message_sock :: "socket \<Rightarrow> (msg_header \<times> bytes) option \<times> socket" where
  "recv_message_sock k = (case recv_all 20 k of
      (None, k1) \<Rightarrow> (None, k1)
    | (Some bs, k1) \<Rightarrow>
        let h = dec_header bs in
        if h_magic h \<noteq> kMagic then (None, k1)
        else if h_length h > kMaxHandshakeMsg then (None, k1)
        else if h_length h \<noteq> 0 then
          (case recv_all (unat (h_length h)) k1 of
            (None, k2) \<Rightarrow> (None, k2)
          | (Some p, k2) \<Rightarrow> (Some (h, p), k2))
        else (Some (h, []), k1))"

definition send_message_sock ::
    "u16 \<Rightarrow> u16 \<Rightarrow> u64 \<Rightarrow> bytes \<Rightarrow> socket \<Rightarrow> bool \<times> socket" where
  "send_message_sock opc status req_id payload k =
     (let len = of_nat (length payload) :: u32
      in case send_all (enc_header (mk_header opc status req_id len)) k of
          (False, k1) \<Rightarrow> (False, k1)
        | (True, k1) \<Rightarrow>
            if len \<noteq> 0 then send_all (take (unat len) payload) k1 else (True, k1))"

lemma recv_all_open: "k_open (snd (recv_all n k)) = k_open k"
  using recv_all_spec [of n k] by (simp add: case_prod_beta)

lemma send_all_open: "k_open (snd (send_all bs k)) = k_open k"
  using send_all_spec [of bs k] by (simp add: case_prod_beta)

lemma recv_message_sock_eq: "k_open k \<Longrightarrow> recv_message_sock k = recv_message socket_stream k"
  using recv_all_open [of 20 k]
  by (auto simp: recv_message_sock_def recv_message_def socket_stream_def socket_read_def Let_def
      split: prod.splits option.splits)

lemma send_message_sock_eq:
  "k_open k \<Longrightarrow>
     send_message_sock opc st rid p k = send_message socket_stream opc st rid p k"
  using send_all_open [of "enc_header (mk_header opc st rid (of_nat (length p)))" k]
  by (auto simp: send_message_sock_def send_message_def socket_stream_def socket_write_def Let_def
      split: prod.splits bool.splits)

end
