(* ===== verification/ChaCha20.thy ===== *)
theory ChaCha20
  imports Wire
begin

text \<open>
  The ChaCha20 stream cipher of \<open>client/src/crypto/crypto.cpp\<close>. Fixed-size C arrays are lists;
  the functions index them only below the sizes the callers pass (8 key words, 3 nonce words,
  16 state words).
\<close>

section \<open>The block function\<close>

definition rotl32 :: "u32 \<Rightarrow> nat \<Rightarrow> u32" where
  "rotl32 x n = push_bit n x OR drop_bit (32 - n) x"

definition load_le32 :: "bytes \<Rightarrow> u32" where
  "load_le32 p = ucast (p ! 0) OR push_bit 8 (ucast (p ! 1)) OR push_bit 16 (ucast (p ! 2)) OR
     push_bit 24 (ucast (p ! 3))"

definition store_le32 :: "u32 \<Rightarrow> bytes" where
  "store_le32 v = [ucast v, ucast (drop_bit 8 v), ucast (drop_bit 16 v), ucast (drop_bit 24 v)]"

definition quarter :: "u32 \<Rightarrow> u32 \<Rightarrow> u32 \<Rightarrow> u32 \<Rightarrow> u32 \<times> u32 \<times> u32 \<times> u32" where
  "quarter a b c d =
     (let a = a + b; d = d XOR a; d = rotl32 d 16;
          c = c + d; b = b XOR c; b = rotl32 b 12;
          a = a + b; d = d XOR a; d = rotl32 d 8;
          c = c + d; b = b XOR c; b = rotl32 b 7
      in (a, b, c, d))"

text \<open>\<open>quarter\<close> on four cells of the state array, which the code passes by reference.\<close>

definition quarter_at :: "nat \<Rightarrow> nat \<Rightarrow> nat \<Rightarrow> nat \<Rightarrow> u32 list \<Rightarrow> u32 list" where
  "quarter_at i j k l x = (case quarter (x ! i) (x ! j) (x ! k) (x ! l) of
      (a, b, c, d) \<Rightarrow> x[i := a, j := b, k := c, l := d])"

definition double_round :: "u32 list \<Rightarrow> u32 list" where
  "double_round x =
     quarter_at 3 4 9 14 (quarter_at 2 7 8 13 (quarter_at 1 6 11 12 (quarter_at 0 5 10 15
       (quarter_at 3 7 11 15 (quarter_at 2 6 10 14 (quarter_at 1 5 9 13 (quarter_at 0 4 8 12
         x)))))))"

primrec rounds :: "nat \<Rightarrow> u32 list \<Rightarrow> u32 list" where
  "rounds 0 x = x"
| "rounds (Suc n) x = rounds n (double_round x)"

definition chacha20_init :: "u32 list \<Rightarrow> u32 \<Rightarrow> u32 list \<Rightarrow> u32 list" where
  "chacha20_init key counter nonce =
     [0x61707865, 0x3320646e, 0x79622d32, 0x6b206574] @ take 8 key @ [counter] @ take 3 nonce"

definition chacha20_block :: "u32 list \<Rightarrow> u32 \<Rightarrow> u32 list \<Rightarrow> bytes" where
  "chacha20_block key counter nonce =
     (let s = chacha20_init key counter nonce
      in concat (map2 (\<lambda>x y. store_le32 (x + y)) (rounds 10 s) s))"

lemma length_quarter_at [simp]: "length (quarter_at i j k l x) = length x"
  by (simp add: quarter_at_def split: prod.split)

lemma length_double_round [simp]: "length (double_round x) = length x"
  by (simp add: double_round_def)

lemma length_rounds [simp]: "length (rounds n x) = length x"
  by (induction n arbitrary: x) auto

lemma length_concat_const: "(\<And>x. x \<in> set xs \<Longrightarrow> length x = n) \<Longrightarrow> length (concat xs) = n * length xs"
  by (induction xs) auto

lemma length_chacha20_block [len_simps]:
  assumes "length key = 8" "length nonce = 3"
  shows "length (chacha20_block key counter nonce) = 64"
proof -
  let ?s = "chacha20_init key counter nonce"
  have s: "length ?s = 16" using assms by (simp add: chacha20_init_def)
  have "length (concat (map2 (\<lambda>x y. store_le32 (x + y)) (rounds 10 ?s) ?s)) =
      4 * length (map2 (\<lambda>x y. store_le32 (x + y)) (rounds 10 ?s) ?s)"
    by (rule length_concat_const) (auto simp: store_le32_def)
  then show ?thesis using s by (simp add: chacha20_block_def Let_def del: map2_map_map)
qed

section \<open>Keystream encryption\<close>

definition load_words :: "nat \<Rightarrow> bytes \<Rightarrow> u32 list" where
  "load_words n p = map (\<lambda>i. load_le32 (drop (4 * i) p)) [0..<n]"

function chacha20_loop :: "u32 list \<Rightarrow> u32 list \<Rightarrow> u32 \<Rightarrow> bytes \<Rightarrow> bytes" where
  "chacha20_loop k n counter inp =
     (if inp = [] then []
      else map2 (XOR) (take 64 inp) (chacha20_block k counter n) @
        chacha20_loop k n (counter + 1) (drop 64 inp))"
  by pat_completeness auto
termination
  by (relation "measure (\<lambda>(k, n, c, i). length i)") auto

declare chacha20_loop.simps [simp del]

definition chacha20_xor :: "bytes \<Rightarrow> bytes \<Rightarrow> u32 \<Rightarrow> bytes \<Rightarrow> bytes" where
  "chacha20_xor key nonce counter inp =
     chacha20_loop (load_words 8 key) (load_words 3 nonce) counter inp"

lemma length_load_words [simp]: "length (load_words n p) = n"
  by (simp add: load_words_def)

lemma length_chacha20_loop:
  assumes "length k = 8" "length n = 3"
  shows "length (chacha20_loop k n c inp) = length inp"
  using assms
proof (induction k n c inp rule: chacha20_loop.induct)
  case (1 k n c inp)
  show ?case
  proof (cases "inp = []")
    case True
    then show ?thesis by (simp add: chacha20_loop.simps)
  next
    case False
    with 1 have "length (chacha20_loop k n (c + 1) (drop 64 inp)) = length (drop 64 inp)" by simp
    with False 1 show ?thesis
      by (simp add: chacha20_loop.simps [of k n c inp] length_chacha20_block min_def)
  qed
qed

lemma xor_same_map2:
  "length xs \<le> length ks \<Longrightarrow> map2 (XOR) (map2 (XOR) xs ks) ks = (xs :: 'a::len word list)"
  by (induction xs ks rule: list_induct2') (auto simp: xor.assoc)

lemma chacha20_loop_step:
  assumes "h @ t \<noteq> []" and "take 64 (h @ t) = h" and "drop 64 (h @ t) = t"
  shows "chacha20_loop k n c (h @ t) =
    map2 (XOR) h (chacha20_block k c n) @ chacha20_loop k n (c + 1) t"
  by (subst chacha20_loop.simps) (simp only: assms if_False)

lemma chacha20_loop_involution:
  assumes "length k = 8" "length n = 3"
  shows "chacha20_loop k n c (chacha20_loop k n c inp) = inp"
  using assms
proof (induction k n c inp rule: chacha20_loop.induct)
  case (1 k n c inp)
  show ?case
  proof (cases "inp = []")
    case True
    then show ?thesis by (simp add: chacha20_loop.simps)
  next
    case False
    define b where "b = chacha20_block k c n"
    define h where "h = map2 (XOR) (take 64 inp) b"
    define t where "t = chacha20_loop k n (c + 1) (drop 64 inp)"
    have lb: "length b = 64" using 1 by (simp add: b_def length_chacha20_block)
    have lh: "length h = min 64 (length inp)" using lb by (simp add: h_def)
    have lt: "length t = length inp - 64" using 1 by (simp add: t_def length_chacha20_loop)
    have out: "chacha20_loop k n c inp = h @ t"
      using False by (simp add: chacha20_loop.simps [of k n c inp] b_def h_def t_def)
    have "0 < length h" unfolding lh using False by simp
    then have ne: "h @ t \<noteq> []" by auto
    have "t = [] \<or> length h = 64" using lh lt by auto
    then have tk: "take 64 (h @ t) = h" and dr: "drop 64 (h @ t) = t" using lh by auto
    have undo: "map2 (XOR) h b = take 64 inp"
      unfolding h_def using lb by (simp add: xor_same_map2)
    have "chacha20_loop k n (c + 1) t = drop 64 inp"
      unfolding t_def using 1 False by simp
    then show ?thesis
      using chacha20_loop_step [OF ne tk dr] out undo by (simp add: b_def)
  qed
qed

lemma length_chacha20_xor [simp, len_simps]: "length (chacha20_xor key nonce c inp) = length inp"
  by (simp add: chacha20_xor_def length_chacha20_loop)

lemma chacha20_xor_involution [simp, codec_simps]:
  "chacha20_xor key nonce c (chacha20_xor key nonce c inp) = inp"
  by (simp add: chacha20_xor_def chacha20_loop_involution)

end
