(* ===== verification/Poly1305_Arith.thy ===== *)
theory Poly1305_Arith
  imports Poly1305
begin

text \<open>
  The limb arithmetic of the one-time authenticator, on numbers: a multiplication of two five-limb
  values never overflows a 64-bit product sum or a 32-bit carry, and computes the product modulo
  \<open>2^130 - 5\<close>. The accumulator stays normalised but for a few units in its second limb.
\<close>

section \<open>Reading the word operations as arithmetic\<close>

lemma u32_less: "unat (x::u32) < 2 ^ 32"
  using unsigned_less [of x, where ?'a = nat] by simp

lemma and26: "unat ((x::u32) AND 0x3ffffff) = unat x mod 2 ^ 26"
proof -
  have "(0x3ffffff :: u32) = mask 26" by (simp add: mask_eq_exp_minus_1)
  then have "x AND 0x3ffffff = take_bit 26 x" by (simp only: take_bit_eq_mask)
  then show ?thesis by (simp only: unsigned_take_bit_eq) (simp add: take_bit_eq_mod)
qed

lemma unat_shr: "unat (drop_bit n (x::'a::len word)) = unat x div 2 ^ n"
  unfolding unat_drop_bit_eq by (simp add: drop_bit_eq_div)

lemma unat_u64: "unat (ucast (x::u32) :: u64) = unat x"
  using u32_less [of x] by (simp add: unsigned_ucast_eq take_bit_nat_eq_self_iff)

lemma unat_u32: "unat (ucast (x::u64) :: u32) = unat x mod 2 ^ 32"
  by (simp add: unsigned_ucast_eq take_bit_eq_mod)

lemma lo26: "unat ((ucast (d::u64) :: u32) AND 0x3ffffff) = unat d mod 2 ^ 26"
  by (simp add: and26 unat_u32 mod_mod_cancel)

lemma hi26: "unat (d::u64) < 2 ^ 58 \<Longrightarrow> unat (ucast (drop_bit 26 d) :: u32) = unat d div 2 ^ 26"
  unfolding unat_u32 unat_shr by simp

lemma unat_mul5: "unat (x::u32) * 5 < 2 ^ 32 \<Longrightarrow> unat (x * 5) = unat x * 5"
  by (simp add: unat_word_ariths)

lemma unat_add_u32: "unat (x::u32) + unat y < 2 ^ 32 \<Longrightarrow> unat (x + y) = unat x + unat y"
  by (simp add: unat_word_ariths)

lemma unat_add_u64: "unat (x::u64) + unat y < 2 ^ 64 \<Longrightarrow> unat (x + y) = unat x + unat y"
  by (simp add: unat_word_ariths)

section \<open>Value of five limbs\<close>

definition val5 :: "nat \<Rightarrow> nat \<Rightarrow> nat \<Rightarrow> nat \<Rightarrow> nat \<Rightarrow> nat" where
  "val5 a0 a1 a2 a3 a4 = a0 + 2 ^ 26 * a1 + 2 ^ 52 * a2 + 2 ^ 78 * a3 + 2 ^ 104 * a4"

fun limbs_val :: "limbs \<Rightarrow> nat" where
  "limbs_val (a0, a1, a2, a3, a4) = val5 (unat a0) (unat a1) (unat a2) (unat a3) (unat a4)"

lemma five_products:
  fixes a0 a1 a2 a3 a4 b0 b1 b2 b3 b4 B :: nat
  assumes "a0 \<le> 2 ^ 27 + 64" "a1 \<le> 2 ^ 27 + 64" "a2 \<le> 2 ^ 27 + 64" "a3 \<le> 2 ^ 27 + 64" "a4 \<le> 2 ^ 27 + 64"
    and "b0 \<le> B" "b1 \<le> B" "b2 \<le> B" "b3 \<le> B" "b4 \<le> B"
  shows "a0 * b0 + a1 * b1 + a2 * b2 + a3 * b3 + a4 * b4 \<le> 5 * ((2 ^ 27 + 64) * B)"
  using mult_le_mono [OF assms(1,6)] mult_le_mono [OF assms(2,7)] mult_le_mono [OF assms(3,8)]
    mult_le_mono [OF assms(4,9)] mult_le_mono [OF assms(5,10)]
  by linarith

lemma unat_five:
  fixes a0 :: u64
  assumes "unat a0 * unat b0 + unat a1 * unat b1 + unat a2 * unat b2 + unat a3 * unat b3 +
      unat a4 * unat b4 < 2 ^ 64"
  shows "unat (a0 * b0 + a1 * b1 + a2 * b2 + a3 * b3 + a4 * b4) =
    unat a0 * unat b0 + unat a1 * unat b1 + unat a2 * unat b2 + unat a3 * unat b3 +
      unat a4 * unat b4"
  using assms by (simp add: unat_word_ariths mod_simps)

text \<open>The products on numbers, and the carry chain on numbers.\<close>

lemma schoolbook:
  fixes h0 h1 h2 h3 h4 r0 r1 r2 r3 r4 :: nat
  defines "K \<equiv> h1 * r4 + h2 * r3 + h3 * r2 + h4 * r1 +
      2 ^ 26 * (h2 * r4 + h3 * r3 + h4 * r2) + 2 ^ 52 * (h3 * r4 + h4 * r3) + 2 ^ 78 * (h4 * r4)"
  shows "val5 h0 h1 h2 h3 h4 * val5 r0 r1 r2 r3 r4 =
    val5 (h0 * r0 + h1 * (r4 * 5) + h2 * (r3 * 5) + h3 * (r2 * 5) + h4 * (r1 * 5))
         (h0 * r1 + h1 * r0 + h2 * (r4 * 5) + h3 * (r3 * 5) + h4 * (r2 * 5))
         (h0 * r2 + h1 * r1 + h2 * r0 + h3 * (r4 * 5) + h4 * (r3 * 5))
         (h0 * r3 + h1 * r2 + h2 * r1 + h3 * r0 + h4 * (r4 * 5))
         (h0 * r4 + h1 * r3 + h2 * r2 + h3 * r1 + h4 * r0) + p1305 * K"
  unfolding val5_def K_def p1305_def by (simp add: algebra_simps)

lemma carry_chain_linear:
  fixes d0 d1 d2 d3 d4 :: nat
  assumes "ma + 2 ^ 26 * qa = d0" "mb + 2 ^ 26 * qb = d1 + qa" "mc + 2 ^ 26 * qc = d2 + qb"
    "md + 2 ^ 26 * qd = d3 + qc" "me + 2 ^ 26 * qe = d4 + qd" "n0 + 2 ^ 26 * k = ma + qe * 5"
  shows "val5 n0 (mb + k) mc md me + p1305 * qe = val5 d0 d1 d2 d3 d4"
  using assms unfolding val5_def p1305_def by (simp add: algebra_simps)

lemma carry_chain:
  fixes d0 :: nat
  assumes "e1 = d1 + d0 div 2 ^ 26" "e2 = d2 + e1 div 2 ^ 26" "e3 = d3 + e2 div 2 ^ 26"
    "e4 = d4 + e3 div 2 ^ 26" "f0 = d0 mod 2 ^ 26 + e4 div 2 ^ 26 * 5"
  shows "val5 (f0 mod 2 ^ 26) (e1 mod 2 ^ 26 + f0 div 2 ^ 26) (e2 mod 2 ^ 26) (e3 mod 2 ^ 26)
      (e4 mod 2 ^ 26) + p1305 * (e4 div 2 ^ 26) = val5 d0 d1 d2 d3 d4"
  by (rule carry_chain_linear [where qa = "d0 div 2 ^ 26" and qb = "e1 div 2 ^ 26"
        and qc = "e2 div 2 ^ 26" and qd = "e3 div 2 ^ 26" and ma = "d0 mod 2 ^ 26"])
     (simp_all only: mod_mult_div_eq assms)


fun limbs_bound :: "nat \<Rightarrow> limbs \<Rightarrow> bool" where
  "limbs_bound B (a0, a1, a2, a3, a4) \<longleftrightarrow>
     unat a0 \<le> B \<and> unat a1 \<le> B \<and> unat a2 \<le> B \<and> unat a3 \<le> B \<and> unat a4 \<le> B"

text \<open>The state of the accumulator between blocks: normalised but for a few units in limb 1.\<close>

fun limbs_inv :: "limbs \<Rightarrow> bool" where
  "limbs_inv (a0, a1, a2, a3, a4) \<longleftrightarrow>
     unat a0 < 2 ^ 26 \<and> unat a1 < 2 ^ 26 + 64 \<and> unat a2 < 2 ^ 26 \<and> unat a3 < 2 ^ 26 \<and>
     unat a4 < 2 ^ 26"

lemma poly_products_nat:
  assumes r: "limbs_bound (2 ^ 26) (r0, r1, r2, r3, r4)"
    and h: "limbs_bound (2 ^ 27 + 64) (h0, h1, h2, h3, h4)"
    and d: "poly_products (r0, r1, r2, r3, r4) (h0, h1, h2, h3, h4) = (d0, d1, d2, d3, d4)"
  shows "unat d0 = unat h0 * unat r0 + unat h1 * (unat r4 * 5) + unat h2 * (unat r3 * 5) +
      unat h3 * (unat r2 * 5) + unat h4 * (unat r1 * 5)" (is "_ = ?D0")
    and "unat d1 = unat h0 * unat r1 + unat h1 * unat r0 + unat h2 * (unat r4 * 5) +
      unat h3 * (unat r3 * 5) + unat h4 * (unat r2 * 5)" (is "_ = ?D1")
    and "unat d2 = unat h0 * unat r2 + unat h1 * unat r1 + unat h2 * unat r0 +
      unat h3 * (unat r4 * 5) + unat h4 * (unat r3 * 5)" (is "_ = ?D2")
    and "unat d3 = unat h0 * unat r3 + unat h1 * unat r2 + unat h2 * unat r1 +
      unat h3 * unat r0 + unat h4 * (unat r4 * 5)" (is "_ = ?D3")
    and "unat d4 = unat h0 * unat r4 + unat h1 * unat r3 + unat h2 * unat r2 +
      unat h3 * unat r1 + unat h4 * unat r0" (is "_ = ?D4")
    and "unat d0 \<le> 25 * ((2 ^ 27 + 64) * 2 ^ 26)" and "unat d1 \<le> 25 * ((2 ^ 27 + 64) * 2 ^ 26)"
    and "unat d2 \<le> 25 * ((2 ^ 27 + 64) * 2 ^ 26)" and "unat d3 \<le> 25 * ((2 ^ 27 + 64) * 2 ^ 26)"
    and "unat d4 \<le> 5 * ((2 ^ 27 + 64) * 2 ^ 26)"
proof -
  let ?u = "ucast :: u32 \<Rightarrow> u64"
  have s: "unat (r1 * 5) = unat r1 * 5" "unat (r2 * 5) = unat r2 * 5"
      "unat (r3 * 5) = unat r3 * 5" "unat (r4 * 5) = unat r4 * 5"
    using r by (simp_all add: unat_mul5)
  have d': "d0 = ?u h0 * ?u r0 + ?u h1 * ?u (r4 * 5) + ?u h2 * ?u (r3 * 5) + ?u h3 * ?u (r2 * 5) +
        ?u h4 * ?u (r1 * 5)"
      "d1 = ?u h0 * ?u r1 + ?u h1 * ?u r0 + ?u h2 * ?u (r4 * 5) + ?u h3 * ?u (r3 * 5) +
        ?u h4 * ?u (r2 * 5)"
      "d2 = ?u h0 * ?u r2 + ?u h1 * ?u r1 + ?u h2 * ?u r0 + ?u h3 * ?u (r4 * 5) +
        ?u h4 * ?u (r3 * 5)"
      "d3 = ?u h0 * ?u r3 + ?u h1 * ?u r2 + ?u h2 * ?u r1 + ?u h3 * ?u r0 + ?u h4 * ?u (r4 * 5)"
      "d4 = ?u h0 * ?u r4 + ?u h1 * ?u r3 + ?u h2 * ?u r2 + ?u h3 * ?u r1 + ?u h4 * ?u r0"
    using d unfolding poly_products_def Let_def by simp_all
  have hb: "unat h0 \<le> 2 ^ 27 + 64" "unat h1 \<le> 2 ^ 27 + 64" "unat h2 \<le> 2 ^ 27 + 64"
      "unat h3 \<le> 2 ^ 27 + 64" "unat h4 \<le> 2 ^ 27 + 64"
    using h unfolding limbs_bound.simps by blast+
  have rb: "unat r0 \<le> 5 * 2 ^ 26" "unat r1 \<le> 5 * 2 ^ 26" "unat r2 \<le> 5 * 2 ^ 26"
      "unat r3 \<le> 5 * 2 ^ 26" "unat r4 \<le> 5 * 2 ^ 26" "unat r1 * 5 \<le> 5 * 2 ^ 26"
      "unat r2 * 5 \<le> 5 * 2 ^ 26" "unat r3 * 5 \<le> 5 * 2 ^ 26" "unat r4 * 5 \<le> 5 * 2 ^ 26"
    and r4: "unat r0 \<le> 2 ^ 26" "unat r1 \<le> 2 ^ 26" "unat r2 \<le> 2 ^ 26" "unat r3 \<le> 2 ^ 26"
      "unat r4 \<le> 2 ^ 26"
    using r unfolding limbs_bound.simps by simp_all
  have B: "?D0 \<le> 25 * ((2 ^ 27 + 64) * 2 ^ 26)" "?D1 \<le> 25 * ((2 ^ 27 + 64) * 2 ^ 26)"
      "?D2 \<le> 25 * ((2 ^ 27 + 64) * 2 ^ 26)" "?D3 \<le> 25 * ((2 ^ 27 + 64) * 2 ^ 26)"
    using five_products [OF hb rb(1,9,8,7,6)] five_products [OF hb rb(2,1,9,8,7)]
      five_products [OF hb rb(3,2,1,9,8)] five_products [OF hb rb(4,3,2,1,9)] by simp_all
  have B4: "?D4 \<le> 5 * ((2 ^ 27 + 64) * 2 ^ 26)"
    using five_products [OF hb r4(5,4,3,2,1)] .
  have lt: "(25 * ((2 ^ 27 + 64) * 2 ^ 26) :: nat) < 2 ^ 64"
      "(5 * ((2 ^ 27 + 64) * 2 ^ 26) :: nat) < 2 ^ 64" by simp_all
  have e0: "unat d0 = ?D0" unfolding d'(1)
    using le_less_trans [OF B(1) lt(1)] by (subst unat_five) (simp_all only: unat_u64 s)
  have e1: "unat d1 = ?D1" unfolding d'(2)
    using le_less_trans [OF B(2) lt(1)] by (subst unat_five) (simp_all only: unat_u64 s)
  have e2: "unat d2 = ?D2" unfolding d'(3)
    using le_less_trans [OF B(3) lt(1)] by (subst unat_five) (simp_all only: unat_u64 s)
  have e3: "unat d3 = ?D3" unfolding d'(4)
    using le_less_trans [OF B(4) lt(1)] by (subst unat_five) (simp_all only: unat_u64 s)
  have e4: "unat d4 = ?D4" unfolding d'(5)
    using le_less_trans [OF B4 lt(2)] by (subst unat_five) (simp_all only: unat_u64)
  show "unat d0 = ?D0" "unat d1 = ?D1" "unat d2 = ?D2" "unat d3 = ?D3" "unat d4 = ?D4"
    by (fact e0 e1 e2 e3 e4)+
  show "unat d0 \<le> 25 * ((2 ^ 27 + 64) * 2 ^ 26)" "unat d1 \<le> 25 * ((2 ^ 27 + 64) * 2 ^ 26)"
    "unat d2 \<le> 25 * ((2 ^ 27 + 64) * 2 ^ 26)" "unat d3 \<le> 25 * ((2 ^ 27 + 64) * 2 ^ 26)"
    unfolding e0 e1 e2 e3 by (fact B)+
  show "unat d4 \<le> 5 * ((2 ^ 27 + 64) * 2 ^ 26)" unfolding e4 by (fact B4)
qed

lemma carry_step:
  assumes "unat (d :: u64) \<le> 25 * ((2 ^ 27 + 64) * 2 ^ 26)" and "unat (c :: u32) < 2 ^ 32"
  shows "unat (d + ucast c) = unat d + unat c" and "unat (d + ucast c) < 2 ^ 58"
proof -
  have "unat d + unat c < 2 ^ 58" using assms by simp
  then show "unat (d + ucast c) = unat d + unat c" and "unat (d + ucast c) < 2 ^ 58"
    by (simp_all add: unat_add_u64 unat_u64)
qed

lemma poly_partial_nat:
  assumes b: "unat d0 \<le> 25 * ((2 ^ 27 + 64) * 2 ^ 26)" "unat d1 \<le> 25 * ((2 ^ 27 + 64) * 2 ^ 26)"
      "unat d2 \<le> 25 * ((2 ^ 27 + 64) * 2 ^ 26)" "unat d3 \<le> 25 * ((2 ^ 27 + 64) * 2 ^ 26)"
      "unat d4 \<le> 5 * ((2 ^ 27 + 64) * 2 ^ 26)"
  shows "\<exists>q. limbs_val (poly_partial (d0, d1, d2, d3, d4)) + p1305 * q =
      val5 (unat d0) (unat d1) (unat d2) (unat d3) (unat d4)"
    and "limbs_inv (poly_partial (d0, d1, d2, d3, d4))"
proof -
  define c0 where "c0 = (ucast (drop_bit 26 d0) :: u32)"
  define x1 where "x1 = d1 + ucast c0"
  define c1 where "c1 = (ucast (drop_bit 26 x1) :: u32)"
  define x2 where "x2 = d2 + ucast c1"
  define c2 where "c2 = (ucast (drop_bit 26 x2) :: u32)"
  define x3 where "x3 = d3 + ucast c2"
  define c3 where "c3 = (ucast (drop_bit 26 x3) :: u32)"
  define x4 where "x4 = d4 + ucast c3"
  define c4 where "c4 = (ucast (drop_bit 26 x4) :: u32)"
  define l0 where "l0 = (ucast d0 AND 0x3ffffff :: u32) + c4 * 5"
  have out: "poly_partial (d0, d1, d2, d3, d4) =
      (l0 AND 0x3ffffff, (ucast x1 AND 0x3ffffff) + drop_bit 26 l0, ucast x2 AND 0x3ffffff,
       ucast x3 AND 0x3ffffff, ucast x4 AND 0x3ffffff)"
    unfolding poly_partial_def Let_def l0_def x1_def x2_def x3_def x4_def c0_def c1_def c2_def
      c3_def c4_def by simp
  have b4: "unat d4 \<le> 25 * ((2 ^ 27 + 64) * 2 ^ 26)" using b(5) by simp
  have n0: "unat d0 < 2 ^ 58" using b(1) by simp
  have c0: "unat c0 = unat d0 div 2 ^ 26" unfolding c0_def by (rule hi26 [OF n0])
  note x1 = carry_step [OF b(2) u32_less, of c0, folded x1_def]
  have c1: "unat c1 = unat x1 div 2 ^ 26" unfolding c1_def by (rule hi26 [OF x1(2)])
  note x2 = carry_step [OF b(3) u32_less, of c1, folded x2_def]
  have c2: "unat c2 = unat x2 div 2 ^ 26" unfolding c2_def by (rule hi26 [OF x2(2)])
  note x3 = carry_step [OF b(4) u32_less, of c2, folded x3_def]
  have c3: "unat c3 = unat x3 div 2 ^ 26" unfolding c3_def by (rule hi26 [OF x3(2)])
  note x4 = carry_step [OF b4 u32_less, of c3, folded x4_def]
  have c4: "unat c4 = unat x4 div 2 ^ 26" unfolding c4_def by (rule hi26 [OF x4(2)])
  have "unat x4 < 5 * ((2 ^ 27 + 64) * 2 ^ 26) + 2 ^ 32"
    using x4(1) b(5) u32_less [of c3] by linarith
  then have c4b: "unat c4 \<le> 5 * (2 ^ 27 + 64) + 64" unfolding c4 by simp
  then have m5: "unat (c4 * 5) = unat c4 * 5" by (intro unat_mul5) simp
  have md: "unat (ucast d0 AND 0x3ffffff :: u32) < 2 ^ 26" unfolding lo26 by simp
  have l0: "unat l0 = unat d0 mod 2 ^ 26 + unat c4 * 5"
    unfolding l0_def using c4b md by (subst unat_add_u32) (simp_all add: m5 lo26)
  then have k: "unat l0 div 2 ^ 26 < 64" using c4b by simp
  have y1: "unat ((ucast x1 AND 0x3ffffff) + drop_bit 26 l0 :: u32) =
      unat x1 mod 2 ^ 26 + unat l0 div 2 ^ 26"
  proof -
    have "unat x1 mod 2 ^ 26 < 2 ^ 26" by simp
    then have "unat x1 mod 2 ^ 26 + unat l0 div 2 ^ 26 < 2 ^ 26 + 64" using k by (rule add_strict_mono)
    then have "unat x1 mod 2 ^ 26 + unat l0 div 2 ^ 26 < 2 ^ 32" by simp
    then show ?thesis by (subst unat_add_u32) (simp_all only: lo26 unat_shr)
  qed
  show "\<exists>q. limbs_val (poly_partial (d0, d1, d2, d3, d4)) + p1305 * q =
      val5 (unat d0) (unat d1) (unat d2) (unat d3) (unat d4)"
    unfolding out limbs_val.simps y1 lo26 unfolding and26
    by (rule exI, rule carry_chain [where ?d0.0 = "unat d0" and ?f0.0 = "unat l0"])
       (simp_all only: x1(1) x2(1) x3(1) x4(1) c0 c1 c2 c3 c4 l0)
  have "unat x1 mod 2 ^ 26 < 2 ^ 26" by simp
  then have "unat x1 mod 2 ^ 26 + unat l0 div 2 ^ 26 < 2 ^ 26 + 64" using k by (rule add_strict_mono)
  then show "limbs_inv (poly_partial (d0, d1, d2, d3, d4))"
    unfolding out limbs_inv.simps y1 lo26 unfolding and26 by simp
qed

lemma poly_mul_correct:
  assumes r: "limbs_bound (2 ^ 26) r" and h: "limbs_bound (2 ^ 27 + 64) h"
  shows "limbs_val (poly_mul r h) mod p1305 = limbs_val h * limbs_val r mod p1305"
    and "limbs_inv (poly_mul r h)"
proof -
  obtain r0 r1 r2 r3 r4 where rr: "r = (r0, r1, r2, r3, r4)" by (cases r)
  obtain h0 h1 h2 h3 h4 where hh: "h = (h0, h1, h2, h3, h4)" by (cases h)
  obtain d0 d1 d2 d3 d4 where d:
      "poly_products (r0, r1, r2, r3, r4) (h0, h1, h2, h3, h4) = (d0, d1, d2, d3, d4)"
    by (metis prod_cases5)
  note n = poly_products_nat [OF r [unfolded rr] h [unfolded hh] d]
  note p = poly_partial_nat [OF n(6-10)]
  obtain q where q: "limbs_val (poly_partial (d0, d1, d2, d3, d4)) + p1305 * q =
      val5 (unat d0) (unat d1) (unat d2) (unat d3) (unat d4)" using p(1) by blast
  obtain K where K: "limbs_val h * limbs_val r =
      val5 (unat d0) (unat d1) (unat d2) (unat d3) (unat d4) + p1305 * K"
    unfolding rr hh limbs_val.simps n(1-5) using schoolbook by blast
  have m: "poly_mul r h = poly_partial (d0, d1, d2, d3, d4)" by (simp add: poly_mul_def rr hh d)
  have "limbs_val h * limbs_val r = limbs_val (poly_mul r h) + p1305 * (q + K)"
    unfolding K m q [symmetric] by (simp add: algebra_simps)
  then show "limbs_val (poly_mul r h) mod p1305 = limbs_val h * limbs_val r mod p1305" by simp
  show "limbs_inv (poly_mul r h)" unfolding m by (rule p(2))
qed

end
