(* ===== verification/Poly1305_Block.thy ===== *)
theory Poly1305_Block
  imports Poly1305_Arith
begin

text \<open>
  Loading the clamped key and one 16-byte block into limbs, on numbers: the five masked loads are
  the base \<open>2^26\<close> digits of the little-endian number.
\<close>

section \<open>Bytes as numbers\<close>

lemma unat_or_disjoint:
  fixes x y :: "'a::len word"
  assumes "\<And>n. \<not> bit x n \<or> \<not> bit y n"
  shows "unat (x OR y) = unat x + unat y"
proof -
  have "unat (x OR y) = (unat x OR unat y :: nat)" by (rule unsigned_or_eq)
  also have "\<dots> = unat x + unat y"
    by (rule disjunctive_add [symmetric]) (use assms in \<open>simp add: bit_unsigned_iff\<close>)
  finally show ?thesis .
qed

lemma le_num_less: "le_num bs < 256 ^ length bs"
proof (induction bs)
  case (Cons b bs)
  have "unat b < 256" using unsigned_less [of b, where ?'a = nat] by simp
  with Cons show ?case by simp
qed simp

lemma unat_byte_less: "unat (b :: byte) < 256"
  using unsigned_less [of b, where ?'a = nat] by simp

lemma le_num_append: "le_num (a @ b) = le_num a + 256 ^ length a * le_num b"
  by (induction a) (simp_all add: algebra_simps)

lemma le_num_zeros [simp]: "le_num (replicate n 0) = 0"
  by (induction n) auto

lemma le_num_drop: "le_num (drop k m) = le_num m div 256 ^ k"
proof (cases "k \<le> length m")
  case True
  have "le_num m = le_num (take k m) + 256 ^ k * le_num (drop k m)"
    using le_num_append [of "take k m" "drop k m"] True by simp
  moreover have "le_num (take k m) < 256 ^ k" using le_num_less [of "take k m"] True by simp
  ultimately show ?thesis by simp
next
  case False
  have "le_num m < 256 ^ length m" by (rule le_num_less)
  also have "\<dots> \<le> 256 ^ k" using False by (intro power_increasing) auto
  finally show ?thesis using False by simp
qed

lemma le_num_take: "k \<le> length m \<Longrightarrow> le_num (take k m) = le_num m mod 256 ^ k"
proof -
  assume k: "k \<le> length m"
  have "le_num m = le_num (take k m) + 256 ^ k * le_num (drop k m)"
    using le_num_append [of "take k m" "drop k m"] k by simp
  moreover have "le_num (take k m) < 256 ^ k" using le_num_less [of "take k m"] k by simp
  ultimately show ?thesis by simp
qed

lemma unat_byte_u32: "unat (ucast (b::byte) :: u32) = unat b"
  using unat_byte_less [of b] by (simp add: unsigned_ucast_eq take_bit_nat_eq_self_iff)

lemma unat_push_byte: "k \<le> 24 \<Longrightarrow> unat (push_bit k (ucast (b::byte) :: u32)) = unat b * 2 ^ k"
proof -
  assume k: "k \<le> 24"
  have "unat b * 2 ^ k < 2 ^ 8 * 2 ^ 24"
    using unat_byte_less [of b] power_increasing [OF k, of "2 :: nat"]
    by (intro mult_less_le_imp_less) auto
  then show ?thesis
    unfolding unsigned_push_bit_eq unat_byte_u32 unfolding push_bit_eq_mult
    by (simp add: take_bit_nat_eq_self_iff)
qed

lemma byte_bits: "bit (ucast (b::byte) :: u32) n \<Longrightarrow> n < 8"
  by (auto simp: bit_simps dest: bit_imp_le_length)

lemma unat_load4:
  fixes a b c d :: byte
  shows "unat (ucast a OR push_bit 8 (ucast b) OR push_bit 16 (ucast c) OR push_bit 24 (ucast d) :: u32) =
    unat a + unat b * 2 ^ 8 + unat c * 2 ^ 16 + unat d * 2 ^ 24"
    (is "unat (?a OR ?b OR ?c OR ?d) = _")
proof -
  have 1: "\<not> bit ?c n \<or> \<not> bit ?d n" for n
    by (auto simp: bit_push_bit_iff dest!: byte_bits)
  have 2: "\<not> bit ?b n \<or> \<not> bit (?c OR ?d) n" for n
    by (auto simp: bit_push_bit_iff bit_or_iff dest!: byte_bits)
  have 3: "\<not> bit ?a n \<or> \<not> bit (?b OR ?c OR ?d) n" for n
    by (auto simp: bit_push_bit_iff bit_or_iff dest!: byte_bits)
  show ?thesis
    unfolding unat_or_disjoint [OF 3] unat_or_disjoint [OF 2] unat_or_disjoint [OF 1]
    by (simp only: unat_byte_u32 unat_push_byte order_refl numeral_le_iff semiring_norm add.assoc)
qed

lemma unat_load_le32: "4 \<le> length p \<Longrightarrow> unat (load_le32 p) = le_num p mod 2 ^ 32"
proof -
  assume "4 \<le> length p"
  then obtain a b c d q where p: "p = a # b # c # d # q"
    by (auto simp: Suc_le_length_iff eval_nat_numeral)
  define t where "t = unat a + unat b * 2 ^ 8 + unat c * 2 ^ 16 + unat d * 2 ^ 24"
  have "le_num p = t + 2 ^ 32 * le_num q" unfolding p t_def by simp
  moreover have "t < 2 ^ 32"
    unfolding t_def
    using unat_byte_less [of a] unat_byte_less [of b] unat_byte_less [of c] unat_byte_less [of d]
    by simp
  moreover have "unat (load_le32 p) = t"
    unfolding load_le32_def p t_def by (simp add: unat_load4 [simplified])
  ultimately show ?thesis by simp
qed

lemma unat_load_drop:
  "k + 4 \<le> length m \<Longrightarrow> unat (load_le32 (drop k m)) = le_num m div 256 ^ k mod 2 ^ 32"
  by (simp add: unat_load_le32 le_num_drop)


section \<open>One block added to the accumulator\<close>

lemma window26:
  fixes n :: nat
  assumes "s \<le> 6"
  shows "n mod 2 ^ 32 div 2 ^ s mod 2 ^ 26 = n div 2 ^ s mod 2 ^ 26"
proof -
  have "take_bit 26 (drop_bit s (take_bit 32 n)) = take_bit 26 (drop_bit s n)"
    using assms by (auto simp: bit_eq_iff bit_simps)
  then show ?thesis unfolding take_bit_eq_mod drop_bit_eq_div .
qed

lemma unat_limb:
  assumes "k + 4 \<le> length m" and "s \<le> 6"
  shows "unat (drop_bit s (load_le32 (drop k m)) AND 0x3ffffff) =
    le_num m div (256 ^ k * 2 ^ s) mod 2 ^ 26"
  using window26 [OF assms(2), of "le_num m div 256 ^ k"] assms(1)
  by (simp only: and26 unat_shr unat_load_drop div_mult2_eq)

lemma digits26_linear:
  fixes n :: nat
  assumes "n = m0 + 2 ^ 26 * q1" "q1 = m1 + 2 ^ 26 * q2" "q2 = m2 + 2 ^ 26 * q3"
    "q3 = m3 + 2 ^ 26 * q4"
  shows "val5 m0 m1 m2 m3 q4 = n"
  using assms by (simp add: val5_def)

lemma digits26:
  fixes n :: nat
  shows "val5 (n mod 2 ^ 26) (n div 2 ^ 26 mod 2 ^ 26) (n div 2 ^ 52 mod 2 ^ 26)
    (n div 2 ^ 78 mod 2 ^ 26) (n div 2 ^ 104) = n"
proof (rule digits26_linear)
  have s: "n div k mod 2 ^ 26 + 2 ^ 26 * (n div (k * 2 ^ 26)) = n div k" for k :: nat
    unfolding div_mult2_eq by (rule mod_mult_div_eq)
  show "n = n mod 2 ^ 26 + 2 ^ 26 * (n div 2 ^ 26)" by (rule mod_mult_div_eq [symmetric])
  show "n div 2 ^ 26 = n div 2 ^ 26 mod 2 ^ 26 + 2 ^ 26 * (n div 2 ^ 52)"
    "n div 2 ^ 52 = n div 2 ^ 52 mod 2 ^ 26 + 2 ^ 26 * (n div 2 ^ 78)"
    "n div 2 ^ 78 = n div 2 ^ 78 mod 2 ^ 26 + 2 ^ 26 * (n div 2 ^ 104)"
    using s [of "2 ^ 26"] s [of "2 ^ 52"] s [of "2 ^ 78"] by simp_all
qed

lemma val5_add:
  "val5 (a0 + b0) (a1 + b1) (a2 + b2) (a3 + b3) (a4 + b4) = val5 a0 a1 a2 a3 a4 + val5 b0 b1 b2 b3 b4"
  by (simp add: val5_def algebra_simps)

lemma val5_top: "val5 a0 a1 a2 a3 (a4 + k) = val5 a0 a1 a2 a3 a4 + 2 ^ 104 * k"
  by (simp add: val5_def algebra_simps)

definition valid_hibit :: "u32 \<Rightarrow> bool" where
  "valid_hibit hb \<longleftrightarrow> hb = 0 \<or> hb = hibit24"

lemma top_limb:
  assumes "length m = 16" and "valid_hibit hb"
  shows "unat (drop_bit 8 (load_le32 (drop 12 m)) OR hb) = le_num m div 2 ^ 104 + unat hb"
    and "le_num m div 2 ^ 104 < 2 ^ 24"
proof -
  let ?w = "load_le32 (drop 12 m)"
  have n: "le_num m < 256 ^ 16" using le_num_less [of m] assms(1) by simp
  then show "le_num m div 2 ^ 104 < 2 ^ 24" by (simp add: less_mult_imp_div_less)
  have "unat (drop_bit 8 ?w OR hb) = unat (drop_bit 8 ?w) + unat hb"
  proof (rule unat_or_disjoint)
    fix n
    show "\<not> bit (drop_bit 8 ?w) n \<or> \<not> bit hb n"
      using assms(2) by (auto simp: valid_hibit_def bit_simps simp del: push_bit_numeral push_bit_of_1 dest: bit_imp_le_length)
  qed
  moreover have "unat (drop_bit 8 ?w) = le_num m div 2 ^ 104"
  proof -
    have "le_num m div 256 ^ 12 < 2 ^ 32" using n by (simp add: less_mult_imp_div_less)
    then have "unat ?w = le_num m div 256 ^ 12"
      using assms(1) by (simp add: unat_load_drop)
    then show ?thesis unfolding unat_shr by (simp add: div_mult2_eq [symmetric])
  qed
  ultimately show "unat (drop_bit 8 ?w OR hb) = le_num m div 2 ^ 104 + unat hb" by simp
qed

lemma poly_add_correct:
  assumes m: "length m = 16" and hb: "valid_hibit hb" and h: "limbs_inv h"
  shows "limbs_val (poly_add hb h m) = limbs_val h + (le_num m + 2 ^ 104 * unat hb)"
    and "limbs_bound (2 ^ 27 + 64) (poly_add hb h m)"
proof -
  obtain h0 h1 h2 h3 h4 where hh: "h = (h0, h1, h2, h3, h4)" by (cases h)
  let ?n = "le_num m"
  have t: "unat (load_le32 m AND 0x3ffffff) = ?n mod 2 ^ 26"
      "unat (drop_bit 2 (load_le32 (drop 3 m)) AND 0x3ffffff) = ?n div 2 ^ 26 mod 2 ^ 26"
      "unat (drop_bit 4 (load_le32 (drop 6 m)) AND 0x3ffffff) = ?n div 2 ^ 52 mod 2 ^ 26"
      "unat (drop_bit 6 (load_le32 (drop 9 m)) AND 0x3ffffff) = ?n div 2 ^ 78 mod 2 ^ 26"
    using m unat_limb [of 0 m 0] unat_limb [of 3 m 2] unat_limb [of 6 m 4] unat_limb [of 9 m 6]
    by simp_all
  note t4 = top_limb [OF m hb]
  have hbb: "unat hb \<le> 2 ^ 24" using hb by (auto simp: valid_hibit_def)
  have b: "unat h0 < 2 ^ 26" "unat h1 < 2 ^ 26 + 64" "unat h2 < 2 ^ 26" "unat h3 < 2 ^ 26"
      "unat h4 < 2 ^ 26"
    using h unfolding hh limbs_inv.simps by blast+
  have r: "x mod 2 ^ 26 < 2 ^ 26" for x :: nat by simp
  have add: "unat (x + y) = unat x + unat y" if "unat x < 2 ^ 27" "unat y < 2 ^ 27" for x y :: u32
    using that by (simp add: unat_add_u32)
  have lt: "unat h0 < 2 ^ 27" "unat h1 < 2 ^ 27" "unat h2 < 2 ^ 27" "unat h3 < 2 ^ 27"
      "unat h4 < 2 ^ 27" and r': "\<And>x. x mod 2 ^ 26 < (2 ^ 27 :: nat)"
      and t4': "?n div 2 ^ 104 + unat hb < 2 ^ 27"
    using b t4(2) hbb r by (simp_all add: less_trans [OF r])
  have a: "unat (h0 + (load_le32 m AND 0x3ffffff)) = unat h0 + ?n mod 2 ^ 26"
      "unat (h1 + (drop_bit 2 (load_le32 (drop 3 m)) AND 0x3ffffff)) =
         unat h1 + ?n div 2 ^ 26 mod 2 ^ 26"
      "unat (h2 + (drop_bit 4 (load_le32 (drop 6 m)) AND 0x3ffffff)) =
         unat h2 + ?n div 2 ^ 52 mod 2 ^ 26"
      "unat (h3 + (drop_bit 6 (load_le32 (drop 9 m)) AND 0x3ffffff)) =
         unat h3 + ?n div 2 ^ 78 mod 2 ^ 26"
      "unat (h4 + (drop_bit 8 (load_le32 (drop 12 m)) OR hb)) =
         unat h4 + (?n div 2 ^ 104 + unat hb)"
    by (simp_all only: add lt t t4(1) r' t4')
  have out: "poly_add hb h m = (h0 + (load_le32 m AND 0x3ffffff),
      h1 + (drop_bit 2 (load_le32 (drop 3 m)) AND 0x3ffffff),
      h2 + (drop_bit 4 (load_le32 (drop 6 m)) AND 0x3ffffff),
      h3 + (drop_bit 6 (load_le32 (drop 9 m)) AND 0x3ffffff),
      h4 + (drop_bit 8 (load_le32 (drop 12 m)) OR hb))"
    unfolding poly_add_def hh by simp
  show "limbs_val (poly_add hb h m) = limbs_val h + (?n + 2 ^ 104 * unat hb)"
    unfolding out unfolding limbs_val.simps a hh val5_add unfolding val5_top digits26 by (simp only: add.assoc)
  have r1: "x mod 2 ^ 26 \<le> (2 ^ 26 :: nat)" for x by simp
  note g = add_mono [OF less_imp_le [OF b(1)] r1 [of ?n]]
    add_mono [OF less_imp_le [OF b(2)] r1 [of "?n div 2 ^ 26"]]
    add_mono [OF less_imp_le [OF b(3)] r1 [of "?n div 2 ^ 52"]]
    add_mono [OF less_imp_le [OF b(4)] r1 [of "?n div 2 ^ 78"]]
    add_mono [OF less_imp_le [OF b(5)] add_mono [OF less_imp_le [OF t4(2)] hbb]]
  show "limbs_bound (2 ^ 27 + 64) (poly_add hb h m)"
    unfolding out limbs_bound.simps a
    by (intro conjI; rule order_trans, rule g, simp)
qed

section \<open>The clamped key\<close>

lemma and_div: "((a :: nat) AND b) div 2 ^ j = (a div 2 ^ j) AND (b div 2 ^ j)"
  using drop_bit_and [of j a b] unfolding drop_bit_eq_div .

lemma and_mod: "((a :: nat) AND b) mod 2 ^ j = (a mod 2 ^ j) AND (b mod 2 ^ j)"
  using take_bit_and [of j a b] unfolding take_bit_eq_mod .

lemma and_low: "(c :: nat) < 2 ^ j \<Longrightarrow> a AND c = (a mod 2 ^ j) AND c"
proof -
  assume "c < 2 ^ j"
  then have "take_bit j c = c" by (simp add: take_bit_nat_eq_self_iff)
  then have "a AND c = take_bit j a AND c"
    by (metis take_bit_and and.assoc and.idem and.commute take_bit_eq_mask)
  then show ?thesis by (simp only: take_bit_eq_mod)
qed

lemma unat_and_le: "unat (x AND c :: 'a::len word) \<le> unat c"
  using word_and_le1 [of x c] by (simp add: word_le_nat_alt)

lemma load_le32_take: "4 \<le> j \<Longrightarrow> load_le32 (take j p) = load_le32 p"
  by (simp add: load_le32_def)

lemma unat_clamped_limb:
  assumes "k + 4 \<le> 16" "s \<le> 6" "length key = 32" "unat (c :: u32) < 2 ^ 26"
  shows "unat (drop_bit s (load_le32 (drop k key)) AND c) =
    (le_num (take 16 key) div (256 ^ k * 2 ^ s) mod 2 ^ 26) AND unat c"
proof -
  let ?n = "le_num (take 16 key)"
  have "drop k (take 16 key) = take (16 - k) (drop k key)" by (simp add: drop_take)
  then have "load_le32 (drop k key) = load_le32 (drop k (take 16 key))"
    using assms(1) by (simp add: load_le32_take)
  then have "unat (load_le32 (drop k key)) = ?n div 256 ^ k mod 2 ^ 32"
    using unat_load_drop [of k "take 16 key"] assms(1,3) by simp
  then have "unat (drop_bit s (load_le32 (drop k key)) AND c) =
      (?n div 256 ^ k mod 2 ^ 32 div 2 ^ s) AND unat c"
    unfolding unsigned_and_eq unat_shr by simp
  also have "\<dots> = (?n div 256 ^ k mod 2 ^ 32 div 2 ^ s mod 2 ^ 26) AND unat c"
    by (rule and_low [OF assms(4)])
  also have "\<dots> = (?n div (256 ^ k * 2 ^ s) mod 2 ^ 26) AND unat c"
    unfolding window26 [OF assms(2)] div_mult2_eq ..
  finally show ?thesis .
qed

lemma poly_init_r:
  assumes key: "length key = 32"
  shows "limbs_val (p_r (poly_init key)) = clamp key"
    and "limbs_bound (2 ^ 26) (p_r (poly_init key))"
proof -
  let ?n = "le_num (take 16 key)" and ?M = "0x0ffffffc0ffffffc0ffffffc0fffffff :: nat"
  have n: "?n < 256 ^ 16" using le_num_less [of "take 16 key"] key by simp
  have l0: "unat (load_le32 key AND 0x3ffffff) = ?n mod 2 ^ 26 AND 0x3ffffff"
    and l1: "unat (drop_bit 2 (load_le32 (drop 3 key)) AND 0x3ffff03) =
       ?n div 2 ^ 26 mod 2 ^ 26 AND 0x3ffff03"
    and l2: "unat (drop_bit 4 (load_le32 (drop 6 key)) AND 0x3ffc0ff) =
       ?n div 2 ^ 52 mod 2 ^ 26 AND 0x3ffc0ff"
    and l3: "unat (drop_bit 6 (load_le32 (drop 9 key)) AND 0x3f03fff) =
       ?n div 2 ^ 78 mod 2 ^ 26 AND 0x3f03fff"
    using unat_clamped_limb [of 0 0 key "0x3ffffff"] unat_clamped_limb [of 3 2 key "0x3ffff03"]
      unat_clamped_limb [of 6 4 key "0x3ffc0ff"] unat_clamped_limb [of 9 6 key "0x3f03fff"] key
    by simp_all
  have l4: "unat (drop_bit 8 (load_le32 (drop 12 key)) AND 0x00fffff) = ?n div 2 ^ 104 AND 0x00fffff"
  proof -
    have "drop 12 (take 16 key) = take 4 (drop 12 key)" by (simp add: drop_take)
    then have "load_le32 (drop 12 key) = load_le32 (drop 12 (take 16 key))"
      by (simp add: load_le32_take)
    moreover have "?n div 256 ^ 12 mod 2 ^ 32 = ?n div 256 ^ 12"
      using n by (simp add: less_mult_imp_div_less)
    ultimately have "unat (load_le32 (drop 12 key)) = ?n div 256 ^ 12"
      using unat_load_drop [of 12 "take 16 key"] key by simp
    then show ?thesis
      unfolding unsigned_and_eq unat_shr by (simp add: div_mult2_eq [symmetric])
  qed
  have "val5 ((?n AND ?M) mod 2 ^ 26) ((?n AND ?M) div 2 ^ 26 mod 2 ^ 26)
      ((?n AND ?M) div 2 ^ 52 mod 2 ^ 26) ((?n AND ?M) div 2 ^ 78 mod 2 ^ 26)
      ((?n AND ?M) div 2 ^ 104) = ?n AND ?M" by (rule digits26)
  moreover have "?M mod 2 ^ 26 = 0x3ffffff" "?M div 2 ^ 26 mod 2 ^ 26 = 0x3ffff03"
      "?M div 2 ^ 52 mod 2 ^ 26 = 0x3ffc0ff" "?M div 2 ^ 78 mod 2 ^ 26 = 0x3f03fff"
      "?M div 2 ^ 104 = 0x00fffff" by simp_all
  ultimately show "limbs_val (p_r (poly_init key)) = clamp key"
    unfolding poly_init_def poly1305.simps limbs_val.simps l0 l1 l2 l3 l4 clamp_def
    by (simp only: and_div and_mod)
  show "limbs_bound (2 ^ 26) (p_r (poly_init key))"
    unfolding poly_init_def poly1305.simps limbs_bound.simps
    by (intro conjI; rule order_trans, rule unat_and_le, simp)
qed

section \<open>Whole blocks\<close>

lemma poly_blocks_short: "length m < 16 \<Longrightarrow> poly_blocks r hb h m = h"
  by (simp add: poly_blocks.simps)

lemma poly_blocks_step:
  "length b = 16 \<Longrightarrow> poly_blocks r hb h (b @ m) = poly_blocks r hb (poly_mul r (poly_add hb h b)) m"
  by (subst poly_blocks.simps) simp

lemma blocks_induct [consumes 1, case_names short block]:
  assumes "length m mod 16 = (0::nat)" and "P []"
    and "\<And>b m. length b = 16 \<Longrightarrow> length m mod 16 = 0 \<Longrightarrow> P m \<Longrightarrow> P (b @ m)"
  shows "P m"
  using assms(1)
proof (induction m rule: length_induct)
  case (1 m)
  show ?case
  proof (cases "m = []")
    case False
    then have len: "16 \<le> length m" using 1(2) by (cases "length m < 16") auto
    then have d: "length (drop 16 m) mod 16 = 0" using 1(2) by (simp add: le_mod_geq)
    then have "P (drop 16 m)" using 1(1) len by simp
    moreover have "length (take 16 m) = 16" using len by simp
    ultimately have "P (take 16 m @ drop 16 m)" by (intro assms(3) [OF _ d])
    then show ?thesis by simp
  qed (simp add: assms)
qed

lemma poly_blocks_append:
  "length a mod 16 = 0 \<Longrightarrow> poly_blocks r hb h (a @ m) = poly_blocks r hb (poly_blocks r hb h a) m"
  by (induction a arbitrary: h rule: blocks_induct) (simp_all add: poly_blocks_short poly_blocks_step)

lemma poly_blocks_whole:
  "poly_blocks r hb h m = poly_blocks r hb h (take (length m - length m mod 16) m)"
proof -
  let ?k = "length m - length m mod 16"
  have k: "?k mod 16 = 0" by (simp add: minus_mod_eq_mult_div)
  have "poly_blocks r hb h m = poly_blocks r hb h (take ?k m @ drop ?k m)" by simp
  also have "\<dots> = poly_blocks r hb (poly_blocks r hb h (take ?k m)) (drop ?k m)"
    using k by (subst poly_blocks_append) simp_all
  also have "\<dots> = poly_blocks r hb h (take ?k m)" by (rule poly_blocks_short) simp
  finally show ?thesis .
qed

lemma poly_spec_acc_Nil [simp]: "poly_spec_acc r acc [] = acc"
  by (simp add: poly_spec_acc.simps)

lemma poly_spec_acc_block:
  "length b = 16 \<Longrightarrow>
    poly_spec_acc r acc (b @ m) = poly_spec_acc r ((acc + le_num (b @ [1])) * r mod p1305) m"
  by (subst poly_spec_acc.simps) auto

lemma poly_spec_acc_last:
  "0 < length m \<Longrightarrow> length m < 16 \<Longrightarrow>
    poly_spec_acc r acc m = (acc + le_num (m @ [1])) * r mod p1305"
  by (subst poly_spec_acc.simps) auto

lemma block_step:
  assumes r: "limbs_bound (2 ^ 26) r" and h: "limbs_inv h" and b: "length b = 16"
    and hb: "valid_hibit hb" and acc: "limbs_val h mod p1305 = acc mod p1305"
  shows "limbs_val (poly_mul r (poly_add hb h b)) mod p1305 =
      (acc + (le_num b + 2 ^ 104 * unat hb)) * limbs_val r mod p1305"
    and "limbs_inv (poly_mul r (poly_add hb h b))"
proof -
  note a = poly_add_correct [OF b hb h]
  note m = poly_mul_correct [OF r a(2)]
  show "limbs_inv (poly_mul r (poly_add hb h b))" by (rule m(2))
  have "(limbs_val h + (le_num b + 2 ^ 104 * unat hb)) mod p1305 =
      (acc + (le_num b + 2 ^ 104 * unat hb)) mod p1305"
    using acc by (metis mod_add_cong)
  then show "limbs_val (poly_mul r (poly_add hb h b)) mod p1305 =
      (acc + (le_num b + 2 ^ 104 * unat hb)) * limbs_val r mod p1305"
    unfolding m(1) a(1) by (metis mod_mult_cong)
qed

lemma valid_hibit24: "valid_hibit hibit24" and valid_hibit0: "valid_hibit 0"
  by (simp_all add: valid_hibit_def)

lemma unat_hibit24: "2 ^ 104 * unat hibit24 = 2 ^ 128"
  by simp

lemma poly_blocks_correct:
  assumes m: "length m mod 16 = 0" and r: "limbs_bound (2 ^ 26) r" and h: "limbs_inv h"
    and acc: "limbs_val h mod p1305 = acc mod p1305"
  shows "limbs_val (poly_blocks r hibit24 h m) mod p1305 = poly_spec_acc (limbs_val r) acc m mod p1305
    \<and> limbs_inv (poly_blocks r hibit24 h m)"
  using m h acc
proof (induction m arbitrary: h acc rule: blocks_induct)
  case short
  then show ?case by (simp add: poly_blocks_short)
next
  case (block b m)
  note s = block_step [OF r block.prems(1) block.hyps(1) valid_hibit24 block.prems(2)]
  have "le_num (b @ [1]) = le_num b + 2 ^ 128" using block.hyps(1) by (simp add: le_num_append)
  then have "limbs_val (poly_mul r (poly_add hibit24 h b)) mod p1305 =
      (acc + le_num (b @ [1])) * limbs_val r mod p1305 mod p1305"
    using s(1) unfolding unat_hibit24 by simp
  from block.IH [OF s(2) this] show ?case
    using block.hyps(1) by (simp add: poly_blocks_step poly_spec_acc_block)
qed

end
