(* ===== verification/Poly1305_Correct.thy ===== *)
theory Poly1305_Correct
  imports Poly1305_Block
begin

text \<open>
  The one-time authenticator computes the function of RFC 8439: any cut of the message into
  \<open>update\<close> calls leads to the same state, the final carry normalises the accumulator, the
  constant-time selection reduces it modulo \<open>2^130 - 5\<close>, and the limbs are packed and added to
  the pad modulo \<open>2^128\<close>.
\<close>

section \<open>Messages in pieces\<close>

text \<open>
  After any sequence of updates the state depends on the bytes fed so far only, not on how they
  were cut.
\<close>

definition poly_state :: "bytes \<Rightarrow> bytes \<Rightarrow> poly1305" where
  "poly_state key m = (poly_init key)\<lparr>
     p_h := poly_blocks (p_r (poly_init key)) hibit24 (0, 0, 0, 0, 0) m,
     p_buffer := drop (length m - length m mod 16) m\<rparr>"

lemma drop_whole_blocks:
  assumes "length a mod 16 = 0"
  shows "drop (length (a @ b) - length (a @ b) mod 16) (a @ b) = drop (length b - length b mod 16) b"
proof -
  have "length (a @ b) mod 16 = length b mod 16" using assms by (simp add: mod_add_left_eq [symmetric])
  moreover have "length b mod 16 \<le> length b" by simp
  ultimately show ?thesis by simp
qed

lemma poly_state_whole:
  assumes "length a mod 16 = 0"
  shows "poly_state key (a @ b) = (poly_init key)\<lparr>
     p_h := poly_blocks (p_r (poly_init key)) hibit24
       (poly_blocks (p_r (poly_init key)) hibit24 (0, 0, 0, 0, 0) a) b,
     p_buffer := drop (length b - length b mod 16) b\<rparr>"
  using assms by (simp only: poly_state_def poly_blocks_append drop_whole_blocks)

lemma poly_update_full:
  assumes p: "p_buffer p = []"
  shows "poly_update p m = p\<lparr>p_h := poly_blocks (p_r p) hibit24 (p_h p) m,
    p_buffer := drop (length m - length m mod 16) m\<rparr>"
proof (cases "16 \<le> length m")
  case True
  then show ?thesis
    using p poly_blocks_whole [of "p_r p" hibit24 "p_h p" m, symmetric] by (simp add: poly_update_def Let_def)
next
  case False
  then show ?thesis
    using p by (simp add: poly_update_def Let_def poly_blocks_short)
qed

lemma poly_update_fill:
  assumes b: "p_buffer p = b" "b \<noteq> []" "length b < 16" and m: "16 \<le> length b + length m"
  shows "poly_update p m = poly_update
    (p\<lparr>p_h := poly_blocks (p_r p) hibit24 (p_h p) (b @ take (16 - length b) m), p_buffer := []\<rparr>)
    (drop (16 - length b) m)"
proof -
  define w where "w = 16 - length b"
  have w: "(if 16 - length (p_buffer p) > length m then length m else 16 - length (p_buffer p)) = w"
    using b m by (auto simp: w_def)
  have c: "\<not> (length (p_buffer p) \<noteq> 0 \<and> length (p_buffer p @ take w m) < 16)"
    using b m by (auto simp: w_def)
  have n: "length (p_buffer p) \<noteq> 0" using b by simp
  show ?thesis
    unfolding w_def [symmetric] poly_update_def [of p] Let_def w if_P [OF n] if_not_P [OF c]
    unfolding poly_update_def Let_def b(1) by simp
qed

lemma poly_update_state: "poly_update (poly_state key a) m = poly_state key (a @ m)"
proof -
  define k where "k = length a - length a mod 16"
  define a1 where "a1 = take k a"
  define b where "b = drop k a"
  have k: "k mod 16 = 0" "k \<le> length a" by (simp_all add: k_def minus_mod_eq_mult_div)
  have a: "a = a1 @ b" by (simp add: a1_def b_def)
  have la: "length a1 mod 16 = 0" using k by (simp add: a1_def)
  have lb: "length b < 16" by (simp add: b_def k_def)
  have b0: "drop (length b - length b mod 16) b = b" using lb by simp
  define q where "q = (poly_init key)\<lparr>p_h := poly_blocks (p_r (poly_init key)) hibit24 (0, 0, 0, 0, 0) a1\<rparr>"
  have st: "poly_state key (a1 @ x) = q\<lparr>p_h := poly_blocks (p_r q) hibit24 (p_h q) x,
      p_buffer := drop (length x - length x mod 16) x\<rparr>" for x
    unfolding poly_state_whole [OF la] q_def by simp
  have pa: "poly_state key a = q\<lparr>p_buffer := b\<rparr>"
    unfolding a st b0 using lb by (simp add: poly_blocks_short)
  show ?thesis
  proof (cases "b = []")
    case True
    then show ?thesis
      unfolding pa unfolding a append_assoc st by (subst poly_update_full) simp_all
  next
    case False
    define w where "w = (if 16 - length b > length m then length m else 16 - length b)"
    have lw: "length (b @ take w m) = min 16 (length b + length m)" using lb by (simp add: w_def)
    show ?thesis
    proof (cases "length b + length m < 16")
      case True
      then have "take w m = m" by (auto simp: w_def)
      then have "poly_update (q\<lparr>p_buffer := b\<rparr>) m = q\<lparr>p_buffer := b @ m\<rparr>"
        using False True lw by (simp add: poly_update_def Let_def w_def)
      also have "\<dots> = poly_state key (a1 @ b @ m)"
        unfolding st using True by (simp add: poly_blocks_short)
      finally show ?thesis unfolding pa unfolding a by simp
    next
      case False2: False
      then have w: "w = 16 - length b" by (auto simp: w_def)
      have l16: "length (b @ take w m) = 16" using lw False2 by simp
      have la': "length (b @ take w m) mod 16 = 0" unfolding l16 by simp
      define q' where "q' = q\<lparr>p_h := poly_blocks (p_r q) hibit24 (p_h q) (b @ take w m), p_buffer := []\<rparr>"
      have "poly_update (q\<lparr>p_buffer := b\<rparr>) m = poly_update q' (drop w m)"
        using poly_update_fill [of "q\<lparr>p_buffer := b\<rparr>" b m] False False2 lb unfolding w q'_def by simp
      also have "\<dots> = poly_state key (a1 @ (b @ take w m) @ drop w m)"
        unfolding st drop_whole_blocks [OF la'] poly_blocks_append [OF la']
        by (subst poly_update_full) (simp_all add: q'_def)
      finally show ?thesis unfolding pa unfolding a by simp
    qed
  qed
qed

lemma poly_init_state: "poly_init key = poly_state key []"
  by (simp add: poly_state_def poly_blocks_short poly_init_def)

lemma poly_updates_state: "fold (\<lambda>c p. poly_update p c) cs (poly_init key) = poly_state key (concat cs)"
proof -
  have "fold (\<lambda>c p. poly_update p c) cs (poly_state key a) = poly_state key (a @ concat cs)" for a
    by (induction cs arbitrary: a) (simp_all add: poly_update_state)
  from this [of "[]"] show ?thesis by (simp add: poly_init_state)
qed

section \<open>The last block\<close>

lemma poly_last_correct:
  assumes key: "length key = 32"
  shows "limbs_val (poly_last (poly_state key m)) mod p1305 = poly_spec_acc (clamp key) 0 m mod p1305"
    and "limbs_inv (poly_last (poly_state key m))"
proof -
  define k where "k = length m - length m mod 16"
  define a where "a = take k m"
  define b where "b = drop k m"
  have k: "k mod 16 = 0" "k \<le> length m" by (simp_all add: k_def minus_mod_eq_mult_div)
  have m: "m = a @ b" by (simp add: a_def b_def)
  have la: "length a mod 16 = 0" using k by (simp add: a_def)
  have lb: "length b < 16" by (simp add: b_def k_def)
  let ?r = "p_r (poly_init key)"
  note r = poly_init_r [OF key]
  let ?h = "poly_blocks ?r hibit24 (0, 0, 0, 0, 0) a"
  have z: "limbs_inv (0, 0, 0, 0, 0)" "limbs_val (0, 0, 0, 0, 0) mod p1305 = 0 mod p1305"
    by (simp_all add: val5_def)
  have h: "limbs_val ?h mod p1305 = poly_spec_acc (clamp key) 0 a mod p1305" "limbs_inv ?h"
    using poly_blocks_correct [OF la r(2) z] unfolding r(1) by blast+
  have st: "poly_state key m = (poly_init key)\<lparr>p_h := ?h, p_buffer := b\<rparr>"
    unfolding m poly_state_whole [OF la] using lb by (simp add: poly_blocks_short)
  have acc: "poly_spec_acc rr c (a @ b) = poly_spec_acc rr (poly_spec_acc rr c a) b" for rr c
    using la by (induction a arbitrary: c rule: blocks_induct) (simp_all add: poly_spec_acc_block)
  show "limbs_val (poly_last (poly_state key m)) mod p1305 = poly_spec_acc (clamp key) 0 m mod p1305"
    and "limbs_inv (poly_last (poly_state key m))"
  proof (induct "b = []")
    case True
    then show "limbs_val (poly_last (poly_state key m)) mod p1305 =
        poly_spec_acc (clamp key) 0 m mod p1305"
      and "limbs_inv (poly_last (poly_state key m))"
      unfolding st poly_last_def using h m by simp_all
  next
    case False
    let ?b = "b @ [1] @ replicate (15 - length b) 0"
    have l16: "length ?b = 16" using lb by simp
    have pl: "poly_last (poly_state key m) = poly_mul ?r (poly_add 0 ?h ?b)"
      unfolding st poly_last_def using False poly_blocks_step [OF l16, of ?r 0 ?h "[]"]
      by (simp add: poly_blocks_short)
    note s = block_step [OF r(2) h(2) l16 valid_hibit0 h(1)]
    have "le_num ?b = le_num (b @ [1])" by (simp add: le_num_append)
    then have "(poly_spec_acc (clamp key) 0 a + (le_num ?b + 2 ^ 104 * unat (0 :: u32))) * clamp key mod p1305 =
        poly_spec_acc (clamp key) 0 m mod p1305"
      unfolding m acc using lb False by (simp add: poly_spec_acc_last)
    then show "limbs_val (poly_last (poly_state key m)) mod p1305 =
        poly_spec_acc (clamp key) 0 m mod p1305"
      unfolding pl s(1) r(1) .
    show "limbs_inv (poly_last (poly_state key m))" unfolding pl by (rule s(2))
  qed
qed


section \<open>The full carry\<close>

lemma limb_small: "unat (x :: u32) < 2 ^ 26 \<Longrightarrow> unat (drop_bit 26 x) = 0"
  unfolding unat_shr by simp

lemma poly_carry_correct:
  assumes h: "limbs_inv h"
  shows "limbs_val (poly_carry h) mod p1305 = limbs_val h mod p1305"
    and "limbs_bound (2 ^ 26 - 1) (poly_carry h)"
proof -
  obtain h0 h1 h2 h3 h4 where hh: "h = (h0, h1, h2, h3, h4)" by (cases h)
  have b: "unat h0 < 2 ^ 26" "unat h1 < 2 ^ 26 + 64" "unat h2 < 2 ^ 26" "unat h3 < 2 ^ 26"
      "unat h4 < 2 ^ 26"
    using h unfolding hh limbs_inv.simps by blast+
  define x2 where "x2 = h2 + drop_bit 26 h1"
  define x3 where "x3 = h3 + drop_bit 26 x2"
  define x4 where "x4 = h4 + drop_bit 26 x3"
  define l0 where "l0 = h0 + drop_bit 26 x4 * 5"
  have out: "poly_carry h = (l0 AND 0x3ffffff, (h1 AND 0x3ffffff) + drop_bit 26 l0,
      x2 AND 0x3ffffff, x3 AND 0x3ffffff, x4 AND 0x3ffffff)"
    unfolding poly_carry_def Let_def hh x2_def x3_def x4_def l0_def by simp
  have c1: "unat h1 div 2 ^ 26 \<le> 1" using b(2) by simp
  have x2: "unat x2 = unat h2 + unat h1 div 2 ^ 26"
    unfolding x2_def using b(3) c1 by (subst unat_add_u32) (simp_all add: unat_shr)
  have c2: "unat x2 div 2 ^ 26 \<le> 1" using x2 b(3) c1 by simp
  have x3: "unat x3 = unat h3 + unat x2 div 2 ^ 26"
    unfolding x3_def using b(4) c2 by (subst unat_add_u32) (simp_all add: unat_shr)
  have c3: "unat x3 div 2 ^ 26 \<le> 1" using x3 b(4) c2 by simp
  have x4: "unat x4 = unat h4 + unat x3 div 2 ^ 26"
    unfolding x4_def using b(5) c3 by (subst unat_add_u32) (simp_all add: unat_shr)
  have c4: "unat x4 div 2 ^ 26 \<le> 1" using x4 b(5) c3 by simp
  have m5: "unat (drop_bit 26 x4 * 5) = unat x4 div 2 ^ 26 * 5"
    using c4 by (subst unat_mul5) (simp_all add: unat_shr)
  have l0: "unat l0 = unat h0 + unat x4 div 2 ^ 26 * 5"
    unfolding l0_def using b(1) c4 by (subst unat_add_u32) (simp_all add: m5)
  have c0: "unat l0 div 2 ^ 26 \<le> 1" using l0 b(1) c4 by simp
  have y1: "unat ((h1 AND 0x3ffffff) + drop_bit 26 l0) = unat h1 mod 2 ^ 26 + unat l0 div 2 ^ 26"
  proof -
    have "unat h1 mod 2 ^ 26 < 2 ^ 26" by simp
    then have "unat h1 mod 2 ^ 26 + unat l0 div 2 ^ 26 < 2 ^ 32" using c0 by simp
    then show ?thesis by (subst unat_add_u32) (simp_all only: and26 unat_shr)
  qed
  have top: "unat h1 mod 2 ^ 26 + unat l0 div 2 ^ 26 < 2 ^ 26"
  proof (cases "unat l0 div 2 ^ 26 = 0")
    case False
    then have "unat x4 div 2 ^ 26 \<noteq> 0" using l0 b(1) by auto
    then have "unat x3 div 2 ^ 26 \<noteq> 0" using x4 b(5) by auto
    then have "unat x2 div 2 ^ 26 \<noteq> 0" using x3 b(4) by auto
    then have "unat h1 div 2 ^ 26 \<noteq> 0" using x2 b(3) by auto
    then have "2 ^ 26 \<le> unat h1" by (metis div_less not_less)
    then have "unat h1 mod 2 ^ 26 < 64" using b(2) by (subst mod_if) auto
    then show ?thesis using c0 by simp
  qed simp
  have val: "val5 (unat l0 mod 2 ^ 26) (unat h1 mod 2 ^ 26 + unat l0 div 2 ^ 26) (unat x2 mod 2 ^ 26)
      (unat x3 mod 2 ^ 26) (unat x4 mod 2 ^ 26) + p1305 * (unat x4 div 2 ^ 26) =
      val5 (unat h0) (unat h1) (unat h2) (unat h3) (unat h4)"
    by (rule carry_chain_linear [where qa = 0 and qb = "unat h1 div 2 ^ 26"
          and qc = "unat x2 div 2 ^ 26" and qd = "unat x3 div 2 ^ 26" and ma = "unat h0"])
       (simp_all only: mod_mult_div_eq x2 x3 x4 l0 add_0_right mult_0_right)
  have "limbs_val (poly_carry h) + p1305 * (unat x4 div 2 ^ 26) = limbs_val h"
    unfolding out unfolding hh limbs_val.simps y1 and26 by (rule val)
  then show "limbs_val (poly_carry h) mod p1305 = limbs_val h mod p1305"
    by (metis mod_mult_self2)
  have r: "x mod 2 ^ 26 \<le> 2 ^ 26 - 1" for x :: nat
    by (simp add: less_Suc_eq_le [symmetric])
  show "limbs_bound (2 ^ 26 - 1) (poly_carry h)"
    unfolding out limbs_bound.simps y1 and26 using top by (intro conjI r) simp
qed

section \<open>The conditional subtraction\<close>

lemma unat_sub_top: "unat (w :: u32) < 2 ^ 26 \<Longrightarrow> unat (w - push_bit 26 1) = unat w + (2 ^ 32 - 2 ^ 26)"
proof -
  assume w: "unat w < 2 ^ 26"
  have "w - push_bit 26 1 = w + of_nat (2 ^ 32 - 2 ^ 26)" by simp
  moreover have "unat (of_nat (2 ^ 32 - 2 ^ 26) :: u32) = 2 ^ 32 - 2 ^ 26" by simp
  ultimately show ?thesis using w by (simp only:) (subst unat_add_u32, simp_all)
qed

lemma select_mask:
  shows "(h AND NOT 0) OR (g AND 0) = (h :: u32)" and "(h AND NOT (- 1)) OR (g AND (- 1)) = (g :: u32)"
  by simp_all

lemma reduce_linear:
  fixes h0 :: nat
  assumes "m0 + 2 ^ 26 * q0 = h0 + 5" "m1 + 2 ^ 26 * q1 = h1 + q0" "m2 + 2 ^ 26 * q2 = h2 + q1"
    "m3 + 2 ^ 26 * q3 = h3 + q2"
  shows "val5 h0 h1 h2 h3 h4 + 5 = val5 m0 m1 m2 m3 0 + 2 ^ 104 * (h4 + q3)"
  using assms unfolding val5_def by (simp add: algebra_simps)

lemma poly_reduce_correct:
  assumes h: "limbs_bound (2 ^ 26 - 1) h"
  shows "limbs_val (poly_reduce h) = limbs_val h mod p1305"
    and "limbs_bound (2 ^ 26 - 1) (poly_reduce h)"
proof -
  obtain h0 h1 h2 h3 h4 where hh: "h = (h0, h1, h2, h3, h4)" by (cases h)
  have b: "unat h0 \<le> 2 ^ 26 - 1" "unat h1 \<le> 2 ^ 26 - 1" "unat h2 \<le> 2 ^ 26 - 1"
      "unat h3 \<le> 2 ^ 26 - 1" "unat h4 \<le> 2 ^ 26 - 1"
    using h unfolding hh limbs_bound.simps by blast+
  define g0 where "g0 = h0 + 5"
  define g1 where "g1 = h1 + drop_bit 26 g0"
  define g2 where "g2 = h2 + drop_bit 26 g1"
  define g3 where "g3 = h3 + drop_bit 26 g2"
  define w where "w = h4 + drop_bit 26 g3"
  define mask where "mask = drop_bit 31 (w - push_bit 26 1) - (1 :: u32)"
  have out: "poly_reduce h =
      ((h0 AND NOT mask) OR (g0 AND 0x3ffffff AND mask), (h1 AND NOT mask) OR (g1 AND 0x3ffffff AND mask),
       (h2 AND NOT mask) OR (g2 AND 0x3ffffff AND mask), (h3 AND NOT mask) OR (g3 AND 0x3ffffff AND mask),
       (h4 AND NOT mask) OR ((w - push_bit 26 1) AND mask))"
    unfolding poly_reduce_def hh mask_def w_def g3_def g2_def g1_def g0_def Let_def by (simp add: ac_simps)
  have g0: "unat g0 = unat h0 + 5" unfolding g0_def using b(1) by (subst unat_add_u32) simp_all
  have c0: "unat g0 div 2 ^ 26 \<le> 1" using g0 b(1) by simp
  have g1: "unat g1 = unat h1 + unat g0 div 2 ^ 26"
    unfolding g1_def using b(2) c0 by (subst unat_add_u32) (simp_all add: unat_shr)
  have c1: "unat g1 div 2 ^ 26 \<le> 1" using g1 b(2) c0 by simp
  have g2: "unat g2 = unat h2 + unat g1 div 2 ^ 26"
    unfolding g2_def using b(3) c1 by (subst unat_add_u32) (simp_all add: unat_shr)
  have c2: "unat g2 div 2 ^ 26 \<le> 1" using g2 b(3) c1 by simp
  have g3: "unat g3 = unat h3 + unat g2 div 2 ^ 26"
    unfolding g3_def using b(4) c2 by (subst unat_add_u32) (simp_all add: unat_shr)
  have c3: "unat g3 div 2 ^ 26 \<le> 1" using g3 b(4) c2 by simp
  have w: "unat w = unat h4 + unat g3 div 2 ^ 26"
    unfolding w_def using b(5) c3 by (subst unat_add_u32) (simp_all add: unat_shr)
  define v where "v = val5 (unat g0 mod 2 ^ 26) (unat g1 mod 2 ^ 26) (unat g2 mod 2 ^ 26) (unat g3 mod 2 ^ 26) 0"
  have V: "limbs_val h + 5 = v + 2 ^ 104 * unat w"
    unfolding hh v_def limbs_val.simps w
    by (rule reduce_linear [where ?q0.0 = "unat g0 div 2 ^ 26" and ?q1.0 = "unat g1 div 2 ^ 26"
          and ?q2.0 = "unat g2 div 2 ^ 26"]) (simp_all only: mod_mult_div_eq g0 g1 g2 g3)
  have v: "v < 2 ^ 104"
    using mod_less_divisor [of "2 ^ 26" "unat g0"] mod_less_divisor [of "2 ^ 26" "unat g1"]
      mod_less_divisor [of "2 ^ 26" "unat g2"] mod_less_divisor [of "2 ^ 26" "unat g3"]
    unfolding v_def val5_def by simp
  have Vb: "limbs_val h < 2 ^ 130"
    using b unfolding hh limbs_val.simps val5_def by simp
  show "limbs_val (poly_reduce h) = limbs_val h mod p1305"
    and "limbs_bound (2 ^ 26 - 1) (poly_reduce h)"
  proof (induct "unat w < 2 ^ 26")
    case True
    then have True: "unat w < 2 ^ 26" by simp
    have "unat (drop_bit 31 (w - push_bit 26 1)) = 1"
      unfolding unat_shr unat_sub_top [OF True] using True by simp
    then have "drop_bit 31 (w - push_bit 26 1) = 1" by (metis unsigned_1 word_unat_eq_iff)
    then have mask: "mask = 0" unfolding mask_def by simp
    have r: "poly_reduce h = h" unfolding out mask unfolding hh by simp
    have "limbs_val h < p1305" using V v True unfolding p1305_def by simp
    then show "limbs_val (poly_reduce h) = limbs_val h mod p1305"
      and "limbs_bound (2 ^ 26 - 1) (poly_reduce h)" unfolding r using h by simp_all
  next
    case False
    then have w26: "unat w = 2 ^ 26" using w b(5) c3 by simp
    then have "w = push_bit 26 1" by (simp add: word_unat_eq_iff)
    then have wz: "w - push_bit 26 1 = 0" by simp
    then have mask: "mask = - 1" unfolding mask_def by simp
    have r: "poly_reduce h = (g0 AND 0x3ffffff, g1 AND 0x3ffffff, g2 AND 0x3ffffff, g3 AND 0x3ffffff, 0)"
      unfolding out wz mask by simp
    have "limbs_val (poly_reduce h) = v" unfolding r limbs_val.simps and26 v_def by simp
    moreover have "limbs_val h = p1305 + v" using V w26 unfolding p1305_def by simp
    moreover have "v < p1305" using v unfolding p1305_def by simp
    ultimately show "limbs_val (poly_reduce h) = limbs_val h mod p1305" by simp
    have m: "x mod 2 ^ 26 \<le> 2 ^ 26 - 1" for x :: nat
      by (simp add: less_Suc_eq_le [symmetric])
    show "limbs_bound (2 ^ 26 - 1) (poly_reduce h)"
      unfolding r limbs_bound.simps and26 by (intro conjI m) simp
  qed
qed

section \<open>Packing\<close>

lemma unat_pack:
  assumes "unat (x :: u32) < 2 ^ k" and "k < 32"
  shows "unat (x OR push_bit k y) = (unat x + 2 ^ k * unat y) mod 2 ^ 32"
proof -
  have "\<not> bit (unat x) n \<or> \<not> bit (push_bit k (unat y)) n" for n
    using assms by (metis bit_push_bit_iff bit_take_bit_iff linorder_not_less take_bit_nat_eq_self)
  then have "unat x OR push_bit k (unat y) = unat x + push_bit k (unat y)"
    by (rule disjunctive_add [symmetric])
  moreover have "unat (x OR push_bit k y) = take_bit 32 (unat x OR push_bit k (unat y))"
  proof -
    have "take_bit 32 (unat x) = unat x" using u32_less [of x] by (simp add: take_bit_nat_eq_self_iff)
    then show ?thesis unfolding unsigned_or_eq unsigned_push_bit_eq take_bit_or by simp
  qed
  ultimately show ?thesis by (simp only: take_bit_eq_mod push_bit_eq_mult mult.commute)
qed

lemma num_le_add: "num_le (a + b) n = num_le a n @ num_le b (n div 256 ^ a)"
  by (induction a arbitrary: n) (simp_all add: div_mult2_eq)

lemma num_le_mod: "num_le k (n mod 256 ^ k) = num_le k n"
proof (induction k arbitrary: n)
  case (Suc k)
  have "n mod (256 * 256 ^ k) div 256 = n div 256 mod 256 ^ k"
    by (metis mod_mult2_eq div_mult_self4 mod_less_divisor add.commute div_eq_0_iff add_0 bot_nat_0.not_eq_extremum zero_neq_numeral)
  moreover have "n mod (256 * 256 ^ k) mod 256 = n mod 256" by (simp add: mod_mult2_eq)
  ultimately show ?case using Suc [of "n div 256"] by simp
qed simp

lemma num_le_word: "num_le (4 + k) (f + 2 ^ 32 * y) = num_le 4 f @ num_le k (f div 2 ^ 32 + y)"
proof -
  have "num_le 4 (f + 2 ^ 32 * y) = num_le 4 ((f + 2 ^ 32 * y) mod 256 ^ 4)"
    by (rule num_le_mod [symmetric])
  also have "\<dots> = num_le 4 (f mod 256 ^ 4)" by simp
  also have "\<dots> = num_le 4 f" by (rule num_le_mod)
  finally show ?thesis unfolding num_le_add by (simp add: add.commute)
qed

lemma num_le_word':
  "num_le (4 + k) (c + (f + 2 ^ 32 * y)) = num_le 4 (f + c) @ num_le k ((f + c) div 2 ^ 32 + y)"
  using num_le_word [of k "f + c" y] by (simp add: ac_simps)

lemma ucast_byte: "(ucast (v :: u32) :: byte) = of_nat (unat v mod 256)"
  by (simp add: word_unat_eq_iff unsigned_ucast_eq take_bit_eq_mod unat_of_nat)

lemma num_le4: "num_le 4 n = [of_nat (n mod 256), of_nat (n div 2 ^ 8 mod 256),
    of_nat (n div 2 ^ 16 mod 256), of_nat (n div 2 ^ 24 mod 256)]"
proof -
  have "n div 256 div 256 = n div 2 ^ 16" "n div 256 div 256 div 256 = n div 2 ^ 24"
    by (simp_all add: div_mult2_eq [symmetric])
  moreover have "num_le 4 n = num_le (Suc (Suc (Suc (Suc 0)))) n"
    by (rule arg_cong [of _ _ "\<lambda>k. num_le k n"]) simp
  ultimately show ?thesis by simp
qed

lemma store_le32_num: "store_le32 w = num_le 4 (unat w)"
  unfolding store_le32_def num_le4 ucast_byte unat_shr ..

text \<open>The 128-bit windows of the limb value.\<close>

lemma windows:
  assumes "h0 < 2 ^ 26" "h1 < 2 ^ 26" "h2 < 2 ^ 26" "h3 < (2 ^ 26 :: nat)"
  shows "\<exists>rest. val5 h0 h1 h2 h3 h4 = (h0 + 2 ^ 26 * h1) mod 2 ^ 32 +
     2 ^ 32 * ((h1 div 2 ^ 6 + 2 ^ 20 * h2) mod 2 ^ 32 +
     2 ^ 32 * ((h2 div 2 ^ 12 + 2 ^ 14 * h3) mod 2 ^ 32 +
     2 ^ 32 * ((h3 div 2 ^ 18 + 2 ^ 8 * h4) mod 2 ^ 32 + 2 ^ 32 * rest)))"
proof -
  define a1 b1 where "a1 = h1 mod 2 ^ 6" and "b1 = h1 div 2 ^ 6"
  define a2 b2 where "a2 = h2 mod 2 ^ 12" and "b2 = h2 div 2 ^ 12"
  define a3 b3 where "a3 = h3 mod 2 ^ 18" and "b3 = h3 div 2 ^ 18"
  have e: "h1 = a1 + 2 ^ 6 * b1" "h2 = a2 + 2 ^ 12 * b2" "h3 = a3 + 2 ^ 18 * b3"
    by (simp_all only: a1_def b1_def a2_def b2_def a3_def b3_def mod_mult_div_eq)
  have lt: "a1 < 2 ^ 6" "a2 < 2 ^ 12" "a3 < 2 ^ 18" "b1 < 2 ^ 20" "b2 < 2 ^ 14" "b3 < 2 ^ 8"
    using assms unfolding a1_def a2_def a3_def b1_def b2_def b3_def
    by (simp_all add: less_mult_imp_div_less)
  have m: "(x + 2 ^ 32 * y) mod 2 ^ 32 = x" if "x < 2 ^ 32" for x y :: nat
    using that by simp
  have "(h0 + 2 ^ 26 * h1) mod 2 ^ 32 = (h0 + 2 ^ 26 * a1 + 2 ^ 32 * b1) mod 2 ^ 32"
    unfolding e by (simp add: algebra_simps)
  also have "\<dots> = h0 + 2 ^ 26 * a1" using assms(1) lt(1) by (intro m) simp
  finally have w1: "(h0 + 2 ^ 26 * h1) mod 2 ^ 32 = h0 + 2 ^ 26 * a1" .
  have "(b1 + 2 ^ 20 * h2) mod 2 ^ 32 = (b1 + 2 ^ 20 * a2 + 2 ^ 32 * b2) mod 2 ^ 32"
    unfolding e by (simp add: algebra_simps)
  also have "\<dots> = b1 + 2 ^ 20 * a2" using lt by (intro m) simp
  finally have w2: "(b1 + 2 ^ 20 * h2) mod 2 ^ 32 = b1 + 2 ^ 20 * a2" .
  have "(b2 + 2 ^ 14 * h3) mod 2 ^ 32 = (b2 + 2 ^ 14 * a3 + 2 ^ 32 * b3) mod 2 ^ 32"
    unfolding e by (simp add: algebra_simps)
  also have "\<dots> = b2 + 2 ^ 14 * a3" using lt by (intro m) simp
  finally have w3: "(b2 + 2 ^ 14 * h3) mod 2 ^ 32 = b2 + 2 ^ 14 * a3" .
  show ?thesis
    unfolding w1 w2 w3 b1_def [symmetric] b2_def [symmetric] b3_def [symmetric]
    unfolding val5_def e
    by (rule exI [of _ "(b3 + 2 ^ 8 * h4) div 2 ^ 32"], unfold mod_mult_div_eq)
       (simp add: algebra_simps)
qed


section \<open>The result\<close>

lemma emit_add:
  fixes w0 w1 w2 w3 p0 p1 p2 p3 :: u32
  defines "f0 \<equiv> (ucast w0 + ucast p0 :: u64)"
  defines "f1 \<equiv> ucast w1 + ucast p1 + drop_bit 32 f0"
  defines "f2 \<equiv> ucast w2 + ucast p2 + drop_bit 32 f1"
  defines "f3 \<equiv> ucast w3 + ucast p3 + drop_bit 32 f2"
  shows "store_le32 (ucast f0) @ store_le32 (ucast f1) @ store_le32 (ucast f2) @ store_le32 (ucast f3) =
    num_le 16 (unat w0 + unat p0 + 2 ^ 32 * (unat w1 + unat p1 + 2 ^ 32 * (unat w2 + unat p2 +
      2 ^ 32 * (unat w3 + unat p3 + 2 ^ 32 * rest))))"
proof -
  have f0: "unat f0 = unat w0 + unat p0" and d0: "unat f0 < 2 ^ 34"
    using u32_less [of w0] u32_less [of p0] unfolding f0_def by (simp_all add: unat_add_u64 unat_u64)
  have step: "unat (ucast (w :: u32) + ucast (p :: u32) + drop_bit 32 f) = unat w + unat p + unat f div 2 ^ 32"
      "unat (ucast w + ucast p + drop_bit 32 f) < 2 ^ 34" if "unat f < 2 ^ 34" for w p and f :: u64
  proof -
    have "unat f div 2 ^ 32 < 4" using that by (simp add: less_mult_imp_div_less)
    then have "unat w + unat p + unat f div 2 ^ 32 < 2 ^ 34" "unat w + unat p < 2 ^ 33"
      using u32_less [of w] u32_less [of p] by simp_all
    then show "unat (ucast w + ucast p + drop_bit 32 f) = unat w + unat p + unat f div 2 ^ 32"
      and "unat (ucast w + ucast p + drop_bit 32 f) < 2 ^ 34"
      by (simp_all add: unat_add_u64 unat_u64 unat_shr)
  qed
  note f1 = step [OF d0, of w1 p1, folded f1_def]
  note f2 = step [OF f1(2), of w2 p2, folded f2_def]
  note f3 = step [OF f2(2), of w3 p3, folded f3_def]
  have st: "store_le32 (ucast (f :: u64)) = num_le 4 (unat f)" for f
    unfolding store_le32_num unat_u32 using num_le_mod [of 4 "unat f"] by simp
  have n: "num_le 16 x = num_le (4 + (4 + (4 + (4 + 0)))) x" for x
    by (rule arg_cong [of _ _ "\<lambda>k. num_le k x"]) simp
  show ?thesis
    unfolding n num_le_word num_le_word' num_le.simps(1) append_Nil2 st f0 f1(1) f2(1) f3(1) ..
qed


lemma digits32:
  fixes n :: nat
  shows "n mod 2 ^ 32 + 2 ^ 32 * (n div 2 ^ 32 mod 2 ^ 32 + 2 ^ 32 * (n div 2 ^ 64 mod 2 ^ 32 +
    2 ^ 32 * (n div 2 ^ 96 mod 2 ^ 32 + 2 ^ 32 * (n div 2 ^ 128)))) = n"
proof -
  have s: "n div k mod 2 ^ 32 + 2 ^ 32 * (n div (k * 2 ^ 32)) = n div k" for k :: nat
    unfolding div_mult2_eq by (rule mod_mult_div_eq)
  have "n div 2 ^ 96 mod 2 ^ 32 + 2 ^ 32 * (n div 2 ^ 128) = n div 2 ^ 96"
    "n div 2 ^ 64 mod 2 ^ 32 + 2 ^ 32 * (n div 2 ^ 96) = n div 2 ^ 64"
    "n div 2 ^ 32 mod 2 ^ 32 + 2 ^ 32 * (n div 2 ^ 64) = n div 2 ^ 32"
    using s [of "2 ^ 96"] s [of "2 ^ 64"] s [of "2 ^ 32"] by simp_all
  then show ?thesis by (simp only: mod_mult_div_eq)
qed

lemma num_le_high: "num_le 16 (a + 2 ^ 32 * (b + 2 ^ 32 * (c + 2 ^ 32 * (d + 2 ^ 32 * e)))) =
    num_le 16 (a + 2 ^ 32 * (b + 2 ^ 32 * (c + 2 ^ 32 * d)))"
proof -
  have "a + 2 ^ 32 * (b + 2 ^ 32 * (c + 2 ^ 32 * (d + 2 ^ 32 * e))) =
      a + 2 ^ 32 * (b + 2 ^ 32 * (c + 2 ^ 32 * d)) + 256 ^ 16 * e" by (simp add: algebra_simps)
  then show ?thesis using num_le_mod [of 16] by (metis mod_mult_self2)
qed

lemma poly_emit_correct:
  assumes h: "limbs_bound (2 ^ 26 - 1) h" and q: "length q = 16"
  shows "poly_emit h (load_le32 q, load_le32 (drop 4 q), load_le32 (drop 8 q), load_le32 (drop 12 q)) =
    num_le 16 (limbs_val h + le_num q)"
proof -
  obtain h0 h1 h2 h3 h4 where hh: "h = (h0, h1, h2, h3, h4)" by (cases h)
  have "unat h0 \<le> 2 ^ 26 - 1" "unat h1 \<le> 2 ^ 26 - 1" "unat h2 \<le> 2 ^ 26 - 1"
      "unat h3 \<le> 2 ^ 26 - 1"
    using h unfolding hh limbs_bound.simps by blast+
  then have b: "unat h0 < 2 ^ 26" "unat h1 < 2 ^ 26" "unat h2 < 2 ^ 26" "unat h3 < 2 ^ 26"
    by simp_all
  define w0 where "w0 = h0 OR push_bit 26 h1"
  define w1 where "w1 = drop_bit 6 h1 OR push_bit 20 h2"
  define w2 where "w2 = drop_bit 12 h2 OR push_bit 14 h3"
  define w3 where "w3 = drop_bit 18 h3 OR push_bit 8 h4"
  have u: "unat w0 = (unat h0 + 2 ^ 26 * unat h1) mod 2 ^ 32"
      "unat w1 = (unat h1 div 2 ^ 6 + 2 ^ 20 * unat h2) mod 2 ^ 32"
      "unat w2 = (unat h2 div 2 ^ 12 + 2 ^ 14 * unat h3) mod 2 ^ 32"
      "unat w3 = (unat h3 div 2 ^ 18 + 2 ^ 8 * unat h4) mod 2 ^ 32"
    unfolding w0_def w1_def w2_def w3_def
    using b by (subst unat_pack; simp add: unat_shr less_mult_imp_div_less)+
  obtain rest where V: "limbs_val h = unat w0 + 2 ^ 32 * (unat w1 + 2 ^ 32 * (unat w2 +
      2 ^ 32 * (unat w3 + 2 ^ 32 * rest)))"
    using windows [OF b] unfolding hh limbs_val.simps u by blast
  let ?p = "\<lambda>k. unat (load_le32 (drop k q))"
  have p: "?p 0 = le_num q mod 2 ^ 32" "?p 4 = le_num q div 2 ^ 32 mod 2 ^ 32"
      "?p 8 = le_num q div 2 ^ 64 mod 2 ^ 32" "?p 12 = le_num q div 2 ^ 96 mod 2 ^ 32"
    using q unat_load_drop [of 0 q] unat_load_drop [of 4 q] unat_load_drop [of 8 q]
      unat_load_drop [of 12 q] by simp_all
  have P: "le_num q = ?p 0 + 2 ^ 32 * (?p 4 + 2 ^ 32 * (?p 8 + 2 ^ 32 * (?p 12 +
      2 ^ 32 * (le_num q div 2 ^ 128))))"
    unfolding p by (rule digits32 [symmetric])
  have out: "poly_emit h (load_le32 q, load_le32 (drop 4 q), load_le32 (drop 8 q), load_le32 (drop 12 q)) =
      num_le 16 (unat w0 + ?p 0 + 2 ^ 32 * (unat w1 + ?p 4 + 2 ^ 32 * (unat w2 + ?p 8 +
        2 ^ 32 * (unat w3 + ?p 12 + 2 ^ 32 * (rest + le_num q div 2 ^ 128)))))"
    using emit_add [of w0 "load_le32 q" w1 "load_le32 (drop 4 q)" w2 "load_le32 (drop 8 q)" w3
        "load_le32 (drop 12 q)" "rest + le_num q div 2 ^ 128"]
    unfolding poly_emit_def hh w0_def w1_def w2_def w3_def Let_def by simp
  have "unat w0 + ?p 0 + 2 ^ 32 * (unat w1 + ?p 4 + 2 ^ 32 * (unat w2 + ?p 8 +
        2 ^ 32 * (unat w3 + ?p 12 + 2 ^ 32 * (rest + le_num q div 2 ^ 128)))) = limbs_val h + le_num q"
    unfolding V using P by (simp add: algebra_simps)
  then show ?thesis unfolding out by (rule arg_cong)
qed

lemma limbs_bound_mono: "limbs_bound B h \<Longrightarrow> B \<le> C \<Longrightarrow> limbs_bound C h"
  by (cases h) auto

lemma poly_spec_acc_less: "m \<noteq> [] \<Longrightarrow> poly_spec_acc r acc m < p1305"
proof (induction r acc m rule: poly_spec_acc.induct)
  case (1 r acc m)
  then show ?case
    by (cases "drop 16 m = []") (simp_all add: poly_spec_acc.simps [of r acc m] p1305_def)
qed

lemma poly_spec_acc_mod: "poly_spec_acc r 0 m mod p1305 = poly_spec_acc r 0 m"
  by (cases "m = []") (simp_all add: poly_spec_acc_less)

lemma poly_finish_state:
  assumes key: "length key = 32"
  shows "poly_finish (poly_state key m) = poly_spec key m"
proof -
  let ?l = "poly_last (poly_state key m)"
  note l = poly_last_correct [OF key, of m]
  note c = poly_carry_correct [OF l(2)]
  note r = poly_reduce_correct [OF c(2)]
  have pad: "p_pad (poly_state key m) = (load_le32 (drop 16 key), load_le32 (drop 4 (drop 16 key)),
      load_le32 (drop 8 (drop 16 key)), load_le32 (drop 12 (drop 16 key)))"
    by (simp add: poly_state_def poly_init_def)
  have "poly_finish (poly_state key m) = num_le 16 (limbs_val (poly_reduce (poly_carry ?l)) + le_num (drop 16 key))"
    unfolding poly_finish_def pad by (rule poly_emit_correct [OF r(2)]) (simp add: key)
  then show ?thesis
    unfolding r(1) c(1) l(1) poly_spec_def using key by (simp add: poly_spec_acc_mod)
qed

section \<open>Property\<close>

definition rfc_key :: bytes where
  "rfc_key = [0x85, 0xd6, 0xbe, 0x78, 0x57, 0x55, 0x6d, 0x33, 0x7f, 0x44, 0x52, 0xfe, 0x42, 0xd5,
     0x06, 0xa8, 0x01, 0x03, 0x80, 0x8a, 0xfb, 0x0d, 0xb2, 0xfd, 0x4a, 0xbf, 0xf6, 0xaf, 0x41, 0x49,
     0xf5, 0x1b]"

text \<open>C2: The 26-bit limb implementation of Poly1305 (init, any sequence of update calls, finish)
  computes the RFC 8439 authenticator, that is ((sum of blocks * r^i) mod 2^130-5 + s) mod
  2^128 in little endian, for every 32 byte key and every way of cutting the message into
  updates.\<close>

theorem poly1305_correct:
  assumes "length key = 32"
  shows "poly_finish (fold (\<lambda>c p. poly_update p c) cs (poly_init key)) = poly_spec key (concat cs)"
  unfolding poly_updates_state using assms by (rule poly_finish_state)

theorem poly1305_correct_witness:
  "poly_finish (poly_update (poly_update (poly_init rfc_key) (str_bytes ''Cryptographic For''))
      (str_bytes ''um Research Group'')) =
    poly_spec rfc_key (str_bytes ''Cryptographic Forum Research Group'')"
  using poly1305_correct [of rfc_key "[str_bytes ''Cryptographic For'', str_bytes ''um Research Group'']"]
  by (simp add: rfc_key_def str_bytes_def)

end
