(* ===== verification/Aead.thy ===== *)
theory Aead
  imports Poly1305_Correct
begin

text \<open>
  The authenticated encryption of \<open>client/src/crypto/crypto.cpp\<close>: the MAC input of RFC 8439, the
  one-time key from block 0 of the key stream, the constant-time comparison, \<open>aead_encrypt\<close> and
  \<open>aead_decrypt\<close>. A decryption that the code answers with \<open>false\<close> is \<open>None\<close>.
\<close>

section \<open>The code\<close>

definition poly_tag :: "bytes \<Rightarrow> bytes \<Rightarrow> bytes \<Rightarrow> bytes" where
  "poly_tag polyKey aad ct =
     (let p = poly_init polyKey;
          p = poly_update p aad;
          p = (if length aad mod 16 \<noteq> 0
               then poly_update p (replicate (16 - length aad mod 16) 0) else p);
          p = poly_update p ct;
          p = (if length ct mod 16 \<noteq> 0
               then poly_update p (replicate (16 - length ct mod 16) 0) else p);
          a = of_nat (length aad) :: u64;
          cl = of_nat (length ct) :: u64;
          lengths = map (\<lambda>i. ucast (drop_bit (8 * i) a)) [0..<8] @
            map (\<lambda>i. ucast (drop_bit (8 * i) cl)) [0..<8];
          p = poly_update p lengths
      in poly_finish p)"

definition make_poly_key :: "bytes \<Rightarrow> bytes \<Rightarrow> bytes" where
  "make_poly_key key nonce =
     take 32 (chacha20_block (load_words 8 key) 0 (load_words 3 nonce))"

definition ct_equal :: "bytes \<Rightarrow> bytes \<Rightarrow> nat \<Rightarrow> bool" where
  "ct_equal a b n = (fold (\<lambda>i diff. diff OR (a ! i XOR b ! i)) [0..<n] 0 = 0)"

definition aead_encrypt :: "bytes \<Rightarrow> bytes \<Rightarrow> bytes \<Rightarrow> bytes \<Rightarrow> bytes \<times> bytes" where
  "aead_encrypt key nonce aad pt =
     (let polyKey = make_poly_key key nonce;
          ct = chacha20_xor key nonce 1 pt
      in (ct, poly_tag polyKey aad ct))"

definition aead_decrypt :: "bytes \<Rightarrow> bytes \<Rightarrow> bytes \<Rightarrow> bytes \<Rightarrow> bytes \<Rightarrow> bytes option" where
  "aead_decrypt key nonce aad ct tag =
     (let polyKey = make_poly_key key nonce;
          expect = poly_tag polyKey aad ct
      in if \<not> ct_equal expect tag 16 then None
         else Some (chacha20_xor key nonce 1 ct))"

section \<open>Constant-time comparison\<close>

lemma word_or_zero_iff: "(x :: byte) OR y = 0 \<longleftrightarrow> x = 0 \<and> y = 0"
  by (auto simp: bit_eq_iff bit_simps)

lemma word_xor_zero_iff: "(x :: byte) XOR y = 0 \<longleftrightarrow> x = y"
  by (auto simp: bit_eq_iff bit_simps)

lemma ct_fold:
  "fold (\<lambda>i diff. diff OR (a ! i XOR b ! i)) is d = 0 \<longleftrightarrow>
     d = (0 :: byte) \<and> (\<forall>i \<in> set is. a ! i = b ! i)"
  by (induction "is" arbitrary: d) (auto simp: word_or_zero_iff word_xor_zero_iff)

lemma ct_equal_iff:
  assumes "n \<le> length a" "n \<le> length b"
  shows "ct_equal a b n \<longleftrightarrow> take n a = take n b"
  using assms by (auto simp: ct_equal_def ct_fold list_eq_iff_nth_eq)

section \<open>The tag\<close>

definition pad16 :: "bytes \<Rightarrow> bytes" where
  "pad16 bs = bs @ replicate (if length bs mod 16 = 0 then 0 else 16 - length bs mod 16) 0"

text \<open>The MAC input of RFC 8439, section 2.8.\<close>

definition mac_data :: "bytes \<Rightarrow> bytes \<Rightarrow> bytes" where
  "mac_data aad ct = pad16 aad @ pad16 ct @ le_bytes 8 (of_nat (length aad) :: u64) @
     le_bytes 8 (of_nat (length ct) :: u64)"

lemma le_bytes_map: "le_bytes n (w :: 'a::len word) = map (\<lambda>i. ucast (drop_bit (8 * i) w)) [0..<n]"
  by (rule nth_equalityI) (simp_all add: nth_le_bytes)

lemma poly_tag_updates:
  "poly_tag k aad ct = poly_finish (fold (\<lambda>c p. poly_update p c)
     [aad, replicate (if length aad mod 16 = 0 then 0 else 16 - length aad mod 16) 0,
      ct, replicate (if length ct mod 16 = 0 then 0 else 16 - length ct mod 16) 0,
      le_bytes 8 (of_nat (length aad) :: u64) @ le_bytes 8 (of_nat (length ct) :: u64)]
     (poly_init k))"
proof -
  have e: "poly_update (poly_state k m) [] = poly_state k m" for m
    using poly_update_state [of k m "[]"] by simp
  show ?thesis
    unfolding poly_tag_def Let_def le_bytes_map
    by (simp add: poly_init_state poly_update_state del: upt_rec_numeral upt_Suc)
qed

lemma length_load_block: "length (chacha20_block (load_words 8 k) c (load_words 3 n)) = 64"
  by (simp add: length_chacha20_block)

lemma length_make_poly_key [simp]: "length (make_poly_key key nonce) = 32"
  by (simp add: make_poly_key_def length_load_block)

lemma poly_tag_spec:
  assumes "length k = 32"
  shows "poly_tag k aad ct = poly_spec k (mac_data aad ct)"
  unfolding poly_tag_updates poly_updates_state poly_finish_state [OF assms]
  by (simp add: mac_data_def pad16_def)

lemma length_num_le [simp]: "length (num_le n x) = n"
  by (induction n arbitrary: x) auto

lemma length_poly_tag [simp, len_simps]: "length k = 32 \<Longrightarrow> length (poly_tag k aad ct) = 16"
  by (simp add: poly_tag_spec poly_spec_def)

lemma aead_decrypt_iff:
  assumes "length tag = 16"
  shows "aead_decrypt key nonce aad ct tag = Some pt \<longleftrightarrow>
     tag = poly_spec (make_poly_key key nonce) (mac_data aad ct) \<and> ct = chacha20_xor key nonce 1 pt"
proof -
  have "ct_equal (poly_tag (make_poly_key key nonce) aad ct) tag 16 \<longleftrightarrow>
      tag = poly_spec (make_poly_key key nonce) (mac_data aad ct)"
    using assms by (subst ct_equal_iff) (auto simp: poly_tag_spec poly_spec_def)
  then show ?thesis by (auto simp: aead_decrypt_def Let_def)
qed

lemma aead_encrypt_eq:
  "aead_encrypt key nonce aad pt = (chacha20_xor key nonce 1 pt,
     poly_spec (make_poly_key key nonce) (mac_data aad (chacha20_xor key nonce 1 pt)))"
  by (simp add: aead_encrypt_def Let_def poly_tag_spec)

lemma length_aead_encrypt [simp, len_simps]:
  "length (fst (aead_encrypt key nonce aad pt)) = length pt"
  "length (snd (aead_encrypt key nonce aad pt)) = 16"
  by (simp_all add: aead_encrypt_eq poly_spec_def)

lemma aead_decrypt_encrypt [simp, codec_simps]:
  "aead_decrypt key nonce aad (fst (aead_encrypt key nonce aad pt))
     (snd (aead_encrypt key nonce aad pt)) = Some pt"
  by (simp add: aead_encrypt_eq aead_decrypt_iff poly_spec_def)

section \<open>Properties\<close>

text \<open>C3: aead_decrypt returns a plaintext exactly when the ciphertext and tag are what
  aead_encrypt produces from it under the same key, nonce and associated data, and the tag
  is the RFC 8439 authenticator of the padded data.\<close>

theorem aead_accepts_only_its_encryption:
  assumes "length tag = 16"
  shows "aead_decrypt key nonce aad ct tag = Some pt \<longleftrightarrow>
     aead_encrypt key nonce aad pt = (ct, tag) \<and>
     tag = poly_spec (make_poly_key key nonce) (mac_data aad ct)"
  using assms by (auto simp: aead_decrypt_iff aead_encrypt_eq)

theorem aead_accepts_only_its_encryption_witness:
  "(let (ct, tag) = aead_encrypt rfc_key (replicate 12 7) [] (str_bytes ''abc'')
    in tag = poly_spec (make_poly_key rfc_key (replicate 12 7)) (mac_data [] ct))"
  using aead_accepts_only_its_encryption
    [of "snd (aead_encrypt rfc_key (replicate 12 7) [] (str_bytes ''abc''))" rfc_key "replicate 12 7"
       "[]" "fst (aead_encrypt rfc_key (replicate 12 7) [] (str_bytes ''abc''))" "str_bytes ''abc''"]
    aead_decrypt_encrypt [of rfc_key "replicate 12 7" "[]" "str_bytes ''abc''"]
  by (simp add: case_prod_beta Let_def)

end
