(* ===== verification/SecureChannel.thy ===== *)
theory SecureChannel
  imports Aead Streams
begin

text \<open>
  The sealed framing of \<open>client/src/crypto/crypto.cpp\<close> and \<open>client/include/crypto/crypto.h\<close>: each
  message is one encrypted record whose nonce is the sender's record counter. The operations are
  stated over any byte stream; the overloads on a bare socket are separate definitions, proved to
  agree with them. The client lemmas are proved once in the context of \<open>byte_stream_laws\<close>.
\<close>

section \<open>The code\<close>

record channel =
  tx_key :: bytes
  rx_key :: bytes
  tx_ctr :: u64
  rx_ctr :: u64
  active :: bool

definition chan_init :: channel where
  "chan_init = \<lparr>tx_key = replicate 32 0, rx_key = replicate 32 0, tx_ctr = 0, rx_ctr = 0,
     active = False\<rparr>"

definition chan_activate :: "bytes \<Rightarrow> bytes \<Rightarrow> channel \<Rightarrow> channel" where
  "chan_activate txKey rxKey c =
     c\<lparr>tx_key := txKey, rx_key := rxKey, tx_ctr := 0, rx_ctr := 0, active := True\<rparr>"

definition kMaxRecord :: u32 where "kMaxRecord = push_bit 20 256"

definition nonce_from_counter :: "u64 \<Rightarrow> bytes" where
  "nonce_from_counter ctr = map (\<lambda>i. ucast (drop_bit (8 * i) ctr)) [0..<8] @ [0, 0, 0, 0]"

definition chan_send ::
    "'s byte_stream \<Rightarrow> u16 \<Rightarrow> u16 \<Rightarrow> u64 \<Rightarrow> bytes \<Rightarrow> channel \<times> 's \<Rightarrow> bool \<times> channel \<times> 's" where
  "chan_send m opc status req_id payload = (\<lambda>(c, s).
     if \<not> active c then (case send_message m opc status req_id payload s of (ok, s') \<Rightarrow> (ok, c, s'))
     else
       let len = of_nat (length payload) :: u32;
           h = mk_header opc status req_id len;
           plain = enc_header h @ take (unat len) payload;
           nonce = nonce_from_counter (tx_ctr c);
           c = c\<lparr>tx_ctr := tx_ctr c + 1\<rparr>;
           (ct, tag) = aead_encrypt (tx_key c) nonce [] plain;
           rec = ct @ tag;
           recLen = of_nat (length rec) :: u32
       in case bs_write m (store_le32 recLen) s of
            (False, s1) \<Rightarrow> (False, c, s1)
          | (True, s1) \<Rightarrow> (case bs_write m rec s1 of (ok, s2) \<Rightarrow> (ok, c, s2)))"

definition chan_open :: "channel \<Rightarrow> u32 \<Rightarrow> bytes \<Rightarrow> (msg_header \<times> bytes) option" where
  "chan_open c recLen rec =
     (let nonce = nonce_from_counter (rx_ctr c);
          plainLen = unat recLen - 16
      in case aead_decrypt (rx_key c) nonce [] (take plainLen rec) (drop plainLen rec) of
           None \<Rightarrow> None
         | Some plain \<Rightarrow>
             let h = dec_header plain in
             if h_magic h \<noteq> kMagic then None
             else if unat (h_length h) \<noteq> plainLen - 20 then None
             else Some (h, drop 20 plain))"

definition chan_recv ::
    "'s byte_stream \<Rightarrow> channel \<times> 's \<Rightarrow> (msg_header \<times> bytes) option \<times> channel \<times> 's" where
  "chan_recv m = (\<lambda>(c, s).
     if \<not> active c then (case recv_message m s of (r, s') \<Rightarrow> (r, c, s'))
     else case bs_read m 4 s of
         (None, s1) \<Rightarrow> (None, c, s1)
       | (Some lenbuf, s1) \<Rightarrow>
           let recLen = load_le32 lenbuf in
           if recLen < 20 + 16 \<or> recLen > kMaxRecord then (None, c, s1)
           else (case bs_read m (unat recLen) s1 of
               (None, s2) \<Rightarrow> (None, c, s2)
             | (Some rec, s2) \<Rightarrow> (chan_open c recLen rec, c\<lparr>rx_ctr := rx_ctr c + 1\<rparr>, s2)))"

text \<open>The overloads on a socket.\<close>

definition chan_send_sock ::
    "u16 \<Rightarrow> u16 \<Rightarrow> u64 \<Rightarrow> bytes \<Rightarrow> channel \<times> socket \<Rightarrow> bool \<times> channel \<times> socket" where
  "chan_send_sock opc status req_id payload = (\<lambda>(c, k).
     if \<not> active c
     then (case send_message_sock opc status req_id payload k of (ok, k') \<Rightarrow> (ok, c, k'))
     else
       let len = of_nat (length payload) :: u32;
           h = mk_header opc status req_id len;
           plain = enc_header h @ take (unat len) payload;
           nonce = nonce_from_counter (tx_ctr c);
           c = c\<lparr>tx_ctr := tx_ctr c + 1\<rparr>;
           (ct, tag) = aead_encrypt (tx_key c) nonce [] plain;
           rec = ct @ tag;
           recLen = of_nat (length rec) :: u32
       in case send_all (store_le32 recLen) k of
            (False, k1) \<Rightarrow> (False, c, k1)
          | (True, k1) \<Rightarrow> (case send_all rec k1 of (ok, k2) \<Rightarrow> (ok, c, k2)))"

definition chan_recv_sock ::
    "channel \<times> socket \<Rightarrow> (msg_header \<times> bytes) option \<times> channel \<times> socket" where
  "chan_recv_sock = (\<lambda>(c, k).
     if \<not> active c then (case recv_message_sock k of (r, k') \<Rightarrow> (r, c, k'))
     else case recv_all 4 k of
         (None, k1) \<Rightarrow> (None, c, k1)
       | (Some lenbuf, k1) \<Rightarrow>
           let recLen = load_le32 lenbuf in
           if recLen < 20 + 16 \<or> recLen > kMaxRecord then (None, c, k1)
           else (case recv_all (unat recLen) k1 of
               (None, k2) \<Rightarrow> (None, c, k2)
             | (Some rec, k2) \<Rightarrow> (chan_open c recLen rec, c\<lparr>rx_ctr := rx_ctr c + 1\<rparr>, k2)))"

lemma send_all_openD: "send_all bs k = (b, k') \<Longrightarrow> k_open k' = k_open k"
  using send_all_open [of bs k] by simp

lemma chan_send_sock_eq:
  "k_open k \<Longrightarrow> chan_send_sock opc st rid p (c, k) = chan_send socket_stream opc st rid p (c, k)"
  by (auto simp: chan_send_sock_def chan_send_def send_message_sock_eq Let_def socket_stream_def
      socket_write_def dest: send_all_openD split: prod.splits bool.splits)

lemma chan_recv_sock_eq:
  "k_open k \<Longrightarrow> chan_recv_sock (c, k) = chan_recv socket_stream (c, k)"
  using recv_all_open [of 4 k]
  by (auto simp: chan_recv_sock_def chan_recv_def recv_message_sock_eq Let_def socket_stream_def
      socket_read_def split: prod.splits option.splits)

section \<open>The record on the wire\<close>

lemma store_le32_bytes: "store_le32 w = le_bytes 4 w"
  by (simp add: store_le32_def le_bytes_map eval_nat_numeral(3) numeral_eq_Suc upt_rec)

lemma load_store_le32 [simp, codec_simps]: "load_le32 (store_le32 w) = w"
proof -
  have "unat (load_le32 (store_le32 w)) = le_num (store_le32 w) mod 2 ^ 32"
    by (rule unat_load_le32) (simp add: store_le32_def)
  also have "le_num (store_le32 w) = unat w mod 2 ^ 32"
  proof -
    have "le_num (num_le n x) = x mod 256 ^ n" for n x
    proof (induction n arbitrary: x)
      case (Suc n)
      have "unat (of_nat (x mod 256) :: byte) = x mod 256" by (simp add: unat_of_nat)
      then show ?case using Suc [of "x div 256"] by (simp add: mod_mult2_eq)
    qed simp
    then show ?thesis by (simp add: store_le32_num)
  qed
  finally show ?thesis using u32_less [of w] by (simp add: word_unat_eq_iff)
qed

definition sealed_record :: "bytes \<Rightarrow> u64 \<Rightarrow> u16 \<Rightarrow> u16 \<Rightarrow> u64 \<Rightarrow> bytes \<Rightarrow> bytes" where
  "sealed_record key ctr opc st rid p =
     (case aead_encrypt key (nonce_from_counter ctr) [] (frame_bytes opc st rid p) of
        (ct, tag) \<Rightarrow> store_le32 (of_nat (length p + 36)) @ ct @ tag)"

text \<open>A payload a record can carry: 36 bytes of header and tag below the 256 MiB limit.\<close>

abbreviation fits_record :: "bytes \<Rightarrow> bool" where
  "fits_record p \<equiv> length p + 36 \<le> 268435456"

lemma kMaxRecord_val: "kMaxRecord = 268435456"
  by (simp add: kMaxRecord_def)

lemma length_frame_bytes: "length (frame_bytes opc st rid p) = length p + 20"
  by (simp add: frame_bytes_def)

lemma length_store_le32 [simp]: "length (store_le32 w) = 4"
  by (simp add: store_le32_def)

context byte_stream_laws
begin

lemma chan_send_sealed:
  assumes r: "ready s" and a: "active c" and p: "fits_record p"
    and ret: "chan_send m opc st rid p (c, s) = (True, c', s')"
  shows "sent s' = sent s @ sealed_record (tx_key c) (tx_ctr c) opc st rid p \<and>
     c' = c\<lparr>tx_ctr := tx_ctr c + 1\<rparr> \<and> unread s' = unread s \<and> ready s'"
proof -
  obtain ct tag where e: "aead_encrypt (tx_key c) (nonce_from_counter (tx_ctr c)) []
      (frame_bytes opc st rid p) = (ct, tag)" by fastforce
  have l: "length ct = length p + 20" "length tag = 16"
    using length_aead_encrypt [of "tx_key c" "nonce_from_counter (tx_ctr c)" "[]" "frame_bytes opc st rid p"]
    unfolding e by (simp_all add: length_frame_bytes)
  have un: "unat (of_nat (length p) :: u32) = length p" using p by (simp add: unat_of_nat)
  have n: "length p + 20 + 16 = length p + 36" by simp
  from ret obtain s1 where w: "bs_write m (store_le32 (of_nat (length p + 36))) s = (True, s1)"
      "bs_write m (ct @ tag) s1 = (True, s')" "c' = c\<lparr>tx_ctr := tx_ctr c + 1\<rparr>"
    using a un e l
    by (auto simp: chan_send_def Let_def frame_bytes_def add.commute split: prod.splits bool.splits)
  show ?thesis
    using write_ok [OF r w(1)] write_ok [OF _ w(2)] w(3) by (simp add: sealed_record_def e)
qed

lemma chan_recv_sealed:
  assumes r: "ready s" and a: "active c" and p: "fits_record p"
    and u: "unread s = sealed_record (rx_key c) (rx_ctr c) opc st rid p @ rest"
  shows "\<exists>s'. chan_recv m (c, s) = (Some (mk_header opc st rid (of_nat (length p)), p),
      c\<lparr>rx_ctr := rx_ctr c + 1\<rparr>, s') \<and> unread s' = rest \<and> sent s' = sent s \<and> ready s'"
proof -
  obtain ct tag where e: "aead_encrypt (rx_key c) (nonce_from_counter (rx_ctr c)) []
      (frame_bytes opc st rid p) = (ct, tag)" by fastforce
  have l: "length ct = length p + 20" "length tag = 16"
    using length_aead_encrypt [of "rx_key c" "nonce_from_counter (rx_ctr c)" "[]" "frame_bytes opc st rid p"]
    unfolding e by (simp_all add: length_frame_bytes)
  have d: "aead_decrypt (rx_key c) (nonce_from_counter (rx_ctr c)) [] ct tag = Some (frame_bytes opc st rid p)"
    using aead_decrypt_encrypt [of "rx_key c" "nonce_from_counter (rx_ctr c)" "[]" "frame_bytes opc st rid p"]
    unfolding e by simp
  let ?n = "of_nat (length p + 36) :: u32"
  have un: "unat ?n = length p + 36" "unat (of_nat (length p) :: u32) = length p"
    using p by (simp_all add: unat_of_nat del: of_nat_add)
  have b: "\<not> (?n < 20 + 16 \<or> ?n > kMaxRecord)"
    using p by (simp add: word_less_nat_alt kMaxRecord_val un del: of_nat_add)
  have u4: "unread s = store_le32 ?n @ ct @ tag @ rest" using u by (simp add: sealed_record_def e)
  from r obtain s1 where s1: "bs_read m 4 s = (Some (store_le32 ?n), s1)"
      "unread s1 = ct @ tag @ rest" "sent s1 = sent s" "ready s1"
    by (rule read_cases [of s 4]) (simp_all add: u4)
  from s1(4) obtain s2 where s2: "bs_read m (length p + 36) s1 = (Some (ct @ tag), s2)"
      "unread s2 = rest" "sent s2 = sent s1" "ready s2"
    by (rule read_cases [of s1 "length p + 36"]) (simp_all add: s1 l)
  have o: "chan_open c ?n (ct @ tag) = Some (mk_header opc st rid (of_nat (length p)), p)"
    using l d un by (simp add: chan_open_def frame_bytes_def Let_def del: of_nat_add)
  have "chan_recv m (c, s) = (Some (mk_header opc st rid (of_nat (length p)), p),
      c\<lparr>rx_ctr := rx_ctr c + 1\<rparr>, s2)"
    using a b s1 s2 o un by (simp add: chan_recv_def del: of_nat_add)
  then show ?thesis using s1 s2 by auto
qed

lemma chan_recv_sound:
  assumes r: "ready s" and a: "active c"
    and ret: "chan_recv m (c, s) = (Some (h, p), c', s')"
  shows "unread s = sealed_record (rx_key c) (rx_ctr c) (h_op h) (h_status h) (h_req_id h) p @ unread s'
    \<and> h_magic h = kMagic \<and> length p = unat (h_length h) \<and> fits_record p \<and>
    c' = c\<lparr>rx_ctr := rx_ctr c + 1\<rparr> \<and> ready s'"
proof -
  from ret a obtain lenbuf s1 rec where 1: "bs_read m 4 s = (Some lenbuf, s1)"
    and b: "\<not> load_le32 lenbuf < 20 + 16" "\<not> load_le32 lenbuf > kMaxRecord"
    and 2: "bs_read m (unat (load_le32 lenbuf)) s1 = (Some rec, s')"
    and o: "chan_open c (load_le32 lenbuf) rec = Some (h, p)"
    and c': "c' = c\<lparr>rx_ctr := rx_ctr c + 1\<rparr>"
    by (auto simp: chan_recv_def Let_def split: prod.splits option.splits if_splits)
  let ?n = "load_le32 lenbuf"
  have n: "36 \<le> unat ?n" "unat ?n \<le> 268435456"
    using b by (simp_all add: word_less_nat_alt kMaxRecord_val)
  from r 1 have u1: "lenbuf = take 4 (unread s)" "4 \<le> length (unread s)"
      "unread s1 = drop 4 (unread s)" "ready s1"
    by (cases rule: read_cases [of s 4]; simp)+
  from u1(4) 2 have u2: "rec = take (unat ?n) (unread s1)" "unat ?n \<le> length (unread s1)"
      "unread s' = drop (unat ?n) (unread s1)" "ready s'"
    by (cases rule: read_cases [of s1 "unat ?n"]; simp)+
  define k where "k = unat ?n - 16"
  from o obtain plain where d: "aead_decrypt (rx_key c) (nonce_from_counter (rx_ctr c)) []
        (take k rec) (drop k rec) = Some plain"
    and h: "h = dec_header plain" "h_magic h = kMagic" "unat (h_length h) = k - 20" "p = drop 20 plain"
    by (auto simp: chan_open_def Let_def k_def split: option.splits if_splits)
  have lr: "length rec = unat ?n" using u2 by simp
  then have lt: "length (drop k rec) = 16" using n by (simp add: k_def)
  from d have ct: "take k rec = chacha20_xor (rx_key c) (nonce_from_counter (rx_ctr c)) 1 plain"
    and e: "aead_encrypt (rx_key c) (nonce_from_counter (rx_ctr c)) [] plain = (take k rec, drop k rec)"
    using aead_decrypt_iff [OF lt] by (auto simp: aead_encrypt_eq)
  have lp: "length plain = k"
    using arg_cong [OF ct, of length] lr by (simp add: k_def)
  have p: "length p = k - 20" using lp h by simp
  have "h_length h = of_nat (unat (h_length h))" by simp
  then have hl: "h_length h = of_nat (length p)" unfolding h(3) p .
  have "enc_header h = take 20 plain"
  proof -
    have "dec_header plain = dec_header (take 20 plain @ drop 20 plain)" by simp
    also have "\<dots> = dec_header (take 20 plain)"
      using lp n by (simp add: dec_header_def field_def k_def take_drop min_def)
    finally show ?thesis using enc_dec_header [of "take 20 plain"] h lp n by (simp add: k_def)
  qed
  moreover have "h = mk_header (h_op h) (h_status h) (h_req_id h) (of_nat (length p))"
    using h(2) hl by (simp add: mk_header_def)
  ultimately have fr: "frame_bytes (h_op h) (h_status h) (h_req_id h) p = plain"
    using h(4) by (metis append_take_drop_id frame_bytes_def)
  have ln: "length p + 36 = unat ?n" using p n by (simp add: k_def)
  have "store_le32 ?n = lenbuf"
  proof -
    have "length lenbuf = 4" using u1 by simp
    then obtain w0 w1 w2 w3 where lb: "lenbuf = [w0, w1, w2, w3]"
      by (auto simp: length_Suc_conv eval_nat_numeral)
    have "load_le32 lenbuf = le_word lenbuf"
      by (simp add: lb load_le32_def push_bit_or or.assoc)
    then show ?thesis using le_bytes_le_word [of lenbuf 4, where 'a = 32] lb
      by (simp add: store_le32_bytes)
  qed
  then have "store_le32 (of_nat (length p + 36)) = lenbuf" unfolding ln by simp
  then have "sealed_record (rx_key c) (rx_ctr c) (h_op h) (h_status h) (h_req_id h) p = lenbuf @ rec"
    unfolding sealed_record_def fr e by simp
  moreover have "unread s1 = rec @ unread s'"
    unfolding u2(1,3) by (rule append_take_drop_id [symmetric])
  then have "unread s = lenbuf @ rec @ unread s'"
    using append_take_drop_id [of 4 "unread s"] unfolding u1(1,3) by simp
  moreover have "fits_record p" using ln n by simp
  ultimately show ?thesis using h(2,3) p c' u2(4) by simp
qed

end

section \<open>Sequences of messages\<close>

text \<open>A message as the callers hand it over: operation, status, request id, payload.\<close>

type_synonym msg = "u16 \<times> u16 \<times> u64 \<times> bytes"

primrec chan_send_list :: "'s byte_stream \<Rightarrow> msg list \<Rightarrow> channel \<times> 's \<Rightarrow> bool \<times> channel \<times> 's" where
  "chan_send_list m [] cs = (True, cs)"
| "chan_send_list m (x # xs) cs = (case x of (opc, st, rid, p) \<Rightarrow>
     (case chan_send m opc st rid p cs of
       (False, cs') \<Rightarrow> (False, cs')
     | (True, cs') \<Rightarrow> chan_send_list m xs cs'))"

primrec chan_recv_list :: "'s byte_stream \<Rightarrow> nat \<Rightarrow> channel \<times> 's \<Rightarrow> msg list option \<times> channel \<times> 's" where
  "chan_recv_list m 0 cs = (Some [], cs)"
| "chan_recv_list m (Suc n) cs = (case chan_recv m cs of
     (None, cs') \<Rightarrow> (None, cs')
   | (Some (h, p), cs') \<Rightarrow> (case chan_recv_list m n cs' of
       (None, cs'') \<Rightarrow> (None, cs'')
     | (Some xs, cs'') \<Rightarrow> (Some ((h_op h, h_status h, h_req_id h, p) # xs), cs'')))"

primrec sealed_records :: "bytes \<Rightarrow> u64 \<Rightarrow> msg list \<Rightarrow> bytes" where
  "sealed_records key ctr [] = []"
| "sealed_records key ctr (x # xs) =
     (case x of (opc, st, rid, p) \<Rightarrow> sealed_record key ctr opc st rid p) @ sealed_records key (ctr + 1) xs"

abbreviation all_fit :: "msg list \<Rightarrow> bool" where
  "all_fit xs \<equiv> list_all (\<lambda>(opc, st, rid, p). fits_record p) xs"

context byte_stream_laws
begin

lemma chan_send_list_sealed:
  assumes "ready s" "active c" "all_fit xs" "chan_send_list m xs (c, s) = (True, c', s')"
  shows "sent s' = sent s @ sealed_records (tx_key c) (tx_ctr c) xs \<and>
     c' = c\<lparr>tx_ctr := tx_ctr c + of_nat (length xs)\<rparr> \<and> unread s' = unread s \<and> ready s'"
  using assms
proof (induction xs arbitrary: c s)
  case (Cons x xs)
  obtain opc st rid p where x: "x = (opc, st, rid, p)" by (cases x)
  from Cons.prems(4) obtain c1 s1 where 1: "chan_send m opc st rid p (c, s) = (True, c1, s1)"
    and 2: "chan_send_list m xs (c1, s1) = (True, c', s')"
    by (auto simp: x split: prod.splits bool.splits)
  from Cons.prems(3) have "fits_record p" by (simp add: x)
  note s1 = chan_send_sealed [OF Cons.prems(1,2) this 1]
  show ?case using Cons.IH [OF _ _ _ 2] s1 Cons.prems(2,3) by (simp add: x)
qed simp

lemma chan_recv_list_sealed:
  assumes "ready s" "active c" "all_fit xs"
    and "unread s = sealed_records (rx_key c) (rx_ctr c) xs @ rest"
  shows "\<exists>s'. chan_recv_list m (length xs) (c, s) =
      (Some xs, c\<lparr>rx_ctr := rx_ctr c + of_nat (length xs)\<rparr>, s') \<and> unread s' = rest \<and>
      sent s' = sent s \<and> ready s'"
  using assms
proof (induction xs arbitrary: c s)
  case (Cons x xs)
  obtain opc st rid p where x: "x = (opc, st, rid, p)" by (cases x)
  have p: "fits_record p" and xs: "all_fit xs" using Cons.prems(3) by (simp_all add: x)
  have "unread s = sealed_record (rx_key c) (rx_ctr c) opc st rid p @
      sealed_records (rx_key c) (rx_ctr c + 1) xs @ rest"
    using Cons.prems(4) by (simp add: x)
  from chan_recv_sealed [OF Cons.prems(1,2) p this] obtain s1 where
    1: "chan_recv m (c, s) = (Some (mk_header opc st rid (of_nat (length p)), p),
        c\<lparr>rx_ctr := rx_ctr c + 1\<rparr>, s1)"
    and s1: "unread s1 = sealed_records (rx_key c) (rx_ctr c + 1) xs @ rest" "sent s1 = sent s" "ready s1"
    by blast
  have "\<exists>s'. chan_recv_list m (length xs) (c\<lparr>rx_ctr := rx_ctr c + 1\<rparr>, s1) =
      (Some xs, c\<lparr>rx_ctr := rx_ctr c + 1 + of_nat (length xs)\<rparr>, s') \<and> unread s' = rest \<and>
      sent s' = sent s1 \<and> ready s'"
    using Cons.IH [of s1 "c\<lparr>rx_ctr := rx_ctr c + 1\<rparr>"] s1 xs Cons.prems(2) by simp
  then show ?case using 1 s1 by (auto simp: x algebra_simps)
qed simp

end

section \<open>Properties\<close>


text \<open>Two ends of a connection, for the witnesses: the sender's kernel takes the length field and the
  record in one call each, the receiver's kernel delivers the bytes in two segments.\<close>

definition ex_tx :: channel where "ex_tx = chan_activate rfc_key (replicate 32 1) chan_init"
definition ex_rx :: channel where "ex_rx = chan_activate (replicate 32 1) rfc_key chan_init"

definition ex_sock :: "nat list \<Rightarrow> bytes list \<Rightarrow> socket" where
  "ex_sock acc inp = \<lparr>k_in = inp, k_accept = acc, k_out = [], k_open = True\<rparr>"

abbreviation ex_msg :: msg where "ex_msg \<equiv> (13, 0, 7, str_bytes ''hello'')"

lemma ex_send_all:
  "bs \<noteq> [] \<Longrightarrow> k_accept k = length bs # as \<Longrightarrow>
     send_all bs k = (True, k\<lparr>k_accept := as, k_out := k_out k @ bs\<rparr>)"
  by (simp add: send_all.simps [of bs k] os_send_def Let_def send_all.simps [of "[]"])

lemma ex_sealed_length: "length (sealed_record key ctr opc st rid p) = length p + 40"
proof -
  have "length (fst (aead_encrypt key (nonce_from_counter ctr) [] (frame_bytes opc st rid p))) = length p + 20"
    "length (snd (aead_encrypt key (nonce_from_counter ctr) [] (frame_bytes opc st rid p))) = 16"
    by (simp_all add: length_frame_bytes)
  then show ?thesis by (simp add: sealed_record_def case_prod_beta)
qed

lemma ex_send: "chan_send_list socket_stream [ex_msg] (ex_tx, ex_sock [4, 41] []) =
  (True, ex_tx\<lparr>tx_ctr := 1\<rparr>, (ex_sock [] [])\<lparr>k_out := sealed_record rfc_key 0 13 0 7 (str_bytes ''hello'')\<rparr>)"
proof -
  obtain ct tag where e: "aead_encrypt rfc_key (nonce_from_counter 0) []
      (frame_bytes 13 0 7 (str_bytes ''hello'')) = (ct, tag)" by fastforce
  have l: "length ct = 25" "length tag = 16"
    using length_aead_encrypt [of rfc_key "nonce_from_counter 0" "[]" "frame_bytes 13 0 7 (str_bytes ''hello'')"]
    unfolding e by (simp_all add: length_frame_bytes)
  have ne: "ct @ tag \<noteq> []" "store_le32 w \<noteq> []" for w using l by (auto simp: store_le32_def)
  have f: "enc_header (mk_header 13 0 7 5) @ str_bytes ''hello'' = frame_bytes 13 0 7 (str_bytes ''hello'')"
    by (simp add: frame_bytes_def)
  show ?thesis
    using l ne e
    by (simp add: chan_send_def ex_tx_def chan_activate_def ex_sock_def socket_stream_def socket_write_def
        f ex_send_all Let_def sealed_record_def)
qed


text \<open>C5: A record accepted by an active channel is, byte for byte, the record that the sending
  side seals for that operation, status, request id and payload under the receive key at the
  current receive counter, which then advances by one.\<close>

theorem accepted_record_is_the_senders:
  assumes "k_open b" "active cb" "chan_recv socket_stream (cb, b) = (Some (h, p), cb', b')"
  shows "k_unread b = sealed_record (rx_key cb) (rx_ctr cb) (h_op h) (h_status h) (h_req_id h) p @ k_unread b'
    \<and> h_magic h = kMagic \<and> unat (h_length h) = length p \<and> rx_ctr cb' = rx_ctr cb + 1"
  using tcp.chan_recv_sound [OF assms] by simp

theorem accepted_record_is_the_senders_witness:
  "\<exists>cb' b'. chan_recv socket_stream (ex_rx, ex_sock [] [sealed_record rfc_key 0 13 0 7 (str_bytes ''hello'')]) =
      (Some (mk_header 13 0 7 5, str_bytes ''hello''), cb', b') \<and> rx_ctr cb' = 1"
proof -
  let ?b = "ex_sock [] [sealed_record rfc_key 0 13 0 7 (str_bytes ''hello'')]"
  have ne: "sealed_record rfc_key 0 13 0 7 (str_bytes ''hello'') \<noteq> []"
    using ex_sealed_length [of rfc_key 0 13 0 7 "str_bytes ''hello''"] by auto
  have st: "k_open ?b" "active ex_rx" "rx_ctr ex_rx = 0" "rx_key ex_rx = rfc_key"
    by (simp_all add: ex_sock_def ex_rx_def chan_activate_def)
  have u: "k_unread ?b = sealed_record (rx_key ex_rx) (rx_ctr ex_rx) 13 0 7 (str_bytes ''hello'') @ []"
    using ne st by (simp add: ex_sock_def k_unread_def)
  obtain b' where r: "chan_recv socket_stream (ex_rx, ?b) =
      (Some (mk_header 13 0 7 5, str_bytes ''hello''), ex_rx\<lparr>rx_ctr := rx_ctr ex_rx + 1\<rparr>, b')"
    using tcp.chan_recv_sealed [OF st(1,2) _ u] by auto
  from accepted_record_is_the_senders [OF st(1,2) r] show ?thesis using r st(3) by simp
qed

text \<open>The socket overloads of SecureChannel::send and recv behave exactly as the ByteStream
  overloads on the socket stream.\<close>

theorem socket_overloads_agree:
  assumes "k_open k"
  shows "chan_send_sock opc st rid p (c, k) = chan_send socket_stream opc st rid p (c, k) \<and>
    chan_recv_sock (c, k) = chan_recv socket_stream (c, k)"
  using assms by (simp add: chan_send_sock_eq chan_recv_sock_eq)

theorem socket_overloads_agree_witness:
  "chan_send_sock 13 0 7 (str_bytes ''hello'') (ex_tx, ex_sock [4, 41] []) =
     chan_send socket_stream 13 0 7 (str_bytes ''hello'') (ex_tx, ex_sock [4, 41] [])"
  using socket_overloads_agree [of "ex_sock [4, 41] []" 13 0 7 "str_bytes ''hello''" ex_tx]
  by (simp add: ex_sock_def)

end
