(* ===== verification/Handshake.thy ===== *)
theory Handshake
  imports SecureChannel
begin

text \<open>
  The challenge-response handshake: the derivations of \<open>client/include/crypto/auth.h\<close>,
  \<open>Server::handshake\<close> (\<open>client/src/server/server.cpp\<close>) and \<open>Client::handshake\<close>
  (\<open>client/src/clients/client.cpp\<close>). SHA-256 and HMAC-SHA-256 come from Qt and are the parameters
  \<open>sha\<close> and \<open>hm\<close>; the 16 random bytes each side draws are arguments.
\<close>

section \<open>Derivations\<close>

definition derive_key :: "(bytes \<Rightarrow> bytes) \<Rightarrow> bytes \<Rightarrow> bytes" where
  "derive_key sha secret = sha secret"

definition auth_proof :: "(bytes \<Rightarrow> bytes \<Rightarrow> bytes) \<Rightarrow> bytes \<Rightarrow> bytes \<Rightarrow> bytes \<Rightarrow> bytes" where
  "auth_proof hm key nonceClient nonceServer = hm key (nonceClient @ nonceServer)"

definition to_key256 :: "bytes \<Rightarrow> bytes" where
  "to_key256 b = take 32 b"

definition derive_session_keys ::
    "(bytes \<Rightarrow> bytes \<Rightarrow> bytes) \<Rightarrow> bytes \<Rightarrow> bytes \<Rightarrow> bytes \<Rightarrow> bool \<Rightarrow> bytes \<times> bytes" where
  "derive_session_keys hm authKey nonceClient nonceServer isServer =
     (let master = hm authKey (nonceClient @ nonceServer @ str_bytes ''FB-session-v2'');
          kc2s = to_key256 (hm master (str_bytes ''client->server''));
          ks2c = to_key256 (hm master (str_bytes ''server->client''))
      in if isServer then (ks2c, kc2s) else (kc2s, ks2c))"

definition ct_equal_bytes :: "bytes \<Rightarrow> bytes \<Rightarrow> nat \<Rightarrow> bool" where
  "ct_equal_bytes a b n = (fold (\<lambda>i diff. diff OR (a ! i XOR b ! i)) [0..<n] 0 = 0)"

lemma ct_equal_bytes_iff:
  assumes "n = length a" "n = length b"
  shows "ct_equal_bytes a b n \<longleftrightarrow> a = b"
  using ct_equal_iff [of n a b] assms by (simp add: ct_equal_def ct_equal_bytes_def)

section \<open>The server's side\<close>

text \<open>The state is the client id, the channel and the stream; the boolean is the code's result.\<close>

definition parse_hello :: "bytes \<Rightarrow> (u32 \<times> bytes \<times> bytes \<times> bytes) option" where
  "parse_hello payload = (case (r_pod payload :: u32 option \<times> bytes) of
       (None, _) \<Rightarrow> None
     | (Some version, r) \<Rightarrow> (case r_raw 16 r of
         (None, _) \<Rightarrow> None
       | (Some cid, r) \<Rightarrow> (case r_raw 32 r of
           (None, _) \<Rightarrow> None
         | (Some folderHash, r) \<Rightarrow> (case r_raw 16 r of
             (None, _) \<Rightarrow> None
           | (Some nonceC, r) \<Rightarrow> Some (version, cid, folderHash, nonceC)))))"

definition server_handshake ::
    "(bytes \<Rightarrow> bytes) \<Rightarrow> (bytes \<Rightarrow> bytes \<Rightarrow> bytes) \<Rightarrow> 's byte_stream \<Rightarrow> string \<Rightarrow> bytes \<Rightarrow> bytes \<Rightarrow>
     bytes \<times> channel \<times> 's \<Rightarrow> bool \<times> bytes \<times> channel \<times> 's" where
  "server_handshake sha hm m shareName authKey nonceS = (\<lambda>(clientId, chan, s).
     case recv_message m s of
       (None, s) \<Rightarrow> (False, clientId, chan, s)
     | (Some (h, payload), s) \<Rightarrow>
       if h_op h \<noteq> op_code OP_HELLO then (False, clientId, chan, s)
       else (case parse_hello payload of
         None \<Rightarrow> (False, clientId, chan, s)
       | Some (version, cid, folderHash, nonceC) \<Rightarrow>
         let expectFolder = sha (str_bytes shareName) in
         if version \<noteq> kProtocolVersion \<or> length expectFolder \<noteq> 32 \<or> folderHash \<noteq> take 32 expectFolder
         then (case send_message m (op_code OP_AUTH_FAIL) 0 (h_req_id h) [] s of
                 (_, s) \<Rightarrow> (False, clientId, chan, s))
         else (case send_message m (op_code OP_CHALLENGE) 0 (h_req_id h) nonceS s of
           (False, s) \<Rightarrow> (False, cid, chan, s)
         | (True, s) \<Rightarrow> (case recv_message m s of
             (None, s) \<Rightarrow> (False, cid, chan, s)
           | (Some (h, proof), s) \<Rightarrow>
             if h_op h \<noteq> op_code OP_AUTH then (False, cid, chan, s)
             else
               let expect = auth_proof hm authKey nonceC nonceS in
               if length proof \<noteq> length expect \<or> \<not> ct_equal_bytes proof expect (length expect)
               then (case send_message m (op_code OP_AUTH_FAIL) 0 (h_req_id h) [] s of
                       (_, s) \<Rightarrow> (False, cid, chan, s))
               else (case send_message m (op_code OP_AUTH_OK) 0 (h_req_id h) [] s of
                 (_, s) \<Rightarrow>
                   (case derive_session_keys hm authKey nonceC nonceS True of
                     (txKey, rxKey) \<Rightarrow> (True, cid, chan_activate txKey rxKey chan, s)))))))"

section \<open>The client's side\<close>

definition hello_payload :: "(bytes \<Rightarrow> bytes) \<Rightarrow> string \<Rightarrow> bytes \<Rightarrow> bytes \<Rightarrow> bytes" where
  "hello_payload sha folder clientId nonceC =
     w_raw (w_raw (w_raw (w_pod [] kProtocolVersion) clientId) (take 32 (sha (str_bytes folder)))) nonceC"

datatype hs_error = HandshakeSendFailed | ServerRejected | AuthSendFailed | AuthFailed

definition client_handshake ::
    "(bytes \<Rightarrow> bytes) \<Rightarrow> (bytes \<Rightarrow> bytes \<Rightarrow> bytes) \<Rightarrow> 's byte_stream \<Rightarrow> string \<Rightarrow> bytes \<Rightarrow> bytes \<Rightarrow> bytes \<Rightarrow>
     channel \<times> 's \<Rightarrow> (hs_error + unit) \<times> channel \<times> 's" where
  "client_handshake sha hm m folder secret clientId nonceC = (\<lambda>(chan, s).
     case send_message m (op_code OP_HELLO) 0 1 (hello_payload sha folder clientId nonceC) s of
       (False, s) \<Rightarrow> (Inl HandshakeSendFailed, chan, s)
     | (True, s) \<Rightarrow> (case recv_message m s of
         (None, s) \<Rightarrow> (Inl ServerRejected, chan, s)
       | (Some (h, payload), s) \<Rightarrow>
         if h_op h \<noteq> op_code OP_CHALLENGE \<or> length payload < 16 then (Inl ServerRejected, chan, s)
         else
           let nonceS = take 16 payload;
               key = derive_key sha secret;
               proof = auth_proof hm key nonceC nonceS
           in (case send_message m (op_code OP_AUTH) 0 1 proof s of
             (False, s) \<Rightarrow> (Inl AuthSendFailed, chan, s)
           | (True, s) \<Rightarrow> (case recv_message m s of
               (None, s) \<Rightarrow> (Inl AuthFailed, chan, s)
             | (Some (h, payload), s) \<Rightarrow>
               if h_op h \<noteq> op_code OP_AUTH_OK then (Inl AuthFailed, chan, s)
               else (case derive_session_keys hm key nonceC nonceS False of
                 (txKey, rxKey) \<Rightarrow> (Inr (), chan_activate txKey rxKey chan, s))))))"

section \<open>What each side sends and requires\<close>

definition hello_bytes :: "(bytes \<Rightarrow> bytes) \<Rightarrow> string \<Rightarrow> bytes \<Rightarrow> bytes \<Rightarrow> bytes" where
  "hello_bytes sha folder clientId nonceC =
     frame_bytes (op_code OP_HELLO) 0 1 (hello_payload sha folder clientId nonceC)"

lemma hello_payload_eq:
  "hello_payload sha folder cid nC = le_bytes 4 kProtocolVersion @ cid @ take 32 (sha (str_bytes folder)) @ nC"
  by (simp add: hello_payload_def writer_defs)

lemma r_raw_Some: "r_raw n r = (Some b, r') \<longleftrightarrow> r = b @ r' \<and> length b = n"
  by (auto simp: r_raw_def)

lemma r_pod_u32_Some: "(r_pod r = (Some (v :: u32), r')) \<longleftrightarrow> r = le_bytes 4 v @ r'"
proof
  assume "r_pod r = (Some v, r')"
  then obtain b where "r_raw 4 r = (Some b, r')" "v = le_word b"
    by (auto simp: r_pod_def split: prod.splits option.splits)
  then show "r = le_bytes 4 v @ r'" by (simp add: r_raw_Some le_bytes_le_word)
qed simp

context byte_stream_laws
begin

lemma send_message_frame:
  assumes "ready s" "send_message m opc st rid p s = (True, s')"
  shows "unread s' = unread s \<and> ready s'"
proof -
  let ?h = "enc_header (mk_header opc st rid (of_nat (length p)))"
  obtain b s1 where w: "bs_write m ?h s = (b, s1)" by fastforce
  with assms(2) have b: "b = True" by (cases b) (simp_all add: send_message_def Let_def)
  from write_ok [OF assms(1) w [unfolded b]] have s1: "unread s1 = unread s" "ready s1" by simp_all
  show ?thesis
    using assms(2) s1 write_ok [OF s1(2)] w b
    by (cases "of_nat (length p) = (0 :: u32)") (simp_all add: send_message_def Let_def)
qed

lemma recv_message_sent:
  assumes "ready s" "recv_message m s = (Some x, s')"
  shows "sent s' = sent s"
  using assms(1)
proof (cases rule: read_cases [of s 20])
  case (short s1)
  with assms(2) show ?thesis by (simp add: recv_message_def)
next
  case (ok s1)
  let ?h = "dec_header (take 20 (unread s))"
  from ok(5) show ?thesis
    by (cases rule: read_cases [of s1 "unat (h_length ?h)"])
       (use assms(2) ok in \<open>auto simp: recv_message_def Let_def split: if_splits\<close>)
qed

lemma write_grows: "ready s \<Longrightarrow> bs_write m bs s = (b, s') \<Longrightarrow> \<exists>x. sent s' = sent s @ x"
  using write_ok [of s bs s'] write_fail [of s bs s'] by (cases b) auto

lemma send_message_grows:
  assumes "ready s" "send_message m opc st rid p s = (b, s')"
  shows "\<exists>x. sent s' = sent s @ x"
proof -
  let ?h = "enc_header (mk_header opc st rid (of_nat (length p)))"
  obtain b1 s1 where w: "bs_write m ?h s = (b1, s1)" by fastforce
  from write_grows [OF assms(1) w] obtain x where x: "sent s1 = sent s @ x" by blast
  show ?thesis
  proof (cases "b1 \<and> of_nat (length p) \<noteq> (0 :: u32)")
    case True
    then have w2: "bs_write m (take (unat (of_nat (length p) :: u32)) p) s1 = (b, s')"
      using assms(2) w by (simp add: send_message_def Let_def)
    moreover have "ready s1" using write_ok [OF assms(1)] w True by simp
    ultimately obtain y where "sent s' = sent s1 @ y" using write_grows by blast
    then show ?thesis using x by simp
  next
    case False
    then have "s' = s1"
      using assms(2) w by (cases b1) (simp_all add: send_message_def Let_def)
    then show ?thesis using x by simp
  qed
qed

lemma server_handshake_sound:
  assumes r: "ready s"
    and ret: "server_handshake sha hm m share key nS (cid0, c, s) = (True, cid, c', s')"
  shows "\<exists>h1 p1 nC ext h2 p2 rest x. unread s = enc_header h1 @ p1 @ enc_header h2 @ p2 @ rest \<and>
    p1 = le_bytes 4 kProtocolVersion @ cid @ sha (str_bytes share) @ nC @ ext \<and>
    p2 = auth_proof hm key nC nS \<and> length p1 = unat (h_length h1) \<and> length p2 = unat (h_length h2) \<and>
    (length nS < 2 ^ 32 \<longrightarrow> sent s' = sent s @ frame_bytes (op_code OP_CHALLENGE) 0 (h_req_id h1) nS @ x) \<and>
    h_op h1 = op_code OP_HELLO \<and> h_op h2 = op_code OP_AUTH \<and> length cid = 16 \<and> length nC = 16 \<and>
    (let (tx, rx) = derive_session_keys hm key nC nS True in c' = chan_activate tx rx c)"
proof -
  obtain q1 s1 where e1: "recv_message m s = (q1, s1)" by fastforce
  obtain x1 where "q1 = Some x1" using ret by (cases q1) (simp_all add: server_handshake_def e1 del: op_code.simps)
  then obtain h1 p1 where q1: "q1 = Some (h1, p1)" by (cases x1) simp
  note m1 = e1 [unfolded q1]
  have h1: "h_op h1 = op_code OP_HELLO"
    by (rule ccontr) (use ret in \<open>simp add: server_handshake_def m1 del: op_code.simps\<close>)
  obtain x where "parse_hello p1 = Some x"
    using ret h1 by (cases "parse_hello p1") (simp_all add: server_handshake_def m1 del: op_code.simps)
  then obtain v cid1 fh nC where p1: "parse_hello p1 = Some (v, cid1, fh, nC)" by (cases x) simp
  have ok: "\<not> (v \<noteq> kProtocolVersion \<or> length (sha (str_bytes share)) \<noteq> 32 \<or>
      fh \<noteq> take 32 (sha (str_bytes share)))" (is "\<not> ?bad")
  proof
    assume b: ?bad
    obtain b s2 where "send_message m (op_code OP_AUTH_FAIL) 0 (h_req_id h1) [] s1 = (b, s2)" by fastforce
    then show False using ret h1 b by (simp add: server_handshake_def m1 p1 Let_def del: op_code.simps)
  qed
  obtain b2 s2 where e2: "send_message m (op_code OP_CHALLENGE) 0 (h_req_id h1) nS s1 = (b2, s2)"
    by fastforce
  have b2: "b2" using ret h1 ok by (cases b2) (simp_all add: server_handshake_def m1 p1 Let_def e2 del: op_code.simps)
  note ch = e2 [unfolded b2 [THEN Eq_TrueI]]
  obtain q2 s3 where e3: "recv_message m s2 = (q2, s3)" by fastforce
  obtain x2 where "q2 = Some x2"
    using ret h1 ok by (cases q2) (simp_all add: server_handshake_def m1 p1 Let_def ch e3 del: op_code.simps)
  then obtain h2 pr where q2: "q2 = Some (h2, pr)" by (cases x2) simp
  note m2 = e3 [unfolded q2]
  have h2: "h_op h2 = op_code OP_AUTH"
    by (rule ccontr) (use ret h1 ok in \<open>simp add: server_handshake_def m1 p1 Let_def ch m2 del: op_code.simps\<close>)
  have pr: "length pr = length (auth_proof hm key nC nS) \<and>
      ct_equal_bytes pr (auth_proof hm key nC nS) (length (auth_proof hm key nC nS))" (is ?good)
  proof (rule ccontr)
    assume b: "\<not> ?good"
    obtain b s4 where "send_message m (op_code OP_AUTH_FAIL) 0 (h_req_id h2) [] s3 = (b, s4)" by fastforce
    then show False using ret h1 ok h2 b
      by (simp add: server_handshake_def m1 p1 Let_def ch m2 del: op_code.simps)
  qed
  obtain b4 s4 where e4: "send_message m (op_code OP_AUTH_OK) 0 (h_req_id h2) [] s3 = (b4, s4)"
    by fastforce
  have c': "(let (tx, rx) = derive_session_keys hm key nC nS True in c' = chan_activate tx rx c)"
    and cid: "cid1 = cid" and s': "s' = s4"
    using ret h1 ok h2 pr
    by (simp_all add: server_handshake_def m1 p1 Let_def ch m2 e4 derive_session_keys_def del: op_code.simps)
  note a = recv_message_sound [OF r m1]
  obtain r4 where lp1: "p1 = le_bytes 4 kProtocolVersion @ cid @ sha (str_bytes share) @ nC @ r4"
    and len: "length cid = 16" "length nC = 16"
    using ok cid p1
    by (auto simp: parse_hello_def r_pod_u32_Some r_raw_Some split: prod.splits option.splits)
  have prq: "pr = auth_proof hm key nC nS" 
    using pr ct_equal_bytes_iff [of "length (auth_proof hm key nC nS)" pr "auth_proof hm key nC nS"]
    by simp
  have r1: "ready s1" using a by simp
  note b = send_message_frame [OF r1 ch]
  then have r2: "ready s2" by simp
  note d = recv_message_sound [OF this m2]
  obtain x where x: "sent s4 = sent s3 @ x" using send_message_grows [OF _ e4] d by blast
  have y: "length nS < 2 ^ 32 \<longrightarrow> sent s4 = sent s @ frame_bytes (op_code OP_CHALLENGE) 0 (h_req_id h1) nS @ x"
    using send_message_ok [OF r1 _ ch] x recv_message_sent [OF r m1] recv_message_sent [OF r2 m2] by simp
  have u: "unread s = enc_header h1 @ p1 @ enc_header h2 @ pr @ unread s3" using a b d by simp
  have l: "length p1 = unat (h_length h1)" "length pr = unat (h_length h2)" using a d by simp_all
  show ?thesis
    unfolding s' using u lp1 prq l y h1 h2 len c' by blast
qed

lemma client_handshake_sound:
  assumes r: "ready s"
    and l: "length (hello_payload sha folder cid nC) < 2 ^ 32" "\<And>k d. length (hm k d) < 2 ^ 32"
    and ret: "client_handshake sha hm m folder secret cid nC (c, s) = (Inr (), c', s')"
  shows "\<exists>h1 p1 h2 p2 rest. unread s = enc_header h1 @ p1 @ enc_header h2 @ p2 @ rest \<and>
    length p1 = unat (h_length h1) \<and> length p2 = unat (h_length h2) \<and>
    h_op h1 = op_code OP_CHALLENGE \<and> h_op h2 = op_code OP_AUTH_OK \<and> 16 \<le> length p1 \<and>
    sent s' = sent s @ hello_bytes sha folder cid nC @
      frame_bytes (op_code OP_AUTH) 0 1 (auth_proof hm (derive_key sha secret) nC (take 16 p1)) \<and>
    (let (tx, rx) = derive_session_keys hm (derive_key sha secret) nC (take 16 p1) False
     in c' = chan_activate tx rx c)"
proof -
  obtain b1 s1 where e1: "send_message m (op_code OP_HELLO) 0 1 (hello_payload sha folder cid nC) s = (b1, s1)"
    by fastforce
  have b1: "b1 = True"
    using ret by (cases b1) (simp_all add: client_handshake_def e1 del: op_code.simps)
  note w1 = send_message_ok [OF r l(1) e1 [unfolded b1]]
  obtain q1 s2 where e2: "recv_message m s1 = (q1, s2)" by fastforce
  obtain x1 where "q1 = Some x1"
    using ret by (cases q1) (simp_all add: client_handshake_def e1 b1 e2 del: op_code.simps)
  then obtain h1 p1 where q1: "q1 = Some (h1, p1)" by (cases x1) simp
  note m1 = e2 [unfolded q1]
  have h1: "\<not> (h_op h1 \<noteq> op_code OP_CHALLENGE \<or> length p1 < 16)" (is "\<not> ?bad")
    by (rule notI) (use ret in \<open>simp add: client_handshake_def e1 b1 m1 del: op_code.simps\<close>)
  let ?pr = "auth_proof hm (derive_key sha secret) nC (take 16 p1)"
  obtain b3 s3 where e3: "send_message m (op_code OP_AUTH) 0 1 ?pr s2 = (b3, s3)" by fastforce
  have b3: "b3 = True"
    using ret h1 by (cases b3) (simp_all add: client_handshake_def e1 b1 m1 e3 Let_def del: op_code.simps)
  obtain q2 s4 where e4: "recv_message m s3 = (q2, s4)" by fastforce
  obtain x2 where "q2 = Some x2"
    using ret h1 by (cases q2) (simp_all add: client_handshake_def e1 b1 m1 e3 b3 e4 Let_def del: op_code.simps)
  then obtain h2 p2 where q2: "q2 = Some (h2, p2)" by (cases x2) simp
  note m2 = e4 [unfolded q2]
  have h2: "h_op h2 = op_code OP_AUTH_OK"
    by (rule ccontr) (use ret h1 in \<open>simp add: client_handshake_def e1 b1 m1 e3 b3 m2 Let_def del: op_code.simps\<close>)
  have c': "(let (tx, rx) = derive_session_keys hm (derive_key sha secret) nC (take 16 p1) False
       in c' = chan_activate tx rx c)" and s': "s' = s4"
    using ret h1 h2
    by (simp_all add: client_handshake_def e1 b1 m1 e3 b3 m2 Let_def derive_session_keys_def del: op_code.simps)
  have r1: "ready s1" using w1 by simp
  note a = recv_message_sound [OF r1 m1]
  then have r2: "ready s2" by simp
  have lp: "length ?pr < 2 ^ 32" unfolding auth_proof_def by (rule l(2))
  note w3 = send_message_ok [OF r2 lp e3 [unfolded b3]]
  then have r3: "ready s3" by simp
  note d = recv_message_sound [OF r3 m2]
  have u: "unread s = enc_header h1 @ p1 @ enc_header h2 @ p2 @ unread s4" using w1 a w3 d by simp
  have "sent s4 = sent s @ hello_bytes sha folder cid nC @ frame_bytes (op_code OP_AUTH) 0 1 ?pr"
    using w1 w3 recv_message_sent [OF r1 m1] recv_message_sent [OF r3 m2] by (simp add: hello_bytes_def)
  then show ?thesis unfolding s' using u a d h1 h2 c' by (metis not_less)
qed

lemma server_handshake_refused:
  "server_handshake sha hm m share key nS (cid0, c, s) = (False, cid, c', s') \<Longrightarrow> c' = c"
  by (auto simp: server_handshake_def Let_def split: prod.splits option.splits if_splits bool.splits)

lemma client_handshake_refused:
  "client_handshake sha hm m folder secret cid nC (c, s) = (Inl e, c', s') \<Longrightarrow> c' = c"
  by (auto simp: client_handshake_def Let_def split: prod.splits option.splits if_splits bool.splits)

end

section \<open>Agreement\<close>

lemma frame_split:
  assumes "enc_header h @ p @ r = frame_bytes opc st rid q @ r'" and "length p = unat (h_length h)"
    and "length q < 2 ^ 32"
  shows "h = mk_header opc st rid (of_nat (length q)) \<and> p = q \<and> r = r'"
proof -
  let ?g = "mk_header opc st rid (of_nat (length q))"
  have e: "enc_header h @ p @ r = enc_header ?g @ q @ r'" using assms(1) by (simp add: frame_bytes_def)
  then have hh: "enc_header h = enc_header ?g" and t: "p @ r = q @ r'" by simp_all
  then have h: "h = ?g" by (metis dec_enc_header)
  then have "length p = length q" using assms(2,3) by (simp add: unat_of_nat)
  then show ?thesis using h t by simp
qed

lemma derive_session_keys_cross:
  "derive_session_keys hm key nC nS True = (a, b) \<longleftrightarrow> derive_session_keys hm key nC nS False = (b, a)"
  by (auto simp: derive_session_keys_def Let_def)

text \<open>C6: When both sides of the handshake run over one connection with the share secret and both
  succeed, each side sends with the key the other receives with, the counters of each
  direction agree, and the server records the client id the client sent.\<close>

theorem handshake_agreement:
  assumes "k_open kc" "k_open ks"
    and "length cid = 16" "length nC = 16" "length nS = 16"
    and sha: "\<And>x. length (sha x) = 32" and hm: "\<And>k x. length (hm k x) = 32"
    and srv: "server_handshake sha hm socket_stream share (derive_key sha secret) nS (cid0, chan_init, ks) =
      (True, cid', cs, ks')"
    and cli: "client_handshake sha hm socket_stream folder secret cid nC (chan_init, kc) = (Inr (), cc, kc')"
    and up: "k_unread ks = drop (length (k_out kc)) (k_out kc') @ later_up"
    and down: "k_unread kc = drop (length (k_out ks)) (k_out ks') @ later_down"
  shows "cid' = cid \<and> sha (str_bytes share) = sha (str_bytes folder) \<and>
    active cs \<and> active cc \<and> tx_key cs = rx_key cc \<and> rx_key cs = tx_key cc \<and>
    tx_ctr cs = rx_ctr cc \<and> rx_ctr cs = tx_ctr cc"
proof -
  have lh: "length (hello_payload sha folder cid nC) = 68"
    using assms(3,4) sha by (simp add: hello_payload_eq)
  obtain h1 p1 nC' ext h2 p2 rest x where S: "k_unread ks = enc_header h1 @ p1 @ enc_header h2 @ p2 @ rest"
    "p1 = le_bytes 4 kProtocolVersion @ cid' @ sha (str_bytes share) @ nC' @ ext"
    "length p1 = unat (h_length h1)" "length cid' = 16" "length nC' = 16"
    "k_out ks' = k_out ks @ frame_bytes (op_code OP_CHALLENGE) 0 (h_req_id h1) nS @ x"
    "let (tx, rx) = derive_session_keys hm (derive_key sha secret) nC' nS True in cs = chan_activate tx rx chan_init"
    using tcp.server_handshake_sound [OF assms(2) srv] assms(5) by auto
  obtain g1 q1 g2 q2 rest' where C: "k_unread kc = enc_header g1 @ q1 @ enc_header g2 @ q2 @ rest'"
    "length q1 = unat (h_length g1)"
    "k_out kc' = k_out kc @ hello_bytes sha folder cid nC @
      frame_bytes (op_code OP_AUTH) 0 1 (auth_proof hm (derive_key sha secret) nC (take 16 q1))"
    "let (tx, rx) = derive_session_keys hm (derive_key sha secret) nC (take 16 q1) False
     in cc = chan_activate tx rx chan_init"
    using tcp.client_handshake_sound [OF assms(1) _ _ cli] lh hm by auto
  have "q1 = nS" 
    using frame_split [of g1 q1 "enc_header g2 @ q2 @ rest'" "op_code OP_CHALLENGE" 0 "h_req_id h1" nS
        "x @ later_down"] C(1,2) down S(6) assms(5) by simp
  then have q1: "take 16 q1 = nS" using assms(5) by simp
  have "p1 = hello_payload sha folder cid nC"
    using frame_split [of h1 p1 "enc_header h2 @ p2 @ rest" "op_code OP_HELLO" 0 1
        "hello_payload sha folder cid nC" "frame_bytes (op_code OP_AUTH) 0 1
          (auth_proof hm (derive_key sha secret) nC (take 16 q1)) @ later_up"] S(1,3) up C(3) lh unfolding hello_bytes_def by simp
  then have k: "cid' = cid" "sha (str_bytes share) = sha (str_bytes folder)" "nC' @ ext = nC"
    using S(2,4,5) assms(3,4) sha by (simp_all add: hello_payload_eq)
  then have "ext = []" using S(5) assms(4) by (metis add_cancel_left_right length_0_conv length_append)
  then have "nC' = nC" using k(3) by simp
  then show ?thesis
    using S(7) C(4) q1 k by (auto simp: derive_session_keys_def Let_def chan_activate_def)
qed

text \<open>A complete run: each end's input is what the other end sends.\<close>

definition ex_sha :: "bytes \<Rightarrow> bytes" where "ex_sha x = take 32 (x @ replicate 32 1)"

definition ex_hm :: "bytes \<Rightarrow> bytes \<Rightarrow> bytes" where
  "ex_hm k x = map2 (XOR) (take 32 (x @ replicate 32 1)) (take 32 (k @ replicate 32 2))"

abbreviation ex_nC :: bytes where "ex_nC \<equiv> replicate 16 3"
abbreviation ex_nS :: bytes where "ex_nS \<equiv> replicate 16 4"
abbreviation ex_cid :: bytes where "ex_cid \<equiv> replicate 16 9"

definition ex_ks :: socket where
  "ex_ks = ex_sock [20, 16, 20] [hello_bytes ex_sha ''docs'' ex_cid ex_nC,
     frame_bytes (op_code OP_AUTH) 0 1 (auth_proof ex_hm (derive_key ex_sha [1, 2]) ex_nC ex_nS)]"

definition ex_kc :: socket where
  "ex_kc = ex_sock [20, 68, 20, 32] [frame_bytes (op_code OP_CHALLENGE) 0 1 ex_nS,
     frame_bytes (op_code OP_AUTH_OK) 0 1 []]"

abbreviation ex_srv_run :: "bool \<times> bytes \<times> channel \<times> socket" where
  "ex_srv_run \<equiv> server_handshake ex_sha ex_hm socket_stream ''docs'' (derive_key ex_sha [1, 2]) ex_nS
     ([], chan_init, ex_ks)"

abbreviation ex_cli_run :: "(hs_error + unit) \<times> channel \<times> socket" where
  "ex_cli_run \<equiv> client_handshake ex_sha ex_hm socket_stream ''docs'' [1, 2] ex_cid ex_nC (chan_init, ex_kc)"

lemma ex_runs:
  "fst ex_srv_run" "fst ex_cli_run = Inr ()"
  "k_unread ex_ks = drop (length (k_out ex_kc)) (k_out (snd (snd ex_cli_run)))"
  "k_unread ex_kc = drop (length (k_out ex_ks)) (k_out (snd (snd (snd ex_srv_run))))"
  by code_simp+

theorem handshake_agreement_witness:
  "(case (ex_srv_run, ex_cli_run) of ((ok, cid, cs, _), (r, cc, _)) \<Rightarrow>
     ok \<and> r = Inr () \<and> cid = ex_cid \<and> tx_key cs = rx_key cc \<and> rx_key cs = tx_key cc)"
proof -
  obtain ok cid cs ks' where s: "ex_srv_run = (ok, cid, cs, ks')" by (metis prod_cases4)
  obtain r cc kc' where c: "ex_cli_run = (r, cc, kc')" by (metis prod_cases3)
  have ok: "ok = True" "r = Inr ()" using ex_runs(1,2) s c by simp_all
  have o: "k_open ex_kc" "k_open ex_ks" by (simp_all add: ex_kc_def ex_ks_def ex_sock_def)
  have l: "length (ex_sha x) = 32" "length (ex_hm k x) = 32" for k x
    by (simp_all add: ex_sha_def ex_hm_def)
  have n: "length ex_cid = 16" "length ex_nC = 16" "length ex_nS = 16" by simp_all
  from handshake_agreement [OF o n l s [unfolded ok] c [unfolded ok], of "[]" "[]"] ex_runs(3,4) s c
  show ?thesis using ok by simp
qed

text \<open>C7: The server handshake succeeds only when the bytes it read are a HELLO with the protocol
  version and the hash of the share name followed by an AUTH with the proof of the share key
  over both nonces; otherwise the channel is left as it was.\<close>

theorem server_authenticates:
  assumes "k_open ks"
    and "server_handshake sha hm socket_stream share key nS (cid0, c, ks) = (ok, cid, c', ks')"
  shows "if ok
    then \<exists>h1 nC ext h2 rest. k_unread ks = enc_header h1 @
        (le_bytes 4 kProtocolVersion @ cid @ sha (str_bytes share) @ nC @ ext) @
        enc_header h2 @ auth_proof hm key nC nS @ rest \<and>
      h_op h1 = op_code OP_HELLO \<and> h_op h2 = op_code OP_AUTH \<and> length cid = 16 \<and> length nC = 16 \<and> active c'
    else c' = c"
proof (cases ok)
  case True
  note r = assms(2) [unfolded True [THEN Eq_TrueI]]
  obtain h1 p1 nC ext h2 p2 rest where S:
    "k_unread ks = enc_header h1 @ p1 @ enc_header h2 @ p2 @ rest"
    "p1 = le_bytes 4 kProtocolVersion @ cid @ sha (str_bytes share) @ nC @ ext"
    "p2 = auth_proof hm key nC nS" "h_op h1 = op_code OP_HELLO" "h_op h2 = op_code OP_AUTH"
    "length cid = 16" "length nC = 16"
    "let (tx, rx) = derive_session_keys hm key nC nS True in c' = chan_activate tx rx c"
    using tcp.server_handshake_sound [OF assms(1) r] by blast
  have "active c'" using S(8) by (simp add: derive_session_keys_def Let_def chan_activate_def)
  moreover have "k_unread ks = enc_header h1 @ (le_bytes 4 kProtocolVersion @ cid @ sha (str_bytes share) @
      nC @ ext) @ enc_header h2 @ auth_proof hm key nC nS @ rest"
    using S(1) unfolding S(2,3) .
  ultimately show ?thesis using S(4-7) unfolding if_P [OF True] by blast
next
  case False
  then show ?thesis using tcp.server_handshake_refused assms(2) by auto
qed

theorem server_authenticates_witness:
  "(case ex_srv_run of (ok, cid, c, _) \<Rightarrow> ok \<and> active c)"
proof -
  obtain ok cid cs ks' where s: "ex_srv_run = (ok, cid, cs, ks')" by (metis prod_cases4)
  have "k_open ex_ks" by (simp add: ex_ks_def ex_sock_def)
  from server_authenticates [OF this s] ex_runs(1) s show ?thesis by auto
qed

end
