(* ===== verification/Paths.thy ===== *)
theory Paths
  imports FB_Prelude
begin

text \<open>
  Paths of \<open>std::filesystem\<close> on a POSIX system, as far as \<open>client/src/server/server.cpp\<close> uses them:
  the component sequence, \<open>operator/=\<close>, \<open>lexically_normal\<close> and \<open>filename\<close>, and on top of them the
  server's \<open>path_key\<close> and \<open>path_within\<close>. The separator is the slash; a backslash is an ordinary
  character for the standard library, but the server's own helpers treat it as a separator too.
\<close>

section \<open>Components\<close>

abbreviation slash :: char where "slash \<equiv> CHR ''/''"
abbreviation backslash :: char where "backslash \<equiv> CHR 0x5C"

text \<open>Filenames between slashes; runs of slashes count once.\<close>

fun tokens_acc :: "string \<Rightarrow> string \<Rightarrow> string list" where
  "tokens_acc cur [] = (if cur = [] then [] else [cur])"
| "tokens_acc cur (c # cs) =
     (if c = slash then (if cur = [] then tokens_acc [] cs else cur # tokens_acc [] cs)
      else tokens_acc (cur @ [c]) cs)"

definition tokens :: "string \<Rightarrow> string list" where
  "tokens s = tokens_acc [] s"

definition is_absolute :: "string \<Rightarrow> bool" where
  "is_absolute p \<longleftrightarrow> p \<noteq> [] \<and> hd p = slash"

text \<open>Iterating a relative \<open>fs::path\<close>: its filenames, and an empty one after a trailing slash.\<close>

definition rel_parts :: "string \<Rightarrow> string list" where
  "rel_parts p = tokens p @ (if p \<noteq> [] \<and> last p = slash then [[]] else [])"

definition filename :: "string \<Rightarrow> string" where
  "filename p = (if p \<noteq> [] \<and> last p = slash \<or> tokens p = [] then [] else last (tokens p))"

definition path_append :: "string \<Rightarrow> string \<Rightarrow> string" where
  "path_append p s = (if is_absolute s then s
     else if p \<noteq> [] \<and> last p \<noteq> slash then p @ slash # s else p @ s)"

fun join :: "string list \<Rightarrow> string" where
  "join [] = []"
| "join [t] = t"
| "join (t # ts) = t @ slash # join ts"

section \<open>Lexical normal form\<close>

abbreviation dot :: string where "dot \<equiv> ''.''"
abbreviation dotdot :: string where "dotdot \<equiv> ''..''"

text \<open>One component on the normalised stack (deepest first is \<open>last\<close>).\<close>

definition norm_step :: "bool \<Rightarrow> string list \<Rightarrow> string \<Rightarrow> string list" where
  "norm_step ab st t =
     (if t = dot then st
      else if t = dotdot then
        (if st \<noteq> [] \<and> last st \<noteq> dotdot then butlast st
         else if ab then st else st @ [t])
      else st @ [t])"

definition norm_comps :: "string \<Rightarrow> string list" where
  "norm_comps p = foldl (norm_step (is_absolute p)) [] (tokens p)"

text \<open>A trailing slash survives unless nothing or a dot-dot precedes it.\<close>

definition norm_trailing :: "string \<Rightarrow> bool" where
  "norm_trailing p \<longleftrightarrow> norm_comps p \<noteq> [] \<and> last (norm_comps p) \<noteq> dotdot \<and>
     (last p = slash \<or> last (tokens p) \<in> {dot, dotdot})"

definition lexically_normal :: "string \<Rightarrow> string" where
  "lexically_normal p = (if p = [] then [] else
     (let s = (if is_absolute p then [slash] else []) @ join (norm_comps p) @
              (if norm_trailing p then [slash] else [])
      in if s = [] then dot else s))"

section \<open>The server's helpers\<close>

definition is_sep :: "char \<Rightarrow> bool" where
  "is_sep c \<longleftrightarrow> c = slash \<or> c = backslash"

function strip_seps :: "string \<Rightarrow> string" where
  "strip_seps s = (if length s > 1 \<and> is_sep (last s) then strip_seps (butlast s) else s)"
  by pat_completeness auto
termination
  by (relation "measure length") auto

declare strip_seps.simps [simp del]

definition path_key :: "string \<Rightarrow> string" where
  "path_key p = strip_seps (lexically_normal p)"

definition path_within :: "string \<Rightarrow> string \<Rightarrow> bool" where
  "path_within root candidate =
     (let r = path_key root; c = path_key candidate
      in if c = r then True
         else if r = [] then False
         else if r = [slash] then c \<noteq> [] \<and> hd c = slash
         else length c > length r \<and> take (length r) c = r \<and> is_sep (c ! length r))"

lemma path_within_refl [simp]: "path_within p p"
  by (simp add: path_within_def)

section \<open>Components of a child\<close>

text \<open>A plain name: one component that stays below its parent.\<close>

definition plain_name :: "string \<Rightarrow> bool" where
  "plain_name s \<longleftrightarrow> s \<noteq> [] \<and> s \<noteq> dot \<and> s \<noteq> dotdot \<and> slash \<notin> set s"

lemma tokens_acc_append_plain:
  "slash \<notin> set s \<Longrightarrow> s \<noteq> [] \<Longrightarrow>
     tokens_acc cur (p @ slash # s) = tokens_acc cur p @ [s]"
proof (induction cur p rule: tokens_acc.induct)
  case (1 cur)
  have "slash \<notin> set s \<Longrightarrow> tokens_acc c s = (if c @ s = [] then [] else [c @ s])" for c
    by (induction s arbitrary: c) auto
  with 1 show ?case by simp
qed auto

lemma tokens_acc_plain: "slash \<notin> set s \<Longrightarrow> s \<noteq> [] \<Longrightarrow> tokens_acc [] s = [s]"
  using tokens_acc_append_plain [of s "[]" "[]"] by simp

lemma tokens_acc_trailing:
  "p \<noteq> [] \<Longrightarrow> last p = slash \<Longrightarrow> slash \<notin> set s \<Longrightarrow> s \<noteq> [] \<Longrightarrow>
     tokens_acc cur (p @ s) = tokens_acc cur p @ [s]"
proof -
  assume "p \<noteq> []" "last p = slash" and s: "slash \<notin> set s" "s \<noteq> []"
  then have p: "p @ s = butlast p @ slash # s" "p = butlast p @ [slash]"
    by (metis append.assoc append_Cons append_Nil append_butlast_last_id)+
  have t: "tokens_acc cur (q @ [slash]) = tokens_acc cur q" for cur q
    by (induction cur q rule: tokens_acc.induct) auto
  show ?thesis
    unfolding p(1) using s t [of cur "butlast p"] p(2) by (simp add: tokens_acc_append_plain)
qed

lemma tokens_child:
  assumes "plain_name s" "p \<noteq> []"
  shows "tokens (path_append p s) = tokens p @ [s]"
proof -
  have "\<not> is_absolute s" using assms(1) by (cases s) (auto simp: plain_name_def is_absolute_def)
  then show ?thesis
    using assms tokens_acc_append_plain [of s "[]" p] tokens_acc_trailing [of p s "[]"]
    by (auto simp: path_append_def tokens_def plain_name_def)
qed

lemma is_absolute_child [simp]:
  "plain_name s \<Longrightarrow> p \<noteq> [] \<Longrightarrow> is_absolute (path_append p s) \<longleftrightarrow> is_absolute p"
  by (cases s) (auto simp: path_append_def is_absolute_def plain_name_def)

lemma norm_comps_child:
  "plain_name s \<Longrightarrow> p \<noteq> [] \<Longrightarrow> norm_comps (path_append p s) = norm_comps p @ [s]"
  by (simp add: norm_comps_def tokens_child norm_step_def) (simp add: plain_name_def)

lemma last_child: "plain_name s \<Longrightarrow> last (path_append p s) \<noteq> slash"
  by (auto simp: path_append_def plain_name_def is_absolute_def dest: last_in_set)

lemma path_append_ne [simp]: "plain_name s \<Longrightarrow> path_append p s \<noteq> []"
  by (auto simp: path_append_def plain_name_def)

lemma norm_trailing_child: "plain_name s \<Longrightarrow> p \<noteq> [] \<Longrightarrow> \<not> norm_trailing (path_append p s)"
  using last_child [of s p]
  by (auto simp: norm_trailing_def tokens_child plain_name_def)

lemma join_snoc: "ts \<noteq> [] \<Longrightarrow> join (ts @ [s]) = join ts @ slash # s"
  by (induction ts rule: join.induct) auto

lemma lexically_normal_child:
  assumes s: "plain_name s" and p: "p \<noteq> []"
  shows "lexically_normal (path_append p s) =
    (if is_absolute p then [slash] else []) @
    (if norm_comps p = [] then s else join (norm_comps p) @ slash # s)"
  using assms norm_trailing_child [OF s p]
  by (auto simp: lexically_normal_def norm_comps_child Let_def join_snoc plain_name_def)

section \<open>A child of a path inside the root is inside the root\<close>

lemma strip_seps_split:
  "s \<noteq> [] \<Longrightarrow> \<exists>t. s = strip_seps s @ t \<and> list_all is_sep t \<and> strip_seps s \<noteq> [] \<and>
     (length (strip_seps s) = 1 \<or> \<not> is_sep (last (strip_seps s)))"
proof (induction s rule: strip_seps.induct)
  case (1 s)
  show ?case
  proof (cases "length s > 1 \<and> is_sep (last s)")
    case True
    then have "butlast s \<noteq> []" by (cases s rule: rev_cases) auto
    then obtain t where t: "butlast s = strip_seps (butlast s) @ t" "list_all is_sep t"
        "strip_seps (butlast s) \<noteq> []"
        "length (strip_seps (butlast s)) = 1 \<or> \<not> is_sep (last (strip_seps (butlast s)))"
      using 1(1) [OF True] by blast
    have st: "strip_seps s = strip_seps (butlast s)" using True by (simp add: strip_seps.simps [of s])
    have "s = butlast s @ [last s]" using 1(2) by simp
    then have "s = strip_seps s @ (t @ [last s])" unfolding st using t(1) by (metis append.assoc)
    moreover have "list_all is_sep (t @ [last s])" using t(2) True by simp
    ultimately show ?thesis using t(3,4) st by auto
  next
    case False
    then have "strip_seps s = s" by (subst strip_seps.simps) (simp only: if_False)
    moreover have "length s = 1 \<or> \<not> is_sep (last s)"
      using False 1(2) by (cases s) auto
    ultimately show ?thesis using 1(2) by simp
  qed
qed

lemma strip_seps_slash: "s \<noteq> [] \<Longrightarrow> strip_seps (s @ [slash]) = strip_seps s"
  by (simp add: strip_seps.simps [of "s @ [slash]"] is_sep_def)

definition norm_body :: "string \<Rightarrow> string" where
  "norm_body p = slash # join (norm_comps p)"

lemma path_key_absolute: "is_absolute p \<Longrightarrow> path_key p = strip_seps (norm_body p)"
proof -
  assume a: "is_absolute p"
  then have "p \<noteq> []" by (auto simp: is_absolute_def)
  then have n: "lexically_normal p = norm_body p @ (if norm_trailing p then [slash] else [])"
    using a by (simp add: lexically_normal_def norm_body_def)
  have "norm_body p \<noteq> []" by (simp add: norm_body_def)
  then show ?thesis unfolding path_key_def n by (simp add: strip_seps_slash)
qed

lemma path_key_ne: "p \<noteq> [] \<Longrightarrow> path_key p \<noteq> []"
proof -
  assume "p \<noteq> []"
  then have "lexically_normal p \<noteq> []" by (simp add: lexically_normal_def Let_def)
  then show ?thesis unfolding path_key_def using strip_seps_split by blast
qed

lemma norm_body_child:
  "plain_name s \<Longrightarrow> p \<noteq> [] \<Longrightarrow> norm_body (path_append p s) =
     norm_body p @ (if norm_comps p = [] then s else slash # s)"
  by (simp add: norm_body_def norm_comps_child join_snoc)

lemma path_within_child:
  assumes "is_absolute root" "is_absolute p" "path_within root p" "plain_name s"
  shows "path_within root (path_append p s)"
proof -
  have ne: "p \<noteq> []" "root \<noteq> []" using assms(1,2) by (auto simp: is_absolute_def)
  let ?r = "path_key root" and ?c = "path_key p" and ?k = "path_key (path_append p s)"
  have r: "?r \<noteq> []" using path_key_ne ne by blast
  have c: "?c = strip_seps (norm_body p)" and k: "?k = strip_seps (norm_body (path_append p s))"
    using assms ne by (simp_all add: path_key_absolute)
  obtain t where t: "norm_body p = ?c @ t" "list_all is_sep t" "?c \<noteq> []"
      "length ?c = 1 \<or> \<not> is_sep (last ?c)"
    using strip_seps_split [of "norm_body p"] unfolding c by (auto simp: norm_body_def)
  obtain u where u: "norm_body (path_append p s) = ?k @ u" "list_all is_sep u" "?k \<noteq> []"
    using strip_seps_split [of "norm_body (path_append p s)"] unfolding k by (auto simp: norm_body_def)
  have hk: "hd ?k = slash" using u(1,3) by (metis hd_append2 list.sel(1) norm_body_def)
  show ?thesis
  proof (cases "norm_comps p = []")
    case True
    then have "norm_body p = [slash]" by (simp add: norm_body_def)
    then have "?c = [slash]" unfolding c by (simp add: strip_seps.simps)
    then have "?r = [slash]" using assms(3) r by (auto simp: path_within_def Let_def split: if_splits)
    then show ?thesis using hk u(3) by (simp add: path_within_def Let_def)
  next
    case False
    then have e: "?c @ t @ slash # s = ?k @ u"
      using u(1) t(1) assms(4) ne by (simp add: norm_body_child)
    have "\<not> length ?k < length ?c"
    proof
      assume l: "length ?k < length ?c"
      then have "last ?c \<in> set u"
      proof -
        have "?c = take (length ?c) (?k @ u)" using e by (metis append_eq_conv_conj)
        then have "?c = ?k @ take (length ?c - length ?k) u" using l by simp
        moreover have "take (length ?c - length ?k) u \<noteq> []" using calculation l by auto
        ultimately have "last ?c = last (take (length ?c - length ?k) u)" by (metis last_appendR)
        then show ?thesis using \<open>take _ u \<noteq> []\<close> by (metis in_set_takeD last_in_set)
      qed
      then have "is_sep (last ?c)" using u(2) by (simp add: list_all_iff)
      then have "length ?c = 1" using t(4) by blast
      then show False using l u(3) by simp
    qed
    then have "?k = ?c \<or> (\<exists>x y. ?k = ?c @ x # y \<and> is_sep x)"
    proof -
      assume "\<not> length ?k < length ?c"
      then have "?k = ?c @ drop (length ?c) ?k" "?c = take (length ?c) ?k"
        using e by (metis append_eq_append_conv_if append_take_drop_id not_less)+
      moreover have "is_sep x" if "drop (length ?c) ?k = x # y" for x y
      proof -
        have "t @ slash # s = (x # y) @ u" using e calculation that by (metis append.assoc same_append_eq)
        then show ?thesis using t(2) by (cases t) (auto simp: is_sep_def)
      qed
      ultimately show ?thesis by (cases "drop (length ?c) ?k") auto
    qed
    then show ?thesis
    proof
      assume "?k = ?c"
      then show ?thesis using assms(3) by (simp add: path_within_def)
    next
      assume "\<exists>x y. ?k = ?c @ x # y \<and> is_sep x"
      then obtain x y where "?k = ?c @ x # y" "is_sep x" by blast
      then show ?thesis
        using assms(3) hk u(3) r
        by (auto simp: path_within_def Let_def nth_append split: if_splits)
    qed
  qed
qed

section \<open>Absolute paths\<close>

lemma tokens_acc_names: "slash \<notin> set cur \<Longrightarrow> t \<in> set (tokens_acc cur s) \<Longrightarrow> t \<noteq> [] \<and> slash \<notin> set t"
  by (induction cur s rule: tokens_acc.induct) (auto split: if_splits)

lemma tokens_names: "t \<in> set (tokens s) \<Longrightarrow> t \<noteq> [] \<and> slash \<notin> set t"
  using tokens_acc_names [of "[]"] by (simp add: tokens_def)

lemma norm_comps_subset: "set (norm_comps p) \<subseteq> set (tokens p)"
proof -
  have "set (foldl (norm_step ab) st ts) \<subseteq> set st \<union> set ts" for ab st ts
  proof (induction ts arbitrary: st)
    case (Cons t ts)
    have "set (norm_step ab st t) \<subseteq> set st \<union> {t}"
      by (auto simp: norm_step_def dest: in_set_butlastD)
    with Cons [of "norm_step ab st t"] show ?case by auto
  qed simp
  from this [of "is_absolute p" "[]"] show ?thesis by (simp add: norm_comps_def)
qed

lemma join_hd: "ts \<noteq> [] \<Longrightarrow> (\<And>t. t \<in> set ts \<Longrightarrow> t \<noteq> [] \<and> slash \<notin> set t) \<Longrightarrow>
    join ts \<noteq> [] \<and> hd (join ts) \<noteq> slash"
  by (cases ts rule: join.cases) (auto simp: hd_append, (metis hd_in_set)+)

lemma path_key_relative:
  assumes "p \<noteq> []" "\<not> is_absolute p"
  shows "hd (path_key p) \<noteq> slash"
proof -
  have n: "t \<noteq> [] \<and> slash \<notin> set t" if "t \<in> set (norm_comps p)" for t
    using that norm_comps_subset tokens_names by blast
  have "lexically_normal p \<noteq> [] \<and> hd (lexically_normal p) \<noteq> slash"
  proof (cases "norm_comps p = []")
    case True
    then show ?thesis using assms by (simp add: lexically_normal_def norm_trailing_def)
  next
    case False
    with join_hd [OF False n] assms show ?thesis
      by (simp add: lexically_normal_def Let_def hd_append)
  qed
  then show ?thesis unfolding path_key_def using strip_seps_split [of "lexically_normal p"]
    by (metis hd_append2)
qed

lemma path_within_absolute:
  assumes "is_absolute root" "path_within root p"
  shows "is_absolute p"
proof (rule ccontr)
  assume a: "\<not> is_absolute p"
  have k: "path_key root = strip_seps (norm_body root)" using assms(1) by (rule path_key_absolute)
  have "norm_body root \<noteq> []" "hd (norm_body root) = slash" by (simp_all add: norm_body_def)
  then have r: "path_key root \<noteq> []" "hd (path_key root) = slash"
    unfolding k using strip_seps_split [of "norm_body root"] by (metis hd_append2)+
  show False
  proof (cases "p = []")
    case True
    then have "path_key p = []" by (simp add: path_key_def lexically_normal_def strip_seps.simps)
    then show False using assms(2) r by (auto simp: path_within_def Let_def split: if_splits)
  next
    case False
    from path_key_relative [OF False a] assms(2) r show False
      by (auto simp: path_within_def Let_def split: if_splits)
         (metis hd_append2 append_take_drop_id)
  qed
qed

end
