(* ===== verification/OsFs.thy ===== *)
theory OsFs
  imports Wire Paths
begin

text \<open>
  What the host process asks of its operating system. Open flags are translated between the wire's
  portable values and the Linux ones (\<open>client/include/core/osflags.h\<close>). The calls themselves are a
  record of functions over a state of the system, because the files of the host are not part of the
  program; \<open>logged\<close> runs the same calls and also records them, so that a theorem can speak about
  every call an operation makes. \<open>FileHandle\<close> (\<open>client/include/core/fileio.h\<close>) is the descriptor
  it wraps.
\<close>

section \<open>Open flags\<close>

definition FB_O_ACCMODE :: u32 where "FB_O_ACCMODE = 3"
definition FB_O_WRONLY :: u32 where "FB_O_WRONLY = 1"
definition FB_O_RDWR :: u32 where "FB_O_RDWR = 2"
definition FB_O_CREAT :: u32 where "FB_O_CREAT = 0x100"
definition FB_O_EXCL :: u32 where "FB_O_EXCL = 0x200"
definition FB_O_TRUNC :: u32 where "FB_O_TRUNC = 0x400"
definition FB_O_APPEND :: u32 where "FB_O_APPEND = 0x800"

text \<open>The values of \<open>fcntl.h\<close> on Linux.\<close>

definition O_CREAT :: u32 where "O_CREAT = 0x40"
definition O_EXCL :: u32 where "O_EXCL = 0x80"
definition O_TRUNC :: u32 where "O_TRUNC = 0x200"
definition O_APPEND :: u32 where "O_APPEND = 0x400"

lemmas flag_defs = FB_O_ACCMODE_def FB_O_WRONLY_def FB_O_RDWR_def FB_O_CREAT_def FB_O_EXCL_def
  FB_O_TRUNC_def FB_O_APPEND_def O_CREAT_def O_EXCL_def O_TRUNC_def O_APPEND_def

definition to_portable_flags :: "u32 \<Rightarrow> u32" where
  "to_portable_flags f =
     (let r = f AND 3;
          r = (if f AND O_CREAT \<noteq> 0 then r OR FB_O_CREAT else r);
          r = (if f AND O_EXCL \<noteq> 0 then r OR FB_O_EXCL else r);
          r = (if f AND O_TRUNC \<noteq> 0 then r OR FB_O_TRUNC else r);
          r = (if f AND O_APPEND \<noteq> 0 then r OR FB_O_APPEND else r)
      in r)"

definition from_portable_flags :: "u32 \<Rightarrow> u32" where
  "from_portable_flags f =
     (let r = f AND 3;
          r = (if f AND FB_O_CREAT \<noteq> 0 then r OR O_CREAT else r);
          r = (if f AND FB_O_EXCL \<noteq> 0 then r OR O_EXCL else r);
          r = (if f AND FB_O_TRUNC \<noteq> 0 then r OR O_TRUNC else r);
          r = (if f AND FB_O_APPEND \<noteq> 0 then r OR O_APPEND else r)
      in r)"

text \<open>The bits that survive the wire.\<close>

lemma and_pow2_iff: "((f :: u32) AND push_bit n 1 \<noteq> 0) \<longleftrightarrow> n < 32 \<and> bit f n"
proof
  assume "f AND push_bit n 1 \<noteq> 0"
  then obtain k where "bit (f AND push_bit n 1) k" using bit_eq_iff [of "f AND push_bit n 1" 0] by auto
  then show "n < 32 \<and> bit f n" by (auto simp: bit_simps dest: bit_imp_le_length)
next
  assume "n < 32 \<and> bit f n"
  then have "bit (f AND push_bit n 1) n" by (simp add: bit_simps)
  then show "f AND push_bit n 1 \<noteq> 0" by (metis bit_0_eq bot_apply bot_bool_def)
qed

lemma portable_bits:
  "(f AND 0x40 \<noteq> 0) = bit (f :: u32) 6" "(f AND 0x80 \<noteq> 0) = bit f 7"
  "(f AND 0x100 \<noteq> 0) = bit f 8" "(f AND 0x200 \<noteq> 0) = bit f 9"
  "(f AND 0x400 \<noteq> 0) = bit f 10" "(f AND 0x800 \<noteq> 0) = bit f 11"
  using and_pow2_iff [of f 6] and_pow2_iff [of f 7] and_pow2_iff [of f 8] and_pow2_iff [of f 9]
    and_pow2_iff [of f 10] and_pow2_iff [of f 11] by simp_all

lemma or_bits_eq:
  "(0x40 :: u32) = push_bit 6 1" "(0x80 :: u32) = push_bit 7 1" "(0x100 :: u32) = push_bit 8 1"
  "(0x200 :: u32) = push_bit 9 1" "(0x400 :: u32) = push_bit 10 1" "(0x800 :: u32) = push_bit 11 1"
  "(3 :: u32) = 1 OR push_bit 1 1"
  by simp_all

lemma or_if: "(if c then r OR x else r) = r OR (if c then x else (0 :: u32))"
  by simp

lemma bit_pow: "bit (push_bit k 1 :: u32) n \<longleftrightarrow> k < 32 \<and> n = k"
  unfolding bit_push_bit_iff bit_1_iff by (auto simp: possible_bit_word)

lemma bit_if_pow: "bit (if c then push_bit k 1 else (0 :: u32)) n \<longleftrightarrow> c \<and> k < 32 \<and> n = k"
  unfolding if_distrib [of "\<lambda>x. bit x n"] bit_pow by simp

lemma bit_and_3: "bit ((f :: u32) AND 3) n \<longleftrightarrow> n < 2 \<and> bit f n"
proof -
  have "(3 :: u32) = mask 2" by (simp add: mask_eq_exp_minus_1)
  then show ?thesis
    by (simp only: bit_and_iff bit_mask_iff) (auto dest: bit_imp_le_length simp: possible_bit_word)
qed

lemma bit_from_portable:
  "bit (from_portable_flags f) n \<longleftrightarrow> (n < 2 \<and> bit f n) \<or> (bit f 8 \<and> n = 6) \<or> (bit f 9 \<and> n = 7) \<or>
     (bit f 10 \<and> n = 9) \<or> (bit f 11 \<and> n = 10)"
proof -
  have "from_portable_flags f = (f AND 3) OR (if bit f 8 then push_bit 6 1 else 0) OR
      (if bit f 9 then push_bit 7 1 else 0) OR (if bit f 10 then push_bit 9 1 else 0) OR
      (if bit f 11 then push_bit 10 1 else 0)"
    unfolding from_portable_flags_def Let_def flag_defs portable_bits or_if unfolding or_bits_eq(1-6)
    by (simp only: or.assoc)
  then show ?thesis by (simp only: bit_or_iff bit_and_3 bit_if_pow) auto
qed

lemma bit_to_portable:
  "bit (to_portable_flags f) n \<longleftrightarrow> (n < 2 \<and> bit f n) \<or> (bit f 6 \<and> n = 8) \<or> (bit f 7 \<and> n = 9) \<or>
     (bit f 9 \<and> n = 10) \<or> (bit f 10 \<and> n = 11)"
proof -
  have "to_portable_flags f = (f AND 3) OR (if bit f 6 then push_bit 8 1 else 0) OR
      (if bit f 7 then push_bit 9 1 else 0) OR (if bit f 9 then push_bit 10 1 else 0) OR
      (if bit f 10 then push_bit 11 1 else 0)"
    unfolding to_portable_flags_def Let_def flag_defs portable_bits or_if unfolding or_bits_eq(1-6)
    by (simp only: or.assoc)
  then show ?thesis by (simp only: bit_or_iff bit_and_3 bit_if_pow) auto
qed

text \<open>Every flag the wire knows survives the way from one Linux host to another, and nothing else does.\<close>

lemma flags_round_trip: "from_portable_flags (to_portable_flags f) = f AND 0x6c3"
proof -
  have m: "(0x6c3 :: u32) = 3 OR push_bit 6 1 OR push_bit 7 1 OR push_bit 9 1 OR push_bit 10 1"
    by simp
  have t: "bit (3 :: u32) n \<longleftrightarrow> n < 2" for n using bit_and_3 [of "- 1" n] by auto
  show ?thesis
    unfolding m by (rule bit_eqI, simp only: bit_and_iff bit_or_iff bit_pow t bit_from_portable bit_to_portable, auto)
qed

lemma flags_portable_round_trip: "to_portable_flags (from_portable_flags f) = f AND 0xf03"
proof -
  have m: "(0xf03 :: u32) = 3 OR push_bit 8 1 OR push_bit 9 1 OR push_bit 10 1 OR push_bit 11 1"
    by simp
  have t: "bit (3 :: u32) n \<longleftrightarrow> n < 2" for n using bit_and_3 [of "- 1" n] by auto
  show ?thesis
    unfolding m by (rule bit_eqI, simp only: bit_and_iff bit_or_iff bit_pow t bit_from_portable bit_to_portable, auto)
qed

section \<open>The operating system's calls\<close>

record os_stat =
  st_ino :: u64
  st_size :: u64
  st_blocks :: u64
  st_atime :: u64
  st_mtime :: u64
  st_ctime :: u64
  st_mode :: u32
  st_nlink :: u64
  st_uid :: u32
  st_gid :: u32

text \<open>
  A failing call returns its \<open>errno\<close> or sets its \<open>error_code\<close>. A directory listing is the names in
  order and whether an error ended it. A space query that fails leaves the structure with all bits
  set, as the standard library documents.
\<close>

record 'o os_api =
  os_lstat :: "string \<Rightarrow> 'o \<Rightarrow> os_stat option \<times> 'o"
  os_exists :: "string \<Rightarrow> 'o \<Rightarrow> (bool \<times> bool) \<times> 'o"
  os_is_symlink :: "string \<Rightarrow> 'o \<Rightarrow> bool \<times> 'o"
  os_canonical :: "string \<Rightarrow> 'o \<Rightarrow> string option \<times> 'o"
  os_listdir :: "string \<Rightarrow> 'o \<Rightarrow> (string list \<times> bool) \<times> 'o"
  os_open :: "string \<Rightarrow> u32 \<Rightarrow> u32 \<Rightarrow> 'o \<Rightarrow> (nat + nat) \<times> 'o"
  os_pread :: "nat \<Rightarrow> nat \<Rightarrow> u64 \<Rightarrow> 'o \<Rightarrow> bytes option \<times> 'o"
  os_pwrite :: "nat \<Rightarrow> bytes \<Rightarrow> u64 \<Rightarrow> 'o \<Rightarrow> nat option \<times> 'o"
  os_fsync :: "nat \<Rightarrow> 'o \<Rightarrow> bool \<times> 'o"
  os_close :: "nat \<Rightarrow> 'o \<Rightarrow> unit \<times> 'o"
  os_mkdir :: "string \<Rightarrow> 'o \<Rightarrow> (bool \<times> bool) \<times> 'o"
  os_remove :: "string \<Rightarrow> 'o \<Rightarrow> (bool \<times> bool) \<times> 'o"
  os_rename :: "string \<Rightarrow> string \<Rightarrow> 'o \<Rightarrow> bool \<times> 'o"
  os_resize :: "string \<Rightarrow> u64 \<Rightarrow> 'o \<Rightarrow> bool \<times> 'o"
  os_space :: "string \<Rightarrow> 'o \<Rightarrow> (u64 \<times> u64 \<times> u64) \<times> 'o"
  os_chmod :: "string \<Rightarrow> u32 \<Rightarrow> 'o \<Rightarrow> nat \<times> 'o"
  os_utime :: "string \<Rightarrow> u64 \<Rightarrow> 'o \<Rightarrow> bool \<times> 'o"

text \<open>
  \<open>os_rename\<close>, \<open>os_resize\<close> and \<open>os_utime\<close> return the error flag, \<open>os_chmod\<close> returns 0 or the
  \<open>errno\<close>; \<open>os_exists\<close>, \<open>os_mkdir\<close> and \<open>os_remove\<close> return the answer and the error flag.
\<close>

datatype os_call =
    C_lstat string | C_exists string | C_is_symlink string | C_canonical string | C_listdir string
  | C_open string u32 u32 | C_pread nat nat u64 | C_pwrite nat bytes u64 | C_fsync nat | C_close nat
  | C_mkdir string | C_remove string | C_rename string string | C_resize string u64
  | C_space string | C_chmod string u32 | C_utime string u64

definition log_call :: "os_call \<Rightarrow> ('o \<Rightarrow> 'a \<times> 'o) \<Rightarrow> os_call list \<times> 'o \<Rightarrow> 'a \<times> os_call list \<times> 'o" where
  "log_call c f = (\<lambda>(l, s). case f s of (r, s') \<Rightarrow> (r, l @ [c], s'))"

definition logged :: "'o os_api \<Rightarrow> (os_call list \<times> 'o) os_api" where
  "logged a = \<lparr>
     os_lstat = (\<lambda>p. log_call (C_lstat p) (os_lstat a p)),
     os_exists = (\<lambda>p. log_call (C_exists p) (os_exists a p)),
     os_is_symlink = (\<lambda>p. log_call (C_is_symlink p) (os_is_symlink a p)),
     os_canonical = (\<lambda>p. log_call (C_canonical p) (os_canonical a p)),
     os_listdir = (\<lambda>p. log_call (C_listdir p) (os_listdir a p)),
     os_open = (\<lambda>p f m. log_call (C_open p f m) (os_open a p f m)),
     os_pread = (\<lambda>d n off. log_call (C_pread d n off) (os_pread a d n off)),
     os_pwrite = (\<lambda>d b off. log_call (C_pwrite d b off) (os_pwrite a d b off)),
     os_fsync = (\<lambda>d. log_call (C_fsync d) (os_fsync a d)),
     os_close = (\<lambda>d. log_call (C_close d) (os_close a d)),
     os_mkdir = (\<lambda>p. log_call (C_mkdir p) (os_mkdir a p)),
     os_remove = (\<lambda>p. log_call (C_remove p) (os_remove a p)),
     os_rename = (\<lambda>p q. log_call (C_rename p q) (os_rename a p q)),
     os_resize = (\<lambda>p n. log_call (C_resize p n) (os_resize a p n)),
     os_space = (\<lambda>p. log_call (C_space p) (os_space a p)),
     os_chmod = (\<lambda>p m. log_call (C_chmod p m) (os_chmod a p m)),
     os_utime = (\<lambda>p t. log_call (C_utime p t) (os_utime a p t))\<rparr>"

text \<open>The paths a call names.\<close>

primrec call_paths :: "os_call \<Rightarrow> string list" where
  "call_paths (C_lstat p) = [p]"
| "call_paths (C_exists p) = [p]"
| "call_paths (C_is_symlink p) = [p]"
| "call_paths (C_canonical p) = [p]"
| "call_paths (C_listdir p) = [p]"
| "call_paths (C_open p f m) = [p]"
| "call_paths (C_pread d n off) = []"
| "call_paths (C_pwrite d b off) = []"
| "call_paths (C_fsync d) = []"
| "call_paths (C_close d) = []"
| "call_paths (C_mkdir p) = [p]"
| "call_paths (C_remove p) = [p]"
| "call_paths (C_rename p q) = [p, q]"
| "call_paths (C_resize p n) = [p]"
| "call_paths (C_space p) = [p]"
| "call_paths (C_chmod p m) = [p]"
| "call_paths (C_utime p t) = [p]"

text \<open>
  The calls that change a file or a directory: an \<open>open\<close> does when it asks for write access (mode 1
  or 2) or creates, truncates or appends.
\<close>

definition open_mutates :: "u32 \<Rightarrow> bool" where
  "open_mutates f \<longleftrightarrow> f AND 3 = 1 \<or> f AND 3 = 2 \<or> f AND O_CREAT \<noteq> 0 \<or> f AND O_TRUNC \<noteq> 0 \<or>
     f AND O_APPEND \<noteq> 0"

primrec mutates :: "os_call \<Rightarrow> bool" where
  "mutates (C_lstat p) = False"
| "mutates (C_exists p) = False"
| "mutates (C_is_symlink p) = False"
| "mutates (C_canonical p) = False"
| "mutates (C_listdir p) = False"
| "mutates (C_open p f m) = open_mutates f"
| "mutates (C_pread d n off) = False"
| "mutates (C_pwrite d b off) = True"
| "mutates (C_fsync d) = False"
| "mutates (C_close d) = False"
| "mutates (C_mkdir p) = True"
| "mutates (C_remove p) = True"
| "mutates (C_rename p q) = True"
| "mutates (C_resize p n) = True"
| "mutates (C_space p) = False"
| "mutates (C_chmod p m) = True"
| "mutates (C_utime p t) = True"

lemma from_portable_read_only:
  assumes "f AND 3 \<noteq> 1" "f AND 3 \<noteq> 2" "f AND (FB_O_CREAT OR FB_O_TRUNC OR FB_O_APPEND) = 0"
  shows "\<not> open_mutates (from_portable_flags f)"
proof -
  have "f AND 0xd00 = 0" using assms(3) by (simp add: flag_defs)
  then have z: "\<not> bit (f AND 0xd00) n" for n by simp
  have m: "(0xd00 :: u32) = push_bit 8 1 OR push_bit 10 1 OR push_bit 11 1" by simp
  have "\<not> bit f 8" "\<not> bit f 10" "\<not> bit f 11"
    using z [of 8] z [of 10] z [of 11] unfolding m
    by (simp_all only: bit_and_iff bit_or_iff bit_pow, simp_all)
  then have "\<not> bit (from_portable_flags f) 6" "\<not> bit (from_portable_flags f) 9"
      "\<not> bit (from_portable_flags f) 10" by (simp_all add: bit_from_portable)
  moreover have "from_portable_flags f AND 3 = f AND 3"
    by (rule bit_eqI) (auto simp: bit_and_3 bit_from_portable)
  ultimately show ?thesis
    using assms(1,2) unfolding open_mutates_def flag_defs portable_bits by simp
qed

end
