(* ===== verification/ServerDispatch.thy ===== *)
theory ServerDispatch
  imports OsFs
begin

text \<open>
  The host's request handlers: \<open>Server::resolve\<close> and the \<open>switch\<close> of \<open>Server::handleStream\<close> in
  \<open>client/src/server/server.cpp\<close>. A handler gets the payload of a request and the server's state and
  returns the status and the payload of the response. The status is the 16-bit field of the header
  with the Linux values of \<open>errno\<close>.
\<close>

section \<open>State\<close>

definition ENOENT :: u16 where "ENOENT = 2"
definition EIO :: u16 where "EIO = 5"
definition EBADF :: u16 where "EBADF = 9"
definition EACCES :: u16 where "EACCES = 13"
definition EEXIST :: u16 where "EEXIST = 17"
definition EINVAL :: u16 where "EINVAL = 22"
definition EROFS :: u16 where "EROFS = 30"
definition ENOSYS :: u16 where "ENOSYS = 38"

lemmas errno_defs = ENOENT_def EIO_def EBADF_def EACCES_def EEXIST_def EINVAL_def EROFS_def ENOSYS_def

text \<open>One entry of \<open>broadcastSessions_\<close>: which stream it serves, its queue, its \<open>stopping\<close> flag.\<close>

record bsession =
  b_stream :: nat
  b_queue :: "string list"
  b_stopping :: bool

record 'o server =
  sv_os :: 'o
  sv_root :: string
  sv_allow_writes :: bool
  sv_handles :: "u64 \<rightharpoonup> nat" \<comment> \<open>\<open>handles_\<close>: the descriptor of the file handle\<close>
  sv_paths :: "u64 \<rightharpoonup> string" \<comment> \<open>\<open>fhPaths_\<close>\<close>
  sv_next_fh :: u64
  sv_bytes_out :: u64
  sv_bytes_in :: u64
  sv_bcast :: "bsession list"

definition sys :: "('o \<Rightarrow> 'a \<times> 'o) \<Rightarrow> 'o server \<Rightarrow> 'a \<times> 'o server" where
  "sys f sv = (case f (sv_os sv) of (r, s') \<Rightarrow> (r, sv\<lparr>sv_os := s'\<rparr>))"

section \<open>Invalidation broadcast\<close>

definition kMaxQueuedInvalidations :: nat where "kMaxQueuedInvalidations = 256"

definition enqueue_invalidation :: "string \<Rightarrow> bsession \<Rightarrow> bsession" where
  "enqueue_invalidation path b =
     (if b_stopping b then b
      else
        let q = (if length (b_queue b) \<ge> kMaxQueuedInvalidations then tl (b_queue b) else b_queue b)
        in b\<lparr>b_queue := q @ [path]\<rparr>)"

definition broadcast_invalidate :: "string \<Rightarrow> 'o server \<Rightarrow> 'o server" where
  "broadcast_invalidate path sv = sv\<lparr>sv_bcast := map (enqueue_invalidation path) (sv_bcast sv)\<rparr>"

section \<open>Path resolution\<close>

fun resolve_loop :: "'o os_api \<Rightarrow> string \<Rightarrow> string list \<Rightarrow> string \<Rightarrow> 'o \<Rightarrow> string option \<times> 'o" where
  "resolve_loop api base [] p s = (Some p, s)"
| "resolve_loop api base (part # parts) p s =
     (if part = [] \<or> part = dot then resolve_loop api base parts p s
      else if part = dotdot then (None, s)
      else
        let p' = path_append p part in
        case os_exists api p' s of ((found, ec), s) \<Rightarrow>
          if found then
            (case os_is_symlink api p' s of (symlink, s) \<Rightarrow>
              if symlink then (None, s)
              else (case os_canonical api p' s of
                  (None, s) \<Rightarrow> (None, s)
                | (Some canon, s) \<Rightarrow>
                    if \<not> path_within base canon then (None, s)
                    else resolve_loop api base parts canon s))
          else if ec then (None, s)
          else resolve_loop api base parts p' s)"

definition resolve :: "'o os_api \<Rightarrow> string \<Rightarrow> string \<Rightarrow> 'o \<Rightarrow> string option \<times> 'o" where
  "resolve api root rel s =
     (let r = dropWhile is_sep rel
      in case resolve_loop api root (rel_parts r) root s of
           (None, s) \<Rightarrow> (None, s)
         | (Some p, s) \<Rightarrow> if \<not> path_within root p then (None, s) else (Some p, s))"

definition S_ISLNK :: "u32 \<Rightarrow> bool" where
  "S_ISLNK mode \<longleftrightarrow> mode AND 0xF000 = 0xA000"

definition fill_attr :: "'o os_api \<Rightarrow> string \<Rightarrow> 'o \<Rightarrow> wire_attr option \<times> 'o" where
  "fill_attr api path s = (case os_lstat api path s of
      (None, s) \<Rightarrow> (None, s)
    | (Some st, s) \<Rightarrow>
        if S_ISLNK (st_mode st) then (None, s)
        else (Some \<lparr>a_ino = st_ino st, a_size = st_size st, a_blocks = st_blocks st,
                a_atime = st_atime st, a_mtime = st_mtime st, a_ctime = st_ctime st,
                a_mode = st_mode st, a_nlink = ucast (st_nlink st), a_uid = st_uid st,
                a_gid = st_gid st\<rparr>, s))"

section \<open>Handlers\<close>

type_synonym 'o handler = "bytes \<Rightarrow> 'o server \<Rightarrow> (u16 \<times> bytes) \<times> 'o server"

abbreviation fail :: "u16 \<Rightarrow> 'o server \<Rightarrow> (u16 \<times> bytes) \<times> 'o server" where
  "fail e sv \<equiv> ((e, []), sv)"

definition h_getattr :: "'o os_api \<Rightarrow> 'o handler" where
  "h_getattr api r sv = (case r_str r of
      (None, _) \<Rightarrow> fail EINVAL sv
    | (Some path, _) \<Rightarrow> (case sys (resolve api (sv_root sv) path) sv of
        (None, sv) \<Rightarrow> fail EACCES sv
      | (Some apath, sv) \<Rightarrow> (case sys (fill_attr api apath) sv of
          (None, sv) \<Rightarrow> fail ENOENT sv
        | (Some a, sv) \<Rightarrow> ((0, w_attr [] a), sv))))"

fun read_entries :: "'o os_api \<Rightarrow> string \<Rightarrow> string list \<Rightarrow> 'o \<Rightarrow> (string \<times> wire_attr) list \<times> 'o" where
  "read_entries api apath [] s = ([], s)"
| "read_entries api apath (n # ns) s = (case fill_attr api (path_append apath n) s of
      (None, s) \<Rightarrow> read_entries api apath ns s
    | (Some a, s) \<Rightarrow> (case read_entries api apath ns s of (es, s) \<Rightarrow> ((n, a) # es, s)))"

definition w_entries :: "(string \<times> wire_attr) list \<Rightarrow> bytes" where
  "w_entries es = foldl (\<lambda>w (n, a). w_attr (w_str w n) a) (w_pod [] (of_nat (length es) :: u32)) es"

definition h_readdir :: "'o os_api \<Rightarrow> 'o handler" where
  "h_readdir api r sv = (case r_str r of
      (None, _) \<Rightarrow> fail EINVAL sv
    | (Some path, _) \<Rightarrow> (case sys (resolve api (sv_root sv) path) sv of
        (None, sv) \<Rightarrow> fail EACCES sv
      | (Some apath, sv) \<Rightarrow> (case sys (os_listdir api apath) sv of ((names, ec), sv) \<Rightarrow>
          (case sys (read_entries api apath names) sv of (entries, sv) \<Rightarrow>
            if ec then fail ENOENT sv else ((0, w_entries entries), sv)))))"

definition opens_for_write :: "bool \<Rightarrow> u32 \<Rightarrow> bool" where
  "opens_for_write create pflags \<longleftrightarrow> create \<or> pflags AND FB_O_ACCMODE = FB_O_WRONLY \<or>
     pflags AND FB_O_ACCMODE = FB_O_RDWR \<or>
     pflags AND (FB_O_CREAT OR FB_O_TRUNC OR FB_O_APPEND) \<noteq> 0"

definition h_open :: "'o os_api \<Rightarrow> bool \<Rightarrow> 'o handler" where
  "h_open api create r sv = (case r_str r of
      (None, _) \<Rightarrow> fail EINVAL sv
    | (Some path, r) \<Rightarrow> (case (r_pod r :: u32 option \<times> bytes) of
        (None, _) \<Rightarrow> fail EINVAL sv
      | (Some pflags, r) \<Rightarrow> (case (r_pod r :: u32 option \<times> bytes) of
          (None, _) \<Rightarrow> fail EINVAL sv
        | (Some mode, r) \<Rightarrow>
            if opens_for_write create pflags \<and> \<not> sv_allow_writes sv then fail EROFS sv
            else (case sys (resolve api (sv_root sv) path) sv of
                (None, sv) \<Rightarrow> fail EACCES sv
              | (Some apath, sv) \<Rightarrow>
                  (case sys (os_open api apath (from_portable_flags pflags) mode) sv of
                    (Inl e, sv) \<Rightarrow> fail (if e \<noteq> 0 then of_nat e else EIO) sv
                  | (Inr fd, sv) \<Rightarrow>
                      let fhid = sv_next_fh sv;
                          sv = sv\<lparr>sv_next_fh := fhid + 1, sv_handles := (sv_handles sv)(fhid \<mapsto> fd),
                            sv_paths := (sv_paths sv)(fhid \<mapsto> path)\<rparr>;
                          sv = (if create then broadcast_invalidate path sv else sv)
                      in ((0, w_pod [] fhid), sv))))))"

definition h_read :: "'o os_api \<Rightarrow> 'o handler" where
  "h_read api r sv = (case (r_pod r :: u64 option \<times> bytes) of
      (None, _) \<Rightarrow> fail EINVAL sv
    | (Some fhid, r) \<Rightarrow> (case (r_pod r :: u64 option \<times> bytes) of
        (None, _) \<Rightarrow> fail EINVAL sv
      | (Some off, r) \<Rightarrow> (case (r_pod r :: u32 option \<times> bytes) of
          (None, _) \<Rightarrow> fail EINVAL sv
        | (Some len, r) \<Rightarrow>
            let len = (if len > kMaxIO then kMaxIO else len) in
            (case sv_handles sv fhid of
              None \<Rightarrow> fail EBADF sv
            | Some fd \<Rightarrow> (case sys (os_pread api fd (unat len) off) sv of
                (None, sv) \<Rightarrow> fail EIO sv
              | (Some got, sv) \<Rightarrow>
                  ((0, got), sv\<lparr>sv_bytes_out := sv_bytes_out sv + of_nat (length got)\<rparr>))))))"

definition h_write :: "'o os_api \<Rightarrow> 'o handler" where
  "h_write api r sv =
     (if \<not> sv_allow_writes sv then fail EROFS sv
      else case (r_pod r :: u64 option \<times> bytes) of
        (None, _) \<Rightarrow> fail EINVAL sv
      | (Some fhid, r) \<Rightarrow> (case (r_pod r :: u64 option \<times> bytes) of
          (None, _) \<Rightarrow> fail EINVAL sv
        | (Some off, r) \<Rightarrow>
            let writePath = (case sv_paths sv fhid of None \<Rightarrow> [] | Some p \<Rightarrow> p) in
            (case sv_handles sv fhid of
              None \<Rightarrow> fail EBADF sv
            | Some fd \<Rightarrow> (case sys (os_pwrite api fd (take (unat (of_nat (length r) :: u32)) r) off) sv of
                (None, sv) \<Rightarrow> fail EIO sv
              | (Some put, sv) \<Rightarrow>
                  let sv = sv\<lparr>sv_bytes_in := sv_bytes_in sv + of_nat put\<rparr>;
                      sv = (if writePath \<noteq> [] then broadcast_invalidate writePath sv else sv)
                  in ((0, w_pod [] (of_nat put :: u32)), sv)))))"

text \<open>Erasing the last reference to a handle runs the destructor, which closes the descriptor.\<close>

definition h_release :: "'o os_api \<Rightarrow> 'o handler" where
  "h_release api r sv = (case (r_pod r :: u64 option \<times> bytes) of
      (None, _) \<Rightarrow> fail EINVAL sv
    | (Some fhid, _) \<Rightarrow>
        let sv = (case sv_handles sv fhid of
            None \<Rightarrow> sv
          | Some fd \<Rightarrow> snd (sys (os_close api fd) sv))
        in ((0, []), sv\<lparr>sv_handles := (sv_handles sv)(fhid := None),
              sv_paths := (sv_paths sv)(fhid := None)\<rparr>))"

definition h_fsync :: "'o os_api \<Rightarrow> 'o handler" where
  "h_fsync api r sv = (case (r_pod r :: u64 option \<times> bytes) of
      (None, _) \<Rightarrow> fail EINVAL sv
    | (Some fhid, _) \<Rightarrow> (case sv_handles sv fhid of
        None \<Rightarrow> ((0, []), sv)
      | Some fd \<Rightarrow> (case sys (os_fsync api fd) sv of (ok, sv) \<Rightarrow>
          ((if ok then 0 else EIO, []), sv))))"

text \<open>\<open>OP_FLUSH\<close> does nothing: nothing is buffered on the host.\<close>

definition h_flush :: "'o handler" where
  "h_flush r sv = ((0, []), sv)"

text \<open>The common end of the mutations: tell the sessions when the status is 0.\<close>

definition finish :: "u16 \<Rightarrow> string list \<Rightarrow> 'o server \<Rightarrow> (u16 \<times> bytes) \<times> 'o server" where
  "finish status paths sv =
     ((status, []), if status = 0 then foldl (\<lambda>sv p. broadcast_invalidate p sv) sv paths else sv)"

definition h_mkdir :: "'o os_api \<Rightarrow> 'o handler" where
  "h_mkdir api r sv =
     (if \<not> sv_allow_writes sv then fail EROFS sv
      else case r_str r of
        (None, _) \<Rightarrow> fail EINVAL sv
      | (Some path, r) \<Rightarrow> (case (r_pod r :: u32 option \<times> bytes) of
          (None, _) \<Rightarrow> fail EINVAL sv
        | (Some mode, _) \<Rightarrow> (case sys (resolve api (sv_root sv) path) sv of
            (None, sv) \<Rightarrow> fail EACCES sv
          | (Some apath, sv) \<Rightarrow> (case sys (os_mkdir api apath) sv of ((created, ec), sv) \<Rightarrow>
              finish (if \<not> created then (if ec then EIO else EEXIST) else 0) [path] sv))))"

definition h_remove :: "'o os_api \<Rightarrow> 'o handler" where
  "h_remove api r sv =
     (if \<not> sv_allow_writes sv then fail EROFS sv
      else case r_str r of
        (None, _) \<Rightarrow> fail EINVAL sv
      | (Some path, _) \<Rightarrow> (case sys (resolve api (sv_root sv) path) sv of
          (None, sv) \<Rightarrow> fail EACCES sv
        | (Some apath, sv) \<Rightarrow> (case sys (os_remove api apath) sv of ((removed, ec), sv) \<Rightarrow>
            finish (if \<not> removed then (if ec then EIO else ENOENT) else 0) [path] sv)))"

definition h_rename :: "'o os_api \<Rightarrow> 'o handler" where
  "h_rename api r sv =
     (if \<not> sv_allow_writes sv then fail EROFS sv
      else case r_str r of
        (None, _) \<Rightarrow> fail EINVAL sv
      | (Some from, r) \<Rightarrow> (case r_str r of
          (None, _) \<Rightarrow> fail EINVAL sv
        | (Some to, _) \<Rightarrow> (case sys (resolve api (sv_root sv) from) sv of
            (None, sv) \<Rightarrow> fail EACCES sv
          | (Some afrom, sv) \<Rightarrow> (case sys (resolve api (sv_root sv) to) sv of
              (None, sv) \<Rightarrow> fail EACCES sv
            | (Some ato, sv) \<Rightarrow> (case sys (os_rename api afrom ato) sv of (ec, sv) \<Rightarrow>
                finish (if ec then EIO else 0) [from, to] sv)))))"

definition h_truncate :: "'o os_api \<Rightarrow> 'o handler" where
  "h_truncate api r sv =
     (if \<not> sv_allow_writes sv then fail EROFS sv
      else case r_str r of
        (None, _) \<Rightarrow> fail EINVAL sv
      | (Some path, r) \<Rightarrow> (case (r_pod r :: u64 option \<times> bytes) of
          (None, _) \<Rightarrow> fail EINVAL sv
        | (Some len, _) \<Rightarrow> (case sys (resolve api (sv_root sv) path) sv of
            (None, sv) \<Rightarrow> fail EACCES sv
          | (Some apath, sv) \<Rightarrow> (case sys (os_resize api apath len) sv of (ec, sv) \<Rightarrow>
              finish (if ec then EIO else 0) [path] sv))))"

definition h_statfs :: "'o os_api \<Rightarrow> 'o handler" where
  "h_statfs api r sv = (case r_str r of
      (None, _) \<Rightarrow> fail EINVAL sv
    | (Some path, _) \<Rightarrow> (case sys (resolve api (sv_root sv) path) sv of
        (None, sv) \<Rightarrow> fail EACCES sv
      | (Some apath, sv) \<Rightarrow> (case sys (os_space api apath) sv of ((capacity, free, available), sv) \<Rightarrow>
          ((0, w_statvfs [] \<lparr>v_bsize = 4096, v_frsize = 4096, v_blocks = capacity div 4096,
              v_bfree = free div 4096, v_bavail = available div 4096, v_files = 0, v_ffree = 0,
              v_namemax = 255\<rparr>), sv))))"

text \<open>
  \<open>OP_ACCESS\<close> asks with the overload of \<open>fs::exists\<close> that throws. An exception leaves the
  connection's thread, which terminates the process: no response, \<open>None\<close>.
\<close>

definition h_access :: "'o os_api \<Rightarrow> bytes \<Rightarrow> 'o server \<Rightarrow> (u16 \<times> bytes) option \<times> 'o server" where
  "h_access api r sv = (case r_str r of
      (None, _) \<Rightarrow> (Some (EINVAL, []), sv)
    | (Some path, r) \<Rightarrow> (case (r_pod r :: u32 option \<times> bytes) of
        (None, _) \<Rightarrow> (Some (EINVAL, []), sv)
      | (Some mode, _) \<Rightarrow>
          if \<not> sv_allow_writes sv \<and> mode AND 2 \<noteq> 0 then (Some (EROFS, []), sv)
          else (case sys (resolve api (sv_root sv) path) sv of
              (None, sv) \<Rightarrow> (Some (EACCES, []), sv)
            | (Some apath, sv) \<Rightarrow> (case sys (os_exists api apath) sv of ((found, ec), sv) \<Rightarrow>
                if ec then (None, sv) else (Some (if found then 0 else ENOENT, []), sv)))))"

definition h_chmod :: "'o os_api \<Rightarrow> 'o handler" where
  "h_chmod api r sv =
     (if \<not> sv_allow_writes sv then fail EROFS sv
      else case r_str r of
        (None, _) \<Rightarrow> fail EINVAL sv
      | (Some path, r) \<Rightarrow> (case (r_pod r :: u32 option \<times> bytes) of
          (None, _) \<Rightarrow> fail EINVAL sv
        | (Some mode, _) \<Rightarrow> (case sys (resolve api (sv_root sv) path) sv of
            (None, sv) \<Rightarrow> fail EACCES sv
          | (Some apath, sv) \<Rightarrow> (case sys (os_chmod api apath mode) sv of (e, sv) \<Rightarrow>
              finish (of_nat e) [path] sv))))"

definition h_utimens :: "'o os_api \<Rightarrow> 'o handler" where
  "h_utimens api r sv =
     (if \<not> sv_allow_writes sv then fail EROFS sv
      else case r_str r of
        (None, _) \<Rightarrow> fail EINVAL sv
      | (Some path, r) \<Rightarrow> (case (r_pod r :: u64 option \<times> bytes) of
          (None, _) \<Rightarrow> fail EINVAL sv
        | (Some atime, r) \<Rightarrow> (case (r_pod r :: u64 option \<times> bytes) of
            (None, _) \<Rightarrow> fail EINVAL sv
          | (Some mtime, _) \<Rightarrow> (case sys (resolve api (sv_root sv) path) sv of
              (None, sv) \<Rightarrow> fail EACCES sv
            | (Some apath, sv) \<Rightarrow> (case sys (os_utime api apath mtime) sv of (ec, sv) \<Rightarrow>
                finish (if ec then EIO else 0) [path] sv)))))"

section \<open>The dispatch\<close>

definition answered :: "(u16 \<times> bytes) \<times> 'o server \<Rightarrow> (u16 \<times> bytes) option \<times> 'o server" where
  "answered x = (Some (fst x), snd x)"

definition dispatch :: "'o os_api \<Rightarrow> u16 \<Rightarrow> bytes \<Rightarrow> 'o server \<Rightarrow> (u16 \<times> bytes) option \<times> 'o server" where
  "dispatch api opc r sv = (case op_of opc of
      Some OP_GETATTR \<Rightarrow> answered (h_getattr api r sv)
    | Some OP_READDIR \<Rightarrow> answered (h_readdir api r sv)
    | Some OP_OPEN \<Rightarrow> answered (h_open api False r sv)
    | Some OP_CREATE \<Rightarrow> answered (h_open api True r sv)
    | Some OP_READ \<Rightarrow> answered (h_read api r sv)
    | Some OP_WRITE \<Rightarrow> answered (h_write api r sv)
    | Some OP_RELEASE \<Rightarrow> answered (h_release api r sv)
    | Some OP_FSYNC \<Rightarrow> answered (h_fsync api r sv)
    | Some OP_FLUSH \<Rightarrow> answered (h_flush r sv)
    | Some OP_MKDIR \<Rightarrow> answered (h_mkdir api r sv)
    | Some OP_UNLINK \<Rightarrow> answered (h_remove api r sv)
    | Some OP_RMDIR \<Rightarrow> answered (h_remove api r sv)
    | Some OP_RENAME \<Rightarrow> answered (h_rename api r sv)
    | Some OP_TRUNCATE \<Rightarrow> answered (h_truncate api r sv)
    | Some OP_STATFS \<Rightarrow> answered (h_statfs api r sv)
    | Some OP_ACCESS \<Rightarrow> h_access api r sv
    | Some OP_CHMOD \<Rightarrow> answered (h_chmod api r sv)
    | Some OP_UTIMENS \<Rightarrow> answered (h_utimens api r sv)
    | _ \<Rightarrow> (Some (ENOSYS, []), sv))"

lemmas handler_defs = h_getattr_def h_readdir_def h_open_def h_read_def h_write_def h_release_def
  h_fsync_def h_flush_def h_mkdir_def h_remove_def h_rename_def h_truncate_def h_statfs_def
  h_chmod_def h_utimens_def

end
