(* ===== verification/ServerSafety.thy ===== *)
theory ServerSafety
  imports ServerDispatch
begin

text \<open>
  Safety of the host's request handlers: every call that a request causes is recorded and shown to
  name only paths inside the shared folder, and to change nothing when the share is read-only. Then
  the handle table, the invalidation queues and the lookup that \<open>resolve\<close> performs.
\<close>

section \<open>The calls a handler makes\<close>

definition ext :: "(os_call \<Rightarrow> bool) \<Rightarrow> os_call list \<times> 'o \<Rightarrow> os_call list \<times> 'o \<Rightarrow> bool" where
  "ext P s s' \<longleftrightarrow> (\<exists>l. fst s' = fst s @ l \<and> list_all P l)"

lemma ext_refl [simp, intro]: "ext P s s"
  by (auto simp: ext_def)

lemma ext_trans: "ext P s s' \<Longrightarrow> ext P s' s'' \<Longrightarrow> ext P s s''"
  by (auto simp: ext_def)

lemma ext_log: "log_call c f s = (r, s') \<Longrightarrow> P c \<Longrightarrow> ext P s s'"
  by (cases s) (auto simp: log_call_def ext_def split: prod.splits)

definition permitted :: "string \<Rightarrow> bool \<Rightarrow> os_call \<Rightarrow> bool" where
  "permitted root allow c \<longleftrightarrow> list_all (path_within root) (call_paths c) \<and> (mutates c \<longrightarrow> allow)"

lemma resolve_loop_permitted:
  assumes "is_absolute root" "path_within root p" "list_all (\<lambda>t. slash \<notin> set t) parts"
    and "resolve_loop (logged api) root parts p s = (r, s')"
  shows "ext (permitted root allow) s s'"
  using assms
proof (induction parts arbitrary: p s)
  case (Cons t ts)
  show ?case
  proof (cases "t = [] \<or> t = dot \<or> t = dotdot")
    case True
    then show ?thesis using Cons by (auto split: if_splits)
  next
    case False
    let ?p = "path_append p t"
    have w: "path_within root ?p"
      using Cons.prems False path_within_absolute
      by (intro path_within_child) (auto simp: plain_name_def)
    then have pm: "permitted root allow (C_exists ?p)" "permitted root allow (C_is_symlink ?p)"
        "permitted root allow (C_canonical ?p)" by (simp_all add: permitted_def)
    obtain found ec s1 where 1: "os_exists (logged api) ?p s = ((found, ec), s1)"
      by (metis prod_cases3 prod.collapse)
    then have e1: "ext (permitted root allow) s s1"
      using pm(1) by (auto simp: logged_def intro: ext_log)
    obtain sl s2 where 2: "os_is_symlink (logged api) ?p s1 = (sl, s2)"
      by (cases "os_is_symlink (logged api) ?p s1")
    then have e2: "ext (permitted root allow) s1 s2"
      using pm(2) by (auto simp: logged_def intro: ext_log)
    obtain co s3 where 3: "os_canonical (logged api) ?p s2 = (co, s3)"
      by (cases "os_canonical (logged api) ?p s2")
    then have e3: "ext (permitted root allow) s2 s3"
      using pm(3) by (auto simp: logged_def intro: ext_log)
    note e = ext_trans [OF e1 e2] ext_trans [OF ext_trans [OF e1 e2] e3]
    have ih: "resolve_loop (logged api) root ts q u = (r, s') \<Longrightarrow> path_within root q \<Longrightarrow>
        ext (permitted root allow) u s'" for q u
      using Cons.IH [of q u] Cons.prems by simp
    show ?thesis
      using Cons.prems(4) False 1 2 3 e e1 w
      by (auto simp: Let_def split: if_splits option.splits intro: ext_trans [OF e1 ih] ext_trans [OF e(2) ih])
  qed
qed simp

lemma resolve_loop_within:
  assumes "path_within root p" "is_absolute root" "list_all (\<lambda>t. slash \<notin> set t) parts"
    and "resolve_loop api root parts p s = (Some q, s')"
  shows "path_within root q"
  using assms
proof (induction parts arbitrary: p s)
  case (Cons t ts)
  have c: "path_within root (path_append p t)" if "t \<noteq> []" "t \<noteq> dot" "t \<noteq> dotdot"
    using that Cons.prems path_within_absolute
    by (intro path_within_child) (auto simp: plain_name_def)
  from Cons.prems c Cons.IH show ?case
    by (auto simp: Let_def split: if_splits option.splits prod.splits)
qed simp

lemma rel_parts_names: "list_all (\<lambda>t. slash \<notin> set t) (rel_parts r)"
  using tokens_names by (auto simp: rel_parts_def list_all_iff)

lemma resolve_permitted:
  assumes "is_absolute root" "resolve (logged api) root rel s = (r, s')"
  shows "ext (permitted root allow) s s'"
proof -
  obtain q s1 where q: "resolve_loop (logged api) root (rel_parts (dropWhile is_sep rel)) root s = (q, s1)"
    by (cases "resolve_loop (logged api) root (rel_parts (dropWhile is_sep rel)) root s")
  with assms(2) have "s' = s1" by (auto simp: resolve_def split: option.splits if_splits)
  then show ?thesis using resolve_loop_permitted [OF assms(1) _ rel_parts_names q] by simp
qed

lemma resolve_within: "resolve api root rel s = (Some p, s') \<Longrightarrow> path_within root p"
  by (auto simp: resolve_def split: prod.splits option.splits if_splits)

subsection \<open>From calls to handlers\<close>

definition svext :: "string \<Rightarrow> bool \<Rightarrow> (os_call list \<times> 'o) server \<Rightarrow> (os_call list \<times> 'o) server \<Rightarrow> bool" where
  "svext root allow sv sv' \<longleftrightarrow> ext (permitted root allow) (sv_os sv) (sv_os sv') \<and>
     sv_root sv' = sv_root sv \<and> sv_allow_writes sv' = sv_allow_writes sv"

lemma svext_refl [simp]: "svext root allow sv sv"
  by (simp add: svext_def)

lemma svext_trans: "svext root allow a b \<Longrightarrow> svext root allow b c \<Longrightarrow> svext root allow a c"
  by (auto simp: svext_def intro: ext_trans)

lemma svext_root: "svext root allow a b \<Longrightarrow> sv_root b = sv_root a"
  by (simp add: svext_def)

lemma svext_call:
  assumes "sys (log_call c f) sv = (r, sv')" "permitted root allow c"
  shows "svext root allow sv sv'"
  using assms by (auto simp: sys_def svext_def intro: ext_log split: prod.splits)

lemma svext_resolve:
  assumes "sys (resolve (logged api) root rel) sv = (r, sv')" "is_absolute root"
  shows "svext root allow sv sv'"
  using assms by (auto simp: sys_def svext_def intro: resolve_permitted split: prod.splits)

lemma sys_resolve_within:
  "sys (resolve api root rel) sv = (Some p, sv') \<Longrightarrow> path_within root p"
  by (auto simp: sys_def dest: resolve_within split: prod.splits)

lemma logged_sel [simp]:
  "os_lstat (logged a) p = log_call (C_lstat p) (os_lstat a p)"
  "os_exists (logged a) p = log_call (C_exists p) (os_exists a p)"
  "os_is_symlink (logged a) p = log_call (C_is_symlink p) (os_is_symlink a p)"
  "os_canonical (logged a) p = log_call (C_canonical p) (os_canonical a p)"
  "os_listdir (logged a) p = log_call (C_listdir p) (os_listdir a p)"
  "os_open (logged a) p f m = log_call (C_open p f m) (os_open a p f m)"
  "os_pread (logged a) d n off = log_call (C_pread d n off) (os_pread a d n off)"
  "os_pwrite (logged a) d b off = log_call (C_pwrite d b off) (os_pwrite a d b off)"
  "os_fsync (logged a) d = log_call (C_fsync d) (os_fsync a d)"
  "os_close (logged a) d = log_call (C_close d) (os_close a d)"
  "os_mkdir (logged a) p = log_call (C_mkdir p) (os_mkdir a p)"
  "os_remove (logged a) p = log_call (C_remove p) (os_remove a p)"
  "os_rename (logged a) p q = log_call (C_rename p q) (os_rename a p q)"
  "os_resize (logged a) p sz = log_call (C_resize p sz) (os_resize a p sz)"
  "os_space (logged a) p = log_call (C_space p) (os_space a p)"
  "os_chmod (logged a) p m = log_call (C_chmod p m) (os_chmod a p m)"
  "os_utime (logged a) p t = log_call (C_utime p t) (os_utime a p t)"
  by (simp_all add: logged_def)

lemma fill_attr_permitted:
  assumes "fill_attr (logged api) p s = (r, s')" "path_within root p"
  shows "ext (permitted root allow) s s'"
proof -
  obtain st s1 where l: "log_call (C_lstat p) (os_lstat api p) s = (st, s1)"
    by (cases "log_call (C_lstat p) (os_lstat api p) s")
  with assms(1) have "s' = s1" by (auto simp: fill_attr_def split: option.splits if_splits)
  then show ?thesis using assms(2) by (auto intro!: ext_log [OF l] simp: permitted_def)
qed

lemma read_entries_permitted:
  assumes "read_entries (logged api) p ns s = (r, s')" "path_within root p" "is_absolute root"
    "list_all plain_name ns"
  shows "ext (permitted root allow) s s'"
  using assms
proof (induction ns arbitrary: s r)
  case (Cons n ns)
  obtain a s1 where f: "fill_attr (logged api) (path_append p n) s = (a, s1)"
    by (cases "fill_attr (logged api) (path_append p n) s")
  obtain es s2 where e: "read_entries (logged api) p ns s1 = (es, s2)"
    by (cases "read_entries (logged api) p ns s1")
  have "path_within root (path_append p n)"
    using Cons.prems path_within_absolute by (intro path_within_child) auto
  note x = fill_attr_permitted [OF f this]
  from Cons.prems(1) f e have s2: "s' = s2" by (auto split: option.splits)
  show ?case using ext_trans [OF x Cons.IH [OF e [folded s2]]] Cons.prems by simp
qed simp


text \<open>One rule per kind of step, so that a handler is a few applications of them.\<close>

lemma px_read:
  "(\<And>x r'. svext R A sv (snd (K x r'))) \<Longrightarrow>
     svext R A sv (snd (case q of (None, _) \<Rightarrow> fail e sv | (Some x, r') \<Rightarrow> K x r'))"
  by (auto split: prod.split option.split)

lemma px_if: "(b \<Longrightarrow> svext R A sv (snd x)) \<Longrightarrow> (\<not> b \<Longrightarrow> svext R A sv (snd y)) \<Longrightarrow>
    svext R A sv (snd (if b then x else y))"
  by simp

lemma px_resolve:
  assumes "is_absolute R"
    and "\<And>p sv1. svext R A sv sv1 \<Longrightarrow> path_within R p \<Longrightarrow> svext R A sv1 (snd (K p sv1))"
  shows "svext R A sv (snd (case sys (resolve (logged api) R rel) sv of
    (None, sv1) \<Rightarrow> fail e sv1 | (Some p, sv1) \<Rightarrow> K p sv1))"
proof -
  obtain q sv1 where q: "sys (resolve (logged api) R rel) sv = (q, sv1)"
    by (cases "sys (resolve (logged api) R rel) sv")
  note x = svext_resolve [OF q assms(1)]
  show ?thesis
    using q x assms(2) [OF x] sys_resolve_within [of "logged api" R rel sv]
    by (cases q) (auto intro: svext_trans [OF x])
qed

lemma px_call:
  assumes "permitted R A c" and "\<And>x sv1. svext R A sv sv1 \<Longrightarrow> svext R A sv1 (snd (K x sv1))"
  shows "svext R A sv (snd (case sys (log_call c f) sv of (x, sv1) \<Rightarrow> K x sv1))"
proof -
  obtain q sv1 where q: "sys (log_call c f) sv = (q, sv1)" by (cases "sys (log_call c f) sv")
  note x = svext_call [OF q assms(1)]
  show ?thesis using q x assms(2) [OF x] by (auto intro: svext_trans [OF x])
qed

lemma px_fill:
  assumes "path_within R p" and "\<And>x sv1. svext R A sv sv1 \<Longrightarrow> svext R A sv1 (snd (K x sv1))"
  shows "svext R A sv (snd (case sys (fill_attr (logged api) p) sv of (x, sv1) \<Rightarrow> K x sv1))"
proof -
  obtain q sv1 where q: "sys (fill_attr (logged api) p) sv = (q, sv1)"
    by (cases "sys (fill_attr (logged api) p) sv")
  then have x: "svext R A sv sv1"
    using assms(1) by (auto simp: sys_def svext_def intro: fill_attr_permitted split: prod.splits)
  show ?thesis using q x assms(2) [OF x] by (auto intro: svext_trans [OF x])
qed

lemma px_entries:
  assumes "path_within R p" "is_absolute R" "list_all plain_name ns"
    and "\<And>x sv1. svext R A sv sv1 \<Longrightarrow> svext R A sv1 (snd (K x sv1))"
  shows "svext R A sv (snd (case sys (read_entries (logged api) p ns) sv of (x, sv1) \<Rightarrow> K x sv1))"
proof -
  obtain q sv1 where q: "sys (read_entries (logged api) p ns) sv = (q, sv1)"
    by (cases "sys (read_entries (logged api) p ns) sv")
  then have x: "svext R A sv sv1"
    using assms(1-3) by (auto simp: sys_def svext_def intro: read_entries_permitted split: prod.splits)
  show ?thesis using q x assms(4) [OF x] by (auto intro: svext_trans [OF x])
qed

lemma broadcast_sel [simp, frame_simps]:
  "sv_os (broadcast_invalidate p sv) = sv_os sv" "sv_root (broadcast_invalidate p sv) = sv_root sv"
  "sv_allow_writes (broadcast_invalidate p sv) = sv_allow_writes sv"
  "sv_handles (broadcast_invalidate p sv) = sv_handles sv"
  "sv_paths (broadcast_invalidate p sv) = sv_paths sv"
  "sv_next_fh (broadcast_invalidate p sv) = sv_next_fh sv"
  by (simp_all add: broadcast_invalidate_def)

lemma svext_broadcast [simp]: "svext R A sv (broadcast_invalidate p sv1) = svext R A sv sv1"
  by (simp add: svext_def broadcast_invalidate_def)

lemma svext_finish [simp]: "svext R A sv (snd (finish st ps sv1)) = svext R A sv sv1"
proof -
  have "svext R A sv (foldl (\<lambda>sv p. broadcast_invalidate p sv) sv1 ps) = svext R A sv sv1"
    by (induction ps arbitrary: sv1) simp_all
  then show ?thesis by (simp add: finish_def)
qed

lemmas px_rules = px_read px_if px_resolve px_call px_fill

lemma h_getattr_px: "is_absolute (sv_root sv) \<Longrightarrow>
    svext (sv_root sv) A sv (snd (h_getattr (logged api) r sv))"
  unfolding h_getattr_def
  by (rule px_read, rule px_resolve, assumption, rule px_fill) (auto split: option.split)

lemma h_readdir_px:
  assumes "is_absolute (sv_root sv)" and n: "\<And>p s. list_all plain_name (fst (fst (os_listdir api p s)))"
  shows "svext (sv_root sv) A sv (snd (h_readdir (logged api) r sv))"
proof -
  have l: "svext R A sv (snd (case sys (log_call (C_listdir p) (os_listdir api p)) sv of ((names, ec), sv1) \<Rightarrow>
      K names ec sv1))"
    if "path_within R p" and K: "\<And>ns ec sv1. list_all plain_name ns \<Longrightarrow> svext R A sv1 (snd (K ns ec sv1))"
    for R p K and sv :: "(os_call list \<times> 'a) server"
  proof -
    obtain ns ec sv1 where q: "sys (log_call (C_listdir p) (os_listdir api p)) sv = ((ns, ec), sv1)"
      by (metis prod.collapse)
    have x: "svext R A sv sv1" using svext_call [OF q] that(1) by (simp add: permitted_def)
    obtain lg s where o: "sv_os sv = (lg, s)" by (cases "sv_os sv")
    have "ns = fst (fst (os_listdir api p s))"
      using q by (auto simp: sys_def log_call_def o split: prod.splits)
    then show ?thesis using q svext_trans [OF x K] n by simp
  qed
  show ?thesis
    unfolding h_readdir_def logged_sel
    by (rule px_read, rule px_resolve, rule assms, rule l, assumption, rule px_entries)
       (auto simp: assms(1))
qed

lemma open_permitted:
  assumes "path_within R p" "\<not> (opens_for_write create pflags \<and> \<not> A)"
  shows "permitted R A (C_open p (from_portable_flags pflags) mode)"
proof -
  have "\<not> open_mutates (from_portable_flags pflags)" if "\<not> opens_for_write create pflags"
    using that by (intro from_portable_read_only) (auto simp: opens_for_write_def flag_defs)
  then show ?thesis using assms by (auto simp: permitted_def)
qed

lemma h_open_px: "is_absolute (sv_root sv) \<Longrightarrow>
    svext (sv_root sv) (sv_allow_writes sv) sv (snd (h_open (logged api) create r sv))"
  unfolding h_open_def logged_sel
  apply (rule px_read, rule px_read, rule px_read, rule px_if, simp, rule px_resolve, assumption)
  apply (rule px_call, rule open_permitted, assumption, assumption)
  by (auto simp: Let_def svext_def split: sum.split)

lemma h_read_px: "svext R A sv (snd (h_read (logged api) r sv))"
  unfolding h_read_def logged_sel Let_def
  apply (rule px_read, rule px_read, rule px_read)
  apply (split option.split, intro conjI allI impI, simp)
  apply (rule px_call, simp add: permitted_def)
  by (auto simp: svext_def split: option.split)

lemma h_write_px: "svext R (sv_allow_writes sv) sv (snd (h_write (logged api) r sv))"
  unfolding h_write_def logged_sel Let_def
  apply (rule px_if, simp, rule px_read, rule px_read)
  apply (split option.split, intro conjI allI impI, simp)
  apply (split option.split, intro conjI allI impI)
   apply (rule px_call, simp add: permitted_def)
   apply (simp add: svext_def broadcast_invalidate_def split: option.split)
  apply (rule px_call, simp add: permitted_def)
  by (simp add: svext_def broadcast_invalidate_def split: option.split)

lemma h_release_px: "svext R A sv (snd (h_release (logged api) r sv))"
proof -
  have c: "svext R A sv (snd (sys (log_call (C_close fd) (os_close api fd)) sv))" for fd
  proof -
    obtain u sv1 where "sys (log_call (C_close fd) (os_close api fd)) sv = (u, sv1)"
      by (cases "sys (log_call (C_close fd) (os_close api fd)) sv")
    then show ?thesis using svext_call [of "C_close fd" "os_close api fd" sv] by (simp add: permitted_def)
  qed
  show ?thesis unfolding h_release_def logged_sel Let_def
    by (rule px_read) (use c in \<open>auto simp: svext_def split: option.split\<close>)
qed

lemma h_fsync_px: "svext R A sv (snd (h_fsync (logged api) r sv))"
  unfolding h_fsync_def logged_sel
  apply (rule px_read)
  apply (split option.split, intro conjI allI impI, simp)
  by (rule px_call) (auto simp: permitted_def)

lemma mutation_px:
  assumes "is_absolute (sv_root sv)"
  shows "svext (sv_root sv) (sv_allow_writes sv) sv (snd (h_mkdir (logged api) r sv))"
    and "svext (sv_root sv) (sv_allow_writes sv) sv (snd (h_remove (logged api) r sv))"
    and "svext (sv_root sv) (sv_allow_writes sv) sv (snd (h_truncate (logged api) r sv))"
    and "svext (sv_root sv) (sv_allow_writes sv) sv (snd (h_chmod (logged api) r sv))"
    and "svext (sv_root sv) (sv_allow_writes sv) sv (snd (h_utimens (logged api) r sv))"
  unfolding h_mkdir_def h_remove_def h_truncate_def h_chmod_def h_utimens_def logged_sel
  by ((rule px_if, simp, (rule px_read)+, rule px_resolve, rule assms, rule px_call,
      simp add: permitted_def, simp split: prod.split); fail)+

lemma h_rename_px: "is_absolute (sv_root sv) \<Longrightarrow>
    svext (sv_root sv) (sv_allow_writes sv) sv (snd (h_rename (logged api) r sv))"
  unfolding h_rename_def logged_sel
  apply (rule px_if, simp, rule px_read, rule px_read, rule px_resolve, assumption)
  apply (frule svext_root, simp only:)
  by (rule px_resolve, assumption, rule px_call) (auto simp: permitted_def)

lemma h_statfs_px: "is_absolute (sv_root sv) \<Longrightarrow>
    svext (sv_root sv) A sv (snd (h_statfs (logged api) r sv))"
  unfolding h_statfs_def logged_sel
  apply (rule px_read, rule px_resolve, assumption, rule px_call)
  by (auto simp: permitted_def split: prod.split)

lemma h_access_px: "is_absolute (sv_root sv) \<Longrightarrow>
    svext (sv_root sv) A sv (snd (h_access (logged api) r sv))"
proof -
  assume a: "is_absolute (sv_root sv)"
  have rd: "svext R A sv (snd (case q of (None, _) \<Rightarrow> (Some e, sv) | (Some x, r') \<Rightarrow> K x r'))"
    if "\<And>x r'. svext R A sv (snd (K x r'))" for R e sv K and q :: "'x option \<times> bytes"
    using that by (auto split: prod.split option.split)
  have rs: "svext R A sv (snd (case sys (resolve (logged api) R rel) sv of
      (None, sv1) \<Rightarrow> (Some e, sv1) | (Some p, sv1) \<Rightarrow> K p sv1))"
    if "is_absolute R" "\<And>p sv1. path_within R p \<Longrightarrow> svext R A sv1 (snd (K p sv1))" for R rel e sv K
  proof -
    obtain q sv1 where q: "sys (resolve (logged api) R rel) sv = (q, sv1)"
      by (cases "sys (resolve (logged api) R rel) sv")
    note x = svext_resolve [OF q that(1)]
    show ?thesis
      using q x that(2) sys_resolve_within [of "logged api" R rel sv]
      by (cases q) (auto intro: svext_trans [OF x])
  qed
  show ?thesis
    unfolding h_access_def logged_sel
    apply (rule rd, rule rd, rule px_if, simp, rule rs, rule a)
    by (rule px_call) (auto simp: permitted_def split: prod.split)
qed

lemma dispatch_px:
  assumes "is_absolute (sv_root sv)" "\<And>p s. list_all plain_name (fst (fst (os_listdir api p s)))"
  shows "svext (sv_root sv) (sv_allow_writes sv) sv (snd (dispatch (logged api) opc r sv))"
proof (cases "op_of opc")
  case (Some x)
  then show ?thesis
    using h_getattr_px [OF assms(1)] h_readdir_px [OF assms] h_open_px [OF assms(1)] h_read_px
      h_write_px h_release_px h_fsync_px mutation_px [OF assms(1)] h_rename_px [OF assms(1)]
      h_statfs_px [OF assms(1)] h_access_px [OF assms(1)]
    by (cases x) (simp_all add: dispatch_def answered_def h_flush_def)
qed (simp add: dispatch_def)

section \<open>Invariants of the server's own state\<close>

text \<open>
  What a predicate on the server's state must tolerate to survive every request that neither opens
  nor releases a handle: a new state of the system, the byte counters, and a broadcast.
\<close>

locale server_invariant =
  fixes I :: "'o server \<Rightarrow> bool"
  assumes I_os: "I sv \<Longrightarrow> I (sv\<lparr>sv_os := s\<rparr>)"
    and I_out: "I sv \<Longrightarrow> I (sv\<lparr>sv_bytes_out := n\<rparr>)"
    and I_in: "I sv \<Longrightarrow> I (sv\<lparr>sv_bytes_in := n\<rparr>)"
    and I_bcast: "I sv \<Longrightarrow> I (broadcast_invalidate p sv)"
begin

lemma sys_I: "I sv \<Longrightarrow> sys f sv = (x, sv') \<Longrightarrow> I sv'"
  by (auto simp: sys_def I_os split: prod.splits)

lemma finish_I: "I sv \<Longrightarrow> I (snd (finish st ps sv))"
proof -
  assume "I sv"
  then have "I (foldl (\<lambda>sv p. broadcast_invalidate p sv) sv ps)"
    by (induction ps arbitrary: sv) (simp_all add: I_bcast)
  then show ?thesis using \<open>I sv\<close> by (simp add: finish_def)
qed

lemma iread: "I sv \<Longrightarrow> (\<And>x r'. I (snd (K x r'))) \<Longrightarrow>
    I (snd (case q of (None, _) \<Rightarrow> fail e sv | (Some x, r') \<Rightarrow> K x r'))"
  by (auto split: prod.split option.split)

lemma icall: "I sv \<Longrightarrow> (\<And>x sv1. I sv1 \<Longrightarrow> I (snd (K x sv1))) \<Longrightarrow>
    I (snd (case sys f sv of (x, sv1) \<Rightarrow> K x sv1))"
  using sys_I [of sv f] by (cases "sys f sv") auto

lemma iif: "(b \<Longrightarrow> I (snd x)) \<Longrightarrow> (\<not> b \<Longrightarrow> I (snd y)) \<Longrightarrow> I (snd (if b then x else y))"
  by simp

lemma iopt: "I sv \<Longrightarrow> (\<And>p. I (snd (K p sv))) \<Longrightarrow>
    I (snd (case q of None \<Rightarrow> fail e sv | Some p \<Rightarrow> K p sv))"
  by (cases q) auto

lemma iprod: "(\<And>a b. I (snd (K a b))) \<Longrightarrow> I (snd (case x of (a, b) \<Rightarrow> K a b))"
  by (cases x) simp

lemma iopt_write: "I sv \<Longrightarrow> (\<And>p. I (snd (K p sv))) \<Longrightarrow>
    I (snd (case q of None \<Rightarrow> (a, sv) | Some p \<Rightarrow> K p sv))"
  by (cases q) auto

lemma isome: "I sv \<Longrightarrow> (\<And>x r'. I (snd (K x r'))) \<Longrightarrow>
    I (snd (case q of (None, _) \<Rightarrow> (a, sv) | (Some x, r') \<Rightarrow> K x r'))"
  by (auto split: prod.split option.split)

lemma ires: "I sv \<Longrightarrow> (\<And>p sv1. I sv1 \<Longrightarrow> I (snd (K p sv1))) \<Longrightarrow>
    I (snd (case sys f sv of (None, sv1) \<Rightarrow> (a, sv1) | (Some p, sv1) \<Rightarrow> K p sv1))"
  using sys_I [of sv f] by (cases "sys f sv") (auto split: option.split)

lemma iret: "I sv \<Longrightarrow> I (snd (a, sv))"
  by simp

lemmas i_rules = ires isome icall iprod iif iopt_write finish_I iret

lemma h_getattr_I: "I sv \<Longrightarrow> I (snd (h_getattr api r sv))"
  unfolding h_getattr_def by (rule i_rules | assumption)+

lemma h_readdir_I: "I sv \<Longrightarrow> I (snd (h_readdir api r sv))"
  unfolding h_readdir_def by (rule i_rules | assumption)+

lemma h_fsync_I: "I sv \<Longrightarrow> I (snd (h_fsync api r sv))"
  unfolding h_fsync_def by (rule i_rules | assumption)+

lemma h_mkdir_I: "I sv \<Longrightarrow> I (snd (h_mkdir api r sv))"
  unfolding h_mkdir_def by (rule i_rules | assumption)+

lemma h_remove_I: "I sv \<Longrightarrow> I (snd (h_remove api r sv))"
  unfolding h_remove_def by (rule i_rules | assumption)+

lemma h_rename_I: "I sv \<Longrightarrow> I (snd (h_rename api r sv))"
  unfolding h_rename_def by (rule i_rules | assumption)+

lemma h_truncate_I: "I sv \<Longrightarrow> I (snd (h_truncate api r sv))"
  unfolding h_truncate_def by (rule i_rules | assumption)+

lemma h_statfs_I: "I sv \<Longrightarrow> I (snd (h_statfs api r sv))"
  unfolding h_statfs_def by (rule i_rules | assumption)+

lemma h_chmod_I: "I sv \<Longrightarrow> I (snd (h_chmod api r sv))"
  unfolding h_chmod_def by (rule i_rules | assumption)+

lemma h_utimens_I: "I sv \<Longrightarrow> I (snd (h_utimens api r sv))"
  unfolding h_utimens_def by (rule i_rules | assumption)+

lemma h_access_I: "I sv \<Longrightarrow> I (snd (h_access api r sv))"
  unfolding h_access_def by (rule i_rules | assumption)+

lemma h_read_I: "I sv \<Longrightarrow> I (snd (h_read api r sv))"
  unfolding h_read_def Let_def by (rule i_rules I_out | assumption)+

lemma h_write_I: "I sv \<Longrightarrow> I (snd (h_write api r sv))"
  unfolding h_write_def Let_def
  apply (rule iif, simp, rule isome, assumption, rule isome, assumption, rule iopt_write, assumption)
  apply (rule ires, assumption)
  by (simp add: I_in I_bcast split: option.split)

lemma keeping_handlers_I:
  assumes "I sv" "op_of opc \<notin> {Some OP_OPEN, Some OP_CREATE, Some OP_RELEASE}"
  shows "I (snd (dispatch api opc r sv))"
proof (cases "op_of opc")
  case (Some x)
  then show ?thesis
    using assms h_getattr_I h_readdir_I h_read_I h_write_I h_fsync_I h_mkdir_I h_remove_I h_rename_I
      h_truncate_I h_statfs_I h_access_I h_chmod_I h_utimens_I
    by (cases x) (simp_all add: dispatch_def answered_def h_flush_def)
qed (simp add: dispatch_def assms)

end

text \<open>A predicate that also tolerates a new handle and a removed one holds after every request.\<close>

locale server_invariant_all = server_invariant +
  assumes I_open: "I sv \<Longrightarrow> sv_next_fh sv + 1 \<noteq> 0 \<Longrightarrow>
      I (sv\<lparr>sv_next_fh := sv_next_fh sv + 1, sv_handles := (sv_handles sv)(sv_next_fh sv \<mapsto> fd),
        sv_paths := (sv_paths sv)(sv_next_fh sv \<mapsto> path)\<rparr>)"
    and I_release: "I sv \<Longrightarrow> I (sv\<lparr>sv_handles := (sv_handles sv)(i := None),
        sv_paths := (sv_paths sv)(i := None)\<rparr>)"
begin

lemma ires_next: "I sv \<Longrightarrow> (\<And>p sv1. I sv1 \<Longrightarrow> sv_next_fh sv1 = sv_next_fh sv \<Longrightarrow> I (snd (K p sv1))) \<Longrightarrow>
    I (snd (case sys f sv of (None, sv1) \<Rightarrow> (a, sv1) | (Some p, sv1) \<Rightarrow> K p sv1))"
  using sys_I [of sv f] by (cases "sys f sv") (auto simp: sys_def split: option.split prod.splits)

lemma icall_next: "I sv \<Longrightarrow> (\<And>x sv1. I sv1 \<Longrightarrow> sv_next_fh sv1 = sv_next_fh sv \<Longrightarrow> I (snd (K x sv1))) \<Longrightarrow>
    I (snd (case sys f sv of (x, sv1) \<Rightarrow> K x sv1))"
  using sys_I [of sv f] by (cases "sys f sv") (auto simp: sys_def split: prod.splits)

lemma I_open_at: "I sv \<Longrightarrow> sv_next_fh sv = n \<Longrightarrow> n + 1 \<noteq> 0 \<Longrightarrow>
    I (sv\<lparr>sv_next_fh := n + 1, sv_handles := (sv_handles sv)(n \<mapsto> fd), sv_paths := (sv_paths sv)(n \<mapsto> path)\<rparr>)"
  using I_open by blast

lemma h_open_I:
  assumes "I sv" "sv_next_fh sv + 1 \<noteq> 0"
  shows "I (snd (h_open api create r sv))"
  unfolding h_open_def Let_def
  apply (rule isome, rule assms, rule isome, rule assms, rule isome, rule assms, rule iif, simp add: assms)
  apply (rule ires_next, rule assms, rule icall_next, assumption)
  by (auto split: sum.split simp: assms intro!: I_bcast I_open_at)

lemma h_release_I: "I sv \<Longrightarrow> I (snd (h_release api r sv))"
proof -
  assume a: "I sv"
  have "I (snd (sys f sv))" for f :: "'a \<Rightarrow> unit \<times> 'a"
    using sys_I [OF a, of f] by (cases "sys f sv") simp
  then show ?thesis
    unfolding h_release_def Let_def using a
    by (auto split: prod.split option.split intro!: I_release)
qed

lemma dispatch_I:
  assumes "I sv" "sv_next_fh sv + 1 \<noteq> 0"
  shows "I (snd (dispatch api opc r sv))"
proof (cases "op_of opc \<in> {Some OP_OPEN, Some OP_CREATE, Some OP_RELEASE}")
  case True
  then show ?thesis
    using h_open_I [OF assms] h_release_I [OF assms(1)]
    by (auto simp: dispatch_def answered_def)
qed (use keeping_handlers_I assms in simp)

end

section \<open>Handle table, queues\<close>

definition table_ok :: "'o server \<Rightarrow> bool" where
  "table_ok sv \<longleftrightarrow> dom (sv_handles sv) = dom (sv_paths sv) \<and> (\<forall>i \<in> dom (sv_handles sv). i < sv_next_fh sv)"

definition queues_ok :: "'o server \<Rightarrow> bool" where
  "queues_ok sv \<longleftrightarrow> list_all (\<lambda>b. length (b_queue b) \<le> kMaxQueuedInvalidations) (sv_bcast sv)"

lemma word_less_Suc: "(i :: u64) < n \<or> i = n \<Longrightarrow> n + 1 \<noteq> 0 \<Longrightarrow> i < n + 1"
  using unatSuc [of n] by (auto simp: word_less_nat_alt add.commute)

interpretation table: server_invariant_all table_ok
  by unfold_locales
     (auto simp: table_ok_def broadcast_sel dom_def intro: word_less_Suc)

lemma enqueue_bound:
  "length (b_queue b) \<le> kMaxQueuedInvalidations \<Longrightarrow>
     length (b_queue (enqueue_invalidation p b)) \<le> kMaxQueuedInvalidations"
  by (simp add: enqueue_invalidation_def Let_def kMaxQueuedInvalidations_def)

interpretation queues: server_invariant_all queues_ok
  by unfold_locales
     (auto simp: queues_ok_def broadcast_invalidate_def list_all_iff enqueue_bound)

text \<open>A request that neither opens nor releases leaves the handle table alone.\<close>

interpretation fixed_table: server_invariant
  "\<lambda>sv. sv_handles sv = H \<and> sv_paths sv = P \<and> sv_next_fh sv = n \<and> sv_root sv = R \<and> sv_allow_writes sv = A"
  for H P n R A
  by unfold_locales auto

text \<open>What an open file gets from the host, whoever else has files open.\<close>

lemma h_read_open:
  assumes "sv_handles sv fhid = Some fd"
  shows "h_read api (w_pod (w_pod (w_pod [] fhid) off) len) sv =
    (case sys (os_pread api fd (unat (min len kMaxIO)) off) sv of
       (None, sv) \<Rightarrow> ((EIO, []), sv)
     | (Some got, sv) \<Rightarrow> ((0, got), sv\<lparr>sv_bytes_out := sv_bytes_out sv + of_nat (length got)\<rparr>))"
proof -
  have m: "(if len > kMaxIO then kMaxIO else len) = min len kMaxIO" by (auto simp: min_def)
  show ?thesis
    using assms by (simp add: h_read_def writer_defs Let_def m split: prod.split option.split)
qed

lemma h_release_gone: "sv_handles (snd (h_release api (w_pod [] fhid) sv)) fhid = None"
  by (simp add: h_release_def writer_defs Let_def)

lemma h_read_gone: "sv_handles sv fhid = None \<Longrightarrow>
    h_read api (w_pod (w_pod (w_pod [] fhid) (off :: u64)) (len :: u32)) sv = ((EBADF, []), sv)"
  by (simp add: h_read_def writer_defs Let_def)

section \<open>Who hears of a mutation\<close>

definition heard :: "string \<Rightarrow> 'o server \<Rightarrow> bool" where
  "heard p sv \<longleftrightarrow> list_all (\<lambda>b. b_stopping b \<or> b_queue b \<noteq> [] \<and> last (b_queue b) = p) (sv_bcast sv)"

lemma heard_broadcast [simp]: "heard p (broadcast_invalidate p sv)"
  by (auto simp: heard_def broadcast_invalidate_def enqueue_invalidation_def Let_def list_all_iff)

lemma finish_heard: "fst (finish st [p] sv) = (0, out) \<Longrightarrow> heard p (snd (finish st [p] sv))"
  by (auto simp: finish_def)

lemma errno_ne_0: "EINVAL \<noteq> 0" "EACCES \<noteq> 0" "EROFS \<noteq> 0" "EIO \<noteq> 0" "0 \<noteq> EINVAL" "0 \<noteq> EACCES" "0 \<noteq> EROFS" "0 \<noteq> EIO"
  by (simp_all add: errno_defs)

lemma mutation_heard:
  assumes "length path < 2 ^ 32"
    and "x \<in> {OP_MKDIR, OP_UNLINK, OP_RMDIR, OP_TRUNCATE, OP_CHMOD, OP_UTIMENS}"
    and "dispatch api (op_code x) (w_str [] path @ rest) sv = (Some (0, out), sv')"
  shows "heard path sv'"
proof -
  have p: "r_str (w_str [] path @ rest) = (Some path, rest)"
    using assms(1) by (simp add: w_str_eq r_str_append)
  from assms(2,3) show ?thesis
    by (auto simp: dispatch_def answered_def h_mkdir_def h_remove_def h_truncate_def
        h_chmod_def h_utimens_def p Let_def errno_ne_0 simp del: op_code.simps
        split: prod.splits option.splits if_splits intro: finish_heard)
qed

section \<open>What \<open>resolve\<close> looks up\<close>

lemma resolve_loop_lookup:
  assumes "\<And>p s. \<exists>b. os_exists api p s = ((b, False), s)" "\<And>p s. os_is_symlink api p s = (False, s)"
    "\<And>p s. os_canonical api p s = (Some p, s)"
    and "is_absolute root" "path_within root p" "list_all (\<lambda>t. slash \<notin> set t) parts"
  shows "resolve_loop api root parts p s =
    (if dotdot \<in> set parts then None
     else Some (foldl path_append p (filter (\<lambda>t. t \<noteq> [] \<and> t \<noteq> dot) parts)), s)"
  using assms(4-6)
proof (induction parts arbitrary: p)
  case (Cons t ts)
  consider "t = [] \<or> t = dot" | "t = dotdot" | "t \<noteq> []" "t \<noteq> dot" "t \<noteq> dotdot" by blast
  then show ?case
  proof cases
    case 1
    with Cons show ?thesis by auto
  next
    case 2
    then show ?thesis by simp
  next
    case 3
    let ?p = "path_append p t"
    have w: "path_within root ?p"
      using Cons.prems 3 path_within_absolute by (intro path_within_child) (auto simp: plain_name_def)
    obtain b where "os_exists api ?p s = ((b, False), s)" using assms(1) by blast
    then show ?thesis using 3 w assms(2,3) Cons by (auto simp: Let_def)
  qed
qed simp

section \<open>Host states for the witnesses\<close>

text \<open>
  A small in-memory system: files with their bytes, directories, open descriptors. It is one
  environment in which the hypotheses about the calls hold.
\<close>

record host =
  ho_files :: "(string \<times> bytes) list"
  ho_dirs :: "string list"
  ho_fds :: "string list"

definition ho_stat :: "u32 \<Rightarrow> nat \<Rightarrow> os_stat" where
  "ho_stat mode n = \<lparr>st_ino = 1, st_size = of_nat n, st_blocks = 1, st_atime = 0, st_mtime = 0,
     st_ctime = 0, st_mode = mode, st_nlink = 1, st_uid = 0, st_gid = 0\<rparr>"

definition ho_names :: "string \<Rightarrow> host \<Rightarrow> string list" where
  "ho_names p s = filter plain_name
     (map (drop (length p + 1)) (filter (\<lambda>q. take (length p + 1) q = p @ [slash]) (map fst (ho_files s))))"

definition ex_api :: "host os_api" where
  "ex_api = \<lparr>
     os_lstat = (\<lambda>p s. (case map_of (ho_files s) p of
        Some b \<Rightarrow> Some (ho_stat 0x81a4 (length b))
      | None \<Rightarrow> if p \<in> set (ho_dirs s) then Some (ho_stat 0x41ed 0) else None, s)),
     os_exists = (\<lambda>p s. ((p \<in> fst ` set (ho_files s) \<or> p \<in> set (ho_dirs s), False), s)),
     os_is_symlink = (\<lambda>p s. (False, s)),
     os_canonical = (\<lambda>p s. (Some p, s)),
     os_listdir = (\<lambda>p s. ((ho_names p s, False), s)),
     os_open = (\<lambda>p f m s.
        if p \<in> fst ` set (ho_files s) then (Inr (length (ho_fds s)), s\<lparr>ho_fds := ho_fds s @ [p]\<rparr>)
        else if f AND O_CREAT \<noteq> 0
          then (Inr (length (ho_fds s)), s\<lparr>ho_files := (p, []) # ho_files s, ho_fds := ho_fds s @ [p]\<rparr>)
          else (Inl 2, s)),
     os_pread = (\<lambda>d n off s. (if d < length (ho_fds s)
        then map_option (\<lambda>b. take n (drop (unat off) b)) (map_of (ho_files s) (ho_fds s ! d)) else None, s)),
     os_pwrite = (\<lambda>d b off s. (Some (length b), s)),
     os_fsync = (\<lambda>d s. (True, s)),
     os_close = (\<lambda>d s. ((), s)),
     os_mkdir = (\<lambda>p s. if p \<in> set (ho_dirs s) then ((False, False), s)
        else ((True, False), s\<lparr>ho_dirs := p # ho_dirs s\<rparr>)),
     os_remove = (\<lambda>p s. ((p \<in> fst ` set (ho_files s), False),
        s\<lparr>ho_files := filter (\<lambda>(q, _). q \<noteq> p) (ho_files s)\<rparr>)),
     os_rename = (\<lambda>p q s. (False, s\<lparr>ho_files := map (\<lambda>(x, b). (if x = p then q else x, b)) (ho_files s)\<rparr>)),
     os_resize = (\<lambda>p n s. (False, s)),
     os_space = (\<lambda>p s. ((40960, 8192, 4096), s)),
     os_chmod = (\<lambda>p m s. (0, s)),
     os_utime = (\<lambda>p t s. (False, s))\<rparr>"

definition ex_host :: host where
  "ex_host = \<lparr>ho_files = [(''/srv/share/a.txt'', str_bytes ''hello'')],
     ho_dirs = [''/srv/share'', ''/srv/share/sub''], ho_fds = []\<rparr>"

definition ex_server :: "bool \<Rightarrow> 'o \<Rightarrow> 'o server" where
  "ex_server writes s = \<lparr>sv_os = s, sv_root = ''/srv/share'', sv_allow_writes = writes,
     sv_handles = Map.empty, sv_paths = Map.empty, sv_next_fh = 1, sv_bytes_out = 0, sv_bytes_in = 0,
     sv_bcast = [\<lparr>b_stream = 0, b_queue = [], b_stopping = False\<rparr>]\<rparr>"

lemma ex_names_plain: "list_all plain_name (fst (fst (os_listdir ex_api p s)))"
  by (simp add: ex_api_def ho_names_def list_all_iff)

section \<open>Properties\<close>


text \<open>A rename into a subdirectory of a writable share causes nine calls, the last one the rename.\<close>

abbreviation ex_rename_req :: bytes where
  "ex_rename_req \<equiv> w_str (w_str [] ''/a.txt'') ''/sub/b.txt''"


text \<open>C8: Every request keeps the handle table (paths only of open handles, ids below the next id)
  and the invalidation queues (at most 256 entries each) well formed.\<close>

theorem requests_keep_server_invariants:
  assumes "table_ok sv" "queues_ok sv" "sv_next_fh sv + 1 \<noteq> 0"
  shows "table_ok (snd (dispatch api opc r sv)) \<and> queues_ok (snd (dispatch api opc r sv))"
  using table.dispatch_I [OF assms(1,3)] queues.dispatch_I [OF assms(2,3)] by blast

theorem requests_keep_server_invariants_witness:
  "table_ok (snd (dispatch ex_api (op_code OP_CREATE) (w_pod (w_pod (w_str [] ''/n'') (0x101 :: u32)) (420 :: u32))
     (ex_server True ex_host)))"
proof -
  have "table_ok (ex_server True ex_host)" "queues_ok (ex_server True ex_host)"
      "sv_next_fh (ex_server True ex_host) + 1 \<noteq> 0"
    by (simp_all add: ex_server_def table_ok_def queues_ok_def)
  from requests_keep_server_invariants [OF this] show ?thesis by blast
qed

text \<open>C13: An open handle stays bound to its descriptor through every request but OPEN, CREATE and
  RELEASE, and READ on it answers what the operating system reads there, cut to the largest
  transfer size.\<close>

theorem open_handle_lifetime:
  assumes "sv_handles sv fhid = Some fd"
    and "op_of opc \<notin> {Some OP_OPEN, Some OP_CREATE, Some OP_RELEASE}"
  shows "sv_handles (snd (dispatch api opc r sv)) fhid = Some fd \<and>
    dispatch api (op_code OP_READ) (w_pod (w_pod (w_pod [] fhid) off) len) sv =
      (case os_pread api fd (unat (min len kMaxIO)) off (sv_os sv) of
         (None, s) \<Rightarrow> (Some (EIO, []), sv\<lparr>sv_os := s\<rparr>)
       | (Some got, s) \<Rightarrow> (Some (0, got), sv\<lparr>sv_os := s,
           sv_bytes_out := sv_bytes_out sv + of_nat (length got)\<rparr>)) \<and>
    fst (dispatch api (op_code OP_READ) (w_pod (w_pod (w_pod [] fhid) off) len)
      (snd (dispatch api (op_code OP_RELEASE) (w_pod [] fhid) sv))) = Some (EBADF, [])"
proof (intro conjI)
  show "sv_handles (snd (dispatch api opc r sv)) fhid = Some fd"
  proof -
    have "sv_handles sv = sv_handles sv \<and> sv_paths sv = sv_paths sv \<and> sv_next_fh sv = sv_next_fh sv \<and>
        sv_root sv = sv_root sv \<and> sv_allow_writes sv = sv_allow_writes sv" by simp
    from fixed_table.keeping_handlers_I [OF this assms(2)] show ?thesis using assms(1) by simp
  qed
  show "dispatch api (op_code OP_READ) (w_pod (w_pod (w_pod [] fhid) off) len) sv =
      (case os_pread api fd (unat (min len kMaxIO)) off (sv_os sv) of
         (None, s) \<Rightarrow> (Some (EIO, []), sv\<lparr>sv_os := s\<rparr>)
       | (Some got, s) \<Rightarrow> (Some (0, got), sv\<lparr>sv_os := s,
           sv_bytes_out := sv_bytes_out sv + of_nat (length got)\<rparr>))"
    using h_read_open [OF assms(1), of api off len]
    by (simp add: dispatch_def answered_def sys_def del: op_code.simps split: prod.split option.split)
  show "fst (dispatch api (op_code OP_READ) (w_pod (w_pod (w_pod [] fhid) off) len)
      (snd (dispatch api (op_code OP_RELEASE) (w_pod [] fhid) sv))) = Some (EBADF, [])"
    by (simp add: dispatch_def answered_def h_read_gone h_release_gone del: op_code.simps)
qed

definition ex_opened :: "host server" where
  "ex_opened = (ex_server False (ex_host\<lparr>ho_fds := [''/srv/share/a.txt'']\<rparr>))
     \<lparr>sv_handles := [1 \<mapsto> 0], sv_paths := [1 \<mapsto> ''/a.txt''], sv_next_fh := 2\<rparr>"

theorem open_handle_lifetime_witness:
  "fst (dispatch ex_api (op_code OP_READ) (w_pod (w_pod (w_pod [] (1 :: u64)) (1 :: u64)) (3 :: u32)) ex_opened) =
     Some (0, str_bytes ''ell'')"
proof -
  have "sv_handles ex_opened 1 = Some 0" by (simp add: ex_opened_def)
  moreover have "op_of (op_code OP_FSYNC) \<notin> {Some OP_OPEN, Some OP_CREATE, Some OP_RELEASE}"
    by (simp del: op_code.simps)
  ultimately have "dispatch ex_api (op_code OP_READ) (w_pod (w_pod (w_pod [] (1 :: u64)) (1 :: u64)) (3 :: u32)) ex_opened =
      (case os_pread ex_api 0 (unat (min 3 kMaxIO)) 1 (sv_os ex_opened) of
         (None, s) \<Rightarrow> (Some (EIO, []), ex_opened\<lparr>sv_os := s\<rparr>)
       | (Some got, s) \<Rightarrow> (Some (0, got), ex_opened\<lparr>sv_os := s,
           sv_bytes_out := sv_bytes_out ex_opened + of_nat (length got)\<rparr>))"
    using open_handle_lifetime by blast
  then show ?thesis
    by (simp add: ex_api_def ex_opened_def ex_server_def ex_host_def str_bytes_def kMaxIO_val)
qed

text \<open>C14: A successful mkdir, remove, truncate, chmod or utimens leaves its path as the newest
  entry of the invalidation queue of every session that is not stopping.\<close>

theorem mutations_reach_every_session:
  assumes "length path < 2 ^ 32"
    and "x \<in> {OP_MKDIR, OP_UNLINK, OP_RMDIR, OP_TRUNCATE, OP_CHMOD, OP_UTIMENS}"
    and "dispatch api (op_code x) (w_str [] path @ rest) sv = (Some (0, out), sv')"
  shows "list_all (\<lambda>b. b_stopping b \<or> b_queue b \<noteq> [] \<and> last (b_queue b) = path) (sv_bcast sv')"
  using mutation_heard [OF assms] by (simp add: heard_def)

theorem mutations_reach_every_session_witness:
  "map b_queue (sv_bcast (snd (dispatch ex_api (op_code OP_MKDIR) (w_str [] ''/d'' @ le_bytes 4 (493 :: u32))
     (ex_server True ex_host)))) = [[''/d'']]"
proof -
  let ?req = "w_str [] ''/d'' @ le_bytes 4 (493 :: u32)"
  have run: "fst (dispatch ex_api (op_code OP_MKDIR) ?req (ex_server True ex_host)) = Some (0, [])"
      "map (\<lambda>b. (length (b_queue b), b_stopping b)) (sv_bcast (snd (dispatch ex_api (op_code OP_MKDIR) ?req
        (ex_server True ex_host)))) = [(1, False)]"
    by code_simp+
  obtain sv' where d: "dispatch ex_api (op_code OP_MKDIR) ?req (ex_server True ex_host) = (Some (0, []), sv')"
    using run(1) by (metis prod.collapse)
  have h: "list_all (\<lambda>b. b_stopping b \<or> b_queue b \<noteq> [] \<and> last (b_queue b) = ''/d'') (sv_bcast sv')"
    using mutations_reach_every_session [OF _ _ d] by simp
  from run(2) d obtain b where b: "sv_bcast sv' = [b]" "length (b_queue b) = 1" "\<not> b_stopping b"
    by (auto simp: map_eq_Cons_conv simp del: op_code.simps)
  then show ?thesis using h d by (cases "b_queue b") (simp_all del: op_code.simps)
qed



end
