(* ===== verification/ServerSessions.thy ===== *)
theory ServerSessions
  imports ServerDispatch Handshake
begin

text \<open>
  The life of the host: \<open>Server::start\<close> with its search for a free port, the threads that
  \<open>launchStream\<close> and \<open>handleStream\<close> run, one per stream, with the shared tables they keep
  (\<open>activeStreams_\<close>, \<open>connCount_\<close>, \<open>sessions_\<close>, \<open>broadcastSessions_\<close>), and \<open>Server::stop\<close>. Each
  critical section of the code is one atomic step; the steps of different threads interleave freely.
\<close>

section \<open>Starting\<close>

text \<open>
  The bind attempts: 64 consecutive ports from the wanted one, one attempt for the automatic port 0,
  and never port 0 once a port was asked for.
\<close>

fun bind_loop :: "(u16 \<Rightarrow> bool) \<Rightarrow> int \<Rightarrow> nat \<Rightarrow> u16 \<Rightarrow> u16 option" where
  "bind_loop free port 0 want = None"
| "bind_loop free port (Suc n) want =
     (let want = (if want = 0 \<and> port \<noteq> 0 then want + 1 else want)
      in if free want then Some want else bind_loop free port n (want + 1))"

definition bind_port :: "(u16 \<Rightarrow> bool) \<Rightarrow> int \<Rightarrow> u16 option" where
  "bind_port free port = bind_loop free port (if port = 0 then 1 else 64) (word_of_int port)"

datatype start_error =
    CannotHostSymlink | NotADirectory string | SocketFailed | BindFailed int | ListenFailed

text \<open>
  What the system answers while the host starts: whether the folder is a symbolic link, its canonical
  path, whether that is a directory, whether a dual-stack or an IPv4 socket can be had, which ports are
  free, whether \<open>listen\<close> succeeds, and the port a bound socket reports.
\<close>

record start_env =
  se_symlink :: bool
  se_canonical :: string
  se_directory :: bool
  se_socket6 :: bool
  se_socket4 :: bool
  se_free :: "u16 \<Rightarrow> bool"
  se_listen :: bool
  se_port :: "u16 \<Rightarrow> u16"

record started =
  su_root :: string
  su_share :: string
  su_secret :: bytes
  su_auth_key :: bytes
  su_port :: u16
  su_running :: bool

definition server_start ::
    "(bytes \<Rightarrow> bytes) \<Rightarrow> start_env \<Rightarrow> bytes \<Rightarrow> string \<Rightarrow> int \<Rightarrow> start_error + started" where
  "server_start sha e secret folder port =
     (if se_symlink e then Inl CannotHostSymlink
      else if \<not> se_directory e then Inl (NotADirectory folder)
      else
        let root = se_canonical e;
            name = filename root;
            share = (if name = [] then ''share'' else name);
            authKey = derive_key sha secret
        in if \<not> se_socket6 e \<and> \<not> se_socket4 e then Inl SocketFailed
           else (case bind_port (se_free e) port of
               None \<Rightarrow> Inl (BindFailed port)
             | Some p \<Rightarrow>
                 if \<not> se_listen e then Inl ListenFailed
                 else Inr \<lparr>su_root = root, su_share = share, su_secret = secret, su_auth_key = authKey,
                   su_port = se_port e p, su_running = True\<rparr>))"

text \<open>The ports in the order they are tried.\<close>

fun tried :: "int \<Rightarrow> nat \<Rightarrow> u16 \<Rightarrow> u16 list" where
  "tried port 0 want = []"
| "tried port (Suc n) want =
     (let want = (if want = 0 \<and> port \<noteq> 0 then want + 1 else want) in want # tried port n (want + 1))"

lemma bind_loop_find: "bind_loop free port n want = find free (tried port n want)"
  by (induction n arbitrary: want) (simp_all add: Let_def)

lemma tried_nonzero: "port \<noteq> 0 \<Longrightarrow> 0 \<notin> set (tried port n want)"
  by (induction n arbitrary: want) (auto simp: Let_def)

lemma length_tried: "length (tried port n want) = n"
  by (induction n arbitrary: want) (simp_all add: Let_def)

lemma tried_consecutive:
  assumes "0 < unat want" "unat want + n \<le> 65536"
  shows "tried port n want = map (\<lambda>i. want + of_nat i) [0..<n]"
  using assms
proof (induction n arbitrary: want)
  case (Suc n)
  have nz: "want \<noteq> 0" using Suc.prems(1) by auto
  show ?case
  proof (cases n)
    case 0
    then show ?thesis using nz by (simp add: Let_def)
  next
    case (Suc k)
    have u: "unat (want + 1) = unat want + 1"
      using Suc.prems(2) Suc by (simp add: unat_word_ariths)
    have "tried port n (want + 1) = map (\<lambda>i. want + 1 + of_nat i) [0..<n]"
      using Suc.IH [of "want + 1"] u Suc.prems by simp
    also have "\<dots> = map (\<lambda>i. want + of_nat i) [1..<Suc n]"
      by (rule nth_equalityI) (simp_all del: upt_Suc add: add.assoc)
    finally show ?thesis using nz
      by (simp add: Let_def upt_conv_Cons del: upt_Suc)
  qed
qed simp

section \<open>Connection threads\<close>

text \<open>Where a thread of \<open>handleStream\<close> stands; the client id is known after the handshake.\<close>

datatype phase =
    Spawning
  | Handshaking
  | Adding string
  | Registering string
  | Serving string
  | Closing "string option"
  | Unregistering "string option"
  | Removing string
  | Finishing

record sessions =
  ss_running :: bool
  ss_threads :: "(nat \<times> phase) list" \<comment> \<open>live threads, by stream\<close>
  ss_conn_count :: int
  ss_streams :: "nat list" \<comment> \<open>\<open>activeStreams_\<close>\<close>
  ss_sessions :: "string \<rightharpoonup> int"
  ss_bcast :: "nat list" \<comment> \<open>streams of \<open>broadcastSessions_\<close>\<close>
  ss_closed :: "nat list" \<comment> \<open>streams that were closed\<close>
  ss_stopped :: bool

definition set_phase :: "nat \<Rightarrow> phase \<Rightarrow> (nat \<times> phase) list \<Rightarrow> (nat \<times> phase) list" where
  "set_phase t ph ts = map (\<lambda>(u, q). if u = t then (u, ph) else (u, q)) ts"

text \<open>\<open>sessions_[clientId]++ == 0\<close> and its counterpart; the boolean says whether to call back.\<close>

definition session_add :: "string \<Rightarrow> (string \<rightharpoonup> int) \<Rightarrow> bool \<times> (string \<rightharpoonup> int)" where
  "session_add cid m = (let n = (case m cid of None \<Rightarrow> 0 | Some n \<Rightarrow> n) in (n = 0, m(cid \<mapsto> n + 1)))"

definition session_remove :: "string \<Rightarrow> (string \<rightharpoonup> int) \<Rightarrow> bool \<times> (string \<rightharpoonup> int)" where
  "session_remove cid m = (case m cid of
      None \<Rightarrow> (False, m)
    | Some n \<Rightarrow> if n - 1 \<le> 0 then (True, m(cid := None)) else (False, m(cid \<mapsto> n - 1)))"

definition unregister_session :: "nat \<Rightarrow> nat list \<Rightarrow> nat list" where
  "unregister_session t bs = remove1 t bs"

inductive sess_step :: "sessions \<Rightarrow> sessions \<Rightarrow> bool" where
  launch: "ss_running s \<Longrightarrow> t \<notin> fst ` set (ss_threads s) \<Longrightarrow> t \<notin> set (ss_closed s) \<Longrightarrow>
     sess_step s (s\<lparr>ss_streams := t # ss_streams s, ss_conn_count := ss_conn_count s + 1,
       ss_threads := (t, Spawning) # ss_threads s\<rparr>)"
| spawned: "(t, Spawning) \<in> set (ss_threads s) \<Longrightarrow>
     sess_step s (s\<lparr>ss_threads := set_phase t Handshaking (ss_threads s)\<rparr>)"
| spawn_failed: "(t, Spawning) \<in> set (ss_threads s) \<Longrightarrow>
     sess_step s (s\<lparr>ss_streams := remove1 t (ss_streams s), ss_conn_count := ss_conn_count s - 1,
       ss_threads := filter (\<lambda>(u, _). u \<noteq> t) (ss_threads s), ss_closed := t # ss_closed s\<rparr>)"
| launch_refused: "\<not> ss_running s \<Longrightarrow> t \<notin> fst ` set (ss_threads s) \<Longrightarrow>
     sess_step s (s\<lparr>ss_closed := t # ss_closed s\<rparr>)"
| handshake_ok: "(t, Handshaking) \<in> set (ss_threads s) \<Longrightarrow>
     sess_step s (s\<lparr>ss_threads := set_phase t (Adding cid) (ss_threads s)\<rparr>)"
| handshake_failed: "(t, Handshaking) \<in> set (ss_threads s) \<Longrightarrow>
     sess_step s (s\<lparr>ss_threads := set_phase t (Closing None) (ss_threads s)\<rparr>)"
| add: "(t, Adding cid) \<in> set (ss_threads s) \<Longrightarrow>
     sess_step s (s\<lparr>ss_sessions := snd (session_add cid (ss_sessions s)),
       ss_threads := set_phase t (Registering cid) (ss_threads s)\<rparr>)"
| register: "(t, Registering cid) \<in> set (ss_threads s) \<Longrightarrow>
     sess_step s (s\<lparr>ss_bcast := ss_bcast s @ [t],
       ss_threads := set_phase t (Serving cid) (ss_threads s)\<rparr>)"
| request: "(t, Serving cid) \<in> set (ss_threads s) \<Longrightarrow> sess_step s s"
| loop_ends: "(t, Serving cid) \<in> set (ss_threads s) \<Longrightarrow>
     sess_step s (s\<lparr>ss_threads := set_phase t (Closing (Some cid)) (ss_threads s)\<rparr>)"
| close: "(t, Closing c) \<in> set (ss_threads s) \<Longrightarrow>
     sess_step s (s\<lparr>ss_closed := t # ss_closed s,
       ss_threads := set_phase t (Unregistering c) (ss_threads s)\<rparr>)"
| unregister: "(t, Unregistering c) \<in> set (ss_threads s) \<Longrightarrow>
     sess_step s (s\<lparr>ss_bcast := unregister_session t (ss_bcast s),
       ss_threads := set_phase t (case c of None \<Rightarrow> Finishing | Some cid \<Rightarrow> Removing cid) (ss_threads s)\<rparr>)"
| remove: "(t, Removing cid) \<in> set (ss_threads s) \<Longrightarrow>
     sess_step s (s\<lparr>ss_sessions := snd (session_remove cid (ss_sessions s)),
       ss_threads := set_phase t Finishing (ss_threads s)\<rparr>)"
| finish: "(t, Finishing) \<in> set (ss_threads s) \<Longrightarrow>
     sess_step s (s\<lparr>ss_streams := remove1 t (ss_streams s), ss_conn_count := ss_conn_count s - 1,
       ss_threads := filter (\<lambda>(u, _). u \<noteq> t) (ss_threads s)\<rparr>)"
| stop_begin: "ss_running s \<Longrightarrow> sess_step s (s\<lparr>ss_running := False\<rparr>)"
| stop_close: "\<not> ss_running s \<Longrightarrow> sess_step s (s\<lparr>ss_closed := ss_streams s @ ss_closed s\<rparr>)"
| stop_end: "\<not> ss_running s \<Longrightarrow> ss_conn_count s = 0 \<Longrightarrow>
     sess_step s (s\<lparr>ss_sessions := Map.empty, ss_stopped := True\<rparr>)"

definition sess_init :: sessions where
  "sess_init = \<lparr>ss_running = True, ss_threads = [], ss_conn_count = 0, ss_streams = [],
     ss_sessions = Map.empty, ss_bcast = [], ss_closed = [], ss_stopped = False\<rparr>"

inductive sess_reachable :: "sessions \<Rightarrow> bool" where
  init: "sess_reachable sess_init"
| step: "sess_reachable s \<Longrightarrow> sess_step s s' \<Longrightarrow> sess_reachable s'"

section \<open>The invariant\<close>

text \<open>The threads that count for a client id, and those with an entry in \<open>broadcastSessions_\<close>.\<close>

definition counted :: "string \<Rightarrow> phase \<Rightarrow> bool" where
  "counted cid ph \<longleftrightarrow> ph \<in> {Registering cid, Serving cid, Closing (Some cid), Unregistering (Some cid), Removing cid}"

primrec registered :: "phase \<Rightarrow> bool" where
  "registered Spawning = False"
| "registered Handshaking = False"
| "registered (Adding c) = False"
| "registered (Registering c) = False"
| "registered (Serving c) = True"
| "registered (Closing c) = (c \<noteq> None)"
| "registered (Unregistering c) = (c \<noteq> None)"
| "registered (Removing c) = False"
| "registered Finishing = False"

definition clients_of :: "string \<Rightarrow> (nat \<times> phase) list \<Rightarrow> nat" where
  "clients_of cid ts = length (filter (\<lambda>(t, ph). counted cid ph) ts)"

definition sess_inv :: "sessions \<Rightarrow> bool" where
  "sess_inv s \<longleftrightarrow> distinct (map fst (ss_threads s)) \<and>
     ss_conn_count s = int (length (ss_threads s)) \<and>
     distinct (ss_streams s) \<and> set (ss_streams s) = fst ` set (ss_threads s) \<and>
     (\<forall>cid. ss_sessions s cid = (let n = clients_of cid (ss_threads s) in if n = 0 then None else Some (int n))) \<and>
     distinct (ss_bcast s) \<and> set (ss_bcast s) = fst ` {x \<in> set (ss_threads s). registered (snd x)}"

lemma fst_set_phase [simp]: "map fst (set_phase t ph ts) = map fst ts" "length (set_phase t ph ts) = length ts"
  by (auto simp: set_phase_def)

lemma fst_image_set_phase [simp]: "fst ` set (set_phase t ph ts) = fst ` set ts"
  by (metis fst_set_phase(1) list.set_map)

lemma set_phase_notin: "t \<notin> fst ` set ts \<Longrightarrow> set_phase t ph ts = ts"
  by (induction ts) (auto simp: set_phase_def)

text \<open>Changing one thread's phase changes a count by at most that thread.\<close>

lemma clients_of_set_phase:
  assumes "distinct (map fst ts)" "(t, q) \<in> set ts"
  shows "clients_of cid (set_phase t ph ts) + (if counted cid q then 1 else 0) =
    clients_of cid ts + (if counted cid ph then 1 else 0)"
  using assms
proof (induction ts)
  case (Cons x ts)
  show ?case
  proof (cases "fst x = t")
    case True
    then have "t \<notin> fst ` set ts" using Cons.prems(1) by auto
    then have "x = (t, q)" "set_phase t ph ts = ts"
      using Cons.prems(2) True by (auto simp: set_phase_notin image_iff)
    then show ?thesis by (simp add: set_phase_def clients_of_def)
  next
    case False
    then have "(t, q) \<in> set ts" using Cons.prems(2) by auto
    with Cons False show ?thesis
      by (cases x) (auto simp: set_phase_def clients_of_def)
  qed
qed simp

lemma registered_set_phase:
  assumes "distinct (map fst ts)" "(t, q) \<in> set ts"
  shows "fst ` {x \<in> set (set_phase t ph ts). registered (snd x)} =
    (fst ` {x \<in> set ts. registered (snd x)} - {t}) \<union> (if registered ph then {t} else {})"
  using assms
proof (induction ts)
  case (Cons x ts)
  show ?case
  proof (cases "fst x = t")
    case True
    then have n: "t \<notin> fst ` set ts" using Cons.prems(1) by auto
    then have "set_phase t ph (x # ts) = (t, ph) # ts"
      using True by (cases x) (simp add: set_phase_def set_phase_notin [unfolded set_phase_def])
    then show ?thesis using n True by (cases x) (auto simp: image_iff)
  next
    case False
    then have "(t, q) \<in> set ts" using Cons.prems(2) by auto
    then have ih: "fst ` {x \<in> set (set_phase t ph ts). registered (snd x)} =
        (fst ` {x \<in> set ts. registered (snd x)} - {t}) \<union> (if registered ph then {t} else {})"
      using Cons by simp
    have e: "set_phase t ph (x # ts) = x # set_phase t ph ts"
      using False by (cases x) (simp add: set_phase_def)
    have i: "fst ` {y \<in> set (x # zs). registered (snd y)} =
        (if registered (snd x) then {fst x} else {}) \<union> fst ` {y \<in> set zs. registered (snd y)}" for zs
      by auto
    show ?thesis unfolding e i ih using False by auto
  qed
qed simp

lemma distinct_fst_eq: "distinct (map fst ts) \<Longrightarrow> (t, q) \<in> set ts \<Longrightarrow> (t, q') \<in> set ts \<Longrightarrow> q = q'"
  by (rule eq_key_imp_eq_value)

lemma registered_member:
  assumes "distinct (map fst ts)" "(t, q) \<in> set ts"
  shows "t \<in> fst ` {x \<in> set ts. registered (snd x)} \<longleftrightarrow> registered q"
proof
  assume "t \<in> fst ` {x \<in> set ts. registered (snd x)}"
  then obtain q' where "(t, q') \<in> set ts" "registered q'" by auto
  then show "registered q" using distinct_fst_eq [OF assms] by simp
next
  assume "registered q"
  then have "(t, q) \<in> {x \<in> set ts. registered (snd x)}" using assms(2) by simp
  then show "t \<in> fst ` {x \<in> set ts. registered (snd x)}" by (metis fst_conv image_eqI)
qed

lemma inv_move:
  assumes "sess_inv s" "(t, q) \<in> set (ss_threads s)"
    and "\<And>cid. counted cid q = counted cid ph" "registered q = registered ph"
  shows "sess_inv (s\<lparr>ss_threads := set_phase t ph (ss_threads s)\<rparr>)"
proof -
  let ?ts = "ss_threads s"
  have d: "distinct (map fst ?ts)" using assms(1) by (simp add: sess_inv_def)
  have c: "clients_of cid (set_phase t ph ?ts) = clients_of cid ?ts" for cid
    using clients_of_set_phase [OF d assms(2), of cid ph] assms(3) [of cid] by simp
  note registered_member [OF d assms(2)]
  then have r: "fst ` {x \<in> set (set_phase t ph ?ts). registered (snd x)} =
      fst ` {x \<in> set ?ts. registered (snd x)}"
    using registered_set_phase [OF d assms(2), of ph] assms(4) by auto
  show ?thesis using assms(1) unfolding sess_inv_def by (simp add: c r)
qed

lemma inv_closed: "sess_inv (s\<lparr>ss_closed := c\<rparr>) = sess_inv s" "sess_inv (s\<lparr>ss_running := b\<rparr>) = sess_inv s"
  by (simp_all add: sess_inv_def)

lemma clients_of_filter:
  assumes "distinct (map fst ts)" "(t, q) \<in> set ts" "\<not> counted cid q"
  shows "clients_of cid (filter (\<lambda>(u, _). u \<noteq> t) ts) = clients_of cid ts"
proof -
  have "filter (\<lambda>(u, ph). counted cid ph) (filter (\<lambda>(u, _). u \<noteq> t) ts) = filter (\<lambda>(u, ph). counted cid ph) ts"
    unfolding filter_filter
    by (rule filter_cong [OF refl]) (use distinct_fst_eq [OF assms(1,2)] assms(3) in auto)
  then show ?thesis by (simp add: clients_of_def)
qed

lemma length_filter_other:
  assumes "distinct (map fst ts)" "(t, q) \<in> set ts"
  shows "length ts = Suc (length (filter (\<lambda>(u, _). u \<noteq> t) ts))"
  using assms
proof (induction ts)
  case (Cons x ts)
  show ?case
  proof (cases "fst x = t")
    case True
    then have "t \<notin> fst ` set ts" using Cons.prems(1) by auto
    then have "filter (\<lambda>(u, _). u \<noteq> t) ts = ts" by (auto simp: filter_id_conv image_iff)
    then show ?thesis using True by (cases x) simp
  next
    case False
    then show ?thesis using Cons by (cases x) auto
  qed
qed simp

lemma inv_leave:
  assumes "sess_inv s" "(t, q) \<in> set (ss_threads s)" "\<And>cid. \<not> counted cid q" "\<not> registered q"
  shows "sess_inv (s\<lparr>ss_streams := remove1 t (ss_streams s), ss_conn_count := ss_conn_count s - 1,
    ss_threads := filter (\<lambda>(u, _). u \<noteq> t) (ss_threads s)\<rparr>)"
proof -
  let ?ts = "ss_threads s" and ?f = "filter (\<lambda>(u, _). u \<noteq> t) (ss_threads s)"
  have d: "distinct (map fst ?ts)" using assms(1) by (simp add: sess_inv_def)
  have "map fst (filter (\<lambda>(u, _). u \<noteq> t) xs) = filter (\<lambda>u. u \<noteq> t) (map fst xs)" for xs :: "(nat \<times> phase) list"
    by (induction xs) auto
  from this [of ?ts] have "map fst ?f = filter (\<lambda>u. u \<noteq> t) (map fst ?ts)" .
  then have df: "distinct (map fst ?f)" using d by simp
  have sf: "fst ` set ?f = fst ` set ?ts - {t}" by force
  have "fst ` {x \<in> set ?f. registered (snd x)} = fst ` {x \<in> set ?ts. registered (snd x)}"
    using distinct_fst_eq [OF d assms(2)] assms(4) by force
  moreover have "length ?ts = Suc (length ?f)" by (rule length_filter_other [OF d assms(2)])
  ultimately show ?thesis
    using assms(1) df sf clients_of_filter [OF d assms(2) assms(3)]
    unfolding sess_inv_def by (auto simp: set_remove1_eq)
qed

lemma inv_add:
  assumes "sess_inv s" "(t, Adding cid) \<in> set (ss_threads s)"
  shows "sess_inv (s\<lparr>ss_sessions := snd (session_add cid (ss_sessions s)),
       ss_threads := set_phase t (Registering cid) (ss_threads s)\<rparr>)"
proof -
  let ?ts = "ss_threads s"
  have d: "distinct (map fst ?ts)" using assms(1) by (simp add: sess_inv_def)
  have c: "clients_of c (set_phase t (Registering cid) ?ts) = clients_of c ?ts + (if c = cid then 1 else 0)" for c
    using clients_of_set_phase [OF d assms(2), of c "Registering cid"] by (simp add: counted_def)
  have "t \<notin> fst ` {x \<in> set ?ts. registered (snd x)}"
    by (simp only: registered_member [OF d assms(2)]) simp
  then have r: "fst ` {x \<in> set (set_phase t (Registering cid) ?ts). registered (snd x)} =
      fst ` {x \<in> set ?ts. registered (snd x)}"
    using registered_set_phase [OF d assms(2), of "Registering cid"] by auto
  show ?thesis
    using assms(1) unfolding sess_inv_def
    by (auto simp: c r session_add_def Let_def split: option.splits)
qed

lemma inv_remove:
  assumes "sess_inv s" "(t, Removing cid) \<in> set (ss_threads s)"
  shows "sess_inv (s\<lparr>ss_sessions := snd (session_remove cid (ss_sessions s)),
       ss_threads := set_phase t Finishing (ss_threads s)\<rparr>)"
proof -
  let ?ts = "ss_threads s"
  have d: "distinct (map fst ?ts)" using assms(1) by (simp add: sess_inv_def)
  have c: "clients_of c ?ts = clients_of c (set_phase t Finishing ?ts) + (if c = cid then 1 else 0)" for c
    using clients_of_set_phase [OF d assms(2), of c Finishing] by (auto simp: counted_def)
  have "t \<notin> fst ` {x \<in> set ?ts. registered (snd x)}"
    by (simp only: registered_member [OF d assms(2)]) simp
  then have r: "fst ` {x \<in> set (set_phase t Finishing ?ts). registered (snd x)} =
      fst ` {x \<in> set ?ts. registered (snd x)}"
    using registered_set_phase [OF d assms(2), of Finishing] by auto
  have "ss_sessions s cid = Some (int (clients_of cid (set_phase t Finishing ?ts)) + 1)"
    using assms(1) c [of cid] by (simp add: sess_inv_def Let_def)
  then show ?thesis
    using assms(1) unfolding sess_inv_def
    by (auto simp: c r session_remove_def Let_def)
qed

lemma inv_register:
  assumes "sess_inv s" "(t, Registering cid) \<in> set (ss_threads s)"
  shows "sess_inv (s\<lparr>ss_bcast := ss_bcast s @ [t], ss_threads := set_phase t (Serving cid) (ss_threads s)\<rparr>)"
proof -
  let ?ts = "ss_threads s"
  have d: "distinct (map fst ?ts)" using assms(1) by (simp add: sess_inv_def)
  have c: "clients_of c (set_phase t (Serving cid) ?ts) = clients_of c ?ts" for c
    using clients_of_set_phase [OF d assms(2), of c "Serving cid"] by (simp add: counted_def)
  have "t \<notin> fst ` {x \<in> set ?ts. registered (snd x)}"
    by (simp only: registered_member [OF d assms(2)]) simp
  then show ?thesis
    using assms(1) registered_set_phase [OF d assms(2), of "Serving cid"]
    unfolding sess_inv_def by (auto simp: c)
qed

lemma inv_unregister:
  assumes "sess_inv s" "(t, Unregistering c) \<in> set (ss_threads s)"
  shows "sess_inv (s\<lparr>ss_bcast := unregister_session t (ss_bcast s),
       ss_threads := set_phase t (case c of None \<Rightarrow> Finishing | Some cid \<Rightarrow> Removing cid) (ss_threads s)\<rparr>)"
proof -
  let ?ts = "ss_threads s" and ?ph = "case c of None \<Rightarrow> Finishing | Some cid \<Rightarrow> Removing cid"
  have d: "distinct (map fst ?ts)" using assms(1) by (simp add: sess_inv_def)
  have k: "clients_of cid (set_phase t ?ph ?ts) = clients_of cid ?ts" for cid
    using clients_of_set_phase [OF d assms(2), of cid ?ph] by (auto simp: counted_def split: option.splits)
  have "\<not> registered ?ph" by (cases c) simp_all
  then have "fst ` {x \<in> set (set_phase t ?ph ?ts). registered (snd x)} = fst ` {x \<in> set ?ts. registered (snd x)} - {t}"
    using registered_set_phase [OF d assms(2), of ?ph] by auto
  then show ?thesis
    using assms(1) unfolding sess_inv_def unregister_session_def
    by (auto simp: k set_remove1_eq)
qed

lemma inv_launch:
  assumes "sess_inv s" "t \<notin> fst ` set (ss_threads s)"
  shows "sess_inv (s\<lparr>ss_streams := t # ss_streams s, ss_conn_count := ss_conn_count s + 1,
       ss_threads := (t, Spawning) # ss_threads s\<rparr>)"
proof -
  have "clients_of cid ((t, Spawning) # ss_threads s) = clients_of cid (ss_threads s)" for cid
    by (simp add: clients_of_def counted_def)
  moreover have "{x \<in> set ((t, Spawning) # ss_threads s). registered (snd x)} =
      {x \<in> set (ss_threads s). registered (snd x)}" by auto
  ultimately show ?thesis using assms unfolding sess_inv_def by simp
qed

lemma inv_step: "sess_step s s' \<Longrightarrow> sess_inv s \<Longrightarrow> sess_inv s'"
proof (induction rule: sess_step.induct)
  case (launch s t)
  then show ?case by (intro inv_launch)
next
  case (spawned t s)
  show ?case by (rule inv_move [OF spawned.prems spawned.hyps]) (simp_all add: counted_def)
next
  case (spawn_failed t s)
  show ?case using inv_leave [OF spawn_failed.prems spawn_failed.hyps]
    by (simp add: sess_inv_def counted_def)
next
  case (handshake_ok t s cid)
  show ?case by (rule inv_move [OF handshake_ok.prems handshake_ok.hyps]) (simp_all add: counted_def)
next
  case (handshake_failed t s)
  show ?case by (rule inv_move [OF handshake_failed.prems handshake_failed.hyps]) (simp_all add: counted_def)
next
  case (add t cid s)
  then show ?case by (intro inv_add)
next
  case (register t cid s)
  then show ?case by (intro inv_register)
next
  case (loop_ends t cid s)
  show ?case by (rule inv_move [OF loop_ends.prems loop_ends.hyps]) (auto simp add: counted_def)
next
  case (close t c s)
  have "sess_inv (s\<lparr>ss_threads := set_phase t (Unregistering c) (ss_threads s)\<rparr>)"
    by (rule inv_move [OF close.prems close.hyps]) (auto simp add: counted_def)
  then show ?case by (simp add: sess_inv_def)
next
  case (unregister t c s)
  then show ?case by (intro inv_unregister)
next
  case (remove t cid s)
  then show ?case by (intro inv_remove)
next
  case (finish t s)
  show ?case by (rule inv_leave [OF finish.prems finish.hyps]) (simp_all add: counted_def)
next
  case (stop_end s)
  then have "ss_threads s = []" by (simp add: sess_inv_def)
  with stop_end.prems show ?case by (simp add: sess_inv_def clients_of_def)
qed (simp_all add: inv_closed)

lemma sess_inv_init: "sess_inv sess_init"
  by (simp add: sess_inv_def sess_init_def clients_of_def)

lemma reachable_inv: "sess_reachable s \<Longrightarrow> sess_inv s"
  by (induction rule: sess_reachable.induct) (auto simp: sess_inv_init intro: inv_step)

section \<open>Stopping is never stuck\<close>

primrec rank :: "phase \<Rightarrow> nat" where
  "rank Spawning = 9"
| "rank Handshaking = 8"
| "rank (Adding c) = 7"
| "rank (Registering c) = 6"
| "rank (Serving c) = 5"
| "rank (Closing c) = 4"
| "rank (Unregistering c) = 3"
| "rank (Removing c) = 2"
| "rank Finishing = 1"

definition work :: "sessions \<Rightarrow> nat" where
  "work s = sum_list (map (\<lambda>x. rank (snd x)) (ss_threads s))"

lemma work_set_phase:
  assumes "distinct (map fst ts)" "(t, q) \<in> set ts" "rank ph < rank q"
  shows "sum_list (map (\<lambda>x. rank (snd x)) (set_phase t ph ts)) < sum_list (map (\<lambda>x. rank (snd x)) ts)"
  using assms
proof (induction ts)
  case (Cons x ts)
  show ?case
  proof (cases "fst x = t")
    case True
    then have n: "t \<notin> fst ` set ts" using Cons.prems(1) by auto
    then have "x = (t, q)" using Cons.prems(2) True by (auto simp: image_iff)
    then show ?thesis using n Cons.prems(3) set_phase_notin [OF n, of ph] by (simp add: set_phase_def)
  next
    case False
    then have "(t, q) \<in> set ts" using Cons.prems(2) by auto
    with Cons have "sum_list (map (\<lambda>x. rank (snd x)) (set_phase t ph ts)) < sum_list (map (\<lambda>x. rank (snd x)) ts)" by simp
    then show ?thesis using False by (cases x) (simp add: set_phase_def)
  qed
qed simp

lemma work_leave:
  fixes ts :: "(nat \<times> phase) list"
  assumes "distinct (map fst ts)" "(t, Finishing) \<in> set ts"
  shows "sum_list (map (\<lambda>x. rank (snd x)) (filter (\<lambda>(u, _). u \<noteq> t) ts)) < sum_list (map (\<lambda>x. rank (snd x)) ts)"
  using assms
proof (induction ts)
  case (Cons x ts)
  have le: "sum_list (map (\<lambda>x. rank (snd x)) (filter P zs)) \<le> sum_list (map (\<lambda>x. rank (snd x)) zs)"
    for P :: "nat \<times> phase \<Rightarrow> bool" and zs by (induction zs) auto
  show ?case
  proof (cases "fst x = t")
    case True
    then have "t \<notin> fst ` set ts" using Cons.prems(1) by auto
    then have "x = (t, Finishing)" using Cons.prems(2) True by (auto simp: image_iff)
    then show ?thesis using le [of "\<lambda>(u, _). u \<noteq> t" ts] by simp
  next
    case False
    then have "(t, Finishing) \<in> set ts" using Cons.prems(2) by auto
    with Cons False show ?thesis by (cases x) auto
  qed
qed simp

lemma thread_progress:
  assumes "sess_reachable s" "(t, q) \<in> set (ss_threads s)"
  shows "\<exists>s'. sess_step s s' \<and> work s' < work s \<and> ss_running s' = ss_running s"
proof -
  have d: "distinct (map fst (ss_threads s))" using reachable_inv [OF assms(1)] by (simp add: sess_inv_def)
  note w = work_set_phase [OF d assms(2)]
  show ?thesis
  proof (cases q)
    case Spawning
    with w sess_step.spawned [of t s] assms(2) show ?thesis by (fastforce simp: work_def)
  next
    case Handshaking
    with w sess_step.handshake_failed [of t s] assms(2) show ?thesis by (fastforce simp: work_def)
  next
    case (Adding c)
    with w sess_step.add [of t c s] assms(2) show ?thesis by (fastforce simp: work_def)
  next
    case (Registering c)
    with w sess_step.register [of t c s] assms(2) show ?thesis by (fastforce simp: work_def)
  next
    case (Serving c)
    with w sess_step.loop_ends [of t c s] assms(2) show ?thesis by (fastforce simp: work_def)
  next
    case (Closing c)
    with w sess_step.close [of t c s] assms(2) show ?thesis by (fastforce simp: work_def)
  next
    case (Unregistering c)
    then have "rank (case c of None \<Rightarrow> Finishing | Some cid \<Rightarrow> Removing cid) < rank q" by (cases c) simp_all
    note l = w [OF this]
    have "(t, Unregistering c) \<in> set (ss_threads s)" using assms(2) Unregistering by simp
    from sess_step.unregister [OF this] l show ?thesis by (fastforce simp: work_def)
  next
    case (Removing c)
    with w sess_step.remove [of t c s] assms(2) show ?thesis by (fastforce simp: work_def)
  next
    case Finishing
    with work_leave [OF d] sess_step.finish [of t s] assms(2) show ?thesis by (fastforce simp: work_def)
  qed
qed

section \<open>Properties\<close>

text \<open>C16: In every reachable state the connection count is the number of live connection threads,
  each client is counted with the number of its authenticated connections and is absent when
  it has none, and the broadcast list holds exactly the registered sessions.\<close>

theorem session_accounting:
  assumes "sess_reachable s"
  shows "ss_conn_count s = int (length (ss_threads s)) \<and>
    ss_sessions s cid = (let n = clients_of cid (ss_threads s) in if n = 0 then None else Some (int n)) \<and>
    set (ss_bcast s) = fst ` {x \<in> set (ss_threads s). registered (snd x)} \<and>
    (ss_conn_count s = 0 \<longrightarrow> ss_threads s = [] \<and> ss_streams s = [] \<and> ss_bcast s = [] \<and> ss_sessions s = Map.empty)"
proof -
  have i: "sess_inv s" by (rule reachable_inv [OF assms])
  have "ss_sessions s = Map.empty" if "ss_threads s = []"
    using i that by (auto simp: sess_inv_def clients_of_def)
  then show ?thesis using i by (auto simp: sess_inv_def)
qed

text \<open>One client that is being served.\<close>

abbreviation ex_serving :: sessions where
  "ex_serving \<equiv> \<lparr>ss_running = True, ss_threads = [(1, Serving ''c'')], ss_conn_count = 1, ss_streams = [1],
     ss_sessions = [''c'' \<mapsto> 1], ss_bcast = [1], ss_closed = [], ss_stopped = False\<rparr>"

lemma ex_serving_reachable: "sess_reachable ex_serving"
proof -
  have 1: "sess_reachable (sess_init\<lparr>ss_streams := [1], ss_conn_count := 1, ss_threads := [(1, Spawning)]\<rparr>)"
    using sess_reachable.step [OF sess_reachable.init sess_step.launch [of sess_init 1]]
    by (simp add: sess_init_def)
  have 2: "sess_reachable (sess_init\<lparr>ss_streams := [1], ss_conn_count := 1, ss_threads := [(1, Handshaking)]\<rparr>)"
    using sess_reachable.step [OF 1 sess_step.spawned [of 1]] by (simp add: sess_init_def set_phase_def)
  have 3: "sess_reachable (sess_init\<lparr>ss_streams := [1], ss_conn_count := 1, ss_threads := [(1, Adding ''c'')]\<rparr>)"
    using sess_reachable.step [OF 2 sess_step.handshake_ok [of 1 _ "''c''"]]
    by (simp add: sess_init_def set_phase_def)
  have 4: "sess_reachable (sess_init\<lparr>ss_streams := [1], ss_conn_count := 1, ss_threads := [(1, Registering ''c'')],
      ss_sessions := [''c'' \<mapsto> 1]\<rparr>)"
    using sess_reachable.step [OF 3 sess_step.add [of 1 "''c''"]]
    by (simp add: sess_init_def set_phase_def session_add_def)
  show ?thesis
    using sess_reachable.step [OF 4 sess_step.register [of 1 "''c''"]]
    by (simp add: sess_init_def set_phase_def)
qed

theorem session_accounting_witness:
  "ss_sessions ex_serving ''c'' = Some (int (clients_of ''c'' (ss_threads ex_serving)))"
  using session_accounting [OF ex_serving_reachable, of "''c''"]
  by (simp add: clients_of_def counted_def)



text \<open>The search of Server::start binds the first free port among the 64 ports from the
  requested one on.\<close>

theorem bind_port_search:
  assumes "0 < port" "port + 64 \<le> 65536"
  shows "bind_port free port = find free (map (\<lambda>i. word_of_int port + of_nat i) [0..<64])"
proof -
  have u: "unat (word_of_int port :: u16) = nat port"
    using assms by (simp add: unat_eq_nat_uint uint_word_of_int)
  show ?thesis
    using tried_consecutive [of "word_of_int port" 64 port] assms u
    by (simp add: bind_port_def bind_loop_find)
qed

theorem bind_port_search_witness:
  "bind_port (\<lambda>p. p = 47000 \<or> p = 46002) 46000 = Some 46002"
  using bind_port_search [of 46000 "\<lambda>p. p = 47000 \<or> p = 46002"]
  by (simp add: upt_rec)

end
