(* ===== verification/RemoteFs.thy ===== *)
theory RemoteFs
  imports Wire
begin

text \<open>
  The interface \<open>RemoteFs\<close> of \<open>client/include/net/remote_fs.h\<close>, through which the mounts reach the
  host: \<open>connected()\<close> and \<open>request(op, payload, resp)\<close>. An implementation is a record of its two
  operations over its own state. \<open>request\<close> returns the status and what \<open>resp\<close> holds afterwards;
  every caller passes an empty vector, so \<open>[]\<close> stands for a \<open>resp\<close> that was not written. A status
  is an \<open>int\<close>, 0 or a positive errno.

  The locale \<open>remote_reader\<close> states what the cache relies on when it answers reads itself: reads of
  an open handle give the bytes of one file, and attributes of its path give that file's size.
\<close>

record 's remote_fs =
  rf_connected :: "'s \<Rightarrow> bool"
  rf_request :: "u16 \<Rightarrow> bytes \<Rightarrow> 's \<Rightarrow> (int \<times> bytes) \<times> 's"

text \<open>The errno values of Linux that the clients compare with or return.\<close>

definition kENOENT :: int where "kENOENT = 2"
definition kEIO :: int where "kEIO = 5"
definition kEBADF :: int where "kEBADF = 9"

text \<open>The payload of an \<open>OP_READ\<close>: handle, offset and length.\<close>

definition read_req :: "u64 \<Rightarrow> u64 \<Rightarrow> u32 \<Rightarrow> bytes" where
  "read_req h off len = w_pod (w_pod (w_pod [] h) off) len"

lemma unat_ucast_32_64: "unat (ucast (n :: u32) :: u64) = unat n"
  by transfer simp

text \<open>What a read of \<open>n\<close> bytes at \<open>off\<close> returns of a file, clipped at its end.\<close>

definition slice :: "nat \<Rightarrow> nat \<Rightarrow> 'a list \<Rightarrow> 'a list" where
  "slice off n f = take n (drop off f)"

lemma length_slice: "length (slice off n f) = min n (length f - off)"
  by (simp add: slice_def)

lemma slice_past_end: "length f \<le> off \<Longrightarrow> slice off n f = []"
  by (simp add: slice_def)

lemma slice_append: "slice off n f @ slice (off + n) m f = slice off (n + m) f"
  unfolding slice_def take_add drop_drop by (simp only: add.commute)

lemma slice_of_slice: "take k (drop j (slice off n f)) = slice (off + j) (min k (n - j)) f"
  unfolding slice_def drop_take take_take drop_drop by (simp only: add.commute)

text \<open>A message's length is a 32-bit field, so no response has \<open>2 ^ 32\<close> bytes.\<close>

definition short_responses :: "'s remote_fs \<Rightarrow> bool" where
  "short_responses inner \<longleftrightarrow> (\<forall>opc p s. length (snd (fst (rf_request inner opc p s))) < 2 ^ 32)"

lemma short_responsesD: "short_responses inner \<Longrightarrow> rf_request inner opc p s = ((st, resp), s') \<Longrightarrow> length resp < 2 ^ 32"
  unfolding short_responses_def by (metis fst_conv snd_conv)

text \<open>
  \<open>stable s\<close>: in this state of the remote, and until someone else acts on it, the handle \<open>h\<close> is open
  on a file with the bytes \<open>content\<close>, and \<open>path\<close> names it. A read asks for at most \<open>kMaxIO\<close> bytes.
\<close>

locale remote_reader =
  fixes fs :: "'s remote_fs"
    and stable :: "'s \<Rightarrow> bool"
    and h :: u64 and path :: string and content :: bytes
  assumes reads: "stable s \<Longrightarrow> len \<le> kMaxIO \<Longrightarrow>
      rf_request fs (op_code OP_READ) (read_req h off len) s = ((st, resp), s') \<Longrightarrow>
      stable s' \<and> st = 0 \<and> resp = slice (unat off) (unat len) content"
    and stats: "stable s \<Longrightarrow> rf_request fs (op_code OP_GETATTR) (w_str [] path) s = ((st, resp), s') \<Longrightarrow>
      stable s' \<and> st = 0 \<and> (\<exists>a. resp = enc_attr a)"
    and fits: "stable s \<Longrightarrow> length content < 2 ^ 63 \<and> length path < 2 ^ 32"

end
