(* ===== verification/RamCache.thy ===== *)
theory RamCache
  imports RemoteFs "HOL-Library.AList"
begin

text \<open>
  The read cache of \<open>client/src/fs/ram_cache.cpp\<close>: metadata, negative and directory entries with a
  time to live, the table of open handles, and the block cache with its LRU list and its budget,
  with every operation of \<open>RamCache::Impl\<close> and the dispatch \<open>RamCache::request\<close>.

  An \<open>unordered_map\<close> whose size or order the code uses is an association list without
  duplicate keys; the one whose entries are only looked up is a map. Which entry \<open>begin()\<close> denotes is
  up to the hash table: the field \<open>c_begin\<close> chooses it. The steady clock and the readings of free
  memory are the fields \<open>c_clock\<close> and \<open>c_mem\<close>, read one after the other. A block's iterator into
  the LRU list is the entry it points at. Only the debug counters and the recovery from
  \<open>bad_alloc\<close> are left out. The mutexes serialise the operations; \<open>CacheThreads\<close> models
  the interleavings between them.
\<close>

section \<open>Constants and sizes\<close>

definition kBlock :: u64 where "kBlock = ucast kMaxIO"
definition kMetaTtlMs :: int where "kMetaTtlMs = 2000"
definition kDirTtlMs :: int where "kDirTtlMs = 5000"
definition kNegTtlMs :: int where "kNegTtlMs = 1000"
definition kMetaMax :: nat where "kMetaMax = 8192"
definition kDirMax :: nat where "kDirMax = 1024"
definition kNegMax :: nat where "kNegMax = 4096"
definition kMaxReadAheadBlocks :: u32 where "kMaxReadAheadBlocks = 32"
definition kPrefetchQueueMax :: nat where "kPrefetchQueueMax = 512"
definition kMiB :: u64 where "kMiB = 1024 * 1024"
definition kGiB :: u64 where "kGiB = 1024 * kMiB"

record ram_info =
  ri_total :: u64
  ri_avail :: u64

text \<open>The last lines of \<open>detect_ram\<close>, applied to what the operating system reported.\<close>

definition detect_ram :: "ram_info \<Rightarrow> ram_info" where
  "detect_ram r0 = (let
       r = (if ri_total r0 = 0 then r0\<lparr>ri_total := 4 * kGiB\<rparr> else r0);
       r = (if ri_avail r = 0 then r\<lparr>ri_avail := ri_total r div 4\<rparr> else r)
     in (if ri_avail r > ri_total r then r\<lparr>ri_avail := ri_total r\<rparr> else r))"

definition compute_block_budget :: "ram_info \<Rightarrow> u64" where
  "compute_block_budget r = (let
       cap = (if ri_total r \<le> 4 * kGiB then 256 * kMiB
              else if ri_total r \<le> 8 * kGiB then 512 * kMiB
              else if ri_total r \<le> 16 * kGiB then 1 * kGiB
              else if ri_total r \<le> 32 * kGiB then 2 * kGiB
              else 4 * kGiB);
       budget = min (min (ri_avail r div 4) (ri_total r div 10)) cap
     in if ri_avail r < 512 * kMiB then 0
        else if ri_avail r < 1 * kGiB then min budget (64 * kMiB)
        else if ri_avail r < 2 * kGiB then min budget (128 * kMiB)
        else budget)"

section \<open>Paths\<close>

text \<open>\<open>find_last_of('/')\<close>: the part before the last slash, if there is one.\<close>

definition before_last_slash :: "string \<Rightarrow> string option" where
  "before_last_slash p = (if CHR ''/'' \<in> set p
     then Some (rev (tl (dropWhile (\<lambda>c. c \<noteq> CHR ''/'') (rev p)))) else None)"

definition parent_of :: "string \<Rightarrow> string" where
  "parent_of p = (if p = [] \<or> p = ''/'' then ''/''
     else case before_last_slash p of
         None \<Rightarrow> ''/''
       | Some d \<Rightarrow> if d = [] then ''/'' else d)"

definition join_path :: "string \<Rightarrow> string \<Rightarrow> string" where
  "join_path dir name = (if dir = [] \<or> dir = ''/'' then ''/'' @ name else dir @ ''/'' @ name)"

section \<open>State\<close>

record fh_info =
  fi_path :: string
  fi_have_ver :: bool
  fi_ver_at :: int
  fi_size :: u64
  fi_mtime :: u64
  fi_last_end :: u64
  fi_seq_run :: u32
  fi_ra_window :: u32
  fi_active_reads :: int
  fi_closing :: bool

record block =
  b_data :: bytes
  b_eof :: bool

record file_blocks =
  fb_size :: u64
  fb_mtime :: u64
  fb_blocks :: "(u64 \<times> block) list"

text \<open>A prefetch job captures path, handle, version and block index.\<close>

type_synonym job = "string \<times> u64 \<times> u64 \<times> u64 \<times> u64"
type_synonym block_key = "string \<times> u64"

record cache =
  c_meta :: "(string \<times> wire_attr \<times> int) list"
  c_neg :: "(string \<times> int) list"
  c_dir :: "(string \<times> bytes \<times> int) list"
  c_fh :: "u64 \<rightharpoonup> fh_info"
  c_files :: "string \<rightharpoonup> file_blocks"
  c_lru :: "block_key list"
  c_inflight :: "block_key set"
  c_cur :: u64
  c_total :: u64
  c_budget :: u64
  c_checked :: int
  c_jobs :: "job list"
  c_running :: bool
  c_clock :: "nat \<Rightarrow> int"
  c_tick :: nat
  c_mem :: "nat \<Rightarrow> ram_info"
  c_sample :: nat
  c_begin :: "string list \<Rightarrow> nat"

definition now_ms :: "cache \<Rightarrow> int \<times> cache" where
  "now_ms c = (c_clock c (c_tick c), c\<lparr>c_tick := c_tick c + 1\<rparr>)"

definition sample_ram :: "cache \<Rightarrow> ram_info \<times> cache" where
  "sample_ram c = (detect_ram (c_mem c (c_sample c)), c\<lparr>c_sample := c_sample c + 1\<rparr>)"

text \<open>The constructor \<open>Impl::Impl\<close>: detect the memory, compute the budget, note the time.\<close>

definition cache_init :: "(nat \<Rightarrow> int) \<Rightarrow> (nat \<Rightarrow> ram_info) \<Rightarrow> (string list \<Rightarrow> nat) \<Rightarrow> cache" where
  "cache_init clk mem bgn = (let ram = detect_ram (mem 0) in
     \<lparr>c_meta = [], c_neg = [], c_dir = [], c_fh = Map.empty, c_files = Map.empty, c_lru = [],
      c_inflight = {}, c_cur = 0, c_total = ri_total ram, c_budget = compute_block_budget ram,
      c_checked = clk 0, c_jobs = [], c_running = True, c_clock = clk, c_tick = 1, c_mem = mem,
      c_sample = 1, c_begin = bgn\<rparr>)"

section \<open>Metadata, negative and directory entries\<close>

definition erase_at :: "nat \<Rightarrow> 'a list \<Rightarrow> 'a list" where
  "erase_at i m = take i m @ drop (Suc i) m"

lemma length_erase_at [simp]: "i < length m \<Longrightarrow> length (erase_at i m) = length m - 1"
  by (simp add: erase_at_def)

function trim :: "(string list \<Rightarrow> nat) \<Rightarrow> (string \<times> 'v) list \<Rightarrow> nat \<Rightarrow> (string \<times> 'v) list" where
  "trim bgn m target =
     (if length m > target \<and> m \<noteq> []
      then trim bgn (erase_at (bgn (List.map fst m) mod length m) m) target
      else m)"
  by pat_completeness auto
termination
  by (relation "measure (\<lambda>(_, m, _). length m)") auto

declare trim.simps [simp del]

definition meta_lookup :: "string \<Rightarrow> cache \<Rightarrow> wire_attr option \<times> cache" where
  "meta_lookup path c = (case map_of (c_meta c) path of
      None \<Rightarrow> (None, c)
    | Some (a, t) \<Rightarrow> (case now_ms c of (now, c) \<Rightarrow>
        if now - t > kMetaTtlMs then (None, c\<lparr>c_meta := AList.delete path (c_meta c)\<rparr>)
        else (Some a, c)))"

definition meta_store :: "string \<Rightarrow> wire_attr \<Rightarrow> cache \<Rightarrow> cache" where
  "meta_store path a c = (let
      m = (if length (c_meta c) \<ge> kMetaMax then trim (c_begin c) (c_meta c) (kMetaMax div 2) else c_meta c)
    in (case now_ms c of (now, c) \<Rightarrow>
      c\<lparr>c_meta := AList.update path (a, now) m, c_neg := AList.delete path (c_neg c)\<rparr>))"

definition meta_erase :: "string \<Rightarrow> cache \<Rightarrow> cache" where
  "meta_erase path c = c\<lparr>c_meta := AList.delete path (c_meta c), c_neg := AList.delete path (c_neg c)\<rparr>"

definition neg_lookup :: "string \<Rightarrow> cache \<Rightarrow> bool \<times> cache" where
  "neg_lookup path c = (case map_of (c_neg c) path of
      None \<Rightarrow> (False, c)
    | Some t \<Rightarrow> (case now_ms c of (now, c) \<Rightarrow>
        if now - t > kNegTtlMs then (False, c\<lparr>c_neg := AList.delete path (c_neg c)\<rparr>)
        else (True, c)))"

definition neg_store :: "string \<Rightarrow> cache \<Rightarrow> cache" where
  "neg_store path c = (let
      m = (if length (c_neg c) \<ge> kNegMax then trim (c_begin c) (c_neg c) (kNegMax div 2) else c_neg c)
    in (case now_ms c of (now, c) \<Rightarrow> c\<lparr>c_neg := AList.update path now m\<rparr>))"

definition dir_lookup :: "string \<Rightarrow> cache \<Rightarrow> bytes option \<times> cache" where
  "dir_lookup path c = (case map_of (c_dir c) path of
      None \<Rightarrow> (None, c)
    | Some (r, t) \<Rightarrow> (case now_ms c of (now, c) \<Rightarrow>
        if now - t > kDirTtlMs then (None, c\<lparr>c_dir := AList.delete path (c_dir c)\<rparr>)
        else (Some r, c)))"

definition dir_store :: "string \<Rightarrow> bytes \<Rightarrow> cache \<Rightarrow> cache" where
  "dir_store path r c = (let
      m = (if length (c_dir c) \<ge> kDirMax then trim (c_begin c) (c_dir c) (kDirMax div 2) else c_dir c)
    in (case now_ms c of (now, c) \<Rightarrow> c\<lparr>c_dir := AList.update path (r, now) m\<rparr>))"

definition dir_erase :: "string \<Rightarrow> cache \<Rightarrow> cache" where
  "dir_erase path c = c\<lparr>c_dir := AList.delete path (c_dir c)\<rparr>"

section \<open>Open handles\<close>

definition fh_new :: "string \<Rightarrow> fh_info" where
  "fh_new path = \<lparr>fi_path = path, fi_have_ver = False, fi_ver_at = 0, fi_size = 0, fi_mtime = 0,
     fi_last_end = 0, fi_seq_run = 0, fi_ra_window = 0, fi_active_reads = 0, fi_closing = False\<rparr>"

definition fh_add :: "u64 \<Rightarrow> string \<Rightarrow> cache \<Rightarrow> cache" where
  "fh_add i path c = c\<lparr>c_fh := (c_fh c)(i \<mapsto> fh_new path)\<rparr>"

definition fh_remove :: "u64 \<Rightarrow> cache \<Rightarrow> cache" where
  "fh_remove i c = c\<lparr>c_fh := (c_fh c)(i := None)\<rparr>"

definition fh_path :: "u64 \<Rightarrow> cache \<Rightarrow> string option" where
  "fh_path i c = map_option fi_path (c_fh c i)"

definition fh_begin_read :: "u64 \<Rightarrow> cache \<Rightarrow> bool \<times> cache" where
  "fh_begin_read i c = (case c_fh c i of
      None \<Rightarrow> (False, c)
    | Some f \<Rightarrow> if fi_closing f then (False, c)
        else (True, c\<lparr>c_fh := (c_fh c)(i \<mapsto> f\<lparr>fi_active_reads := fi_active_reads f + 1\<rparr>)\<rparr>))"

definition fh_end_read :: "u64 \<Rightarrow> cache \<Rightarrow> cache" where
  "fh_end_read i c = (case c_fh c i of
      None \<Rightarrow> c
    | Some f \<Rightarrow> c\<lparr>c_fh := (c_fh c)(i \<mapsto> f\<lparr>fi_active_reads := fi_active_reads f - 1\<rparr>)\<rparr>)"

text \<open>
  \<open>fhBeginClose\<close> marks the handle and then waits until no read of it is active; the wait's
  condition is \<open>fh_drained\<close>.
\<close>

definition fh_mark_closing :: "u64 \<Rightarrow> cache \<Rightarrow> cache" where
  "fh_mark_closing i c = (case c_fh c i of
      None \<Rightarrow> c
    | Some f \<Rightarrow> c\<lparr>c_fh := (c_fh c)(i \<mapsto> f\<lparr>fi_closing := True\<rparr>)\<rparr>)"

definition fh_drained :: "u64 \<Rightarrow> cache \<Rightarrow> bool" where
  "fh_drained i c \<longleftrightarrow> (case c_fh c i of None \<Rightarrow> True | Some f \<Rightarrow> fi_active_reads f = 0)"

definition clear_fh_version :: "string \<Rightarrow> cache \<Rightarrow> cache" where
  "clear_fh_version path c = c\<lparr>c_fh := (\<lambda>i. map_option
     (\<lambda>f. if fi_path f = path then f\<lparr>fi_have_ver := False\<rparr> else f) (c_fh c i))\<rparr>"

definition rename_fh_paths :: "string \<Rightarrow> string \<Rightarrow> cache \<Rightarrow> cache" where
  "rename_fh_paths from to c = c\<lparr>c_fh := (\<lambda>i. map_option
     (\<lambda>f. if fi_path f = from then f\<lparr>fi_path := to, fi_have_ver := False\<rparr> else f) (c_fh c i))\<rparr>"

section \<open>Budget\<close>

definition budget_now :: "cache \<Rightarrow> u64 \<times> cache" where
  "budget_now c = (case now_ms c of (t, c) \<Rightarrow>
     if t - c_checked c > 2000
     then (case sample_ram (c\<lparr>c_checked := t\<rparr>) of (ram, c) \<Rightarrow>
        let b = compute_block_budget \<lparr>ri_total = c_total c, ri_avail = ri_avail ram\<rparr>
        in (b, c\<lparr>c_budget := b\<rparr>))
     else (c_budget c, c))"

section \<open>Block cache\<close>

text \<open>The loop of \<open>purgeFileLocked\<close> over the blocks of the file.\<close>

definition drop_block :: "string \<Rightarrow> u64 \<times> block \<Rightarrow> cache \<Rightarrow> cache" where
  "drop_block path kb c = c\<lparr>c_cur := c_cur c - of_nat (length (b_data (snd kb))),
     c_lru := remove1 (path, fst kb) (c_lru c)\<rparr>"

definition purge_file :: "string \<Rightarrow> cache \<Rightarrow> cache" where
  "purge_file path c = (case c_files c path of
      None \<Rightarrow> c
    | Some fb \<Rightarrow> (let c = fold (drop_block path) (fb_blocks fb) c
        in c\<lparr>c_files := (c_files c)(path := None)\<rparr>))"

definition evict_last :: "cache \<Rightarrow> cache" where
  "evict_last c = (let (path, idx) = last (c_lru c);
     c = (case c_files c path of
         None \<Rightarrow> c
       | Some fb \<Rightarrow> (case map_of (fb_blocks fb) idx of
           None \<Rightarrow> c
         | Some b \<Rightarrow>
             let bs = AList.delete idx (fb_blocks fb) in
             c\<lparr>c_cur := c_cur c - of_nat (length (b_data b)),
               c_files := (c_files c)(path := (if bs = [] then None else Some (fb\<lparr>fb_blocks := bs\<rparr>)))\<rparr>))
     in c\<lparr>c_lru := butlast (c_lru c)\<rparr>)"

lemma c_lru_evict_last [simp]: "c_lru (evict_last c) = butlast (c_lru c)"
  by (simp add: evict_last_def Let_def split: prod.splits option.splits)

function evict_to_budget :: "u64 \<Rightarrow> cache \<Rightarrow> cache" where
  "evict_to_budget budget c =
     (if c_cur c > budget \<and> c_lru c \<noteq> [] then evict_to_budget budget (evict_last c) else c)"
  by pat_completeness auto
termination
  by (relation "measure (\<lambda>(_, c). length (c_lru c))") auto

declare evict_to_budget.simps [simp del]

definition block_get :: "string \<Rightarrow> u64 \<Rightarrow> u64 \<Rightarrow> u64 \<Rightarrow> cache \<Rightarrow> block option \<times> cache" where
  "block_get path sz mtime idx c = (case c_files c path of
      None \<Rightarrow> (None, c)
    | Some fb \<Rightarrow>
        if fb_size fb \<noteq> sz \<or> fb_mtime fb \<noteq> mtime then (None, purge_file path c)
        else (case map_of (fb_blocks fb) idx of
            None \<Rightarrow> (None, c)
          | Some b \<Rightarrow> (Some b, c\<lparr>c_lru := (path, idx) # remove1 (path, idx) (c_lru c)\<rparr>)))"

text \<open>\<open>files[path]\<close> after the stale version is gone: the entry that is there, or a new one.\<close>

definition put_block ::
  "string \<Rightarrow> u64 \<Rightarrow> u64 \<Rightarrow> u64 \<Rightarrow> bytes \<Rightarrow> bool \<Rightarrow> u64 \<Rightarrow> cache \<Rightarrow> cache" where
  "put_block path sz mtime idx data eof budget c = (let
      fb = (case c_files c path of None \<Rightarrow> \<lparr>fb_size = 0, fb_mtime = 0, fb_blocks = []\<rparr> | Some fb \<Rightarrow> fb);
      fb = fb\<lparr>fb_size := sz, fb_mtime := mtime\<rparr>;
      c = c\<lparr>c_files := (c_files c)(path \<mapsto> fb)\<rparr>
    in if map_of (fb_blocks fb) idx \<noteq> None then c
       else evict_to_budget budget (c\<lparr>c_lru := (path, idx) # c_lru c,
              c_cur := c_cur c + of_nat (length data),
              c_files := (c_files c)(path \<mapsto>
                fb\<lparr>fb_blocks := (idx, \<lparr>b_data = data, b_eof = eof\<rparr>) # fb_blocks fb\<rparr>)\<rparr>))"

definition block_put ::
  "string \<Rightarrow> u64 \<Rightarrow> u64 \<Rightarrow> u64 \<Rightarrow> bytes \<Rightarrow> bool \<Rightarrow> u64 \<Rightarrow> cache \<Rightarrow> cache" where
  "block_put path sz mtime idx data eof budget c =
     put_block path sz mtime idx data eof budget
       (case c_files c path of
          None \<Rightarrow> c
        | Some fb \<Rightarrow> if fb_size fb \<noteq> sz \<or> fb_mtime fb \<noteq> mtime then purge_file path c else c)"

definition invalidate_file :: "string \<Rightarrow> cache \<Rightarrow> cache" where
  "invalidate_file path c = purge_file path (clear_fh_version path (meta_erase path c))"

text \<open>The callback that the constructor registers with the client for \<open>OP_INVALIDATE\<close>.\<close>

definition on_invalidate :: "string \<Rightarrow> cache \<Rightarrow> cache" where
  "on_invalidate path c = dir_erase (parent_of path) (dir_erase path (invalidate_file path c))"

section \<open>Fetching a block\<close>

text \<open>
  \<open>blockFetch\<close> is two critical sections with a request between them. The first looks the block up,
  waits when another thread is fetching it, or claims the fetch; the last ends the claim and
  stores what came.
\<close>

datatype claim_result = Hit block | Busy | Claimed

definition fetch_claim :: "string \<Rightarrow> u64 \<Rightarrow> u64 \<Rightarrow> u64 \<Rightarrow> cache \<Rightarrow> claim_result \<times> cache" where
  "fetch_claim path sz mtime idx c = (case block_get path sz mtime idx c of
      (Some b, c) \<Rightarrow> (Hit b, c)
    | (None, c) \<Rightarrow>
        if (path, idx) \<in> c_inflight c then (Busy, c)
        else (Claimed, c\<lparr>c_inflight := insert (path, idx) (c_inflight c)\<rparr>))"

definition fetch_req :: "u64 \<Rightarrow> u64 \<Rightarrow> bytes" where
  "fetch_req fhid idx = read_req fhid (idx * kBlock) (ucast kBlock)"

definition fetch_store ::
  "string \<Rightarrow> u64 \<Rightarrow> u64 \<Rightarrow> u64 \<Rightarrow> int \<Rightarrow> bytes \<Rightarrow> cache \<Rightarrow> (int \<times> bytes \<times> bool) \<times> cache" where
  "fetch_store path sz mtime idx status resp c = (let
      c = c\<lparr>c_inflight := c_inflight c - {(path, idx)}\<rparr>
    in if status \<noteq> 0 then ((status, [], False), c)
       else (let eof = length resp < unat kBlock in
         case budget_now c of (budget, c) \<Rightarrow>
           ((0, resp, eof), block_put path sz mtime idx resp eof budget c)))"

text \<open>
  One thread alone. A fetch that finds the block busy waits until the other fetch has ended; here that
  fetch ends without leaving a block.
\<close>

definition block_fetch ::
  "'s remote_fs \<Rightarrow> string \<Rightarrow> u64 \<Rightarrow> u64 \<Rightarrow> u64 \<Rightarrow> u64 \<Rightarrow> cache \<times> 's \<Rightarrow> (int \<times> bytes \<times> bool) \<times> cache \<times> 's" where
  "block_fetch inner path fhid sz mtime idx cs = (case cs of (c, s) \<Rightarrow>
     (case fetch_claim path sz mtime idx c of
        (Hit b, c) \<Rightarrow> ((0, b_data b, b_eof b), c, s)
      | (cl, c) \<Rightarrow>
         (case fh_begin_read fhid c of
            (False, c) \<Rightarrow> (case fetch_store path sz mtime idx kEBADF [] c of (r, c) \<Rightarrow> (r, c, s))
          | (True, c) \<Rightarrow>
              (case rf_request inner (op_code OP_READ) (fetch_req fhid idx) s of ((status, resp), s) \<Rightarrow>
                 (case fetch_store path sz mtime idx status resp (fh_end_read fhid c) of
                    (r, c) \<Rightarrow> (r, c, s))))))"

section \<open>Reading\<close>

definition set_version :: "u64 \<Rightarrow> u64 \<Rightarrow> u64 \<Rightarrow> cache \<Rightarrow> cache" where
  "set_version fhid sz mtime c = (case c_fh c fhid of
      None \<Rightarrow> c
    | Some f \<Rightarrow> (case now_ms c of (now, c) \<Rightarrow>
        c\<lparr>c_fh := (c_fh c)(fhid \<mapsto> f\<lparr>fi_have_ver := True, fi_ver_at := now, fi_size := sz,
             fi_mtime := mtime\<rparr>)\<rparr>))"

definition fresh_version :: "u64 \<Rightarrow> cache \<Rightarrow> (u64 \<times> u64) option \<times> cache" where
  "fresh_version fhid c = (case c_fh c fhid of
      None \<Rightarrow> (None, c)
    | Some f \<Rightarrow>
        if fi_have_ver f
        then (case now_ms c of (now, c) \<Rightarrow>
          if now - fi_ver_at f \<le> kMetaTtlMs then (Some (fi_size f, fi_mtime f), c) else (None, c))
        else (None, c))"

definition ensure_version ::
  "'s remote_fs \<Rightarrow> u64 \<Rightarrow> string \<Rightarrow> cache \<times> 's \<Rightarrow> (u64 \<times> u64) option \<times> cache \<times> 's" where
  "ensure_version inner fhid path cs = (case cs of (c, s) \<Rightarrow>
     (case fresh_version fhid c of
        (Some v, c) \<Rightarrow> (Some v, c, s)
      | (None, c) \<Rightarrow>
         (case meta_lookup path c of
            (Some a, c) \<Rightarrow> (Some (a_size a, a_mtime a), set_version fhid (a_size a) (a_mtime a) c, s)
          | (None, c) \<Rightarrow>
              (case rf_request inner (op_code OP_GETATTR) (w_str [] path) s of ((status, resp), s) \<Rightarrow>
                 if status \<noteq> 0 then (None, c, s)
                 else (case fst (r_attr resp) of
                    None \<Rightarrow> (None, c, s)
                  | Some a \<Rightarrow> (Some (a_size a, a_mtime a),
                      set_version fhid (a_size a) (a_mtime a) (meta_store path a c), s))))))"

text \<open>\<open>PrefetchPool::submit\<close>.\<close>

definition submit :: "job \<Rightarrow> cache \<Rightarrow> cache" where
  "submit j c = (if \<not> c_running c \<or> length (c_jobs c) \<ge> kPrefetchQueueMax then c
     else c\<lparr>c_jobs := c_jobs c @ [j]\<rparr>)"

definition advance_pattern :: "u64 \<Rightarrow> u64 \<Rightarrow> fh_info \<Rightarrow> fh_info" where
  "advance_pattern off newEnd f = (let
      sequential = (off = fi_last_end f \<or> (fi_last_end f = 0 \<and> off = 0));
      f = (if sequential
           then f\<lparr>fi_seq_run := fi_seq_run f + 1, fi_ra_window :=
               (if fi_ra_window f = 0 then 1 else min (fi_ra_window f * 2) kMaxReadAheadBlocks)\<rparr>
           else f\<lparr>fi_seq_run := 0, fi_ra_window := 0\<rparr>)
    in f\<lparr>fi_last_end := newEnd\<rparr>)"

definition schedule_read_ahead :: "u64 \<Rightarrow> string \<Rightarrow> u64 \<Rightarrow> u64 \<Rightarrow> u64 \<Rightarrow> u64 \<Rightarrow> cache \<Rightarrow> cache" where
  "schedule_read_ahead fhid path sz mtime newEnd off c = (case budget_now c of (budget, c) \<Rightarrow>
     if budget = 0 then c
     else (case c_fh c fhid of
        None \<Rightarrow> c
      | Some f0 \<Rightarrow> (let
            f = advance_pattern off newEnd f0;
            c = c\<lparr>c_fh := (c_fh c)(fhid \<mapsto> f)\<rparr>;
            window = (if fi_seq_run f \<ge> 2 then fi_ra_window f else 0)
          in if window = 0 then c
             else (let
               cap = ucast (max 1 (budget div kBlock div 2)) :: u32;
               window = min window (min cap kMaxReadAheadBlocks);
               startIdx = newEnd div kBlock
             in fold (\<lambda>i. submit (path, fhid, sz, mtime, startIdx + of_nat i)) [0..<unat window] c))))"

lemma read_step:
  fixes cur en len boff :: u64
  assumes "cur < en" "boff < len"
  shows "unat en - unat (cur + min (en - cur) (len - boff)) < unat en - unat cur"
    and "cur \<le> cur + min (en - cur) (len - boff)" "cur + min (en - cur) (len - boff) \<le> en"
proof -
  let ?n = "min (en - cur) (len - boff)"
  have e: "unat (en - cur) = unat en - unat cur"
    using assms(1) by (simp add: unat_sub_if' word_less_nat_alt)
  have l: "unat (len - boff) = unat len - unat boff"
    using assms(2) by (simp add: unat_sub_if' word_less_nat_alt)
  have n: "unat ?n = min (unat en - unat cur) (unat len - unat boff)"
    by (simp add: min_def word_le_nat_alt e l)
  have "unat en < 2 ^ LENGTH(64)" by (rule unsigned_less)
  then have s: "unat (cur + ?n) = unat cur + unat ?n"
    using assms(1) n by (intro unat_add_lem [THEN iffD1]) (simp add: word_less_nat_alt)
  show "unat en - unat (cur + ?n) < unat en - unat cur"
    unfolding s n using assms by (auto simp: word_less_nat_alt min_def)
  show "cur \<le> cur + ?n" using s by (simp add: word_le_nat_alt)
  show "cur + ?n \<le> en" using assms(1) unfolding word_le_nat_alt word_less_nat_alt s n by linarith
qed

text \<open>The loop of \<open>doRead\<close>: from \<open>cur\<close> to \<open>end\<close>, block by block; a status other than 0 ends it.\<close>

function read_loop ::
  "'s remote_fs \<Rightarrow> string \<Rightarrow> u64 \<Rightarrow> u64 \<Rightarrow> u64 \<Rightarrow> u64 \<Rightarrow> u64 \<Rightarrow> bytes \<Rightarrow> cache \<times> 's \<Rightarrow> (int \<times> bytes) \<times> cache \<times> 's" where
  "read_loop inner path fhid sz mtime cur en out cs =
     (if \<not> cur < en then ((0, out), cs)
      else (case block_fetch inner path fhid sz mtime (cur div kBlock) cs of
        ((st, blk, eof), cs) \<Rightarrow>
          if st \<noteq> 0 then ((st, []), cs)
          else (let boff = cur mod kBlock; len = of_nat (length blk) in
            if boff \<ge> len then ((0, out), cs)
            else (let
                n = min (en - cur) (len - boff);
                out = out @ take (unat n) (drop (unat boff) blk)
              in if boff + n \<ge> len \<and> (eof \<or> len < kBlock) then ((0, out), cs)
                 else read_loop inner path fhid sz mtime (cur + n) en out cs))))"
  by pat_completeness auto

termination
  by (relation "measure (\<lambda>(_, _, _, _, _, cur, en, _). unat en - unat cur)")
    (auto intro: read_step(1))

declare read_loop.simps [simp del]


text \<open>\<open>Impl::forward\<close>: the request as it is to the inner \<open>RemoteFs\<close>.\<close>

definition forward :: "'s remote_fs \<Rightarrow> u16 \<Rightarrow> bytes \<Rightarrow> cache \<times> 's \<Rightarrow> (int \<times> bytes) \<times> cache \<times> 's" where
  "forward inner opc payload cs = (case cs of (c, s) \<Rightarrow>
     (case rf_request inner opc payload s of (r, s) \<Rightarrow> (r, c, s)))"

text \<open>\<open>doRead\<close> once the request is parsed.\<close>

definition read_cached ::
  "'s remote_fs \<Rightarrow> bytes \<Rightarrow> u64 \<Rightarrow> u64 \<Rightarrow> u32 \<Rightarrow> cache \<times> 's \<Rightarrow> (int \<times> bytes) \<times> cache \<times> 's" where
  "read_cached inner payload fhid off n cs = (case cs of (c, s) \<Rightarrow>
     (case budget_now c of (budget, c) \<Rightarrow>
        if budget = 0 then forward inner (op_code OP_READ) payload (c, s)
        else (case fh_path fhid c of
            None \<Rightarrow> forward inner (op_code OP_READ) payload (c, s)
          | Some path \<Rightarrow> (case ensure_version inner fhid path (c, s) of
              (None, cs) \<Rightarrow> forward inner (op_code OP_READ) payload cs
            | (Some (sz, mtime), cs) \<Rightarrow>
                (case read_loop inner path fhid sz mtime off (off + ucast n) [] cs of
                  ((st, out), c, s) \<Rightarrow>
                    if st \<noteq> 0 then ((st, []), c, s)
                    else ((0, out), schedule_read_ahead fhid path sz mtime
                           (off + of_nat (length out)) off c, s))))))"

definition do_read :: "'s remote_fs \<Rightarrow> bytes \<Rightarrow> cache \<times> 's \<Rightarrow> (int \<times> bytes) \<times> cache \<times> 's" where
  "do_read inner payload cs = (case (r_pod payload :: u64 option \<times> bytes) of
      (None, _) \<Rightarrow> forward inner (op_code OP_READ) payload cs
    | (Some fhid, r) \<Rightarrow> (case (r_pod r :: u64 option \<times> bytes) of
        (None, _) \<Rightarrow> forward inner (op_code OP_READ) payload cs
      | (Some off, r) \<Rightarrow> (case (r_pod r :: u32 option \<times> bytes) of
          (None, _) \<Rightarrow> forward inner (op_code OP_READ) payload cs
        | (Some n, _) \<Rightarrow> read_cached inner payload fhid off n cs)))"

text \<open>A worker of the prefetch pool takes the oldest job and runs it.\<close>

definition run_job :: "'s remote_fs \<Rightarrow> cache \<times> 's \<Rightarrow> cache \<times> 's" where
  "run_job inner cs = (case cs of (c, s) \<Rightarrow> (case c_jobs c of
      [] \<Rightarrow> (c, s)
    | (path, fhid, sz, mtime, idx) # js \<Rightarrow>
        snd (block_fetch inner path fhid sz mtime idx (c\<lparr>c_jobs := js\<rparr>, s))))"

section \<open>Attributes and listings\<close>

definition do_getattr :: "'s remote_fs \<Rightarrow> bytes \<Rightarrow> cache \<times> 's \<Rightarrow> (int \<times> bytes) \<times> cache \<times> 's" where
  "do_getattr inner payload cs = (case cs of (c, s) \<Rightarrow> (case fst (r_str payload) of
      None \<Rightarrow> forward inner (op_code OP_GETATTR) payload (c, s)
    | Some path \<Rightarrow> (case meta_lookup path c of
        (Some a, c) \<Rightarrow> ((0, w_attr [] a), c, s)
      | (None, c) \<Rightarrow> (case neg_lookup path c of
          (True, c) \<Rightarrow> ((kENOENT, []), c, s)
        | (False, c) \<Rightarrow>
            (case rf_request inner (op_code OP_GETATTR) payload s of ((status, resp), s) \<Rightarrow>
              ((status, resp),
               (if status = 0 then (case fst (r_attr resp) of None \<Rightarrow> c | Some a \<Rightarrow> meta_store path a c)
                else if status = kENOENT then neg_store path c else c), s))))))"

fun store_entries :: "string \<Rightarrow> nat \<Rightarrow> bytes \<Rightarrow> cache \<Rightarrow> cache" where
  "store_entries path 0 r c = c"
| "store_entries path (Suc n) r c = (case r_str r of
      (None, _) \<Rightarrow> c
    | (Some name, r) \<Rightarrow> (case r_attr r of
        (None, _) \<Rightarrow> c
      | (Some a, r) \<Rightarrow> store_entries path n r (meta_store (join_path path name) a c)))"

definition do_readdir :: "'s remote_fs \<Rightarrow> bytes \<Rightarrow> cache \<times> 's \<Rightarrow> (int \<times> bytes) \<times> cache \<times> 's" where
  "do_readdir inner payload cs = (case cs of (c, s) \<Rightarrow> (case fst (r_str payload) of
      None \<Rightarrow> forward inner (op_code OP_READDIR) payload (c, s)
    | Some path \<Rightarrow> (case dir_lookup path c of
        (Some resp, c) \<Rightarrow> ((0, resp), c, s)
      | (None, c) \<Rightarrow>
          (case rf_request inner (op_code OP_READDIR) payload s of ((status, resp), s) \<Rightarrow>
            if status \<noteq> 0 then ((status, resp), c, s)
            else (let c = dir_store path resp c in
              (case (r_pod resp :: u32 option \<times> bytes) of
                (None, _) \<Rightarrow> ((status, resp), c, s)
              | (Some n, r) \<Rightarrow> ((status, resp), store_entries path (unat n) r c, s)))))))"

section \<open>Requests\<close>

text \<open>
  The operations that go to the host first and change the cache when the host reported success. The
  path that could not be read is left empty, as in the code.
\<close>

definition path_of :: "bytes \<Rightarrow> string" where
  "path_of payload = (case fst (r_str payload) of None \<Rightarrow> [] | Some p \<Rightarrow> p)"

definition fhid_of :: "bytes \<Rightarrow> u64" where
  "fhid_of payload = (case (fst (r_pod payload) :: u64 option) of None \<Rightarrow> 0 | Some i \<Rightarrow> i)"

definition through ::
  "'s remote_fs \<Rightarrow> u16 \<Rightarrow> bytes \<Rightarrow> (bytes \<Rightarrow> cache \<Rightarrow> cache) \<Rightarrow> cache \<times> 's \<Rightarrow> (int \<times> bytes) \<times> cache \<times> 's" where
  "through inner opc payload upd cs = (case cs of (c, s) \<Rightarrow>
     (case rf_request inner opc payload s of ((status, resp), s) \<Rightarrow>
        ((status, resp), (if status = 0 then upd resp c else c), s)))"

definition opened :: "bool \<Rightarrow> string \<Rightarrow> bytes \<Rightarrow> cache \<Rightarrow> cache" where
  "opened create path resp c = (let
      c = (case (fst (r_pod resp) :: u64 option) of None \<Rightarrow> c | Some fhid \<Rightarrow> fh_add fhid path c)
    in if create then dir_erase (parent_of path) (invalidate_file path c) else c)"

definition written :: "u64 \<Rightarrow> cache \<Rightarrow> cache" where
  "written fhid c = (case fh_path fhid c of None \<Rightarrow> c | Some path \<Rightarrow> invalidate_file path c)"

definition renamed :: "bytes \<Rightarrow> cache \<Rightarrow> cache" where
  "renamed payload c = (let
      from = path_of payload;
      to = path_of (snd (r_str payload))
    in rename_fh_paths from to
      (dir_erase (parent_of to) (dir_erase (parent_of from) (dir_erase to (dir_erase from
        (invalidate_file to (invalidate_file from c)))))))"

definition do_release :: "'s remote_fs \<Rightarrow> bytes \<Rightarrow> cache \<times> 's \<Rightarrow> (int \<times> bytes) \<times> cache \<times> 's" where
  "do_release inner payload cs = (case cs of (c, s) \<Rightarrow> (let fhid = fhid_of payload in
     (case rf_request inner (op_code OP_RELEASE) payload s of (r, s) \<Rightarrow>
        (r, fh_remove fhid (fh_mark_closing fhid c), s))))"

definition cache_request ::
  "'s remote_fs \<Rightarrow> u16 \<Rightarrow> bytes \<Rightarrow> cache \<times> 's \<Rightarrow> (int \<times> bytes) \<times> cache \<times> 's" where
  "cache_request inner opc payload cs = (let
      path = path_of payload
    in (case op_of opc of
      Some OP_GETATTR \<Rightarrow> do_getattr inner payload cs
    | Some OP_READDIR \<Rightarrow> do_readdir inner payload cs
    | Some OP_READ \<Rightarrow> do_read inner payload cs
    | Some OP_OPEN \<Rightarrow> through inner opc payload (opened False path) cs
    | Some OP_CREATE \<Rightarrow> through inner opc payload (opened True path) cs
    | Some OP_WRITE \<Rightarrow> through inner opc payload (\<lambda>_. written (fhid_of payload)) cs
    | Some OP_RELEASE \<Rightarrow> do_release inner payload cs
    | Some OP_TRUNCATE \<Rightarrow> through inner opc payload (\<lambda>_. invalidate_file path) cs
    | Some OP_UNLINK \<Rightarrow> through inner opc payload
        (\<lambda>_ c. dir_erase (parent_of path) (invalidate_file path c)) cs
    | Some OP_RMDIR \<Rightarrow> through inner opc payload
        (\<lambda>_ c. dir_erase (parent_of path) (dir_erase path (meta_erase path c))) cs
    | Some OP_MKDIR \<Rightarrow> through inner opc payload
        (\<lambda>_ c. dir_erase (parent_of path) (meta_erase path c)) cs
    | Some OP_RENAME \<Rightarrow> through inner opc payload (\<lambda>_. renamed payload) cs
    | Some OP_CHMOD \<Rightarrow> through inner opc payload (\<lambda>_. meta_erase path) cs
    | Some OP_UTIMENS \<Rightarrow> through inner opc payload (\<lambda>_. meta_erase path) cs
    | _ \<Rightarrow> through inner opc payload (\<lambda>_ c. c) cs))"

text \<open>The cache is itself a \<open>RemoteFs\<close>, over its own state and the state of the inner one.\<close>

definition ram_cache :: "'s remote_fs \<Rightarrow> (cache \<times> 's) remote_fs" where
  "ram_cache inner = \<lparr>rf_connected = (\<lambda>(c, s). rf_connected inner s), rf_request = cache_request inner\<rparr>"

end
