(* ===== verification/CacheBlocks.thy ===== *)
theory CacheBlocks
  imports RamCache
begin

text \<open>
  The accounting of the block cache: the LRU list names exactly the cached blocks, each once, the
  byte counter is the sum of their sizes, and no file entry is empty. Purging, evicting, looking
  up and inserting keep it, and inserting leaves at most the budget behind.
\<close>

section \<open>The cached blocks as a map\<close>

definition blk :: "cache \<Rightarrow> block_key \<Rightarrow> block option" where
  "blk c k = (case c_files c (fst k) of None \<Rightarrow> None | Some fb \<Rightarrow> map_of (fb_blocks fb) (snd k))"

definition blen :: "block option \<Rightarrow> nat" where
  "blen b = (case b of None \<Rightarrow> 0 | Some b \<Rightarrow> length (b_data b))"

definition cached_bytes :: "cache \<Rightarrow> nat" where
  "cached_bytes c = sum_list (List.map (\<lambda>k. blen (blk c k)) (c_lru c))"

definition files_wf :: "(string \<rightharpoonup> file_blocks) \<Rightarrow> bool" where
  "files_wf m \<longleftrightarrow> (\<forall>p fb. m p = Some fb \<longrightarrow> fb_blocks fb \<noteq> [] \<and> distinct (List.map fst (fb_blocks fb)))"

text \<open>The last conjunct says that the counter has not wrapped around.\<close>

definition blocks_ok :: "cache \<Rightarrow> bool" where
  "blocks_ok c \<longleftrightarrow> distinct (c_lru c) \<and> set (c_lru c) = dom (blk c) \<and> files_wf (c_files c) \<and>
     c_cur c = of_nat (cached_bytes c) \<and> cached_bytes c < 2 ^ 63"

lemma cached_bytes_sum:
  "distinct (c_lru c) \<Longrightarrow> set (c_lru c) = dom (blk c) \<Longrightarrow> cached_bytes c = (\<Sum>k \<in> dom (blk c). blen (blk c k))"
  by (simp add: cached_bytes_def sum_list_distinct_conv_sum_set)

lemma blocks_okD:
  assumes "blocks_ok c"
  shows "distinct (c_lru c)" "set (c_lru c) = dom (blk c)" "finite (dom (blk c))"
    "files_wf (c_files c)" "c_cur c = of_nat (cached_bytes c)"
    "cached_bytes c = (\<Sum>k \<in> dom (blk c). blen (blk c k))" "cached_bytes c < 2 ^ 63"
    "unat (c_cur c) = cached_bytes c"
proof -
  from assms show d: "distinct (c_lru c)" "set (c_lru c) = dom (blk c)"
    "files_wf (c_files c)" "c_cur c = of_nat (cached_bytes c)" "cached_bytes c < 2 ^ 63"
    by (simp_all add: blocks_ok_def)
  show "finite (dom (blk c))" using d(2) by (metis List.finite_set)
  show "cached_bytes c = (\<Sum>k \<in> dom (blk c). blen (blk c k))" by (rule cached_bytes_sum [OF d(1,2)])
  show "unat (c_cur c) = cached_bytes c"
    unfolding d(4) using d(5) by (simp add: unat_of_nat)
qed

lemma blocks_okI:
  assumes "distinct (c_lru c)" "set (c_lru c) = dom (blk c)" "files_wf (c_files c)"
    "c_cur c = of_nat (\<Sum>k \<in> dom (blk c). blen (blk c k))" "(\<Sum>k \<in> dom (blk c). blen (blk c k)) < 2 ^ 63"
  shows "blocks_ok c"
  using assms cached_bytes_sum [OF assms(1,2)] by (simp add: blocks_ok_def)

text \<open>Operations that leave files, list and counter alone keep the accounting.\<close>

lemma blocks_ok_frame:
  assumes "c_files c' = c_files c" "c_lru c' = c_lru c" "c_cur c' = c_cur c"
  shows "blk c' = blk c" "cached_bytes c' = cached_bytes c" "blocks_ok c' \<longleftrightarrow> blocks_ok c"
proof -
  show b: "blk c' = blk c" by (rule ext) (simp add: blk_def assms(1))
  show t: "cached_bytes c' = cached_bytes c" by (simp add: cached_bytes_def b assms(2))
  show "blocks_ok c' \<longleftrightarrow> blocks_ok c" by (simp add: blocks_ok_def assms b t)
qed

lemma sum_dom_upd_None:
  assumes "finite (dom m)" "m k = Some b"
  shows "(\<Sum>x \<in> dom m. blen (m x)) = length (b_data b) + (\<Sum>x \<in> dom m - {k}. blen (m x))"
  using sum.remove [OF assms(1), of k "\<lambda>x. blen (m x)"] assms(2) by (auto simp: blen_def)

section \<open>Purging a file\<close>

lemma fold_drop_block:
  "fold (drop_block p) bs c = c\<lparr>c_cur := c_cur c - of_nat (\<Sum>(i, b)\<leftarrow>bs. length (b_data b)),
     c_lru := fold (\<lambda>(i, b). remove1 (p, i)) bs (c_lru c)\<rparr>"
proof (induction bs arbitrary: c)
  case Nil
  then show ?case by simp
next
  case (Cons kb bs)
  then show ?case by (cases kb) (simp add: drop_block_def algebra_simps)
qed

lemma fold_remove1:
  "distinct l \<Longrightarrow> fold (\<lambda>(i, b). remove1 (p, i)) bs l = filter (\<lambda>k. k \<notin> (\<lambda>(i, b). (p, i)) ` set bs) l"
  by (induction bs arbitrary: l) (auto simp: distinct_remove1_removeAll removeAll_filter_not_eq
      intro!: filter_cong)

lemma purge_file_frame [simp]:
  "c_meta (purge_file p c) = c_meta c" "c_neg (purge_file p c) = c_neg c"
  "c_dir (purge_file p c) = c_dir c" "c_fh (purge_file p c) = c_fh c"
  "c_inflight (purge_file p c) = c_inflight c" "c_total (purge_file p c) = c_total c"
  "c_budget (purge_file p c) = c_budget c" "c_checked (purge_file p c) = c_checked c"
  "c_jobs (purge_file p c) = c_jobs c" "c_running (purge_file p c) = c_running c"
  "c_tick (purge_file p c) = c_tick c" "c_clock (purge_file p c) = c_clock c"
  "c_files (purge_file p c) = (c_files c)(p := None)"
  by (auto simp: purge_file_def fold_drop_block Let_def split: option.splits)

lemma blk_purge_file: "blk (purge_file p c) k = (if fst k = p then None else blk c k)"
  by (simp add: blk_def)

lemma sum_file_blocks:
  assumes "c_files c p = Some fb" "distinct (List.map fst (fb_blocks fb))"
  shows "(\<Sum>(i, b)\<leftarrow>fb_blocks fb. length (b_data b)) = (\<Sum>k \<in> {k \<in> dom (blk c). fst k = p}. blen (blk c k))"
proof -
  let ?bs = "fb_blocks fb"
  have k: "blk c (p, i) = map_of ?bs i" for i by (simp add: blk_def assms(1))
  have "{k \<in> dom (blk c). fst k = p} = Pair p ` set (List.map fst ?bs)"
    by (auto simp: k image_iff dom_map_of_conv_image_fst dest: weak_map_of_SomeI)
      (force simp: k dest: map_of_SomeD)
  then have "(\<Sum>k \<in> {k \<in> dom (blk c). fst k = p}. blen (blk c k)) =
      (\<Sum>i \<in> set (List.map fst ?bs). blen (map_of ?bs i))"
    by (simp add: sum.reindex inj_on_def k)
  also have "\<dots> = (\<Sum>i\<leftarrow>List.map fst ?bs. blen (map_of ?bs i))"
    using assms(2) by (simp only: sum_list_distinct_conv_sum_set)
  also have "\<dots> = (\<Sum>(i, b)\<leftarrow>?bs. length (b_data b))"
    using assms(2) by (auto simp: o_def blen_def intro!: arg_cong [where f = sum_list] map_cong)
  finally show ?thesis by simp
qed

lemma purge_file_ok:
  assumes "blocks_ok c"
  shows "blocks_ok (purge_file p c)" "cached_bytes (purge_file p c) \<le> cached_bytes c"
proof -
  note d = blocks_okD [OF assms]
  let ?c = "purge_file p c"
  let ?D = "{k \<in> dom (blk c). fst k = p}"
  have dom: "dom (blk ?c) = dom (blk c) - ?D"
    by (auto simp: blk_purge_file split: if_splits)
  have sum: "(\<Sum>k \<in> dom (blk ?c). blen (blk ?c k)) = (\<Sum>k \<in> dom (blk c) - ?D. blen (blk c k))"
    unfolding dom by (rule sum.cong) (auto simp: blk_purge_file)
  have split: "cached_bytes c = (\<Sum>k \<in> dom (blk c) - ?D. blen (blk c k)) + (\<Sum>k \<in> ?D. blen (blk c k))"
    unfolding d(6) by (rule sum.subset_diff) (auto simp: d(3))
  have lru: "c_lru ?c = filter (\<lambda>k. k \<notin> ?D) (c_lru c)" and
    cur: "c_cur ?c = c_cur c - of_nat (\<Sum>k \<in> ?D. blen (blk c k))"
  proof -
    consider "c_files c p = None" | fb where "c_files c p = Some fb" by (cases "c_files c p") auto
    then have "c_lru ?c = filter (\<lambda>k. k \<notin> ?D) (c_lru c) \<and>
      c_cur ?c = c_cur c - of_nat (\<Sum>k \<in> ?D. blen (blk c k))"
    proof cases
      case 1
      then have e: "?D = {}" by (auto simp: blk_def)
      show ?thesis unfolding e using 1 by (simp add: purge_file_def)
    next
      case 2
      have w: "distinct (List.map fst (fb_blocks fb))" using d(4) 2 by (auto simp: files_wf_def)
      have D: "?D = (\<lambda>(i, b). (p, i)) ` set (fb_blocks fb)"
        using w 2 by (force simp: blk_def dest: map_of_SomeD)
      show ?thesis
        using sum_file_blocks [OF 2 w] 2 fold_remove1 [OF d(1), of p "fb_blocks fb"]
        unfolding D [symmetric]
        by (simp add: purge_file_def fold_drop_block Let_def)
    qed
    then show "c_lru ?c = filter (\<lambda>k. k \<notin> ?D) (c_lru c)"
      "c_cur ?c = c_cur c - of_nat (\<Sum>k \<in> ?D. blen (blk c k))" by auto
  qed
  show "blocks_ok ?c"
  proof (rule blocks_okI)
    show "distinct (c_lru ?c)" using d(1) by (simp add: lru)
    show "set (c_lru ?c) = dom (blk ?c)" unfolding lru dom using d(2) by auto
    show "files_wf (c_files ?c)" using d(4) by (auto simp: files_wf_def)
    show "c_cur ?c = of_nat (\<Sum>k \<in> dom (blk ?c). blen (blk ?c k))"
      unfolding sum cur d(5) split by simp
    show "(\<Sum>k \<in> dom (blk ?c). blen (blk ?c k)) < 2 ^ 63"
      unfolding sum using split d(7) by simp
  qed
  then show "cached_bytes ?c \<le> cached_bytes c"
    using split sum blocks_okD(6) [of ?c] by simp
qed


section \<open>Evicting\<close>

lemma evict_last_frame [simp]:
  "c_meta (evict_last c) = c_meta c" "c_neg (evict_last c) = c_neg c"
  "c_dir (evict_last c) = c_dir c" "c_fh (evict_last c) = c_fh c"
  "c_inflight (evict_last c) = c_inflight c" "c_total (evict_last c) = c_total c"
  "c_budget (evict_last c) = c_budget c" "c_checked (evict_last c) = c_checked c"
  "c_jobs (evict_last c) = c_jobs c" "c_running (evict_last c) = c_running c"
  "c_tick (evict_last c) = c_tick c" "c_clock (evict_last c) = c_clock c"
  by (auto simp: evict_last_def Let_def split: option.splits prod.splits)

lemma delete_eq_Nil: "AList.delete k m = [] \<Longrightarrow> k' \<noteq> k \<Longrightarrow> map_of m k' = None"
  by (metis (no_types) map_of_delete map_of.simps(1))

lemma evict_last_ok:
  assumes "blocks_ok c" "c_lru c \<noteq> []"
  shows "blk (evict_last c) = (blk c)(last (c_lru c) := None)" "blocks_ok (evict_last c)"
    "cached_bytes (evict_last c) = cached_bytes c - blen (blk c (last (c_lru c)))"
proof -
  note d = blocks_okD [OF assms(1)]
  let ?c = "evict_last c"
  obtain p i where k: "last (c_lru c) = (p, i)" by (cases "last (c_lru c)")
  have "(p, i) \<in> dom (blk c)" using assms(2) d(2) k by (metis last_in_set)
  then obtain fb b where fb: "c_files c p = Some fb" "map_of (fb_blocks fb) i = Some b"
    by (auto simp: blk_def split: option.splits)
  let ?bs = "AList.delete i (fb_blocks fb)"
  have e: "?c = c\<lparr>c_cur := c_cur c - of_nat (length (b_data b)),
      c_files := (c_files c)(p := (if ?bs = [] then None else Some (fb\<lparr>fb_blocks := ?bs\<rparr>))),
      c_lru := butlast (c_lru c)\<rparr>"
    using fb k by (simp add: evict_last_def Let_def)
  show b: "blk ?c = (blk c)(last (c_lru c) := None)"
    using fb(1) unfolding e k
    by (auto simp: blk_def fun_eq_iff delete_conv' delete_eq_Nil split: option.splits)
  have bk: "blk c (p, i) = Some b" using fb by (simp add: blk_def)
  have s: "(\<Sum>x \<in> dom (blk ?c). blen (blk ?c x)) = (\<Sum>x \<in> dom (blk c) - {(p, i)}. blen (blk c x))"
    unfolding b k by (rule sum.cong) auto
  have c: "cached_bytes c = length (b_data b) + (\<Sum>x \<in> dom (blk ?c). blen (blk ?c x))"
    unfolding d(6) s using sum_dom_upd_None [OF d(3) bk] .
  show ok: "blocks_ok ?c"
  proof (rule blocks_okI)
    show "distinct (c_lru ?c)" using d(1) by (simp add: distinct_butlast)
    have "set (butlast (c_lru c)) = set (c_lru c) - {last (c_lru c)}"
      using d(1) assms(2) by (cases "c_lru c" rule: rev_cases) auto
    then show "set (c_lru ?c) = dom (blk ?c)" unfolding b using d(2) by auto
    show "files_wf (c_files ?c)"
      using d(4) fb(1) unfolding e by (auto simp: files_wf_def distinct_delete)
    show "c_cur ?c = of_nat (\<Sum>x \<in> dom (blk ?c). blen (blk ?c x))"
    proof -
      have "c_cur ?c = c_cur c - of_nat (length (b_data b))" by (simp add: e)
      then show ?thesis unfolding d(5) c of_nat_add by simp
    qed
    show "(\<Sum>x \<in> dom (blk ?c). blen (blk ?c x)) < 2 ^ 63" using c d(7) by simp
  qed
  show "cached_bytes ?c = cached_bytes c - blen (blk c (last (c_lru c)))"
    using c blocks_okD(6) [OF ok] bk k by (simp add: blen_def)
qed

definition evicted :: "u64 \<Rightarrow> cache \<Rightarrow> cache \<Rightarrow> bool" where
  "evicted budget c e \<longleftrightarrow> blocks_ok e \<and> cached_bytes e \<le> unat budget \<and> blk e \<subseteq>\<^sub>m blk c \<and>
     (\<exists>n. c_lru e = take n (c_lru c))"

lemma evict_to_budget_ok: "blocks_ok c \<Longrightarrow> evicted budget c (evict_to_budget budget c)"
proof (induction budget c rule: evict_to_budget.induct)
  case (1 budget c)
  let ?e = "evict_to_budget budget c"
  show ?case
  proof (cases "c_cur c > budget \<and> c_lru c \<noteq> []")
    case True
    have IH: "evicted budget (evict_last c) (evict_to_budget budget (evict_last c))"
      using 1(1) [OF True evict_last_ok(2) [OF 1(2)]] True by blast
    have e: "?e = evict_to_budget budget (evict_last c)" using True by (subst evict_to_budget.simps) simp
    have m: "blk (evict_last c) \<subseteq>\<^sub>m blk c"
      using evict_last_ok(1) [OF 1(2)] True by (auto simp: map_le_def)
    obtain n where n: "c_lru ?e = take n (butlast (c_lru c))" using IH e by (auto simp: evicted_def)
    then have "c_lru ?e = take (min n (length (c_lru c) - 1)) (c_lru c)"
      by (simp add: butlast_conv_take)
    then show ?thesis using IH map_le_trans [OF _ m] unfolding e evicted_def by blast
  next
    case False
    have e: "?e = c" using False by (subst evict_to_budget.simps) auto
    have "cached_bytes c \<le> unat budget"
    proof (cases "c_lru c = []")
      case True
      then show ?thesis by (simp add: cached_bytes_def)
    next
      case F: False
      with False have "unat (c_cur c) \<le> unat budget" by (simp add: word_le_nat_alt not_less)
      then show ?thesis using blocks_okD(8) [OF 1(2)] by simp
    qed
    then show ?thesis
      using 1(2) unfolding e evicted_def by (auto intro: exI [of _ "length (c_lru c)"])
  qed
qed

lemma evict_to_budget_frame [simp]:
  "c_meta (evict_to_budget b c) = c_meta c" "c_neg (evict_to_budget b c) = c_neg c"
  "c_dir (evict_to_budget b c) = c_dir c" "c_fh (evict_to_budget b c) = c_fh c"
  "c_inflight (evict_to_budget b c) = c_inflight c" "c_total (evict_to_budget b c) = c_total c"
  "c_budget (evict_to_budget b c) = c_budget c" "c_checked (evict_to_budget b c) = c_checked c"
  "c_jobs (evict_to_budget b c) = c_jobs c" "c_running (evict_to_budget b c) = c_running c"
  "c_tick (evict_to_budget b c) = c_tick c" "c_clock (evict_to_budget b c) = c_clock c"
  by (induction b c rule: evict_to_budget.induct; subst evict_to_budget.simps; simp)+

section \<open>Looking up and inserting\<close>

lemma block_get_ok:
  assumes "blocks_ok c" "block_get p sz mt i c = (r, c')"
  shows "blocks_ok c'" "cached_bytes c' \<le> cached_bytes c" "blk c' \<subseteq>\<^sub>m blk c"
    "r = Some b \<Longrightarrow> blk c (p, i) = Some b \<and> blk c' = blk c \<and>
       (\<exists>fb. c_files c p = Some fb \<and> fb_size fb = sz \<and> fb_mtime fb = mt)"
proof -
  note d = blocks_okD [OF assms(1)]
  have "blocks_ok c' \<and> cached_bytes c' \<le> cached_bytes c \<and> blk c' \<subseteq>\<^sub>m blk c \<and>
    (r = Some b \<longrightarrow> blk c (p, i) = Some b \<and> blk c' = blk c \<and>
       (\<exists>fb. c_files c p = Some fb \<and> fb_size fb = sz \<and> fb_mtime fb = mt))"
  proof (cases "c_files c p")
    case None
    then show ?thesis using assms by (simp add: block_get_def)
  next
    case (Some fb)
    show ?thesis
    proof (cases "fb_size fb \<noteq> sz \<or> fb_mtime fb \<noteq> mt")
      case True
      then have e: "c' = purge_file p c" "r = None" using assms(2) Some by (auto simp: block_get_def)
      show ?thesis unfolding e using purge_file_ok [OF assms(1)] by (auto simp: map_le_def blk_purge_file)
    next
      case same: False
      show ?thesis
      proof (cases "map_of (fb_blocks fb) i")
        case None
        then show ?thesis using assms Some same by (simp add: block_get_def)
      next
        case B: (Some b')
        let ?l = "(p, i) # remove1 (p, i) (c_lru c)"
        have e: "c' = c\<lparr>c_lru := ?l\<rparr>" "r = Some b'"
          using assms(2) Some same B by (auto simp: block_get_def)
        have k: "blk c (p, i) = Some b'" using Some B by (simp add: blk_def)
        then have "(p, i) \<in> set (c_lru c)" using d(2) by auto
        then have l: "distinct ?l" "set ?l = set (c_lru c)" using d(1) by auto
        have b: "blk c' = blk c" by (auto simp: e blk_def)
        have "cached_bytes c' = cached_bytes c"
          using l d(1,2) b by (simp add: cached_bytes_sum e(1))
        then show ?thesis
          using l d(2,4,5,7) b k Some same by (simp add: blocks_ok_def e)
      qed
    qed
  qed
  then show "blocks_ok c'" "cached_bytes c' \<le> cached_bytes c" "blk c' \<subseteq>\<^sub>m blk c"
    "r = Some b \<Longrightarrow> blk c (p, i) = Some b \<and> blk c' = blk c \<and>
       (\<exists>fb. c_files c p = Some fb \<and> fb_size fb = sz \<and> fb_mtime fb = mt)" by auto
qed


text \<open>Inserting: the blocks that are left were there before, or are the new one.\<close>

definition put_ok :: "string \<Rightarrow> u64 \<Rightarrow> bytes \<Rightarrow> bool \<Rightarrow> u64 \<Rightarrow> cache \<Rightarrow> cache \<Rightarrow> bool" where
  "put_ok p i data eof budget c c' \<longleftrightarrow> blocks_ok c' \<and>
     (cached_bytes c' \<le> cached_bytes c \<or> cached_bytes c' \<le> unat budget) \<and>
     blk c' \<subseteq>\<^sub>m (case blk c (p, i) of None \<Rightarrow> (blk c)((p, i) \<mapsto> \<lparr>b_data = data, b_eof = eof\<rparr>) | Some _ \<Rightarrow> blk c)"

lemma put_block_ok:
  assumes "blocks_ok c" "cached_bytes c + length data < 2 ^ 63"
  shows "put_ok p i data eof budget c (put_block p sz mt i data eof budget c)"
proof -
  note d = blocks_okD [OF assms(1)]
  define fb0 where "fb0 = (case c_files c p of None \<Rightarrow> \<lparr>fb_size = 0, fb_mtime = 0, fb_blocks = []\<rparr> | Some fb \<Rightarrow> fb)"
  define fb where "fb = fb0\<lparr>fb_size := sz, fb_mtime := mt\<rparr>"
  have m: "map_of (fb_blocks fb) j = blk c (p, j)" for j
    by (simp add: fb_def fb0_def blk_def split: option.split)
  have w: "distinct (List.map fst (fb_blocks fb))"
    using d(4) by (auto simp: fb_def fb0_def files_wf_def split: option.split)
  let ?c1 = "c\<lparr>c_files := (c_files c)(p \<mapsto> fb)\<rparr>"
  have b1: "blk ?c1 = blk c"
    by (rule ext) (auto simp: blk_def m [unfolded blk_def fst_conv snd_conv])
  show ?thesis
  proof (cases "blk c (p, i)")
    case (Some b)
    have e: "put_block p sz mt i data eof budget c = ?c1"
      using m [of i] Some by (simp add: put_block_def Let_def fb_def fb0_def)
    have ne: "fb_blocks fb \<noteq> []" using m [of i] Some by auto
    have t: "cached_bytes ?c1 = cached_bytes c" by (simp add: cached_bytes_def b1)
    show ?thesis
      using d w ne b1 t Some unfolding e by (simp add: put_ok_def blocks_ok_def files_wf_def)
  next
    case None
    let ?b = "\<lparr>b_data = data, b_eof = eof\<rparr>"
    let ?c2 = "c\<lparr>c_lru := (p, i) # c_lru c, c_cur := c_cur c + of_nat (length data),
        c_files := (c_files c)(p \<mapsto> fb\<lparr>fb_blocks := (i, ?b) # fb_blocks fb\<rparr>)\<rparr>"
    have e: "put_block p sz mt i data eof budget c = evict_to_budget budget ?c2"
      using m [of i] None by (simp add: put_block_def Let_def fb_def fb0_def)
    have b2: "blk ?c2 = (blk c)((p, i) \<mapsto> ?b)"
      by (rule ext) (auto simp: blk_def m [unfolded blk_def fst_conv snd_conv] split: option.splits)
    have notin: "(p, i) \<notin> dom (blk c)" using None by auto
    have s: "(\<Sum>k \<in> dom (blk ?c2). blen (blk ?c2 k)) = length data + cached_bytes c"
    proof -
      have "(\<Sum>k \<in> dom (blk c). blen (blk ?c2 k)) = cached_bytes c"
        unfolding d(6) using notin by (intro sum.cong) (auto simp: b2)
      then show ?thesis using notin d(3) by (simp add: b2 blen_def)
    qed
    have "blocks_ok ?c2"
    proof (rule blocks_okI)
      show "distinct (c_lru ?c2)" using d(1,2) notin by simp
      show "set (c_lru ?c2) = dom (blk ?c2)" using d(2) by (simp add: b2)
      have "i \<notin> fst ` set (fb_blocks fb)" using m [of i] None by (simp add: map_of_eq_None_iff)
      then show "files_wf (c_files ?c2)" using d(4) w by (auto simp: files_wf_def)
      show "c_cur ?c2 = of_nat (\<Sum>k \<in> dom (blk ?c2). blen (blk ?c2 k))"
        unfolding s by (simp add: d(5))
      show "(\<Sum>k \<in> dom (blk ?c2). blen (blk ?c2 k)) < 2 ^ 63"
        unfolding s using assms(2) by simp
    qed
    from evict_to_budget_ok [OF this, of budget] show ?thesis
      unfolding e by (simp add: evicted_def put_ok_def None b2)
  qed
qed

lemma map_leD: "m \<subseteq>\<^sub>m m' \<Longrightarrow> m k = Some b \<Longrightarrow> m' k = Some b"
  by (metis domI map_le_def)

lemma block_put_ok:
  assumes "blocks_ok c" "cached_bytes c + length data < 2 ^ 63"
  shows "blocks_ok (block_put p sz mt i data eof budget c)"
    and "cached_bytes (block_put p sz mt i data eof budget c) \<le> max (cached_bytes c) (unat budget)"
    and "blk (block_put p sz mt i data eof budget c) k = Some b \<Longrightarrow>
      blk c k = Some b \<or> k = (p, i) \<and> b = \<lparr>b_data = data, b_eof = eof\<rparr>"
proof -
  obtain c1 where c1: "block_put p sz mt i data eof budget c = put_block p sz mt i data eof budget c1"
    "c1 = c \<or> c1 = purge_file p c"
    by (auto simp: block_put_def split: option.split)
  have ok: "blocks_ok c1" "cached_bytes c1 \<le> cached_bytes c" "blk c1 \<subseteq>\<^sub>m blk c"
    using c1(2) assms(1) purge_file_ok [OF assms(1)] by (auto simp: map_le_def blk_purge_file split: if_splits)
  have "put_ok p i data eof budget c1 (put_block p sz mt i data eof budget c1)"
    by (rule put_block_ok [OF ok(1)]) (use ok(2) assms(2) in linarith)
  then have p: "blocks_ok (put_block p sz mt i data eof budget c1)"
    "cached_bytes (put_block p sz mt i data eof budget c1) \<le> max (cached_bytes c1) (unat budget)"
    "blk (put_block p sz mt i data eof budget c1) \<subseteq>\<^sub>m
       (case blk c1 (p, i) of None \<Rightarrow> (blk c1)((p, i) \<mapsto> \<lparr>b_data = data, b_eof = eof\<rparr>) | Some _ \<Rightarrow> blk c1)"
    unfolding put_ok_def by linarith+
  show "blocks_ok (block_put p sz mt i data eof budget c)" using p(1) c1(1) by simp
  show "cached_bytes (block_put p sz mt i data eof budget c) \<le> max (cached_bytes c) (unat budget)"
    using p(2) ok(2) c1(1) by simp
  show "blk c k = Some b \<or> k = (p, i) \<and> b = \<lparr>b_data = data, b_eof = eof\<rparr>"
    if "blk (block_put p sz mt i data eof budget c) k = Some b"
  proof -
    let ?m = "case blk c1 (p, i) of None \<Rightarrow> (blk c1)((p, i) \<mapsto> \<lparr>b_data = data, b_eof = eof\<rparr>) | Some _ \<Rightarrow> blk c1"
    have "?m k = Some b" by (rule map_leD [OF p(3)]) (use that c1(1) in simp)
    moreover have "blk c1 k = Some b \<Longrightarrow> blk c k = Some b" by (rule map_leD [OF ok(3)])
    ultimately show ?thesis by (auto split: option.splits if_splits)
  qed
qed

lemma put_block_frame [simp]:
  "c_meta (put_block p sz mt i data eof b c) = c_meta c" "c_neg (put_block p sz mt i data eof b c) = c_neg c"
  "c_dir (put_block p sz mt i data eof b c) = c_dir c" "c_fh (put_block p sz mt i data eof b c) = c_fh c"
  "c_inflight (put_block p sz mt i data eof b c) = c_inflight c"
  "c_total (put_block p sz mt i data eof b c) = c_total c"
  "c_budget (put_block p sz mt i data eof b c) = c_budget c"
  "c_jobs (put_block p sz mt i data eof b c) = c_jobs c"
  "c_checked (put_block p sz mt i data eof b c) = c_checked c"
  by (simp_all add: put_block_def Let_def)

lemma block_put_frame [simp]:
  "c_meta (block_put p sz mt i data eof b c) = c_meta c" "c_neg (block_put p sz mt i data eof b c) = c_neg c"
  "c_dir (block_put p sz mt i data eof b c) = c_dir c" "c_fh (block_put p sz mt i data eof b c) = c_fh c"
  "c_inflight (block_put p sz mt i data eof b c) = c_inflight c"
  "c_total (block_put p sz mt i data eof b c) = c_total c"
  "c_budget (block_put p sz mt i data eof b c) = c_budget c"
  "c_jobs (block_put p sz mt i data eof b c) = c_jobs c"
  "c_checked (block_put p sz mt i data eof b c) = c_checked c"
  by (simp_all add: block_put_def split: option.split)

end
