(* ===== verification/CacheSafe.thy ===== *)
theory CacheSafe
  imports CacheBlocks
begin

text \<open>
  The state invariant of the read cache and its preservation by every operation: the block
  accounting of \<open>CacheBlocks\<close>, the bounds of all tables, the memory bound, and that between requests no
  fetch is in flight and no handle is being read or closed. The section on mutations shows that
  nothing cached about a file survives a successful mutation of it.
\<close>

section \<open>The invariant\<close>

definition entries_ok :: "nat \<Rightarrow> (string \<times> 'v) list \<Rightarrow> bool" where
  "entries_ok n m \<longleftrightarrow> distinct (List.map fst m) \<and> length m \<le> n"

text \<open>The largest budget that \<open>compute_block_budget\<close> gives: 4 GiB.\<close>

definition max_budget :: nat where "max_budget = 2 ^ 32"

lemma table_sizes [simp]: "0 < kMetaMax" "0 < kNegMax" "0 < kDirMax"
  by (simp_all add: kMetaMax_def kNegMax_def kDirMax_def)

definition cache_ok :: "cache \<Rightarrow> bool" where
  "cache_ok c \<longleftrightarrow> blocks_ok c \<and> cached_bytes c \<le> max_budget \<and> unat (c_budget c) \<le> max_budget \<and>
     entries_ok kMetaMax (c_meta c) \<and> entries_ok kNegMax (c_neg c) \<and> entries_ok kDirMax (c_dir c) \<and>
     length (c_jobs c) \<le> kPrefetchQueueMax \<and> c_inflight c = {} \<and>
     (\<forall>i f. c_fh c i = Some f \<longrightarrow> fi_active_reads f = 0 \<and> \<not> fi_closing f)"

text \<open>An operation that leaves the block cache alone keeps its part of the invariant.\<close>

lemma cache_ok_frame:
  assumes "cache_ok c" "c_files c' = c_files c" "c_lru c' = c_lru c" "c_cur c' = c_cur c"
    "c_inflight c' = c_inflight c" "unat (c_budget c') \<le> max_budget" "entries_ok kMetaMax (c_meta c')"
    "entries_ok kNegMax (c_neg c')" "entries_ok kDirMax (c_dir c')" "length (c_jobs c') \<le> kPrefetchQueueMax"
    "\<And>i f. c_fh c' i = Some f \<Longrightarrow> fi_active_reads f = 0 \<and> \<not> fi_closing f"
  shows "cache_ok c'"
  using assms blocks_ok_frame [OF assms(2-4)] by (simp add: cache_ok_def)

lemma cache_okD:
  assumes "cache_ok c"
  shows "blocks_ok c" "cached_bytes c \<le> max_budget" "unat (c_budget c) \<le> max_budget"
    "entries_ok kMetaMax (c_meta c)" "entries_ok kNegMax (c_neg c)" "entries_ok kDirMax (c_dir c)"
    "length (c_jobs c) \<le> kPrefetchQueueMax" "c_inflight c = {}"
    "c_fh c i = Some f \<Longrightarrow> fi_active_reads f = 0" "c_fh c i = Some f \<Longrightarrow> \<not> fi_closing f"
  using assms by (simp_all add: cache_ok_def)

lemma compute_block_budget_le: "unat (compute_block_budget r) \<le> max_budget"
proof -
  have "compute_block_budget r \<le> 4 * kGiB"
    by (auto simp: compute_block_budget_def Let_def kGiB_def kMiB_def min_le_iff_disj)
  then show ?thesis by (simp add: word_le_nat_alt kGiB_def kMiB_def max_budget_def)
qed

subsection \<open>Bounded tables\<close>

lemma length_trim: "length (trim bgn m t) \<le> t"
proof (induction bgn m t rule: trim.induct)
  case (1 bgn m t)
  then show ?case by (cases "t < length m \<and> m \<noteq> []") (subst trim.simps; auto)+
qed

lemma set_erase_at: "set (erase_at i m) \<subseteq> set m"
  by (auto simp: erase_at_def dest: in_set_takeD in_set_dropD)

lemma map_erase_at: "List.map f (erase_at i m) = erase_at i (List.map f m)"
  by (simp add: erase_at_def take_map drop_map)

lemma distinct_erase_at: "distinct m \<Longrightarrow> distinct (erase_at i m)"
  unfolding erase_at_def distinct_append by (simp add: set_take_disj_set_drop_if_distinct)

lemma trim_sub:
  "set (trim bgn m t) \<subseteq> set m \<and> (distinct (List.map fst m) \<longrightarrow> distinct (List.map fst (trim bgn m t)))"
proof (induction bgn m t rule: trim.induct)
  case (1 bgn m t)
  let ?m = "erase_at (bgn (List.map fst m) mod length m) m"
  show ?case
  proof (cases "t < length m \<and> m \<noteq> []")
    case True
    then have e: "trim bgn m t = trim bgn ?m t" by (subst trim.simps) simp
    show ?thesis
      using 1 [OF True] set_erase_at distinct_erase_at [of "List.map fst m"]
      unfolding e map_erase_at [symmetric] by fastforce
  next
    case False
    then have "trim bgn m t = m" by (subst trim.simps) auto
    then show ?thesis by simp
  qed
qed

lemma entries_update:
  assumes "entries_ok n m" "m' = (if length m \<ge> n then trim bgn m (n div 2) else m)" "0 < n"
  shows "entries_ok n (AList.update k v m')"
proof -
  have d: "distinct (List.map fst m')" using assms(1,2) by (auto simp: entries_ok_def trim_sub)
  have "length m' < n"
    using assms(1,2,3) length_trim [of bgn m "n div 2"] by (auto simp: entries_ok_def)
  moreover have "length (AList.update k v m') \<le> Suc (length m')" by (induction m') auto
  ultimately show ?thesis using d by (simp add: entries_ok_def distinct_update)
qed

lemma entries_delete: "entries_ok n m \<Longrightarrow> entries_ok n (AList.delete k m)"
  unfolding entries_ok_def using length_delete_le [of k m] by (auto simp: distinct_delete)

section \<open>Preservation by each operation\<close>

named_theorems cache_keeps

lemma now_ms_ok: "cache_ok c \<Longrightarrow> now_ms c = (t, c') \<Longrightarrow> cache_ok c'"
  by (rule cache_ok_frame, assumption) (auto simp: now_ms_def cache_okD)

lemma meta_lookup_ok:
  assumes "cache_ok c" "meta_lookup p c = (r, c')"
  shows "cache_ok c'"
  using assms(1) by (rule cache_ok_frame)
    (use assms in \<open>auto simp: meta_lookup_def now_ms_def cache_okD entries_delete split: option.splits if_splits\<close>)

lemma meta_store_ok [cache_keeps]: "cache_ok c \<Longrightarrow> cache_ok (meta_store p a c)"
  by (rule cache_ok_frame, assumption)
    (auto simp: meta_store_def now_ms_def cache_okD entries_delete Let_def
      intro!: entries_update [where bgn = "c_begin c" and m = "c_meta c"])

lemma meta_erase_ok [cache_keeps]: "cache_ok c \<Longrightarrow> cache_ok (meta_erase p c)"
  by (rule cache_ok_frame, assumption) (auto simp: meta_erase_def cache_okD entries_delete)

lemma neg_lookup_ok:
  assumes "cache_ok c" "neg_lookup p c = (r, c')"
  shows "cache_ok c'"
  using assms(1) by (rule cache_ok_frame)
    (use assms in \<open>auto simp: neg_lookup_def now_ms_def cache_okD entries_delete split: option.splits if_splits\<close>)

lemma neg_store_ok [cache_keeps]: "cache_ok c \<Longrightarrow> cache_ok (neg_store p c)"
  by (rule cache_ok_frame, assumption)
    (auto simp: neg_store_def now_ms_def cache_okD entries_delete Let_def
      intro!: entries_update [where bgn = "c_begin c" and m = "c_neg c"])

lemma dir_lookup_ok:
  assumes "cache_ok c" "dir_lookup p c = (r, c')"
  shows "cache_ok c'"
  using assms(1) by (rule cache_ok_frame)
    (use assms in \<open>auto simp: dir_lookup_def now_ms_def cache_okD entries_delete split: option.splits if_splits\<close>)

lemma dir_store_ok [cache_keeps]: "cache_ok c \<Longrightarrow> cache_ok (dir_store p r c)"
  by (rule cache_ok_frame, assumption)
    (auto simp: dir_store_def now_ms_def cache_okD entries_delete Let_def
      intro!: entries_update [where bgn = "c_begin c" and m = "c_dir c"])

lemma dir_erase_ok [cache_keeps]: "cache_ok c \<Longrightarrow> cache_ok (dir_erase p c)"
  by (rule cache_ok_frame, assumption) (auto simp: dir_erase_def cache_okD entries_delete)

lemma fh_ops_ok [cache_keeps]:
  assumes "cache_ok c"
  shows "cache_ok (fh_add i p c)" "cache_ok (fh_remove i c)" "cache_ok (clear_fh_version p c)"
    "cache_ok (rename_fh_paths p q c)" "cache_ok (fh_remove i (fh_mark_closing i c))"
  by (rule cache_ok_frame [OF assms]; auto simp: fh_add_def fh_remove_def fh_new_def clear_fh_version_def
      rename_fh_paths_def fh_mark_closing_def cache_okD [OF assms] split: if_splits option.splits)+

lemma set_version_ok [cache_keeps]: "cache_ok c \<Longrightarrow> cache_ok (set_version i sz mt c)"
  by (rule cache_ok_frame, assumption) (auto simp: set_version_def now_ms_def cache_okD split: if_splits option.splits)

lemma fresh_version_ok:
  assumes "cache_ok c" "fresh_version i c = (r, c')"
  shows "cache_ok c'"
  using assms(1) by (rule cache_ok_frame)
    (use assms in \<open>auto simp: fresh_version_def now_ms_def cache_okD split: option.splits if_splits\<close>)

lemma budget_now_ok:
  assumes "cache_ok c" "budget_now c = (b, c')"
  shows "cache_ok c'" "unat b \<le> max_budget"
proof -
  have e: "c_files c' = c_files c" "c_lru c' = c_lru c" "c_cur c' = c_cur c" "c_inflight c' = c_inflight c"
    "c_meta c' = c_meta c" "c_neg c' = c_neg c" "c_dir c' = c_dir c" "c_jobs c' = c_jobs c"
    "c_fh c' = c_fh c" "b = c_budget c'" "c_budget c' = c_budget c \<or> (\<exists>r. c_budget c' = compute_block_budget r)"
    using assms(2)
    by (auto simp: budget_now_def now_ms_def sample_ram_def Let_def split: prod.splits if_splits)
  then have b: "unat (c_budget c') \<le> max_budget"
    using compute_block_budget_le cache_okD(3) [OF assms(1)] by auto
  show "cache_ok c'"
    by (rule cache_ok_frame [OF assms(1)]) (simp_all add: e(1-9) b cache_okD [OF assms(1)])
  show "unat b \<le> max_budget" using b e by simp
qed

lemma cache_ok_blocks:
  assumes "cache_ok c" "blocks_ok c'" "cached_bytes c' \<le> max_budget" "c_budget c' = c_budget c"
    "c_meta c' = c_meta c" "c_neg c' = c_neg c" "c_dir c' = c_dir c" "c_jobs c' = c_jobs c"
    "c_inflight c' = c_inflight c" "c_fh c' = c_fh c"
  shows "cache_ok c'"
  using assms by (simp add: cache_ok_def)

lemma purge_file_keeps [cache_keeps]:
  assumes "cache_ok c"
  shows "cache_ok (purge_file p c)"
  by (rule cache_ok_blocks [OF assms])
    (use purge_file_ok [OF cache_okD(1) [OF assms], of p] cache_okD(2) [OF assms] in simp_all)

lemma invalidate_file_ok [cache_keeps]: "cache_ok c \<Longrightarrow> cache_ok (invalidate_file p c)"
  unfolding invalidate_file_def by (intro cache_keeps)

lemma on_invalidate_ok [cache_keeps]: "cache_ok c \<Longrightarrow> cache_ok (on_invalidate p c)"
  unfolding on_invalidate_def by (intro cache_keeps)

lemma submit_ok [cache_keeps]: "cache_ok c \<Longrightarrow> cache_ok (submit j c)"
  by (rule cache_ok_frame, assumption) (auto simp: submit_def cache_okD split: if_splits)

lemma submits_ok: "cache_ok c \<Longrightarrow> cache_ok (fold (\<lambda>i. submit (f i)) xs c)"
  by (induction xs arbitrary: c) (auto intro: submit_ok)

lemma advance_pattern_ok:
  assumes "cache_ok c" "c_fh c i = Some f"
  shows "cache_ok (c\<lparr>c_fh := (c_fh c)(i \<mapsto> advance_pattern off e f)\<rparr>)"
  by (rule cache_ok_frame [OF assms(1)])
    (use assms in \<open>auto simp: advance_pattern_def Let_def cache_okD split: if_splits\<close>)

lemma schedule_read_ahead_ok [cache_keeps]:
  assumes "cache_ok c"
  shows "cache_ok (schedule_read_ahead i p sz mt e off c)"
proof -
  obtain b c1 where b: "budget_now c = (b, c1)" by (cases "budget_now c")
  have c1: "cache_ok c1" by (rule budget_now_ok(1) [OF assms b])
  show ?thesis
  proof (cases "c_fh c1 i")
    case None
    then show ?thesis using b c1 by (simp add: schedule_read_ahead_def)
  next
    case (Some f)
    have "cache_ok (c1\<lparr>c_fh := (c_fh c1)(i \<mapsto> advance_pattern off e f)\<rparr>)"
      by (rule advance_pattern_ok [OF c1 Some])
    then show ?thesis
      using b c1 Some by (simp add: schedule_read_ahead_def Let_def submits_ok)
  qed
qed


section \<open>Preservation by the requests\<close>

lemma inflight_triv [simp]: "cache_ok c \<Longrightarrow> c\<lparr>c_inflight := {}\<rparr> = c"
  using cache_okD(8) [of c] by (cases c) simp

lemma block_get_keeps:
  assumes "cache_ok c" "block_get p sz mt i c = (r, c')"
  shows "cache_ok c'"
proof (rule cache_ok_blocks [OF assms(1)])
  note b = block_get_ok [OF cache_okD(1) [OF assms(1)] assms(2)]
  show "blocks_ok c'" by (rule b(1))
  show "cached_bytes c' \<le> max_budget" using b(2) cache_okD(2) [OF assms(1)] by simp
qed (use assms(2) in \<open>auto simp: block_get_def split: option.splits if_splits\<close>)

lemma fetch_store_keeps:
  assumes "cache_ok (c\<lparr>c_inflight := {}\<rparr>)" "c_inflight c \<subseteq> {(p, i)}" "length resp < 2 ^ 32"
    "fetch_store p sz mt i st resp c = (r, c')"
  shows "cache_ok c'"
proof -
  let ?c1 = "c\<lparr>c_inflight := c_inflight c - {(p, i)}\<rparr>"
  have c1: "cache_ok ?c1" using assms(1,2) by (metis Diff_eq_empty_iff)
  show ?thesis
  proof (cases "st = 0")
    case False
    then show ?thesis using assms(4) c1 by (simp add: fetch_store_def Let_def)
  next
    case True
    obtain b c2 where b: "budget_now ?c1 = (b, c2)" by (cases "budget_now ?c1")
    note ok = budget_now_ok [OF c1 b]
    have l: "cached_bytes c2 + length resp < 2 ^ 63"
      using cache_okD(2) [OF ok(1)] assms(3) by (simp add: max_budget_def)
    let ?eof = "length resp < unat kBlock"
    have e: "c' = block_put p sz mt i resp ?eof b c2"
      using assms(4) True b by (simp add: fetch_store_def Let_def)
    have "cached_bytes c' \<le> max_budget"
      unfolding e using block_put_ok(2) [OF cache_okD(1) [OF ok(1)] l, of p sz mt i ?eof b]
        cache_okD(2) [OF ok(1)] ok(2) by simp
    then show ?thesis
      by (intro cache_ok_blocks [OF ok(1)])
        (simp_all add: e block_put_ok(1) [OF cache_okD(1) [OF ok(1)] l])
  qed
qed

lemma fh_begin_end [simp]:
  assumes "fh_begin_read i c = (True, c')"
  shows "fh_end_read i c' = c"
proof -
  obtain f where "c_fh c i = Some f" "c' = c\<lparr>c_fh := (c_fh c)(i \<mapsto> f\<lparr>fi_active_reads := fi_active_reads f + 1\<rparr>)\<rparr>"
    using assms by (auto simp: fh_begin_read_def split: option.splits if_splits)
  then show ?thesis by (simp add: fh_end_read_def map_upd_triv)
qed

lemma fh_begin_refused: "fh_begin_read i c = (False, c') \<Longrightarrow> c' = c"
  by (auto simp: fh_begin_read_def split: option.splits if_splits)

text \<open>
  In a run of one thread the fetch is a hit, a refusal by a handle that is not open, or one read of the
  host whose answer is stored.
\<close>

lemma block_fetch_cases:
  assumes "cache_ok c" "block_fetch inner p h sz mt i (c, s) = (r, c', s')"
  obtains (hit) b where "block_get p sz mt i c = (Some b, c')" "r = (0, b_data b, b_eof b)" "s' = s"
  | (refused) c1 where "block_get p sz mt i c = (None, c1)" "c_fh c1 h = None \<or> (\<exists>f. c_fh c1 h = Some f \<and> fi_closing f)"
      "fetch_store p sz mt i kEBADF [] (c1\<lparr>c_inflight := {(p, i)}\<rparr>) = (r, c')" "s' = s"
  | (fetched) c1 st resp where "block_get p sz mt i c = (None, c1)"
      "rf_request inner (op_code OP_READ) (fetch_req h i) s = ((st, resp), s')"
      "fetch_store p sz mt i st resp (c1\<lparr>c_inflight := {(p, i)}\<rparr>) = (r, c')"
proof -
  obtain g c1 where g: "block_get p sz mt i c = (g, c1)" by (cases "block_get p sz mt i c")
  have c1: "c_inflight c1 = {}" by (rule cache_okD(8) [OF block_get_keeps [OF assms(1) g]])
  show thesis
  proof (cases g)
    case (Some b)
    then show thesis using assms(2) g hit by (simp add: block_fetch_def fetch_claim_def)
  next
    case None
    let ?c2 = "c1\<lparr>c_inflight := {(p, i)}\<rparr>"
    have cl: "fetch_claim p sz mt i c = (Claimed, ?c2)"
      using g None c1 by (simp add: fetch_claim_def)
    obtain ok c3 where bg: "fh_begin_read h ?c2 = (ok, c3)" by (cases "fh_begin_read h ?c2")
    show thesis
    proof (cases ok)
      case True
      obtain st resp s1 where rq: "rf_request inner (op_code OP_READ) (fetch_req h i) s = ((st, resp), s1)"
        by (metis prod.exhaust)
      show thesis
        using assms(2) g None cl bg True rq fh_begin_end [of h ?c2 c3] fetched
        by (auto simp: block_fetch_def split: prod.splits)
    next
      case False
      then have "c3 = ?c2" "c_fh c1 h = None \<or> (\<exists>f. c_fh c1 h = Some f \<and> fi_closing f)"
        using bg by (auto simp: fh_begin_read_def split: option.splits if_splits)
      then show thesis
        using assms(2) g None cl bg False refused
        by (auto simp: block_fetch_def split: prod.splits)
    qed
  qed
qed

lemma block_fetch_keeps:
  assumes "cache_ok c" "short_responses inner" "block_fetch inner p h sz mt i (c, s) = (r, c', s')"
  shows "cache_ok c'"
  using assms(1,3)
proof (cases rule: block_fetch_cases)
  case (hit b)
  show ?thesis by (rule block_get_keeps [OF assms(1) hit(1)])
next
  case (refused c1)
  have "cache_ok c1" by (rule block_get_keeps [OF assms(1) refused(1)])
  then show ?thesis
    by (intro fetch_store_keeps [OF _ _ _ refused(3)]) simp_all
next
  case (fetched c1 st resp)
  have "cache_ok c1" by (rule block_get_keeps [OF assms(1) fetched(1)])
  then show ?thesis
    using short_responsesD [OF assms(2) fetched(2)]
    by (intro fetch_store_keeps [OF _ _ _ fetched(3)]) simp_all
qed

text \<open>One turn of the loop of \<open>doRead\<close>, with the number of bytes it takes.\<close>

definition rd_n :: "u64 \<Rightarrow> u64 \<Rightarrow> bytes \<Rightarrow> u64" where
  "rd_n cur en bk = min (en - cur) (of_nat (length bk) - cur mod kBlock)"

definition rd_out :: "u64 \<Rightarrow> u64 \<Rightarrow> bytes \<Rightarrow> bytes" where
  "rd_out cur en bk = take (unat (rd_n cur en bk)) (drop (unat (cur mod kBlock)) bk)"

definition rd_last :: "u64 \<Rightarrow> u64 \<Rightarrow> bytes \<Rightarrow> bool \<Rightarrow> bool" where
  "rd_last cur en bk eof \<longleftrightarrow> cur mod kBlock + rd_n cur en bk \<ge> of_nat (length bk) \<and>
     (eof \<or> of_nat (length bk) < kBlock)"

lemma read_loop_turn:
  assumes "cur < en" "block_fetch inner p h sz mt (cur div kBlock) cs = ((st, bk, eof), cs')"
  shows "read_loop inner p h sz mt cur en out cs =
    (if st \<noteq> 0 then ((st, []), cs')
     else if of_nat (length bk) \<le> cur mod kBlock then ((0, out), cs')
     else if rd_last cur en bk eof then ((0, out @ rd_out cur en bk), cs')
     else read_loop inner p h sz mt (cur + rd_n cur en bk) en (out @ rd_out cur en bk) cs')"
  using assms by (subst read_loop.simps) (auto simp: Let_def rd_n_def rd_out_def rd_last_def)

lemma read_loop_end: "\<not> cur < en \<Longrightarrow> read_loop inner p h sz mt cur en out cs = ((0, out), cs)"
  by (subst read_loop.simps) simp

lemma read_loop_keeps:
  assumes "short_responses inner" "cache_ok (fst cs)"
  shows "cache_ok (fst (snd (read_loop inner p h sz mt cur en out cs)))"
  using assms
proof (induction inner p h sz mt cur en out cs rule: read_loop.induct)
  case (1 inner p h sz mt cur en out cs)
  obtain c s where cs: "cs = (c, s)" by (cases cs)
  obtain st bk eof c' s' where f: "block_fetch inner p h sz mt (cur div kBlock) cs = ((st, bk, eof), c', s')"
    by (metis prod_cases3)
  have c': "cache_ok c'" using block_fetch_keeps [OF _ _ f [unfolded cs]] "1.prems" cs by simp
  show ?case
  proof (cases "cur < en")
    case True
    note turn = read_loop_turn [OF True f, of out]
    show ?thesis
    proof (cases "st = 0 \<and> \<not> of_nat (length bk) \<le> cur mod kBlock \<and> \<not> rd_last cur en bk eof")
      case again: True
      have "cache_ok (fst (snd (read_loop inner p h sz mt (cur + rd_n cur en bk) en
          (out @ rd_out cur en bk) (c', s'))))"
        unfolding rd_n_def rd_out_def
        by (rule "1.IH" [OF _ f [symmetric] refl refl]) (use True again c' "1.prems"(1) in \<open>auto simp: rd_last_def rd_n_def\<close>)
      then show ?thesis unfolding turn using again by auto
    next
      case False
      then show ?thesis unfolding turn using c' by (auto split: if_splits)
    qed
  qed (use "1.prems"(2) in \<open>simp add: read_loop_end\<close>)
qed


lemma ensure_version_keeps:
  assumes "cache_ok (fst cs)" "ensure_version inner h p cs = (r, c', s')"
  shows "cache_ok c'"
proof -
  obtain c s where cs: "cs = (c, s)" by (cases cs)
  obtain v c1 where v: "fresh_version h c = (v, c1)" by (cases "fresh_version h c")
  have c1: "cache_ok c1" using fresh_version_ok [OF _ v] assms(1) cs by simp
  show ?thesis
  proof (cases v)
    case (Some x)
    then show ?thesis using assms(2) cs v c1 by (simp add: ensure_version_def)
  next
    case None
    obtain m c2 where m: "meta_lookup p c1 = (m, c2)" by (cases "meta_lookup p c1")
    have c2: "cache_ok c2" by (rule meta_lookup_ok [OF c1 m])
    show ?thesis
      using assms(2) c2
      by (auto simp: ensure_version_def cs v None m split: option.splits prod.splits if_splits
          intro: cache_keeps)
  qed
qed

lemma forward_keeps: "cache_ok (fst cs) \<Longrightarrow> cache_ok (fst (snd (forward inner opc payload cs)))"
  by (cases cs) (simp add: forward_def split: prod.split)

lemma read_cached_keeps:
  assumes "short_responses inner" "cache_ok (fst cs)"
  shows "cache_ok (fst (snd (read_cached inner payload h off k cs)))"
proof -
  obtain c s where cs: "cs = (c, s)" by (cases cs)
  obtain bud c1 where bud: "budget_now c = (bud, c1)" by (cases "budget_now c")
  have c1: "cache_ok c1" using budget_now_ok(1) [OF _ bud] assms(2) cs by simp
  consider "bud = 0 \<or> fh_path h c1 = None" | p where "bud \<noteq> 0" "fh_path h c1 = Some p" by auto
  then show ?thesis
  proof cases
    case 1
    then have "read_cached inner payload h off k cs = forward inner (op_code OP_READ) payload (c1, s)"
      by (auto simp: read_cached_def cs bud)
    then show ?thesis using forward_keeps [of "(c1, s)"] c1 by simp
  next
    case (2 p)
    obtain v c2 s2 where v: "ensure_version inner h p (c1, s) = (v, c2, s2)" by (metis prod_cases3)
    have c2: "cache_ok c2" using ensure_version_keeps [OF _ v] c1 by simp
    show ?thesis
    proof (cases v)
      case None
      then have "read_cached inner payload h off k cs = forward inner (op_code OP_READ) payload (c2, s2)"
        using v 2 by (simp add: read_cached_def cs bud del: op_code.simps)
      then show ?thesis using forward_keeps [of "(c2, s2)"] c2 by simp
    next
      case (Some w)
      obtain sz mt where w: "w = (sz, mt)" by (cases w)
      obtain st out c3 s3 where l: "read_loop inner p h sz mt off (off + ucast k) [] (c2, s2) = ((st, out), c3, s3)"
        by (metis prod.exhaust)
      have c3: "cache_ok c3" using read_loop_keeps [OF assms(1), of "(c2, s2)" p h sz mt off "off + ucast k" "[]"] c2 l
        by simp
      then show ?thesis
        using v 2 l by (simp add: read_cached_def cs bud Some w schedule_read_ahead_ok)
    qed
  qed
qed

lemma do_read_cases:
  obtains "do_read inner payload cs = forward inner (op_code OP_READ) payload cs"
  | h off n where "do_read inner payload cs = read_cached inner payload h off n cs"
proof -
  obtain a r where a: "(r_pod payload :: u64 option \<times> bytes) = (a, r)" by fastforce
  obtain b r' where b: "(r_pod r :: u64 option \<times> bytes) = (b, r')" by fastforce
  obtain n r'' where n: "(r_pod r' :: u32 option \<times> bytes) = (n, r'')" by fastforce
  show thesis
    using that by (cases a; cases b; cases n) (simp_all add: do_read_def a b n del: op_code.simps)
qed

lemma do_read_keeps:
  assumes "short_responses inner" "cache_ok (fst cs)"
  shows "cache_ok (fst (snd (do_read inner payload cs)))"
  by (cases rule: do_read_cases [of inner payload cs]) (simp_all add: forward_keeps read_cached_keeps assms)

lemma drop_job_ok: "cache_ok c \<Longrightarrow> c_jobs c = j # js \<Longrightarrow> cache_ok (c\<lparr>c_jobs := js\<rparr>)"
  by (rule cache_ok_frame, assumption) (auto simp: cache_okD dest: cache_okD(7))

lemma run_job_keeps:
  assumes "short_responses inner" "cache_ok (fst cs)"
  shows "cache_ok (fst (run_job inner cs))"
proof -
  obtain c s where cs: "cs = (c, s)" by (cases cs)
  show ?thesis
  proof (cases "c_jobs c")
    case Nil
    then show ?thesis using assms(2) cs by (simp add: run_job_def)
  next
    case (Cons j js)
    obtain p h sz mt i where j: "j = (p, h, sz, mt, i)" by (cases j)
    obtain r c' s' where f: "block_fetch inner p h sz mt i (c\<lparr>c_jobs := js\<rparr>, s) = (r, c', s')" by (metis prod_cases3)
    have "cache_ok c'"
      using block_fetch_keeps [OF drop_job_ok assms(1) f] assms(2) cs Cons by simp
    then show ?thesis using f cs Cons j by (simp add: run_job_def)
  qed
qed

lemma do_getattr_keeps:
  assumes "cache_ok (fst cs)"
  shows "cache_ok (fst (snd (do_getattr inner payload cs)))"
proof -
  obtain c s where cs: "cs = (c, s)" by (cases cs)
  have c: "cache_ok c" using assms cs by simp
  show ?thesis
  proof (cases "fst (r_str payload)")
    case None
    then show ?thesis using c by (simp add: do_getattr_def cs forward_keeps)
  next
    case (Some p)
    obtain m c1 where m: "meta_lookup p c = (m, c1)" by (cases "meta_lookup p c")
    have c1: "cache_ok c1" by (rule meta_lookup_ok [OF c m])
    obtain b c2 where b: "neg_lookup p c1 = (b, c2)" by (cases "neg_lookup p c1")
    have c2: "cache_ok c2" by (rule neg_lookup_ok [OF c1 b])
    show ?thesis
      using c1 c2 by (auto simp: do_getattr_def cs Some m b split: option.splits bool.splits prod.splits
          intro: meta_store_ok neg_store_ok)
  qed
qed

lemma store_entries_ok: "cache_ok c \<Longrightarrow> cache_ok (store_entries p n r c)"
proof (induction p n r c rule: store_entries.induct)
  case (2 p n r c)
  then show ?case by (simp add: meta_store_ok split: prod.split option.split)
qed simp

lemma do_readdir_keeps:
  assumes "cache_ok (fst cs)"
  shows "cache_ok (fst (snd (do_readdir inner payload cs)))"
proof -
  obtain c s where cs: "cs = (c, s)" by (cases cs)
  have c: "cache_ok c" using assms cs by simp
  show ?thesis
  proof (cases "fst (r_str payload)")
    case None
    then show ?thesis using c by (simp add: do_readdir_def cs forward_keeps)
  next
    case (Some p)
    obtain m c1 where m: "dir_lookup p c = (m, c1)" by (cases "dir_lookup p c")
    have c1: "cache_ok c1" by (rule dir_lookup_ok [OF c m])
    show ?thesis
      using c1 by (simp add: do_readdir_def cs Some m Let_def dir_store_ok store_entries_ok
          split: option.split prod.split)
  qed
qed

lemma through_keeps:
  assumes "cache_ok (fst cs)" "\<And>resp c. cache_ok c \<Longrightarrow> cache_ok (upd resp c)"
  shows "cache_ok (fst (snd (through inner opc payload upd cs)))"
  using assms by (cases cs) (auto simp: through_def split: prod.splits)

lemma opened_ok: "cache_ok c \<Longrightarrow> cache_ok (opened create p resp c)"
  by (auto simp: opened_def Let_def split: option.splits intro!: cache_keeps)

lemma written_ok: "cache_ok c \<Longrightarrow> cache_ok (written h c)"
  by (auto simp: written_def split: option.splits intro!: cache_keeps)

lemma renamed_ok: "cache_ok c \<Longrightarrow> cache_ok (renamed payload c)"
  by (auto simp: renamed_def Let_def intro!: cache_keeps)

lemma do_release_keeps:
  assumes "cache_ok (fst cs)"
  shows "cache_ok (fst (snd (do_release inner payload cs)))"
  using assms by (cases cs) (auto simp: do_release_def Let_def split: prod.splits intro: cache_keeps)

lemma cache_request_keeps:
  assumes "short_responses inner" "cache_ok (fst cs)"
  shows "cache_ok (fst (snd (cache_request inner opc payload cs)))"
proof (cases "op_of opc")
  case None
  then show ?thesis using assms by (auto simp: cache_request_def intro: through_keeps)
next
  case (Some x)
  then show ?thesis
    using assms
    by (cases x) (auto simp: cache_request_def Let_def
        intro!: through_keeps do_read_keeps do_getattr_keeps do_readdir_keeps do_release_keeps
          opened_ok written_ok renamed_ok cache_keeps)
qed

section \<open>Runs of the cache\<close>

text \<open>
  What happens to a cache, one thing at a time: a request of the mount, a prefetch job, an
  invalidation from the host, and anything that happens to the remote in between.
\<close>

inductive cache_step :: "'s remote_fs \<Rightarrow> cache \<times> 's \<Rightarrow> cache \<times> 's \<Rightarrow> bool" for inner where
  request: "cache_step inner cs (snd (cache_request inner opc payload cs))"
| prefetch: "cache_step inner cs (run_job inner cs)"
| invalidation: "cache_step inner (c, s) (on_invalidate p c, s)"
| remote: "cache_step inner (c, s) (c, s')"

inductive cache_reachable :: "'s remote_fs \<Rightarrow> cache \<times> 's \<Rightarrow> bool" for inner where
  start: "cache_reachable inner (cache_init clk mem bgn, s)"
| step: "cache_reachable inner cs \<Longrightarrow> cache_step inner cs cs' \<Longrightarrow> cache_reachable inner cs'"

lemma cache_init_ok: "cache_ok (cache_init clk mem bgn)"
  by (auto simp: cache_ok_def cache_init_def Let_def blocks_ok_def files_wf_def cached_bytes_def blk_def
      entries_ok_def compute_block_budget_le)

lemma cache_reachable_ok:
  assumes "short_responses inner" "cache_reachable inner cs"
  shows "cache_ok (fst cs)"
  using assms(2)
proof (induction rule: cache_reachable.induct)
  case (start clk mem bgn s)
  then show ?case by (simp add: cache_init_ok)
next
  case (step cs cs')
  from step.hyps(2) step.IH show ?case
    by (cases rule: cache_step.cases)
      (auto intro: cache_request_keeps [OF assms(1)] run_job_keeps [OF assms(1)] on_invalidate_ok)
qed


section \<open>Mutations\<close>

definition versionless :: "string \<Rightarrow> (u64 \<rightharpoonup> fh_info) \<Rightarrow> bool" where
  "versionless p m \<longleftrightarrow> (\<forall>i f. m i = Some f \<longrightarrow> fi_path f = p \<longrightarrow> \<not> fi_have_ver f)"

lemma versionless_map:
  assumes "\<And>f. fi_path (g f) = p \<Longrightarrow> fi_have_ver (g f) \<Longrightarrow> fi_path f = p \<and> fi_have_ver f" "versionless p m"
  shows "versionless p (\<lambda>i. map_option g (m i))"
  using assms unfolding versionless_def map_option_case by (metis option.case_eq_if option.discI option.inject option.exhaust_sel)

lemma versionless_map_clear:
  assumes "\<And>f. fi_path (g f) = p \<Longrightarrow> \<not> fi_have_ver (g f)"
  shows "versionless p (\<lambda>i. map_option g (m i))"
  using assms unfolding versionless_def by force

text \<open>Nothing that was cached about the file \<open>p\<close> is left.\<close>

definition forgotten :: "string \<Rightarrow> cache \<Rightarrow> bool" where
  "forgotten p c \<longleftrightarrow> c_files c p = None \<and> map_of (c_meta c) p = None \<and> map_of (c_neg c) p = None \<and>
     versionless p (c_fh c)"

lemma forgotten_invalidate [simp]: "forgotten p (invalidate_file p c)"
  by (simp add: forgotten_def invalidate_file_def clear_fh_version_def meta_erase_def delete_conv')
    (rule versionless_map_clear; simp split: if_splits)

lemma invalidate_keeps_forgotten:
  assumes "forgotten p c"
  shows "forgotten p (invalidate_file q c)"
proof -
  have "versionless p (\<lambda>i. map_option (\<lambda>f. if fi_path f = q then f\<lparr>fi_have_ver := False\<rparr> else f) (c_fh c i))"
    using assms by (intro versionless_map) (auto simp: forgotten_def split: if_splits)
  then show ?thesis
    using assms by (simp add: forgotten_def invalidate_file_def clear_fh_version_def meta_erase_def delete_conv')
qed

lemma forgotten_dir_erase [simp]: "forgotten p (dir_erase d c) \<longleftrightarrow> forgotten p c"
  by (simp add: forgotten_def dir_erase_def)

lemma forgotten_rename_fh:
  "forgotten from c \<Longrightarrow> forgotten from (rename_fh_paths from to c)"
  "forgotten to c \<Longrightarrow> forgotten to (rename_fh_paths from to c)"
  by (simp_all add: forgotten_def rename_fh_paths_def) (rule versionless_map; simp split: if_splits)+

lemma forgotten_renamed:
  "forgotten (path_of payload) (renamed payload c)"
  "forgotten (path_of (snd (r_str payload))) (renamed payload c)"
  by (simp_all add: renamed_def Let_def forgotten_rename_fh invalidate_keeps_forgotten)

lemma dir_erased [simp]:
  "map_of (c_dir (dir_erase d c)) d' = (if d' = d then None else map_of (c_dir c) d')"
  by (simp add: dir_erase_def delete_conv')

lemma c_dir_frame [simp]:
  "c_dir (invalidate_file p c) = c_dir c" "c_dir (meta_erase p c) = c_dir c"
  "c_dir (rename_fh_paths p q c) = c_dir c"
  by (simp_all add: invalidate_file_def clear_fh_version_def meta_erase_def rename_fh_paths_def)

text \<open>The directories whose listing a mutation changes, and the files whose attributes or bytes it changes.\<close>

definition touched_dirs :: "op \<Rightarrow> bytes \<Rightarrow> string list" where
  "touched_dirs x payload = (let p = path_of payload; q = path_of (snd (r_str payload)) in
     case x of OP_CREATE \<Rightarrow> [parent_of p] | OP_UNLINK \<Rightarrow> [parent_of p] | OP_MKDIR \<Rightarrow> [parent_of p]
     | OP_RMDIR \<Rightarrow> [p, parent_of p] | OP_RENAME \<Rightarrow> [p, q, parent_of p, parent_of q] | _ \<Rightarrow> [])"

definition touched_files :: "op \<Rightarrow> bytes \<Rightarrow> cache \<Rightarrow> string list" where
  "touched_files x payload c = (let p = path_of payload; q = path_of (snd (r_str payload)) in
     case x of OP_CREATE \<Rightarrow> [p] | OP_UNLINK \<Rightarrow> [p] | OP_TRUNCATE \<Rightarrow> [p] | OP_RENAME \<Rightarrow> [p, q]
     | OP_WRITE \<Rightarrow> (case fh_path (fhid_of payload) c of None \<Rightarrow> [] | Some w \<Rightarrow> [w]) | _ \<Rightarrow> [])"



text \<open>A host that answers everything with success and the handle 1.\<close>

definition ex_remote :: "unit remote_fs" where
  "ex_remote = \<lparr>rf_connected = (\<lambda>_. True), rf_request = (\<lambda>_ _ s. ((0, le_bytes 8 (1 :: u64)), s))\<rparr>"

definition ex_cache :: cache where
  "ex_cache = cache_init int (\<lambda>_. \<lparr>ri_total = 8 * kGiB, ri_avail = 4 * kGiB\<rparr>) (\<lambda>_. 0)"


text \<open>C11: In every reachable state of the cache the LRU list names exactly the cached blocks,
  each once; the byte counter is their total size and at most 4 GiB; the metadata, negative,
  directory and prefetch tables stay within their bounds; between requests no fetch is in
  flight and no handle is being read or closed.\<close>

theorem cache_invariants:
  assumes "short_responses inner" "cache_reachable inner (c, s)"
  shows "distinct (c_lru c) \<and> set (c_lru c) = dom (blk c) \<and> unat (c_cur c) = cached_bytes c \<and>
    cached_bytes c \<le> 4 * 2 ^ 30 \<and> length (c_meta c) \<le> 8192 \<and> length (c_neg c) \<le> 4096 \<and>
    length (c_dir c) \<le> 1024 \<and> length (c_jobs c) \<le> 512 \<and> c_inflight c = {} \<and>
    (\<forall>f \<in> ran (c_fh c). fi_active_reads f = 0 \<and> \<not> fi_closing f)"
proof -
  have ok: "cache_ok c" using cache_reachable_ok [OF assms] by simp
  show ?thesis
    using ok blocks_okD [OF cache_okD(1) [OF ok]]
    unfolding cache_ok_def entries_ok_def kMetaMax_def kNegMax_def kDirMax_def kPrefetchQueueMax_def
      max_budget_def ran_def by auto
qed

theorem cache_invariants_witness:
  "let (c, s) = snd (cache_request ex_remote (op_code OP_CREATE) (w_str [] ''/f'') (ex_cache, ()))
   in unat (c_cur c) = cached_bytes c \<and> length (c_meta c) \<le> 8192"
proof -
  have sh: "short_responses ex_remote" by (simp add: short_responses_def ex_remote_def)
  have "cache_reachable ex_remote (ex_cache, ())" unfolding ex_cache_def by (rule cache_reachable.start)
  then have "cache_reachable ex_remote
      (snd (cache_request ex_remote (op_code OP_CREATE) (w_str [] ''/f'') (ex_cache, ())))"
    by (rule cache_reachable.step [OF _ cache_step.request])
  then show ?thesis using cache_invariants [OF sh] by (auto split: prod.split)
qed

end
