(* ===== verification/CacheRead.thy ===== *)
theory CacheRead
  imports CacheSafe
begin

text \<open>
  The read cache is transparent: over a remote that keeps serving one file, a cached read returns the
  bytes the file has, whatever is cached, evicted or fetched on the way. The lemmas are proved in the
  locale \<open>remote_reader\<close>, so that they hold of every \<open>RemoteFs\<close> that obeys its laws.
\<close>

section \<open>Offsets and block indices\<close>

lemma kBlock_val: "kBlock = 2 ^ 20" "unat kBlock = 2 ^ 20"
  by (simp_all add: kBlock_def kMaxIO_val)

lemma ucast_kBlock: "ucast kBlock = kMaxIO" "unat kMaxIO = 2 ^ 20"
  by (simp_all add: kBlock_def kMaxIO_val)

lemma block_index: "unat (cur div kBlock) = unat cur div 2 ^ 20"
  and block_offset: "unat (cur mod kBlock) = unat cur mod 2 ^ 20"
  by (simp_all add: unat_div_distrib unat_mod_distrib kBlock_val)

lemma index_bound: "unat (cur div kBlock) < 2 ^ 44"
proof -
  have "unat cur < 2 ^ LENGTH(64)" by (rule unsigned_less)
  then show ?thesis unfolding block_index by (simp add: less_mult_imp_div_less)
qed

lemma index_offset:
  assumes "unat i < 2 ^ 44"
  shows "unat (i * kBlock) = unat i * 2 ^ 20"
proof -
  have "unat i * unat kBlock < 2 ^ LENGTH(64)" using assms by (simp add: kBlock_val)
  then have "unat (i * kBlock) = unat i * unat kBlock" by (simp only: unat_mult_lem [symmetric])
  then show ?thesis by (simp add: kBlock_val)
qed

section \<open>A cache that agrees with the file\<close>

text \<open>The contents of a block of the file; the index is that of a block below \<open>2 ^ 64\<close> bytes.\<close>

definition block_of :: "bytes \<Rightarrow> u64 \<Rightarrow> block" where
  "block_of content i = (let d = slice (unat i * 2 ^ 20) (2 ^ 20) content in \<lparr>b_data = d, b_eof = length d < 2 ^ 20\<rparr>)"

definition faithful :: "string \<Rightarrow> bytes \<Rightarrow> cache \<Rightarrow> bool" where
  "faithful p content c \<longleftrightarrow> (\<forall>i b. unat i < 2 ^ 44 \<longrightarrow> blk c (p, i) = Some b \<longrightarrow> b = block_of content i)"

definition readable :: "u64 \<Rightarrow> string \<Rightarrow> cache \<Rightarrow> bool" where
  "readable h p c \<longleftrightarrow> (\<exists>f. c_fh c h = Some f \<and> fi_path f = p)"

text \<open>What a read relies on and keeps.\<close>

definition serves :: "u64 \<Rightarrow> string \<Rightarrow> bytes \<Rightarrow> cache \<Rightarrow> bool" where
  "serves h p content c \<longleftrightarrow> cache_ok c \<and> faithful p content c \<and> readable h p c \<and> map_of (c_neg c) p = None"

lemma serves_frame:
  assumes "serves h p content c" "cache_ok c'" "c_files c' = c_files c" "readable h p c'"
    "c_neg c' = c_neg c \<or> c_neg c' = AList.delete q (c_neg c)"
  shows "serves h p content c'"
  using assms by (auto simp: serves_def faithful_def blk_def delete_conv')

lemma faithful_sub:
  assumes "faithful p content c" "blk c' \<subseteq>\<^sub>m blk c"
  shows "faithful p content c'"
  using assms map_leD [OF assms(2)] unfolding faithful_def by blast

lemma c_fh_block_get: "block_get p sz mt i c = (r, c') \<Longrightarrow> c_fh c' = c_fh c"
  "block_get p sz mt i c = (r, c') \<Longrightarrow> c_neg c' = c_neg c"
  by (auto simp: block_get_def split: option.splits if_splits)

lemma serves_block_get:
  assumes "serves h p content c" "block_get q sz mt i c = (r, c')"
  shows "serves h p content c'" "r = Some b \<Longrightarrow> q = p \<Longrightarrow> unat i < 2 ^ 44 \<Longrightarrow> b = block_of content i"
proof -
  have ok: "cache_ok c" using assms(1) by (simp add: serves_def)
  note g = block_get_ok [OF cache_okD(1) [OF ok] assms(2)]
  show "serves h p content c'"
    using assms(1) block_get_keeps [OF ok assms(2)] faithful_sub [OF _ g(3)] c_fh_block_get [OF assms(2)]
    by (simp add: serves_def readable_def)
  show "b = block_of content i" if "r = Some b" "q = p" "unat i < 2 ^ 44"
    using g(4) [OF that(1)] assms(1) that by (simp add: serves_def faithful_def)
qed

lemma budget_now_frame:
  assumes "budget_now c = (b, c')"
  shows "c_files c' = c_files c" "c_fh c' = c_fh c" "blk c' = blk c" "c_neg c' = c_neg c"
proof -
  show "c_files c' = c_files c" "c_fh c' = c_fh c" "c_neg c' = c_neg c"
    using assms by (auto simp: budget_now_def now_ms_def sample_ram_def Let_def split: prod.splits if_splits)
  then show "blk c' = blk c" by (simp add: blk_def fun_eq_iff)
qed

lemma c_fh_fetch_store:
  "fetch_store p sz mt i st resp c = (r, c') \<Longrightarrow> c_fh c' = c_fh c \<and> c_neg c' = c_neg c"
  by (auto simp: fetch_store_def Let_def split: if_splits prod.splits dest: budget_now_frame(2,4))

text \<open>Storing the block the file has keeps the agreement.\<close>

lemma fetch_store_faithful:
  assumes "cache_ok c" "faithful p content c"
    and "resp = b_data (block_of content i) \<or> \<not> unat i < 2 ^ 44 \<and> length resp \<le> 2 ^ 20"
    and "fetch_store p sz mt i 0 resp (c\<lparr>c_inflight := {(p, i)}\<rparr>) = (r, c')"
  shows "faithful p content c'" "r = (0, resp, length resp < 2 ^ 20)"
proof -
  have c1: "c\<lparr>c_inflight := {(p, i)}, c_inflight := {(p, i)} - {(p, i)}\<rparr> = c"
    using assms(1) by simp
  obtain b c2 where b: "budget_now c = (b, c2)" by (cases "budget_now c")
  note bn = budget_now_ok [OF assms(1) b] budget_now_frame [OF b]
  have e: "c' = block_put p sz mt i resp (length resp < 2 ^ 20) b c2" "r = (0, resp, length resp < 2 ^ 20)"
    using assms(4) b assms(1) by (simp_all add: fetch_store_def Let_def kBlock_val)
  show "r = (0, resp, length resp < 2 ^ 20)" by (rule e(2))
  have "length resp \<le> 2 ^ 20" using assms(3) by (auto simp: block_of_def Let_def length_slice)
  then have l: "cached_bytes c2 + length resp < 2 ^ 63"
    using cache_okD(2) [OF bn(1)] by (simp add: max_budget_def)
  show "faithful p content c'"
    unfolding faithful_def
  proof (intro allI impI)
    fix j bl assume j: "unat j < 2 ^ 44" and bl: "blk c' (p, j) = Some bl"
    from block_put_ok(3) [OF cache_okD(1) [OF bn(1)] l bl [unfolded e(1)]]
    consider "blk c (p, j) = Some bl" | "j = i" "bl = \<lparr>b_data = resp, b_eof = length resp < 2 ^ 20\<rparr>"
      using bn(5) by auto
    then show "bl = block_of content j"
    proof cases
      case 1
      then show ?thesis using assms(2) j by (simp add: faithful_def)
    next
      case 2
      then show ?thesis using assms(3) j by (auto simp: block_of_def Let_def)
    qed
  qed
qed


section \<open>Reading over a stable remote\<close>

context remote_reader begin

lemma fetch_reads:
  assumes "stable s" "rf_request fs (op_code OP_READ) (fetch_req h i) s = ((st, resp), s')"
  shows "stable s'" "st = 0" "resp = slice (unat (i * kBlock)) (2 ^ 20) content"
  using reads [of s kMaxIO "i * kBlock" st resp s'] assms by (simp_all add: fetch_req_def ucast_kBlock)

text \<open>A fetch of any block of the file, by a read or by a prefetch job.\<close>

lemma block_fetch_serves:
  assumes "short_responses fs" "stable s" "serves h path content c"
    and "block_fetch fs path h sz mt i (c, s) = (r, c', s')"
  shows "stable s'" "serves h path content c'"
    and "unat i < 2 ^ 44 \<Longrightarrow> r = (0, b_data (block_of content i), b_eof (block_of content i))"
proof -
  have ok: "cache_ok c" using assms(3) by (simp add: serves_def)
  have ok': "cache_ok c'" by (rule block_fetch_keeps [OF ok assms(1,4)])
  have "stable s' \<and> serves h path content c' \<and>
    (unat i < 2 ^ 44 \<longrightarrow> r = (0, b_data (block_of content i), b_eof (block_of content i)))"
    using ok assms(4)
  proof (cases rule: block_fetch_cases)
    case (hit b)
    from serves_block_get [OF assms(3) hit(1)] show ?thesis
      using hit assms(2) by auto
  next
    case (refused c1)
    have "serves h path content c1" by (rule serves_block_get(1) [OF assms(3) refused(1)])
    then have "cache_ok c1" "readable h path c1" by (simp_all add: serves_def)
    then show ?thesis using refused(2) cache_okD(10) [of c1] by (auto simp: readable_def)
  next
    case (fetched c1 st resp)
    note f = fetch_reads [OF assms(2) fetched(2)]
    have c1: "serves h path content c1" by (rule serves_block_get(1) [OF assms(3) fetched(1)])
    have d: "resp = b_data (block_of content i) \<or> \<not> unat i < 2 ^ 44 \<and> length resp \<le> 2 ^ 20"
      using f(3) index_offset [of i] by (auto simp: block_of_def Let_def length_slice)
    have "cache_ok c1" "faithful path content c1" using c1 by (simp_all add: serves_def)
    note fs = fetch_store_faithful [OF this d, of sz mt r c'] 
    have st: "fetch_store path sz mt i 0 resp (c1\<lparr>c_inflight := {(path, i)}\<rparr>) = (r, c')"
      using fetched(3) f(2) by simp
    have "readable h path c'" "map_of (c_neg c') path = None"
      using c1 c_fh_fetch_store [OF st] by (simp_all add: serves_def readable_def)
    then show ?thesis
      using fs [OF st] d f(1) ok' by (auto simp: serves_def block_of_def Let_def)
  qed
  then show "stable s'" "serves h path content c'"
    "unat i < 2 ^ 44 \<Longrightarrow> r = (0, b_data (block_of content i), b_eof (block_of content i))" by auto
qed

lemma slice_Nil: "length f \<le> off \<or> n = 0 \<Longrightarrow> slice off n f = []"
  by (auto simp: slice_def)

text \<open>What the loop takes from a block is the file's next bytes, and it stops only at the end of the file.\<close>

lemma rd_out_slice:
  assumes "cur < en" "bk = b_data (block_of content (cur div kBlock))" "\<not> of_nat (length bk) \<le> cur mod kBlock"
  shows "rd_out cur en bk = slice (unat cur) (unat (rd_n cur en bk)) content"
    and "unat (cur + rd_n cur en bk) = unat cur + unat (rd_n cur en bk)"
    and "unat (rd_n cur en bk) \<le> unat en - unat cur"
    and "rd_last cur en bk (b_eof (block_of content (cur div kBlock))) \<Longrightarrow>
      length content \<le> unat cur + unat (rd_n cur en bk)"
proof -
  let ?o = "unat cur mod 2 ^ 20" and ?i = "unat cur div 2 ^ 20"
  have cur: "unat cur = ?i * 2 ^ 20 + ?o" by simp
  have bk: "bk = slice (?i * 2 ^ 20) (2 ^ 20) content"
    using assms(2) by (simp add: block_of_def Let_def block_index)
  have len: "length bk \<le> 2 ^ 20" by (simp add: bk length_slice)
  have ul: "unat (of_nat (length bk) :: u64) = length bk" using len by (simp add: unat_of_nat)
  have bo: "?o < length bk" using assms(3) ul by (simp add: word_le_nat_alt block_offset not_le)
  have sub: "unat (of_nat (length bk) - cur mod kBlock) = length bk - ?o"
    using bo ul by (simp add: unat_sub_if' block_offset)
  have esub: "unat (en - cur) = unat en - unat cur"
    using assms(1) by (simp add: unat_sub_if' word_less_nat_alt)
  have n: "unat (rd_n cur en bk) = min (unat en - unat cur) (length bk - ?o)"
    unfolding rd_n_def by (simp add: min_def word_le_nat_alt sub esub)
  show a: "unat (cur + rd_n cur en bk) = unat cur + unat (rd_n cur en bk)"
    unfolding rd_n_def
    using read_step(2) [OF assms(1), of "cur mod kBlock" "of_nat (length bk)"] assms(3)
    by (simp add: unat_plus_simple not_le)
  show "unat (rd_n cur en bk) \<le> unat en - unat cur" using n by simp
  show "rd_out cur en bk = slice (unat cur) (unat (rd_n cur en bk)) content"
  proof -
    have "rd_out cur en bk = take (unat (rd_n cur en bk)) (drop ?o bk)"
      by (simp add: rd_out_def block_offset)
    also have "\<dots> = slice (?i * 2 ^ 20 + ?o) (min (unat (rd_n cur en bk)) (2 ^ 20 - ?o)) content"
      unfolding bk slice_of_slice ..
    also have "min (unat (rd_n cur en bk)) (2 ^ 20 - ?o) = unat (rd_n cur en bk)"
      using n len by (intro min_absorb1) linarith
    finally show ?thesis using cur by simp
  qed
  show "length content \<le> unat cur + unat (rd_n cur en bk)"
    if "rd_last cur en bk (b_eof (block_of content (cur div kBlock)))"
  proof -
    have small: "length bk < 2 ^ 20"
    proof -
      have "b_eof (block_of content (cur div kBlock)) \<longleftrightarrow> length bk < 2 ^ 20"
        using assms(2) by (simp add: block_of_def Let_def)
      moreover have "of_nat (length bk) < kBlock \<longleftrightarrow> length bk < 2 ^ 20"
        by (simp add: word_less_nat_alt ul kBlock_val)
      ultimately show ?thesis using that by (auto simp: rd_last_def)
    qed
    have "?o + unat (rd_n cur en bk) \<le> 2 ^ 20" using n bo len by linarith
    then have "unat (cur mod kBlock + rd_n cur en bk) = ?o + unat (rd_n cur en bk)"
      by (subst unat_add_lem [THEN iffD1]) (simp_all add: block_offset)
    then have "length bk \<le> ?o + unat (rd_n cur en bk)"
      using that by (simp add: rd_last_def word_le_nat_alt ul)
    moreover have "length bk = length content - ?i * 2 ^ 20" using small by (simp add: bk length_slice)
    ultimately show ?thesis using cur by linarith
  qed
qed

lemma read_loop_serves:
  assumes "short_responses fs" "stable s" "serves h path content c"
    and "read_loop fs path h sz mt cur en out (c, s) = (r, c', s')"
  shows "stable s' \<and> serves h path content c' \<and> r = (0, out @ slice (unat cur) (unat en - unat cur) content)"
  using assms(2-4)
proof (induction "unat en - unat cur" arbitrary: cur out c s rule: less_induct)
  case less
  show ?case
  proof (cases "cur < en")
    case False
    then show ?thesis
      using less.prems by (auto simp: read_loop_end slice_Nil word_less_nat_alt not_less)
  next
    case True
    obtain r1 c1 s1 where f: "block_fetch fs path h sz mt (cur div kBlock) (c, s) = (r1, c1, s1)"
      by (metis prod.exhaust)
    let ?b = "block_of content (cur div kBlock)"
    note bf = block_fetch_serves [OF assms(1) less.prems(1,2) f]
    have r1: "r1 = (0, b_data ?b, b_eof ?b)" by (rule bf(3) [OF index_bound])
    define bk where "bk = b_data ?b"
    note turn = read_loop_turn [OF True f [unfolded r1], of out, folded bk_def]
    show ?thesis
    proof (cases "of_nat (length bk) \<le> cur mod kBlock")
      case past: True
      let ?i = "unat cur div 2 ^ 20" and ?o = "unat cur mod 2 ^ 20"
      have "length bk \<le> 2 ^ 20" by (simp add: bk_def block_of_def Let_def length_slice)
      then have "length bk \<le> ?o" using past by (simp add: word_le_nat_alt unat_of_nat block_offset)
      moreover have "?o < 2 ^ 20" by simp
      moreover have "length bk = min (2 ^ 20) (length content - ?i * 2 ^ 20)"
        by (simp add: bk_def block_of_def Let_def length_slice block_index)
      moreover have "?i * 2 ^ 20 + ?o = unat cur" by (rule div_mult_mod_eq)
      ultimately have "length content \<le> unat cur" by linarith
      then show ?thesis using turn past less.prems(3) bf(1,2) by (simp add: slice_Nil)
    next
      case inside: False
      note o = rd_out_slice [OF True bk_def inside]
      let ?n = "unat (rd_n cur en bk)"
      have split: "slice (unat cur) (unat en - unat cur) content =
          rd_out cur en bk @ slice (unat cur + ?n) (unat en - (unat cur + ?n)) content"
      proof -
        have "?n + (unat en - (unat cur + ?n)) = unat en - unat cur" using o(3) by linarith
        then show ?thesis
          using slice_append [of "unat cur" ?n content "unat en - (unat cur + ?n)"] o(1) by simp
      qed
      show ?thesis
      proof (cases "rd_last cur en bk (b_eof ?b)")
        case last: True
        then have "slice (unat cur + ?n) (unat en - (unat cur + ?n)) content = []"
          using o(4) by (simp add: slice_Nil)
        then show ?thesis using turn inside last less.prems(3) bf(1,2) split by simp
      next
        case again: False
        have l: "read_loop fs path h sz mt (cur + rd_n cur en bk) en (out @ rd_out cur en bk) (c1, s1) = (r, c', s')"
          using turn inside again less.prems(3) by simp
        have "unat en - unat (cur + rd_n cur en bk) < unat en - unat cur"
          unfolding rd_n_def by (rule read_step(1)) (use True inside in simp_all)
        from less.hyps [OF this bf(1,2) l] show ?thesis
          unfolding split o(2) by simp
      qed
    qed
  qed
qed


lemma ensure_version_serves:
  assumes "stable s" "serves h path content c" "ensure_version fs h path (c, s) = (r, c', s')"
  shows "stable s' \<and> serves h path content c' \<and> r \<noteq> None"
proof -
  have ok: "cache_ok c" using assms(2) by (simp add: serves_def)
  have ok': "cache_ok c'" using ensure_version_keeps [OF _ assms(3)] ok by simp
  obtain v c1 where v: "fresh_version h c = (v, c1)" by (cases "fresh_version h c")
  have c1: "c_files c1 = c_files c" "c_fh c1 = c_fh c" "c_neg c1 = c_neg c"
    using v by (auto simp: fresh_version_def now_ms_def split: option.splits if_splits)
  obtain m c2 where m: "meta_lookup path c1 = (m, c2)" by (cases "meta_lookup path c1")
  have c2: "c_files c2 = c_files c" "c_fh c2 = c_fh c" "c_neg c2 = c_neg c"
    using m c1 by (auto simp: meta_lookup_def now_ms_def split: option.splits if_splits)
  obtain st resp s1 where rq: "rf_request fs (op_code OP_GETATTR) (w_str [] path) s = ((st, resp), s1)"
    by (metis prod.exhaust)
  obtain a where st: "stable s1" "st = 0" "resp = enc_attr a" using stats [OF assms(1) rq] by auto
  have sv: "c_files (set_version h sz mt x) = c_files x" "c_neg (set_version h sz mt x) = c_neg x"
    "readable h path x \<Longrightarrow> readable h path (set_version h sz mt x)" for sz mt x
    by (auto simp: set_version_def now_ms_def readable_def split: option.splits)
  have ms: "c_files (meta_store path a c2) = c_files c2" "c_fh (meta_store path a c2) = c_fh c2"
    "c_neg (meta_store path a c2) = AList.delete path (c_neg c2)"
    by (auto simp: meta_store_def now_ms_def Let_def)
  have rd: "readable h path c" using assms(2) by (simp add: serves_def)
  then have rd2: "readable h path c2" "readable h path (meta_store path a c2)"
    using c2 ms by (simp_all add: readable_def)
  have "stable s' \<and> r \<noteq> None \<and> c_files c' = c_files c \<and> readable h path c' \<and>
      (c_neg c' = c_neg c \<or> c_neg c' = AList.delete path (c_neg c))"
  proof (cases v)
    case (Some x)
    then have "(r, c', s') = (Some x, c1, s)" using assms(3) v by (simp add: ensure_version_def)
    then show ?thesis using assms(1) c1 rd by (simp add: readable_def)
  next
    case N: None
    show ?thesis
    proof (cases m)
      case (Some a')
      then have "(r, c', s') = (Some (a_size a', a_mtime a'), set_version h (a_size a') (a_mtime a') c2, s)"
        using assms(3) v N m by (simp add: ensure_version_def)
      then show ?thesis using assms(1) c2 rd2 sv by simp
    next
      case None
      then have "(r, c', s') = (Some (a_size a, a_mtime a),
          set_version h (a_size a) (a_mtime a) (meta_store path a c2), s1)"
        using assms(3) v N m rq st by (simp add: ensure_version_def del: op_code.simps)
      then show ?thesis using st(1) c2 rd2 sv ms by simp
    qed
  qed
  then show ?thesis using serves_frame [OF assms(2) ok'] by blast
qed

end

lemma submit_frame [simp]:
  "c_files (submit j c) = c_files c" "c_fh (submit j c) = c_fh c" "c_neg (submit j c) = c_neg c"
  by (simp_all add: submit_def)

lemma submits_frame [simp]:
  "c_files (fold (\<lambda>i. submit (f i)) xs c) = c_files c" "c_fh (fold (\<lambda>i. submit (f i)) xs c) = c_fh c"
  "c_neg (fold (\<lambda>i. submit (f i)) xs c) = c_neg c"
  by (induction xs arbitrary: c) simp_all

lemma schedule_serves:
  assumes "serves h p content c"
  shows "serves h p content (schedule_read_ahead i q sz mt e off c)"
proof -
  have ok: "cache_ok c" and rd: "readable h p c" using assms by (simp_all add: serves_def)
  obtain b c1 where b: "budget_now c = (b, c1)" by (cases "budget_now c")
  note f = budget_now_frame [OF b]
  let ?c = "schedule_read_ahead i q sz mt e off c"
  have "c_files ?c = c_files c \<and> c_neg ?c = c_neg c \<and>
      (c_fh ?c = c_fh c \<or> (\<exists>g. c_fh c i = Some g \<and> c_fh ?c = (c_fh c)(i \<mapsto> advance_pattern off e g)))"
    using f by (auto simp: schedule_read_ahead_def b Let_def split: option.splits)
  moreover have "fi_path (advance_pattern off e g) = fi_path g" for g
    by (simp add: advance_pattern_def Let_def)
  ultimately have "c_files ?c = c_files c" "readable h p ?c" "c_neg ?c = c_neg c \<or> c_neg ?c = AList.delete [] (c_neg c)"
    using rd by (auto simp: readable_def split: if_splits)
  then show ?thesis using serves_frame [OF assms schedule_read_ahead_ok [OF ok]] by blast
qed

context remote_reader begin

lemma read_parsed: "do_read fs (read_req h' off n) cs = read_cached fs (read_req h' off n) h' off n cs"
proof -
  have "read_req h' off n = le_bytes 8 h' @ le_bytes 8 off @ le_bytes 4 n"
    by (simp add: read_req_def w_pod_def w_raw_def)
  then show ?thesis by (simp add: do_read_def del: op_code.simps le_bytes.simps)
qed

lemma read_cached_serves:
  assumes "short_responses fs" "stable s" "serves h path content c" "n \<le> kMaxIO"
    and "do_read fs (read_req h off n) (c, s) = (r, c', s')"
  shows "stable s' \<and> serves h path content c' \<and> r = (0, slice (unat off) (unat n) content)"
proof -
  have rd: "read_cached fs (read_req h off n) h off n (c, s) = (r, c', s')" using assms(5) by (simp add: read_parsed)
  obtain bud c1 where bud: "budget_now c = (bud, c1)" by (cases "budget_now c")
  note f = budget_now_frame [OF bud]
  have ok1: "cache_ok c1" using budget_now_ok(1) [OF _ bud] assms(3) by (simp add: serves_def)
  have s1: "serves h path content c1"
    using serves_frame [OF assms(3) ok1 f(1), of "[]"] assms(3) f(2,4) by (simp add: serves_def readable_def)
  show ?thesis
  proof (cases "bud = 0")
    case True
    obtain st resp s2 where rq: "rf_request fs (op_code OP_READ) (read_req h off n) s = ((st, resp), s2)"
      by (metis prod.exhaust)
    then show ?thesis
      using rd bud True reads [OF assms(2,4) rq] s1
      by (simp add: read_cached_def forward_def del: op_code.simps)
  next
    case False
    have p: "fh_path h c1 = Some path" using s1 by (auto simp: serves_def readable_def fh_path_def)
    obtain v c2 s2 where v: "ensure_version fs h path (c1, s) = (v, c2, s2)" by (metis prod_cases3)
    obtain sz mt where ver: "v = Some (sz, mt)" "stable s2" "serves h path content c2"
      using ensure_version_serves [OF assms(2) s1 v] by auto
    obtain q c3 s3 where l: "read_loop fs path h sz mt off (off + ucast n) [] (c2, s2) = (q, c3, s3)"
      by (metis prod.exhaust)
    have le: "slice (unat off) (unat (off + ucast n) - unat off) content = slice (unat off) (unat n) content"
    proof (cases "unat off + unat n < 2 ^ 64")
      case True
      then have "unat (off + ucast n) = unat off + unat n"
        by (subst unat_add_lem [THEN iffD1]) (simp_all add: unat_ucast_32_64)
      then show ?thesis by simp
    next
      case False
      have "unat n \<le> 2 ^ 20" using assms(4) by (simp add: word_le_nat_alt ucast_kBlock)
      then have "length content \<le> unat off" using False fits [OF assms(2)] by simp
      then show ?thesis by (simp add: slice_past_end)
    qed
    have q: "q = (0, slice (unat off) (unat n) content)" "stable s3" "serves h path content c3"
      using read_loop_serves [OF assms(1) ver(2,3) l] unfolding le by auto
    have "r = q \<and> s' = s3 \<and> c' = schedule_read_ahead h path sz mt (off + of_nat (length (snd q))) off c3"
      using rd bud False p v ver(1) l q(1) by (auto simp: read_cached_def simp del: op_code.simps)
    then show ?thesis using q schedule_serves by simp
  qed
qed


text \<open>A prefetch job for the file, at any time.\<close>

lemma run_job_serves:
  assumes "short_responses fs" "stable s" "serves h path content c"
    and "c_jobs c = (path, h, sz, mt, i) # js" "run_job fs (c, s) = (c', s')"
  shows "stable s' \<and> serves h path content c'"
proof -
  let ?c = "c\<lparr>c_jobs := js\<rparr>"
  have "cache_ok ?c" using assms(3) drop_job_ok [OF _ assms(4)] by (simp add: serves_def)
  then have c: "serves h path content ?c"
    using serves_frame [OF assms(3), of ?c "[]"] assms(3) by (simp add: serves_def readable_def)
  obtain r c1 s1 where f: "block_fetch fs path h sz mt i (?c, s) = (r, c1, s1)" by (metis prod.exhaust)
  then show ?thesis using block_fetch_serves(1,2) [OF assms(1,2) c f] assms(4,5) by (simp add: run_job_def)
qed

lemma r_str_path: "stable s \<Longrightarrow> fst (r_str (w_str [] path)) = Some path"
  using fits [of s] r_str_append [of path "[]"] by (simp add: w_str_eq)

lemma do_getattr_serves:
  assumes "stable s" "serves h path content c" "do_getattr fs (w_str [] path) (c, s) = (r, c', s')"
  shows "stable s' \<and> serves h path content c' \<and> (\<exists>a. r = (0, enc_attr a))"
proof -
  have ok: "cache_ok c" using assms(2) by (simp add: serves_def)
  have ok': "cache_ok c'" using do_getattr_keeps [of "(c, s)" fs "w_str [] path"] ok assms(3) by simp
  obtain m c1 where m: "meta_lookup path c = (m, c1)" by (cases "meta_lookup path c")
  have c1: "c_files c1 = c_files c" "c_fh c1 = c_fh c" "c_neg c1 = c_neg c"
    using m by (auto simp: meta_lookup_def now_ms_def split: option.splits if_splits)
  have n: "neg_lookup path c1 = (False, c1)" using assms(2) c1 by (simp add: neg_lookup_def serves_def)
  obtain st resp s1 where rq: "rf_request fs (op_code OP_GETATTR) (w_str [] path) s = ((st, resp), s1)"
    by (metis prod.exhaust)
  obtain a where st: "stable s1" "st = 0" "resp = enc_attr a" using stats [OF assms(1) rq] by auto
  have "c_files c' = c_files c \<and> c_fh c' = c_fh c \<and>
      (c_neg c' = c_neg c \<or> c_neg c' = AList.delete path (c_neg c)) \<and> stable s' \<and> (\<exists>a. r = (0, enc_attr a))"
  proof (cases m)
    case (Some a')
    then show ?thesis
      using assms(1,3) m c1 r_str_path [OF assms(1)] by (auto simp: do_getattr_def w_attr_def w_raw_def)
  next
    case None
    then have "(r, c', s') = ((st, resp), meta_store path a c1, s1)"
      using assms(3) m n r_str_path [OF assms(1)] rq st
      by (simp add: do_getattr_def del: op_code.simps)
    then show ?thesis
      using c1 st by (auto simp: meta_store_def now_ms_def Let_def)
  qed
  then show ?thesis
    using serves_frame [OF assms(2) ok', of path] assms(2) by (auto simp: serves_def readable_def)
qed

end

text \<open>The cache over a reader is a reader: caches may be stacked on any remote with these laws.\<close>

lemma cached_reader:
  assumes "remote_reader fs P h path content" "short_responses fs"
  shows "remote_reader (ram_cache fs) (\<lambda>(c, s). P s \<and> serves h path content c) h path content"
proof -
  note inner = remote_reader.read_cached_serves [OF assms]
    remote_reader.do_getattr_serves [OF assms(1)] remote_reader.fits [OF assms(1)]
  show ?thesis
  proof (unfold_locales, goal_cases)
    case (1 cs len off st resp cs')
    obtain c s c' s' where cs: "cs = (c, s)" "cs' = (c', s')" by (cases cs; cases cs') auto
    have "do_read fs (read_req h off len) (c, s) = ((st, resp), c', s')"
      using 1(3) cs by (simp add: ram_cache_def cache_request_def del: op_code.simps)
    from inner(1) [OF _ _ 1(2) this] show ?case using 1(1) cs by auto
  next
    case (2 cs st resp cs')
    obtain c s c' s' where cs: "cs = (c, s)" "cs' = (c', s')" by (cases cs; cases cs') auto
    have "do_getattr fs (w_str [] path) (c, s) = ((st, resp), c', s')"
      using 2(2) cs by (simp add: ram_cache_def cache_request_def del: op_code.simps)
    from inner(2) [OF _ _ this] show ?case using 2(1) cs by auto
  next
    case (3 cs)
    then show ?case using inner(3) by (cases cs) auto
  qed
qed

end
