(* ===== verification/HostRemote.thy ===== *)
theory HostRemote
  imports CacheRead ServerSafety SecureChannel
begin

text \<open>
  The parts put together: the request dispatch of the host as the \<open>RemoteFs\<close> a client sees over a
  connection that works, and the read cache on top of it. A response whose sealed record would exceed
  \<open>kMaxRecord\<close> is refused by the receiving channel, which ends the connection: the request fails with
  \<open>EIO\<close>, as it does when the host's process ends. The secure channel in between delivers what was
  sent (\<open>SecureChannel\<close>), so it does not appear here.
\<close>

definition host_fs :: "'o os_api \<Rightarrow> 'o server remote_fs" where
  "host_fs api = \<lparr>rf_connected = (\<lambda>_. True), rf_request = (\<lambda>opc payload sv.
     case dispatch api opc payload sv of
       (None, sv) \<Rightarrow> ((kEIO, []), sv)
     | (Some (st, resp), sv) \<Rightarrow>
         if length resp + 36 > unat kMaxRecord then ((kEIO, []), sv) else ((sint st, resp), sv))\<rparr>"

lemma host_fs_short: "short_responses (host_fs api)"
  by (auto simp: short_responses_def host_fs_def kMaxRecord_def split: prod.split option.split)

text \<open>
  What it takes of the host for a handle to be stable: some set \<open>Q\<close> of states of its operating
  system in which reads of the descriptor give the bytes of the file and its path resolves to something
  with attributes, and which these calls do not leave.
\<close>

definition os_serves ::
  "'o os_api \<Rightarrow> string \<Rightarrow> nat \<Rightarrow> string \<Rightarrow> bytes \<Rightarrow> ('o \<Rightarrow> bool) \<Rightarrow> bool" where
  "os_serves api root fd path content Q \<longleftrightarrow>
     (\<forall>s off n. Q s \<longrightarrow> (\<exists>s'. os_pread api fd n off s = (Some (slice (unat off) n content), s') \<and> Q s')) \<and>
     (\<forall>s. Q s \<longrightarrow> (\<exists>ap s1 a s2. resolve api root path s = (Some ap, s1) \<and> fill_attr api ap s1 = (Some a, s2) \<and> Q s2))"

definition host_stable :: "'o os_api \<Rightarrow> u64 \<Rightarrow> string \<Rightarrow> bytes \<Rightarrow> 'o server \<Rightarrow> bool" where
  "host_stable api h path content sv \<longleftrightarrow> length content < 2 ^ 63 \<and> length path < 2 ^ 32 \<and>
     (\<exists>fd Q. sv_handles sv h = Some fd \<and> os_serves api (sv_root sv) fd path content Q \<and> Q (sv_os sv))"

lemma dispatch_read:
  assumes "sv_handles sv h = Some fd" "len \<le> kMaxIO" "os_pread api fd (unat len) off (sv_os sv) = (Some got, s')"
  shows "dispatch api (op_code OP_READ) (read_req h off len) sv =
    (Some (0, got), sv\<lparr>sv_os := s', sv_bytes_out := sv_bytes_out sv + of_nat (length got)\<rparr>)"
proof -
  have m: "min len kMaxIO = len" using assms(2) by (simp add: min_def)
  have "op_of (op_code OP_FSYNC) \<notin> {Some OP_OPEN, Some OP_CREATE, Some OP_RELEASE}"
    by (simp del: op_code.simps)
  then show ?thesis
    using h_read_open [OF assms(1), of api off len] assms(3) m
    by (simp add: dispatch_def answered_def sys_def read_req_def del: op_code.simps)
qed

lemma dispatch_getattr:
  assumes "length path < 2 ^ 32" "resolve api (sv_root sv) path (sv_os sv) = (Some ap, s1)"
    "fill_attr api ap s1 = (Some a, s2)"
  shows "dispatch api (op_code OP_GETATTR) (w_str [] path) sv = (Some (0, enc_attr a), sv\<lparr>sv_os := s2\<rparr>)"
proof -
  have "r_str (w_str [] path) = (Some path, [])"
    using r_str_append [OF assms(1), of "[]"] by (simp add: w_str_eq [OF assms(1)])
  then show ?thesis
    using assms(2,3)
    by (simp add: dispatch_def answered_def h_getattr_def sys_def w_attr_def w_raw_def del: op_code.simps)
qed

text \<open>A read and an attribute request on the file, as the client sees them.\<close>

lemma host_read:
  assumes "sv_handles sv h = Some fd" "os_serves api (sv_root sv) fd path content Q" "Q (sv_os sv)" "len \<le> kMaxIO"
    and "rf_request (host_fs api) (op_code OP_READ) (read_req h off len) sv = ((st, resp), sv')"
  shows "st = 0 \<and> resp = slice (unat off) (unat len) content \<and>
    (\<exists>s' n. sv' = sv\<lparr>sv_os := s', sv_bytes_out := n\<rparr> \<and> Q s')"
proof -
  obtain s' where p: "os_pread api fd (unat len) off (sv_os sv) = (Some (slice (unat off) (unat len) content), s')"
    "Q s'" using assms(2,3) unfolding os_serves_def by blast
  have "unat len \<le> 2 ^ 20" using assms(4) by (simp add: word_le_nat_alt ucast_kBlock)
  then have "length (slice (unat off) (unat len) content) + 36 \<le> unat kMaxRecord"
    by (simp add: length_slice kMaxRecord_def)
  then show ?thesis
    using assms(5) p dispatch_read [OF assms(1,4) p(1)] by (auto simp: host_fs_def simp del: op_code.simps)
qed

lemma host_getattr:
  assumes "length path < 2 ^ 32" "os_serves api (sv_root sv) fd path content Q" "Q (sv_os sv)"
    and "rf_request (host_fs api) (op_code OP_GETATTR) (w_str [] path) sv = ((st, resp), sv')"
  shows "st = 0 \<and> (\<exists>a. resp = enc_attr a) \<and> (\<exists>s'. sv' = sv\<lparr>sv_os := s'\<rparr> \<and> Q s')"
proof -
  obtain ap s1 a s2 where p: "resolve api (sv_root sv) path (sv_os sv) = (Some ap, s1)"
    "fill_attr api ap s1 = (Some a, s2)" "Q s2" using assms(2,3) by (metis os_serves_def)
  then show ?thesis
    using assms(4) dispatch_getattr [OF assms(1) p(1,2)]
    by (auto simp: host_fs_def kMaxRecord_def simp del: op_code.simps)
qed

interpretation hosted: remote_reader "host_fs api" "host_stable api h path content" h path content
  for api :: "'o os_api" and h path content
proof (unfold_locales, goal_cases)
  case (1 sv len off st resp sv')
  then show ?case
    unfolding host_stable_def using host_read [OF _ _ _ 1(2,3)] by fastforce
next
  case (2 sv st resp sv')
  then show ?case
    unfolding host_stable_def using host_getattr [OF _ _ _ 2(2)] by fastforce
next
  case (3 sv)
  then show ?case by (simp add: host_stable_def)
qed

interpretation cached: remote_reader "ram_cache (host_fs api)"
  "\<lambda>(c, sv). host_stable api h path content sv \<and> serves h path content c" h path content
  for api :: "'o os_api" and h path content
  by (rule cached_reader [OF hosted.remote_reader_axioms host_fs_short])

text \<open>A second cache in front of the first is no different.\<close>

text \<open>C10: Reading an open file through the read cache gives the bytes that the host has at that
  offset, up to 1 MiB per request, whatever blocks, attributes and versions are cached and
  whatever is evicted or fetched; the cache keeps agreeing with the file. The host is the
  server dispatch on an operating system that keeps serving the file.\<close>

theorem cached_read_transparent:
  assumes "host_stable api h path content sv" "serves h path content c" "n \<le> kMaxIO"
    and "cache_request (host_fs api) (op_code OP_READ) (read_req h off n) (c, sv) = ((st, resp), c', sv')"
  shows "st = 0 \<and> resp = take (unat n) (drop (unat off) content) \<and>
    host_stable api h path content sv' \<and> serves h path content c'"
  using cached.reads [of api h path content "(c, sv)" n off st resp "(c', sv')"] assms
  by (simp add: ram_cache_def slice_def)


definition ex_open_cache :: cache where
  "ex_open_cache = fh_add 1 ''/a.txt'' ex_cache"

abbreviation ex_content :: bytes where "ex_content \<equiv> str_bytes ''hello''"

lemma ex_host_stable: "host_stable ex_api 1 ''/a.txt'' ex_content ex_opened"
proof -
  let ?Q = "\<lambda>s. s = sv_os ex_opened"
  have r: "\<exists>ap s1 a s2. resolve ex_api (sv_root ex_opened) ''/a.txt'' (sv_os ex_opened) = (Some ap, s1) \<and>
      fill_attr ex_api ap s1 = (Some a, s2) \<and> s2 = sv_os ex_opened"
  proof -
    have "resolve ex_api (sv_root ex_opened) ''/a.txt'' (sv_os ex_opened) = (Some ''/srv/share/a.txt'', sv_os ex_opened)"
      by code_simp
    moreover have "snd (fill_attr ex_api ''/srv/share/a.txt'' (sv_os ex_opened)) = sv_os ex_opened"
      "fst (fill_attr ex_api ''/srv/share/a.txt'' (sv_os ex_opened)) \<noteq> None" by code_simp+
    ultimately show ?thesis by (metis option.exhaust_sel prod.collapse)
  qed
  have p: "\<exists>s'. os_pread ex_api 0 n off (sv_os ex_opened) = (Some (slice (unat off) n ex_content), s') \<and> ?Q s'" for n off
    by (simp add: ex_api_def ex_opened_def ex_server_def ex_host_def slice_def)
  have "os_serves ex_api (sv_root ex_opened) 0 ''/a.txt'' ex_content ?Q"
    unfolding os_serves_def using p r by blast
  then show ?thesis unfolding host_stable_def by (auto simp: ex_opened_def)
qed

lemma ex_cache_serves: "serves 1 ''/a.txt'' content ex_open_cache"
proof -
  have "cache_ok ex_cache" unfolding ex_cache_def by (rule cache_init_ok)
  then have "cache_ok ex_open_cache" unfolding ex_open_cache_def by (rule fh_ops_ok)
  moreover have "c_files ex_open_cache = Map.empty" "c_neg ex_open_cache = []"
    by (simp_all add: ex_open_cache_def fh_add_def ex_cache_def cache_init_def Let_def)
  ultimately show ?thesis
    by (simp add: serves_def faithful_def blk_def readable_def ex_open_cache_def fh_add_def fh_new_def)
qed

theorem cached_read_transparent_witness:
  "let (r, c, sv) = cache_request (host_fs ex_api) (op_code OP_READ) (read_req 1 1 3) (ex_open_cache, ex_opened)
   in r = (0, str_bytes ''ell'')"
proof -
  obtain st resp c sv where r: "cache_request (host_fs ex_api) (op_code OP_READ) (read_req 1 1 3)
      (ex_open_cache, ex_opened) = ((st, resp), c, sv)" by (metis prod.exhaust)
  have "(3 :: u32) \<le> kMaxIO" by (simp add: kMaxIO_val)
  from cached_read_transparent [OF ex_host_stable ex_cache_serves this r]
  show ?thesis unfolding r by (simp add: str_bytes_def)
qed

end
