(* ===== verification/CacheThreads.thy ===== *)
theory CacheThreads
  imports CacheRead
begin

text \<open>
  The interleavings of the read cache: mount threads and prefetch workers run \<open>blockFetch\<close> while others
  close handles and invalidations arrive. Each step is one critical section of the code, or a request on
  its way to the host. Shown: a block is fetched by one thread at a time, a handle is released on
  the host only when no read of it is in flight, and what a fetch does that overlaps an invalidation.
\<close>

section \<open>Threads\<close>

text \<open>A fetch carries path, handle, version and block index, like a prefetch job.\<close>

datatype activity =
    Want job
  | Begin job
  | Asking job
  | Answered job int bytes
  | Store job int bytes
  | Close u64
  | Draining u64
  | Releasing u64

fun job_key :: "job \<Rightarrow> block_key" where
  "job_key (p, h, sz, mt, i) = (p, i)"

fun job_handle :: "job \<Rightarrow> u64" where
  "job_handle (p, h, sz, mt, i) = h"

text \<open>The block a thread is fetching, and the handle it is reading from, by its activity.\<close>

primrec fetching :: "activity \<Rightarrow> block_key option" where
  "fetching (Want j) = None"
| "fetching (Begin j) = Some (job_key j)"
| "fetching (Asking j) = Some (job_key j)"
| "fetching (Answered j st resp) = Some (job_key j)"
| "fetching (Store j st resp) = Some (job_key j)"
| "fetching (Close h) = None"
| "fetching (Draining h) = None"
| "fetching (Releasing h) = None"

primrec reading :: "activity \<Rightarrow> u64 option" where
  "reading (Want j) = None"
| "reading (Begin j) = None"
| "reading (Asking j) = Some (job_handle j)"
| "reading (Answered j st resp) = Some (job_handle j)"
| "reading (Store j st resp) = None"
| "reading (Close h) = None"
| "reading (Draining h) = None"
| "reading (Releasing h) = None"

record threads =
  tc_cache :: cache
  tc_act :: "nat \<rightharpoonup> activity"

definition goes :: "nat \<Rightarrow> activity option \<Rightarrow> cache \<Rightarrow> threads \<Rightarrow> threads" where
  "goes t a c s = s\<lparr>tc_cache := c, tc_act := (tc_act s)(t := a)\<rparr>"

inductive cache_thread :: "threads \<Rightarrow> threads \<Rightarrow> bool" where
  start_fetch: "tc_act s t = None \<Longrightarrow> cache_thread s (goes t (Some (Want j)) (tc_cache s) s)"
| hit: "tc_act s t = Some (Want (p, h, sz, mt, i)) \<Longrightarrow>
     fetch_claim p sz mt i (tc_cache s) = (Hit b, c) \<Longrightarrow> cache_thread s (goes t None c s)"
| busy: "tc_act s t = Some (Want (p, h, sz, mt, i)) \<Longrightarrow>
     fetch_claim p sz mt i (tc_cache s) = (Busy, c) \<Longrightarrow>
     cache_thread s (goes t (Some (Want (p, h, sz, mt, i))) c s)"
| claim: "tc_act s t = Some (Want (p, h, sz, mt, i)) \<Longrightarrow>
     fetch_claim p sz mt i (tc_cache s) = (Claimed, c) \<Longrightarrow>
     cache_thread s (goes t (Some (Begin (p, h, sz, mt, i))) c s)"
| ask: "tc_act s t = Some (Begin j) \<Longrightarrow> fh_begin_read (job_handle j) (tc_cache s) = (True, c) \<Longrightarrow>
     cache_thread s (goes t (Some (Asking j)) c s)"
| refused: "tc_act s t = Some (Begin j) \<Longrightarrow> fh_begin_read (job_handle j) (tc_cache s) = (False, c) \<Longrightarrow>
     cache_thread s (goes t (Some (Store j kEBADF [])) c s)"
| answer: "tc_act s t = Some (Asking j) \<Longrightarrow>
     cache_thread s (goes t (Some (Answered j st resp)) (tc_cache s) s)"
| end_read: "tc_act s t = Some (Answered j st resp) \<Longrightarrow>
     cache_thread s (goes t (Some (Store j st resp)) (fh_end_read (job_handle j) (tc_cache s)) s)"
| stored: "tc_act s t = Some (Store (p, h, sz, mt, i) st resp) \<Longrightarrow>
     fetch_store p sz mt i st resp (tc_cache s) = (r, c) \<Longrightarrow> cache_thread s (goes t None c s)"
| start_close: "tc_act s t = None \<Longrightarrow> cache_thread s (goes t (Some (Close h)) (tc_cache s) s)"
| mark: "tc_act s t = Some (Close h) \<Longrightarrow>
     cache_thread s (goes t (Some (Draining h)) (fh_mark_closing h (tc_cache s)) s)"
| drained: "tc_act s t = Some (Draining h) \<Longrightarrow> fh_drained h (tc_cache s) \<Longrightarrow>
     cache_thread s (goes t (Some (Releasing h)) (tc_cache s) s)"
| released: "tc_act s t = Some (Releasing h) \<Longrightarrow>
     cache_thread s (goes t None (fh_remove h (tc_cache s)) s)"
| opened: "c_fh (tc_cache s) h = None \<Longrightarrow> \<forall>t a. tc_act s t = Some a \<longrightarrow> a \<noteq> Draining h \<and> a \<noteq> Releasing h \<Longrightarrow>
     cache_thread s (s\<lparr>tc_cache := fh_add h p (tc_cache s)\<rparr>)"
| invalidated: "cache_thread s (s\<lparr>tc_cache := on_invalidate p (tc_cache s)\<rparr>)"

inductive threads_reachable :: "threads \<Rightarrow> bool" where
  init: "threads_reachable \<lparr>tc_cache = cache_init clk mem bgn, tc_act = Map.empty\<rparr>"
| step: "threads_reachable s \<Longrightarrow> cache_thread s s' \<Longrightarrow> threads_reachable s'"

section \<open>The invariant\<close>

text \<open>Of a handle only the number of active reads and the closing flag matter here.\<close>

definition fhs :: "cache \<Rightarrow> u64 \<Rightarrow> (int \<times> bool) option" where
  "fhs c h = map_option (\<lambda>f. (fi_active_reads f, fi_closing f)) (c_fh c h)"

definition readers :: "(nat \<rightharpoonup> activity) \<Rightarrow> u64 \<Rightarrow> nat set" where
  "readers act h = {t. \<exists>a. act t = Some a \<and> reading a = Some h}"

definition handles_ok :: "(u64 \<Rightarrow> (int \<times> bool) option) \<Rightarrow> (nat \<rightharpoonup> activity) \<Rightarrow> bool" where
  "handles_ok F act \<longleftrightarrow>
     (\<forall>h. finite (readers act h)) \<and>
     (\<forall>h n cl. F h = Some (n, cl) \<longrightarrow> n = int (card (readers act h))) \<and>
     (\<forall>h. F h = None \<longrightarrow> readers act h = {}) \<and>
     (\<forall>t h n cl. act t = Some (Draining h) \<longrightarrow> F h = Some (n, cl) \<longrightarrow> cl) \<and>
     (\<forall>t h. act t = Some (Releasing h) \<longrightarrow> readers act h = {} \<and> (\<forall>n cl. F h = Some (n, cl) \<longrightarrow> cl))"

definition fetches_ok :: "block_key set \<Rightarrow> (nat \<rightharpoonup> activity) \<Rightarrow> bool" where
  "fetches_ok I act \<longleftrightarrow>
     (\<forall>t a k. act t = Some a \<longrightarrow> fetching a = Some k \<longrightarrow> k \<in> I) \<and>
     (\<forall>t u a b k. act t = Some a \<longrightarrow> act u = Some b \<longrightarrow> fetching a = Some k \<longrightarrow>
        fetching b = Some k \<longrightarrow> t = u)"

definition threads_ok :: "threads \<Rightarrow> bool" where
  "threads_ok s \<longleftrightarrow> handles_ok (fhs (tc_cache s)) (tc_act s) \<and> fetches_ok (c_inflight (tc_cache s)) (tc_act s)"

subsection \<open>What the critical sections do to the handles and the claims\<close>

lemma fetch_claim_effect:
  assumes "fetch_claim p sz mt i c = (r, c')"
  shows "fhs c' = fhs c"
    and "c_inflight c' = (if r = Claimed then insert (p, i) (c_inflight c) else c_inflight c)"
    and "r = Claimed \<Longrightarrow> (p, i) \<notin> c_inflight c"
proof -
  obtain g c1 where g: "block_get p sz mt i c = (g, c1)" by (cases "block_get p sz mt i c")
  have e: "c_fh c1 = c_fh c" "c_inflight c1 = c_inflight c"
    using g by (auto simp: block_get_def split: option.splits if_splits)
  show "fhs c' = fhs c"
    "c_inflight c' = (if r = Claimed then insert (p, i) (c_inflight c) else c_inflight c)"
    "r = Claimed \<Longrightarrow> (p, i) \<notin> c_inflight c"
    using assms g e by (auto simp: fetch_claim_def fhs_def fun_eq_iff split: option.splits if_splits)
qed

lemma fetch_store_effect:
  assumes "fetch_store p sz mt i st resp c = (r, c')"
  shows "fhs c' = fhs c" "c_inflight c' = c_inflight c - {(p, i)}"
proof -
  let ?c = "c\<lparr>c_inflight := c_inflight c - {(p, i)}\<rparr>"
  obtain b c1 where b: "budget_now ?c = (b, c1)" by (cases "budget_now ?c")
  have "c_fh c1 = c_fh c" "c_inflight c1 = c_inflight c - {(p, i)}"
    using b by (auto simp: budget_now_def now_ms_def sample_ram_def Let_def split: prod.splits if_splits)
  then show "fhs c' = fhs c" "c_inflight c' = c_inflight c - {(p, i)}"
    using assms b by (auto simp: fetch_store_def Let_def fhs_def fun_eq_iff split: if_splits)
qed

lemma fh_begin_effect:
  assumes "fh_begin_read h c = (ok, c')"
  shows "c_inflight c' = c_inflight c"
    and "ok \<Longrightarrow> \<exists>n. fhs c h = Some (n, False) \<and> fhs c' = (fhs c)(h \<mapsto> (n + 1, False))"
    and "\<not> ok \<Longrightarrow> c' = c"
  using assms by (auto simp: fh_begin_read_def fhs_def fun_eq_iff split: option.splits if_splits)

lemma fh_end_effect:
  "c_inflight (fh_end_read h c) = c_inflight c"
  "fhs (fh_end_read h c) = (fhs c)(h := map_option (\<lambda>(n, cl). (n - 1, cl)) (fhs c h))"
  by (auto simp: fh_end_read_def fhs_def fun_eq_iff split: option.splits)

lemma fh_mark_effect:
  "c_inflight (fh_mark_closing h c) = c_inflight c"
  "fhs (fh_mark_closing h c) = (fhs c)(h := map_option (\<lambda>(n, cl). (n, True)) (fhs c h))"
  by (auto simp: fh_mark_closing_def fhs_def fun_eq_iff split: option.splits)

lemma fh_table_effect:
  "c_inflight (fh_remove h c) = c_inflight c" "fhs (fh_remove h c) = (fhs c)(h := None)"
  "c_inflight (fh_add h p c) = c_inflight c" "fhs (fh_add h p c) = (fhs c)(h \<mapsto> (0, False))"
  by (auto simp: fh_remove_def fh_add_def fh_new_def fhs_def fun_eq_iff)

lemma on_invalidate_effect:
  "c_inflight (on_invalidate p c) = c_inflight c" "fhs (on_invalidate p c) = fhs c"
proof -
  show "c_inflight (on_invalidate p c) = c_inflight c"
    by (simp add: on_invalidate_def dir_erase_def invalidate_file_def clear_fh_version_def meta_erase_def)
  show "fhs (on_invalidate p c) = fhs c"
    by (rule ext) (simp add: on_invalidate_def dir_erase_def invalidate_file_def clear_fh_version_def
        meta_erase_def fhs_def option.map_comp o_def if_distrib cong: if_cong option.map_cong)
qed

subsection \<open>Preservation\<close>

lemma readers_upd:
  "readers (act(t := x)) h =
     (if \<exists>a. x = Some a \<and> reading a = Some h then insert t (readers act h) else readers act h - {t})"
  by (auto simp: readers_def)

lemma readers_same:
  assumes "act t = Some a" "reading a = r" "x = Some b" "reading b = r"
  shows "readers (act(t := x)) = readers act"
  using assms by (auto simp: readers_def fun_eq_iff)

lemma readers_none:
  assumes "case act t of None \<Rightarrow> True | Some a \<Rightarrow> reading a = None" "case x of None \<Rightarrow> True | Some a \<Rightarrow> reading a = None"
  shows "readers (act(t := x)) = readers act"
  using assms by (auto simp: readers_def fun_eq_iff split: option.splits)

lemma handles_okI:
  assumes "\<And>h. finite (readers act h)" "\<And>h n cl. F h = Some (n, cl) \<Longrightarrow> n = int (card (readers act h))"
    "\<And>h. F h = None \<Longrightarrow> readers act h = {}"
    "\<And>t h n cl. act t = Some (Draining h) \<or> act t = Some (Releasing h) \<Longrightarrow> F h = Some (n, cl) \<Longrightarrow> cl"
    "\<And>t h. act t = Some (Releasing h) \<Longrightarrow> readers act h = {}"
  shows "handles_ok F act"
  unfolding handles_ok_def using assms by blast

lemma handles_okD:
  assumes "handles_ok F act"
  shows "finite (readers act h)" "F h = Some (n, cl) \<Longrightarrow> n = int (card (readers act h))"
    "F h = None \<Longrightarrow> readers act h = {}"
    "act t = Some (Draining h) \<or> act t = Some (Releasing h) \<Longrightarrow> F h = Some (n, cl) \<Longrightarrow> cl"
    "act t = Some (Releasing h) \<Longrightarrow> readers act h = {}"
  using assms unfolding handles_ok_def by blast+

lemma fetches_okD:
  assumes "fetches_ok I act"
  shows "act t = Some a \<Longrightarrow> fetching a = Some k \<Longrightarrow> k \<in> I"
    "act t = Some a \<Longrightarrow> act u = Some b \<Longrightarrow> fetching a = Some k \<Longrightarrow> fetching b = Some k \<Longrightarrow> t = u"
  using assms unfolding fetches_ok_def by blast+

text \<open>A thread that neither starts nor ends a read, and does not enter the closing phases.\<close>

lemma handles_ok_act:
  assumes "handles_ok F act" "readers (act(t := x)) = readers act"
    "\<And>h. x \<noteq> Some (Draining h) \<and> x \<noteq> Some (Releasing h)"
  shows "handles_ok F (act(t := x))"
proof (rule handles_okI)
  show "n = int (card (readers (act(t := x)) h))" if "F h = Some (n, cl)" for h n cl
    unfolding assms(2) by (rule handles_okD(2) [OF assms(1) that])
  show "cl" if "(act(t := x)) u = Some (Draining h) \<or> (act(t := x)) u = Some (Releasing h)" "F h = Some (n, cl)" for u h n cl
    using that assms(3) by (intro handles_okD(4) [OF assms(1) _ that(2), of u]) (auto split: if_splits)
  show "readers (act(t := x)) h = {}" if "(act(t := x)) u = Some (Releasing h)" for u h
    unfolding assms(2) using that assms(3) by (intro handles_okD(5) [OF assms(1), of u]) (auto split: if_splits)
qed (use assms(2) handles_okD(1,3) [OF assms(1)] in auto)

lemma fetches_ok_act:
  assumes "fetches_ok I act"
    "\<And>a k. x = Some a \<Longrightarrow> fetching a = Some k \<Longrightarrow> \<exists>b. act t = Some b \<and> fetching b = Some k"
  shows "fetches_ok I (act(t := x))"
proof -
  have old: "\<exists>b. act u = Some b \<and> fetching b = Some k"
    if "(act(t := x)) u = Some a" "fetching a = Some k" for u a k
    using that assms(2) [of a k] by (cases "u = t") auto
  show ?thesis
    unfolding fetches_ok_def using old fetches_okD [OF assms(1)] by meson
qed

lemma fetches_ok_claim:
  assumes "fetches_ok I act" "k \<notin> I" "fetching a = Some k"
  shows "fetches_ok (insert k I) (act(t \<mapsto> a))"
  unfolding fetches_ok_def
proof (intro conjI allI impI)
  fix u b k' assume b: "(act(t \<mapsto> a)) u = Some b" "fetching b = Some k'"
  then show "k' \<in> insert k I"
    using assms(3) fetches_okD(1) [OF assms(1)] by (cases "u = t") auto
next
  fix u v b d k'
  assume *: "(act(t \<mapsto> a)) u = Some b" "(act(t \<mapsto> a)) v = Some d" "fetching b = Some k'" "fetching d = Some k'"
  then show "u = v"
    using fetches_okD(1) [OF assms(1), of _ _ k] fetches_okD(2) [OF assms(1), of u b v d k'] assms(2,3)
    by (cases "u = t"; cases "v = t") auto
qed

lemma fetches_ok_release:
  assumes "fetches_ok I act" "act t = Some a" "fetching a = Some k"
  shows "fetches_ok (I - {k}) (act(t := None))"
  unfolding fetches_ok_def
proof (intro conjI allI impI)
  fix u b k' assume b: "(act(t := None)) u = Some b" "fetching b = Some k'"
  then have "u \<noteq> t" "act u = Some b" by (auto split: if_splits)
  then show "k' \<in> I - {k}"
    using fetches_okD(1) [OF assms(1) \<open>act u = Some b\<close> b(2)] fetches_okD(2) [OF assms(1,2) _ assms(3), of u b] b(2)
    by auto
next
  fix u v b d k'
  assume "(act(t := None)) u = Some b" "(act(t := None)) v = Some d" "fetching b = Some k'" "fetching d = Some k'"
  then show "u = v" using fetches_okD(2) [OF assms(1), of u b v d k'] by (auto split: if_splits)
qed

text \<open>Starting and ending a read.\<close>

lemma handles_ok_begin:
  assumes "handles_ok F act" "F h = Some (n, False)" "act t = Some a" "reading a = None" "reading b = Some h"
  shows "handles_ok (F(h \<mapsto> (n + 1, False))) (act(t \<mapsto> b))"
proof -
  have t: "t \<notin> readers act h'" for h' using assms(3,4) by (auto simp: readers_def)
  have r: "readers (act(t \<mapsto> b)) h' = (if h' = h then insert t (readers act h) else readers act h')" for h'
    using assms(5) t by (auto simp: readers_upd)
  have b: "b \<noteq> Draining g \<and> b \<noteq> Releasing g" for g using assms(5) by auto
  note d = handles_okD [OF assms(1)]
  show ?thesis
  proof (rule handles_okI)
    fix g show "finite (readers (act(t \<mapsto> b)) g)" using d(1) by (simp add: r)
  next
    fix g m cl assume "(F(h \<mapsto> (n + 1, False))) g = Some (m, cl)"
    then show "m = int (card (readers (act(t \<mapsto> b)) g))"
      using d(2) [of g m cl] d(2) [OF assms(2)] t d(1) by (auto simp: r split: if_splits)
  next
    fix g assume "(F(h \<mapsto> (n + 1, False))) g = None"
    then show "readers (act(t \<mapsto> b)) g = {}" using d(3) by (auto simp: r split: if_splits)
  next
    fix u g m cl
    assume *: "(act(t \<mapsto> b)) u = Some (Draining g) \<or> (act(t \<mapsto> b)) u = Some (Releasing g)"
      "(F(h \<mapsto> (n + 1, False))) g = Some (m, cl)"
    then have u: "act u = Some (Draining g) \<or> act u = Some (Releasing g)" using b by (auto split: if_splits)
    then have "g \<noteq> h" using d(4) [OF _ assms(2), of u] by auto
    then show cl using d(4) [OF u] *(2) by simp
  next
    fix u g assume "(act(t \<mapsto> b)) u = Some (Releasing g)"
    then have u: "act u = Some (Releasing g)" using b by (auto split: if_splits)
    then have "g \<noteq> h" using d(4) [OF _ assms(2), of u] by auto
    then show "readers (act(t \<mapsto> b)) g = {}" using d(5) [OF u] by (simp add: r)
  qed
qed

lemma handles_ok_end:
  assumes "handles_ok F act" "act t = Some a" "reading a = Some h" "reading b = None"
    "\<And>g. b \<noteq> Draining g \<and> b \<noteq> Releasing g"
  shows "handles_ok (F(h := map_option (\<lambda>(n, cl). (n - 1, cl)) (F h))) (act(t \<mapsto> b))"
proof -
  have t: "t \<in> readers act h" "h' \<noteq> h \<Longrightarrow> t \<notin> readers act h'" for h' using assms(2,3) by (auto simp: readers_def)
  have r: "readers (act(t \<mapsto> b)) h' = (if h' = h then readers act h - {t} else readers act h')" for h'
    using assms(4) t by (auto simp: readers_upd)
  note d = handles_okD [OF assms(1)]
  have c: "int (card (readers act h - {t})) = int (card (readers act h)) - 1"
    using d(1) t(1) card_gt_0_iff [of "readers act h"] by (auto simp: card_Diff_singleton of_nat_diff Suc_leI)
  let ?F = "F(h := map_option (\<lambda>(n, cl). (n - 1, cl)) (F h))"
  show ?thesis
  proof (rule handles_okI)
    fix g show "finite (readers (act(t \<mapsto> b)) g)" using d(1) by (simp add: r)
  next
    fix g m cl assume "?F g = Some (m, cl)"
    then show "m = int (card (readers (act(t \<mapsto> b)) g))"
      using d(2) [of g] c by (auto simp: r split: if_splits)
  next
    fix g assume "?F g = None"
    then show "readers (act(t \<mapsto> b)) g = {}" using d(3) [of g] by (auto simp: r split: if_splits)
  next
    fix u g m cl
    assume *: "(act(t \<mapsto> b)) u = Some (Draining g) \<or> (act(t \<mapsto> b)) u = Some (Releasing g)" "?F g = Some (m, cl)"
    then have u: "act u = Some (Draining g) \<or> act u = Some (Releasing g)" using assms(5) by (auto split: if_splits)
    obtain m' where "F g = Some (m', cl)" using *(2) by (auto split: if_splits)
    then show cl by (rule d(4) [OF u])
  next
    fix u g assume "(act(t \<mapsto> b)) u = Some (Releasing g)"
    then have "act u = Some (Releasing g)" using assms(5) by (auto split: if_splits)
    then show "readers (act(t \<mapsto> b)) g = {}" using d(5) t by (auto simp: r)
  qed
qed


text \<open>Closing: marked, drained, released, and a new handle.\<close>

lemma handles_ok_mark:
  assumes "handles_ok F act" "act t = Some (Close h)"
  shows "handles_ok (F(h := map_option (\<lambda>(n, cl). (n, True)) (F h))) (act(t \<mapsto> Draining h))"
proof -
  have r: "readers (act(t \<mapsto> Draining h)) = readers act" by (rule readers_none) (use assms(2) in auto)
  note d = handles_okD [OF assms(1)]
  let ?F = "F(h := map_option (\<lambda>(n, cl). (n, True)) (F h))"
  show ?thesis
  proof (rule handles_okI)
    fix g n cl assume "?F g = Some (n, cl)"
    then show "n = int (card (readers (act(t \<mapsto> Draining h)) g))"
      using d(2) [of g] by (auto simp: r split: if_splits)
  next
    fix g assume "?F g = None"
    then show "readers (act(t \<mapsto> Draining h)) g = {}" using d(3) [of g] by (auto simp: r split: if_splits)
  next
    fix u g n cl
    assume *: "(act(t \<mapsto> Draining h)) u = Some (Draining g) \<or> (act(t \<mapsto> Draining h)) u = Some (Releasing g)"
      "?F g = Some (n, cl)"
    show cl
    proof (cases "g = h")
      case True
      then show ?thesis using *(2) by auto
    next
      case False
      then have "act u = Some (Draining g) \<or> act u = Some (Releasing g)" using *(1) by (auto split: if_splits)
      then show ?thesis using d(4) [of u g n cl] *(2) False by simp
    qed
  qed (use d(1,5) in \<open>auto simp: r split: if_splits\<close>)
qed

lemma handles_ok_drained:
  assumes "handles_ok F act" "act t = Some (Draining h)" "F h = None \<or> (\<exists>cl. F h = Some (0, cl))"
  shows "handles_ok F (act(t \<mapsto> Releasing h))"
proof -
  have r: "readers (act(t \<mapsto> Releasing h)) = readers act" by (rule readers_none) (use assms(2) in auto)
  note d = handles_okD [OF assms(1)]
  have e: "readers act h = {}"
    using assms(3) d(3) [of h] d(2) [of h 0] d(1) [of h] by auto
  show ?thesis
  proof (rule handles_okI)
    fix u g n cl
    assume *: "(act(t \<mapsto> Releasing h)) u = Some (Draining g) \<or> (act(t \<mapsto> Releasing h)) u = Some (Releasing g)"
      "F g = Some (n, cl)"
    then have "\<exists>v. act v = Some (Draining g) \<or> act v = Some (Releasing g)"
      using assms(2) by (auto split: if_splits)
    then show cl using d(4) [OF _ *(2)] by blast
  next
    fix u g assume "(act(t \<mapsto> Releasing h)) u = Some (Releasing g)"
    then show "readers (act(t \<mapsto> Releasing h)) g = {}" using e d(5) by (auto simp: r split: if_splits)
  qed (use d(1-3) in \<open>auto simp: r\<close>)
qed

lemma handles_ok_released:
  assumes "handles_ok F act" "act t = Some (Releasing h)"
  shows "handles_ok (F(h := None)) (act(t := None))"
proof -
  have r: "readers (act(t := None)) = readers act" by (rule readers_none) (use assms(2) in auto)
  note d = handles_okD [OF assms(1)]
  show ?thesis
  proof (rule handles_okI)
    fix g assume "(F(h := None)) g = None"
    then show "readers (act(t := None)) g = {}"
      using d(3) d(5) [OF assms(2)] by (cases "g = h") (auto simp: r)
  next
    fix u g n cl
    assume "(act(t := None)) u = Some (Draining g) \<or> (act(t := None)) u = Some (Releasing g)" "(F(h := None)) g = Some (n, cl)"
    then show cl using d(4) [of u g n cl] by (auto split: if_splits)
  qed (use d(1,2,5) in \<open>auto simp: r split: if_splits\<close>)
qed

lemma handles_ok_opened:
  assumes "handles_ok F act" "F h = None" "\<And>t. act t \<noteq> Some (Draining h) \<and> act t \<noteq> Some (Releasing h)"
  shows "handles_ok (F(h \<mapsto> (0, False))) act"
proof -
  note d = handles_okD [OF assms(1)]
  show ?thesis
  proof (rule handles_okI)
    fix u g n cl
    assume *: "act u = Some (Draining g) \<or> act u = Some (Releasing g)" "(F(h \<mapsto> (0, False))) g = Some (n, cl)"
    then have "F g = Some (n, cl)" using assms(3) by (auto split: if_splits)
    then show cl by (rule d(4) [OF *(1)])
  qed (use d(1-3,5) assms(2) in \<open>auto split: if_splits\<close>)
qed

lemma threads_ok_step:
  assumes "threads_ok s" "cache_thread s s'"
  shows "threads_ok s'"
proof -
  let ?act = "tc_act s" and ?c = "tc_cache s"
  have H: "handles_ok (fhs ?c) ?act" and I: "fetches_ok (c_inflight ?c) ?act"
    using assms(1) by (simp_all add: threads_ok_def)
  have quiet: "threads_ok (goes t x c s)"
    if "fhs c = fhs ?c" "c_inflight c = c_inflight ?c" "readers (?act(t := x)) = readers ?act"
      "\<And>h. x \<noteq> Some (Draining h) \<and> x \<noteq> Some (Releasing h)"
      "\<And>a k. x = Some a \<Longrightarrow> fetching a = Some k \<Longrightarrow> \<exists>b. ?act t = Some b \<and> fetching b = Some k" for t x c
    using handles_ok_act [OF H that(3,4)] fetches_ok_act [OF I that(5)] that(1,2)
    by (simp add: threads_ok_def goes_def)
  from assms(2) show ?thesis
  proof (cases rule: cache_thread.cases)
    case (start_fetch t)
    then show ?thesis by (auto intro!: quiet readers_none)
  next
    case (hit t p h sz mt i b c)
    then show ?thesis using fetch_claim_effect [OF hit(3)] by (auto intro!: quiet readers_none)
  next
    case (busy t p h sz mt i c)
    then show ?thesis using fetch_claim_effect [OF busy(3)] by (auto intro!: quiet readers_none)
  next
    case (claim t p h sz mt i c)
    note e = fetch_claim_effect [OF claim(3)]
    let ?a = "Begin (p, h, sz, mt, i)"
    have "readers (?act(t \<mapsto> ?a)) = readers ?act" by (rule readers_none) (use claim(2) in auto)
    then have "handles_ok (fhs c) (?act(t \<mapsto> ?a))" using handles_ok_act [OF H] e(1) by simp
    moreover have "fetches_ok (c_inflight c) (?act(t \<mapsto> ?a))"
      using fetches_ok_claim [OF I e(3), of ?a t] e(2) by simp
    ultimately show ?thesis using claim(1) by (simp add: threads_ok_def goes_def)
  next
    case (ask t j c)
    note e = fh_begin_effect [OF ask(3)]
    obtain n where n: "fhs ?c (job_handle j) = Some (n, False)" "fhs c = (fhs ?c)(job_handle j \<mapsto> (n + 1, False))"
      using e(2) by auto
    have "handles_ok (fhs c) (?act(t \<mapsto> Asking j))"
      unfolding n(2) by (rule handles_ok_begin [OF H n(1) ask(2)]) simp_all
    moreover have "fetches_ok (c_inflight c) (?act(t \<mapsto> Asking j))"
      unfolding e(1) by (rule fetches_ok_act [OF I]) (use ask(2) in auto)
    ultimately show ?thesis using ask(1) by (simp add: threads_ok_def goes_def)
  next
    case (refused t j c)
    then show ?thesis using fh_begin_effect(3) [OF refused(3)] by (auto intro!: quiet readers_none)
  next
    case (answer t j st resp)
    have "readers (?act(t \<mapsto> Answered j st resp)) = readers ?act"
      by (rule readers_same [where a = "Asking j" and b = "Answered j st resp" and r = "Some (job_handle j)"])
        (use answer(2) in simp_all)
    then show ?thesis using answer by (auto intro!: quiet)
  next
    case (end_read t j st resp)
    have "handles_ok (fhs (fh_end_read (job_handle j) ?c)) (?act(t \<mapsto> Store j st resp))"
      unfolding fh_end_effect(2) by (rule handles_ok_end [OF H end_read(2)]) simp_all
    moreover have "fetches_ok (c_inflight (fh_end_read (job_handle j) ?c)) (?act(t \<mapsto> Store j st resp))"
      unfolding fh_end_effect(1) by (rule fetches_ok_act [OF I]) (use end_read(2) in auto)
    ultimately show ?thesis using end_read(1) by (simp add: threads_ok_def goes_def)
  next
    case (stored t p h sz mt i st resp r c)
    note e = fetch_store_effect [OF stored(3)]
    have "readers (?act(t := None)) = readers ?act" by (rule readers_none) (use stored(2) in auto)
    then have "handles_ok (fhs c) (?act(t := None))" using handles_ok_act [OF H] e(1) by simp
    moreover have "fetches_ok (c_inflight c) (?act(t := None))"
      unfolding e(2) by (rule fetches_ok_release [OF I stored(2)]) simp
    ultimately show ?thesis using stored(1) by (simp add: threads_ok_def goes_def)
  next
    case (start_close t h)
    then show ?thesis by (auto intro!: quiet readers_none)
  next
    case (mark t h)
    have "handles_ok (fhs (fh_mark_closing h ?c)) (?act(t \<mapsto> Draining h))"
      unfolding fh_mark_effect(2) by (rule handles_ok_mark [OF H mark(2)])
    moreover have "fetches_ok (c_inflight (fh_mark_closing h ?c)) (?act(t \<mapsto> Draining h))"
      unfolding fh_mark_effect(1) by (rule fetches_ok_act [OF I]) auto
    ultimately show ?thesis using mark(1) by (simp add: threads_ok_def goes_def)
  next
    case (drained t h)
    have "fhs ?c h = None \<or> (\<exists>cl. fhs ?c h = Some (0, cl))"
      using drained(3) by (auto simp: fh_drained_def fhs_def split: option.splits)
    then have "handles_ok (fhs ?c) (?act(t \<mapsto> Releasing h))" by (rule handles_ok_drained [OF H drained(2)])
    moreover have "fetches_ok (c_inflight ?c) (?act(t \<mapsto> Releasing h))"
      by (rule fetches_ok_act [OF I]) auto
    ultimately show ?thesis using drained(1) by (simp add: threads_ok_def goes_def)
  next
    case (released t h)
    have "handles_ok (fhs (fh_remove h ?c)) (?act(t := None))"
      unfolding fh_table_effect by (rule handles_ok_released [OF H released(2)])
    moreover have "fetches_ok (c_inflight (fh_remove h ?c)) (?act(t := None))"
      unfolding fh_table_effect by (rule fetches_ok_act [OF I]) auto
    ultimately show ?thesis using released(1) by (simp add: threads_ok_def goes_def)
  next
    case (opened h p)
    have "handles_ok (fhs (fh_add h p ?c)) ?act"
      unfolding fh_table_effect by (rule handles_ok_opened [OF H]) (use opened(2,3) in \<open>auto simp: fhs_def\<close>)
    then show ?thesis using opened(1) I by (simp add: threads_ok_def fh_table_effect)
  next
    case (invalidated p)
    then show ?thesis using H I by (simp add: threads_ok_def on_invalidate_effect)
  qed
qed

lemma threads_reachable_ok: "threads_reachable s \<Longrightarrow> threads_ok s"
proof (induction rule: threads_reachable.induct)
  case (init clk mem bgn)
  show ?case
    by (auto simp: threads_ok_def handles_ok_def fetches_ok_def readers_def fhs_def cache_init_def Let_def)
next
  case (step s s')
  then show ?case using threads_ok_step by blast
qed

section \<open>Properties\<close>


text \<open>One handle, open and then closed by a thread.\<close>

definition ex_idle :: threads where
  "ex_idle = \<lparr>tc_cache = ex_cache, tc_act = Map.empty\<rparr>"

definition ex_closing :: threads where
  "ex_closing = (let s0 = ex_idle\<lparr>tc_cache := fh_add 1 ''/f'' ex_cache\<rparr>;
     s1 = goes 0 (Some (Close 1)) (tc_cache s0) s0;
     s2 = goes 0 (Some (Draining 1)) (fh_mark_closing 1 (tc_cache s1)) s1
   in goes 0 (Some (Releasing 1)) (tc_cache s2) s2)"

lemma ex_idle_reachable: "threads_reachable ex_idle"
  unfolding ex_idle_def ex_cache_def by (rule threads_reachable.init)

lemma ex_idle_table: "c_fh (tc_cache ex_idle) h = None" "tc_act ex_idle t = None"
  by (simp_all add: ex_idle_def ex_cache_def cache_init_def Let_def)

lemma ex_closing_reachable: "threads_reachable ex_closing"
proof -
  let ?s0 = "ex_idle\<lparr>tc_cache := fh_add 1 ''/f'' ex_cache\<rparr>"
  have "cache_thread ex_idle (ex_idle\<lparr>tc_cache := fh_add 1 ''/f'' (tc_cache ex_idle)\<rparr>)"
    by (rule cache_thread.opened) (simp_all add: ex_idle_table)
  then have 0: "threads_reachable ?s0"
    using threads_reachable.step [OF ex_idle_reachable] by (simp add: ex_idle_def)
  let ?s1 = "goes 0 (Some (Close 1)) (tc_cache ?s0) ?s0"
  have 1: "threads_reachable ?s1"
    by (rule threads_reachable.step [OF 0 cache_thread.start_close]) (simp add: ex_idle_def)
  let ?s2 = "goes 0 (Some (Draining 1)) (fh_mark_closing 1 (tc_cache ?s1)) ?s1"
  have 2: "threads_reachable ?s2"
    by (rule threads_reachable.step [OF 1 cache_thread.mark]) (simp add: goes_def)
  have "threads_reachable (goes 0 (Some (Releasing 1)) (tc_cache ?s2) ?s2)"
    by (rule threads_reachable.step [OF 2 cache_thread.drained])
      (simp_all add: goes_def fh_drained_def fh_mark_closing_def fh_add_def fh_new_def)
  then show ?thesis by (simp add: ex_closing_def Let_def)
qed


text \<open>Under any interleaving at most one thread is fetching a given block from the host, and
  the block is then marked in flight.\<close>

theorem one_fetch_per_block:
  assumes "threads_reachable s" "tc_act s t = Some a" "tc_act s u = Some b"
    and "fetching a = Some k" "fetching b = Some k"
  shows "t = u \<and> k \<in> c_inflight (tc_cache s)"
  using threads_reachable_ok [OF assms(1)] fetches_okD [of "c_inflight (tc_cache s)" "tc_act s"] assms(2-5)
  by (auto simp: threads_ok_def)


abbreviation ex_job :: job where "ex_job \<equiv> (''/f'', 1, 5, 100, 0)"

definition ex_fetching :: threads where
  "ex_fetching = (let s1 = goes 0 (Some (Want ex_job)) (tc_cache ex_idle) ex_idle
   in goes 0 (Some (Begin ex_job)) (snd (fetch_claim ''/f'' 5 100 0 (tc_cache s1))) s1)"

theorem one_fetch_per_block_witness:
  "tc_act ex_fetching 0 = Some (Begin ex_job) \<and> (''/f'', 0) \<in> c_inflight (tc_cache ex_fetching)"
proof -
  let ?s1 = "goes 0 (Some (Want ex_job)) (tc_cache ex_idle) ex_idle"
  have 1: "threads_reachable ?s1"
    by (rule threads_reachable.step [OF ex_idle_reachable cache_thread.start_fetch]) (rule ex_idle_table)
  have c: "fetch_claim ''/f'' 5 100 0 (tc_cache ?s1) =
      (Claimed, snd (fetch_claim ''/f'' 5 100 0 (tc_cache ?s1)))"
    by (simp add: goes_def fetch_claim_def block_get_def ex_idle_def ex_cache_def cache_init_def Let_def)
  have r: "threads_reachable ex_fetching"
    unfolding ex_fetching_def Let_def
    by (rule threads_reachable.step [OF 1 cache_thread.claim [OF _ c]]) (simp add: goes_def)
  have t: "tc_act ex_fetching 0 = Some (Begin ex_job)" by (simp add: ex_fetching_def Let_def goes_def)
  show ?thesis using one_fetch_per_block [OF r t t, of "(''/f'', 0)"] t by simp
qed

section \<open>A fetch that overlaps an invalidation\<close>

lemma block_put_fresh:
  assumes "blocks_ok c" "c_files c p = None" "cached_bytes c + length d \<le> unat budget" "unat budget < 2 ^ 63"
  shows "fst (block_get p sz mt i (block_put p sz mt i d eof budget c)) = Some \<lparr>b_data = d, b_eof = eof\<rparr>"
proof -
  let ?fb = "\<lparr>fb_size = sz, fb_mtime = mt, fb_blocks = [(i, \<lparr>b_data = d, b_eof = eof\<rparr>)]\<rparr>"
  let ?c = "c\<lparr>c_lru := (p, i) # c_lru c, c_cur := c_cur c + of_nat (length d), c_files := (c_files c)(p \<mapsto> ?fb)\<rparr>"
  have "c_cur ?c = of_nat (cached_bytes c + length d)" using blocks_okD(5) [OF assms(1)] by simp
  then have "unat (c_cur ?c) = cached_bytes c + length d"
    using assms(3,4) by (simp only: unat_of_nat) simp
  then have "\<not> c_cur ?c > budget" using assms(3) by (simp add: word_less_nat_alt)
  then have "block_put p sz mt i d eof budget c = ?c"
    using assms(2) by (simp add: block_put_def put_block_def Let_def evict_to_budget.simps)
  then show ?thesis by (simp add: block_get_def)
qed

text \<open>A block fetch that was claimed before an invalidation of its file and answered from
  before the mutation stores its block after the invalidation; if the file then has the size
  and the mtime (whole seconds) that the fetch carried, later reads hit that block.\<close>

theorem overlapping_fetch_outlives_invalidation:
  assumes "cache_ok c" "c_files c p = None" "fetch_claim p sz mt i c = (Claimed, c1)"
    and "fetch_store p sz mt i 0 old (on_invalidate p c1) = (r, c2)"
    and "cached_bytes c + length old \<le> unat (c_budget c)" "c_clock c (c_tick c) - c_checked c \<le> 2000"
  shows "\<exists>c3. fetch_claim p sz mt i c2 = (Hit \<lparr>b_data = old, b_eof = length old < unat kBlock\<rparr>, c3)"
proof -
  have c1: "c1 = c\<lparr>c_inflight := {(p, i)}\<rparr>"
    using assms(1-3) cache_okD(8) [OF assms(1)] by (simp add: fetch_claim_def block_get_def)
  let ?v = "(on_invalidate p c1)\<lparr>c_inflight := c_inflight (on_invalidate p c1) - {(p, i)}\<rparr>"
  have f: "c_files ?v p = None" "c_lru ?v = c_lru c" "c_cur ?v = c_cur c" "c_budget ?v = c_budget c"
    "c_checked ?v = c_checked c" "c_clock ?v = c_clock c" "c_tick ?v = c_tick c" "c_files ?v = c_files c"
    using assms(2) by (auto simp: c1 on_invalidate_def dir_erase_def invalidate_file_def purge_file_def
        clear_fh_version_def meta_erase_def)
  have b: "budget_now ?v = (c_budget c, ?v\<lparr>c_tick := c_tick ?v + 1\<rparr>)"
    using assms(6) f by (simp add: budget_now_def now_ms_def)
  let ?w = "?v\<lparr>c_tick := c_tick ?v + 1\<rparr>"
  have w: "c_files ?w p = None" "blocks_ok ?w" "cached_bytes ?w = cached_bytes c"
    using f blocks_ok_frame [of ?w c] cache_okD(1) [OF assms(1)] by auto
  have "c2 = block_put p sz mt i old (length old < unat kBlock) (c_budget c) ?w"
    using assms(4) b by (simp add: fetch_store_def Let_def)
  moreover have "unat (c_budget c) < 2 ^ 63" using cache_okD(3) [OF assms(1)] by (simp add: max_budget_def)
  ultimately have "fst (block_get p sz mt i c2) = Some \<lparr>b_data = old, b_eof = length old < unat kBlock\<rparr>"
    using block_put_fresh [OF w(2,1), of old "c_budget c" sz mt i] assms(5) w(3) by simp
  then show ?thesis by (cases "block_get p sz mt i c2") (simp add: fetch_claim_def)
qed


theorem overlapping_fetch_outlives_invalidation_witness:
  "let (_, c1) = fetch_claim ''/f'' 5 100 0 ex_cache;
       (_, c2) = fetch_store ''/f'' 5 100 0 0 (str_bytes ''stale'') (on_invalidate ''/f'' c1)
   in \<exists>c3. fetch_claim ''/f'' 5 100 0 c2 = (Hit \<lparr>b_data = str_bytes ''stale'', b_eof = True\<rparr>, c3)"
proof -
  obtain c1 where 1: "fetch_claim ''/f'' 5 100 0 ex_cache = (Claimed, c1)"
    by (simp add: fetch_claim_def block_get_def ex_cache_def cache_init_def Let_def)
  obtain r c2 where 2: "fetch_store ''/f'' 5 100 0 0 (str_bytes ''stale'') (on_invalidate ''/f'' c1) = (r, c2)"
    by (cases "fetch_store ''/f'' 5 100 0 0 (str_bytes ''stale'') (on_invalidate ''/f'' c1)")
  have ok: "cache_ok ex_cache" unfolding ex_cache_def by (rule cache_init_ok)
  have s: "c_files ex_cache ''/f'' = None" "cached_bytes ex_cache + length (str_bytes ''stale'') \<le> unat (c_budget ex_cache)"
    "c_clock ex_cache (c_tick ex_cache) - c_checked ex_cache \<le> 2000"
    by (simp_all add: ex_cache_def cache_init_def Let_def cached_bytes_def compute_block_budget_def
        detect_ram_def kGiB_def kMiB_def)
  show ?thesis
    using overlapping_fetch_outlives_invalidation [OF ok s(1) 1 2 s(2,3)]
    by (simp add: 1 2 kBlock_val)
qed

end
