(* ===== verification/Base91.thy ===== *)
theory Base91
  imports Poly1305_Correct
begin

text \<open>
  The Base91 text codec of \<open>client/src/crypto/base91.cpp\<close>, with its 32-bit accumulators: 13 or 14 bits
  become two characters. Connect codes and everything in a signaling record are such text. Shown:
  decoding gives back what was encoded, whitespace is ignored, and the text that decodes is exactly
  the text that \<open>base91_is_clean\<close> accepts.
\<close>

section \<open>Alphabet\<close>

definition kBase91Alphabet :: string where
  "kBase91Alphabet = ''0123456789ABCDEFGHIJKLMNOPQRSTUVWXYZabcdefghijklmnopqrstuvwxyz!#$%&()*+,-./:;<=>?@[]^_`{|}~''"

definition kBase91Base :: nat where "kBase91Base = 91"

definition b91_char :: "nat \<Rightarrow> char" where
  "b91_char i = kBase91Alphabet ! i"

text \<open>The table entry of a character; \<open>None\<close> stands for \<open>-1\<close>.\<close>

definition decode_table :: "char \<Rightarrow> nat option" where
  "decode_table ch = map_of (zip kBase91Alphabet [0..<kBase91Base]) ch"

definition is_space :: "char \<Rightarrow> bool" where
  "is_space ch \<longleftrightarrow> (let k = of_char ch :: nat in k = 32 \<or> 9 \<le> k \<and> k \<le> 13)"

section \<open>Encoding\<close>

fun enc_loop :: "bytes \<Rightarrow> string \<times> u32 \<times> nat \<Rightarrow> string \<times> u32 \<times> nat" where
  "enc_loop [] st = st"
| "enc_loop (byte # data) (out, b, n) = (let
       b = b OR push_bit n (ucast byte);
       n = n + 8
     in if n > 13 then (let v = b AND 8191 in
          if v > 88
          then enc_loop data (out @ [b91_char (unat v mod 91), b91_char (unat v div 91)], drop_bit 13 b, n - 13)
          else (let v = b AND 16383 in
            enc_loop data (out @ [b91_char (unat v mod 91), b91_char (unat v div 91)], drop_bit 14 b, n - 14)))
        else enc_loop data (out, b, n))"

definition base91_encode :: "bytes \<Rightarrow> string" where
  "base91_encode data = (case enc_loop data ([], 0, 0) of (out, b, n) \<Rightarrow>
     if n \<noteq> 0
     then out @ [b91_char (unat b mod 91)] @ (if n > 7 \<or> b > 90 then [b91_char (unat b div 91)] else [])
     else out)"

section \<open>Decoding\<close>

text \<open>The \<open>do ... while (n > 7)\<close> loop.\<close>

function drain :: "bytes \<Rightarrow> u32 \<Rightarrow> nat \<Rightarrow> bytes \<times> u32 \<times> nat" where
  "drain out b n = (let
       out = out @ [ucast (b AND 0xff)];
       b = drop_bit 8 b;
       n = n - 8
     in if n > 7 then drain out b n else (out, b, n))"
  by pat_completeness auto
termination by (relation "measure (\<lambda>(_, _, n). n)") auto

declare drain.simps [simp del]

text \<open>The pending first character of a pair is \<open>v\<close>; \<open>None\<close> is its value \<open>-1\<close>.\<close>

fun dec_loop :: "string \<Rightarrow> nat option \<times> u32 \<times> nat \<times> bytes \<Rightarrow> (nat option \<times> u32 \<times> nat \<times> bytes) option" where
  "dec_loop [] st = Some st"
| "dec_loop (ch # text) (v, b, n, out) =
     (if is_space ch then dec_loop text (v, b, n, out)
      else (case decode_table ch of
          None \<Rightarrow> None
        | Some c \<Rightarrow> (case v of
            None \<Rightarrow> dec_loop text (Some c, b, n, out)
          | Some v0 \<Rightarrow> (let
                v = v0 + c * 91;
                b = b OR push_bit n (of_nat v);
                n = n + (if v AND 8191 > 88 then 13 else 14)
              in (case drain out b n of (out, b, n) \<Rightarrow> dec_loop text (None, b, n, out))))))"

definition base91_decode :: "string \<Rightarrow> bytes option" where
  "base91_decode text = (case dec_loop text (None, 0, 0, []) of
      None \<Rightarrow> None
    | Some (v, b, n, out) \<Rightarrow> Some (case v of
        None \<Rightarrow> out
      | Some c \<Rightarrow> out @ [ucast ((b OR push_bit n (of_nat c)) AND 0xff)]))"

definition base91_is_clean :: "string \<Rightarrow> bool" where
  "base91_is_clean text = list_all (\<lambda>ch. is_space ch \<or> decode_table ch \<noteq> None) text"

section \<open>Facts about the alphabet\<close>

lemma alphabet_length: "length kBase91Alphabet = 91"
  by (simp add: kBase91Alphabet_def)

lemma alphabet_distinct: "distinct kBase91Alphabet"
  by code_simp

lemma alphabet_no_space: "list_all (\<lambda>c. \<not> is_space c) kBase91Alphabet"
  by code_simp

lemma decode_table_char: "i < 91 \<Longrightarrow> decode_table (b91_char i) = Some i"
  unfolding decode_table_def b91_char_def kBase91Base_def
  using map_of_zip_nth [of kBase91Alphabet "[0..<91]" i] alphabet_distinct by (simp add: alphabet_length)

lemma b91_char_no_space: "i < 91 \<Longrightarrow> \<not> is_space (b91_char i)"
  using alphabet_no_space by (simp add: b91_char_def list_all_length alphabet_length)

section \<open>Whitespace and clean text\<close>

lemma dec_loop_spaces: "dec_loop (filter (\<lambda>c. \<not> is_space c) t) st = dec_loop t st"
proof (induction t arbitrary: st)
  case (Cons ch t)
  obtain v b n out where "st = (v, b, n, out)" by (metis prod_cases4)
  then show ?case using Cons by (auto simp: Let_def split: option.split prod.split)
qed simp

lemma dec_loop_clean: "dec_loop t st = None \<longleftrightarrow> \<not> base91_is_clean t"
proof (induction t arbitrary: st)
  case (Cons ch t)
  obtain v b n out where st: "st = (v, b, n, out)" by (metis prod_cases4)
  show ?case
    unfolding st using Cons.IH by (auto simp: base91_is_clean_def Let_def split: option.splits prod.splits)
qed (simp add: base91_is_clean_def)


section \<open>Values and widths\<close>

text \<open>A pair of characters carries a value of 13 or 14 bits; a text is the values of its pairs.\<close>

definition wd :: "nat \<Rightarrow> nat" where
  "wd v = (if v mod 8192 > 88 then 13 else 14)"

fun vsum :: "nat list \<Rightarrow> nat" where
  "vsum [] = 0"
| "vsum (v # vs) = v + 2 ^ wd v * vsum vs"

definition vw :: "nat list \<Rightarrow> nat" where
  "vw vs = sum_list (List.map wd vs)"

definition good :: "nat \<Rightarrow> bool" where
  "good v \<longleftrightarrow> v < 2 ^ wd v \<and> v < 8281"

definition pair :: "nat \<Rightarrow> string" where
  "pair v = [b91_char (v mod 91), b91_char (v div 91)]"

lemma vsum_append: "vsum (vs @ [v]) = vsum vs + 2 ^ vw vs * v"
  by (induction vs) (simp_all add: vw_def power_add algebra_simps)

lemma vw_append: "vw (vs @ [v]) = vw vs + wd v"
  by (simp add: vw_def)

lemma nat_and_mask: "(v :: nat) AND mask k = v mod 2 ^ k"
  by (simp only: take_bit_eq_mask [symmetric] take_bit_eq_mod)

lemma and_8191: "(v :: nat) AND 8191 = v mod 8192" "(v :: nat) AND 16383 = v mod 16384" "(v :: nat) AND 255 = v mod 256"
  using nat_and_mask [of v 13] nat_and_mask [of v 14] nat_and_mask [of v 8] by (simp_all add: mask_eq_exp_minus_1)

lemma unat_and_mask: "unat ((b :: u32) AND 8191) = unat b mod 8192" "unat ((b :: u32) AND 16383) = unat b mod 16384"
  "unat ((b :: u32) AND 0xff) = unat b mod 256"
  by (simp_all add: unsigned_and_eq and_8191)

section \<open>The encoder\<close>

lemma good_wd: "x mod 8192 > 88 \<Longrightarrow> good (x mod 8192) \<and> wd (x mod 8192) = 13"
  "\<not> x mod 8192 > 88 \<Longrightarrow> good (x mod 16384) \<and> wd (x mod 16384) = 14"
proof -
  show "good (x mod 8192) \<and> wd (x mod 8192) = 13" if "x mod 8192 > 88"
    using that by (simp add: good_def wd_def)
  show "good (x mod 16384) \<and> wd (x mod 16384) = 14" if "\<not> x mod 8192 > 88"
  proof -
    define y where "y = x mod 16384"
    have "y mod 8192 = x mod 8192" unfolding y_def by (rule mod_mod_cancel) simp
    then have y: "y mod 8192 \<le> 88" "y < 16384" using that by (simp_all add: y_def)
    have "y < 8281"
    proof (cases "y < 8192")
      case False
      then have "y mod 8192 = y - 8192" using y(2) by (simp add: mod_if)
      then show ?thesis using y(1) False by linarith
    qed simp
    then show ?thesis using y unfolding y_def [symmetric] by (simp add: good_def wd_def)
  qed
qed

text \<open>
  What the loop has written are pairs of good values, and these with the bits that are left are the
  number the data stands for.
\<close>

lemma enc_loop_values:
  assumes "n \<le> 13" "unat b < 2 ^ n"
  shows "\<exists>vs b' n'. enc_loop data (out, b, n) = (out @ concat (List.map pair vs), b', n') \<and>
    list_all good vs \<and> vsum vs + 2 ^ vw vs * unat b' = unat b + 2 ^ n * le_num data \<and>
    vw vs + n' = n + 8 * length data \<and> n' \<le> 13 \<and> unat b' < 2 ^ n'"
  using assms
proof (induction data arbitrary: out b n)
  case Nil
  then show ?case by (intro exI [of _ "[]"] exI [of _ b] exI [of _ n]) (simp add: vw_def)
next
  case (Cons byte data)
  define b1 where "b1 = b OR push_bit n (ucast byte)"
  have ub: "unat (ucast byte :: u32) = unat byte" "unat byte < 256"
    by (transfer, simp) (rule unat_byte_less)
  have small: "unat b + 2 ^ n * unat byte < 2 ^ (n + 8)"
  proof -
    have "2 ^ n * unat byte \<le> 2 ^ n * 255" using ub(2) by (intro mult_le_mono2) simp
    moreover have "(2 :: nat) ^ (n + 8) = 2 ^ n * 255 + 2 ^ n" by (simp add: power_add)
    ultimately show ?thesis using Cons.prems(2) by linarith
  qed
  have "(2 :: nat) ^ (n + 8) \<le> 2 ^ 21" using Cons.prems(1) by (intro power_increasing) simp_all
  then have b1: "unat b1 = unat b + 2 ^ n * unat byte"
    unfolding b1_def using unat_pack [OF Cons.prems(2), of "ucast byte"] Cons.prems(1) small ub(1) by simp
  have lt: "unat b1 < 2 ^ (n + 8)" "unat b1 < 2 ^ 21"
    using small b1 \<open>2 ^ (n + 8) \<le> 2 ^ 21\<close> by simp_all
  have num: "unat b + 2 ^ n * le_num (byte # data) = unat b1 + 2 ^ (n + 8) * le_num data"
    by (simp add: b1 power_add algebra_simps)
  show ?case
  proof (cases "n + 8 > 13")
    case False
    have e: "enc_loop (byte # data) (out, b, n) = enc_loop data (out, b1, n + 8)"
      using False by (simp add: b1_def Let_def)
    have "n + 8 \<le> 13" using False by simp
    then obtain vs b' n' where "enc_loop data (out, b1, n + 8) = (out @ concat (List.map pair vs), b', n')"
      "list_all good vs" "vsum vs + 2 ^ vw vs * unat b' = unat b1 + 2 ^ (n + 8) * le_num data"
      "vw vs + n' = n + 8 + 8 * length data" "n' \<le> 13" "unat b' < 2 ^ n'"
      using Cons.IH [of "n + 8" b1 out] lt(1) by blast
    with e num show ?thesis
      by (intro exI [of _ vs] exI [of _ b'] exI [of _ n']) simp
  next
    case True
    define k where "k = (if unat b1 mod 8192 > 88 then 13 else 14 :: nat)"
    define v where "v = unat b1 mod 2 ^ k"
    have kv: "good v \<and> wd v = k"
      using good_wd(1) [of "unat b1"] good_wd(2) [of "unat b1"] lt(2) by (auto simp: v_def k_def)
    have e: "enc_loop (byte # data) (out, b, n) = enc_loop data (out @ pair v, drop_bit k b1, n + 8 - k)"
    proof -
      have "unat (b1 AND 8191) = unat b1 mod 8192" "unat (b1 AND 16383) = unat b1 mod 16384"
        by (rule unat_and_mask)+
      moreover have "b1 AND 8191 > 88 \<longleftrightarrow> unat b1 mod 8192 > 88"
        by (simp add: word_less_nat_alt unat_and_mask)
      ultimately show ?thesis
        using True unfolding enc_loop.simps Let_def b1_def [symmetric] by (simp add: pair_def v_def k_def)
    qed
    have d: "unat (drop_bit k b1) = unat b1 div 2 ^ k" by (rule unat_shr)
    have k: "k \<le> n + 8" "k \<in> {13, 14}" using True by (auto simp: k_def)
    have "unat (drop_bit k b1) < 2 ^ (n + 8 - k)"
    proof -
      have "(2 :: nat) ^ (n + 8) = 2 ^ (n + 8 - k) * 2 ^ k" using k(1) by (simp flip: power_add)
      then show ?thesis using lt(1) unfolding d by (simp add: less_mult_imp_div_less)
    qed
    moreover have "n + 8 - k \<le> 13" using Cons.prems(1) k(2) by auto
    ultimately obtain vs b' n' where IH:
      "enc_loop data (out @ pair v, drop_bit k b1, n + 8 - k) = ((out @ pair v) @ concat (List.map pair vs), b', n')"
      "list_all good vs" "vsum vs + 2 ^ vw vs * unat b' = unat (drop_bit k b1) + 2 ^ (n + 8 - k) * le_num data"
      "vw vs + n' = (n + 8 - k) + 8 * length data" "n' \<le> 13" "unat b' < 2 ^ n'"
      using Cons.IH [of "n + 8 - k" "drop_bit k b1" "out @ pair v"] by blast
    have w: "vw (v # vs) = k + vw vs" using kv by (simp add: vw_def)
    have "vsum (v # vs) + 2 ^ vw (v # vs) * unat b' = v + 2 ^ k * (vsum vs + 2 ^ vw vs * unat b')"
      using kv w by (simp add: power_add algebra_simps)
    also have "\<dots> = v + 2 ^ k * (unat b1 div 2 ^ k) + 2 ^ (n + 8) * le_num data"
    proof -
      have "2 ^ k * (2 ^ (n + 8 - k) * le_num data) = 2 ^ (n + 8) * le_num data"
        using k(1) by (simp add: mult.assoc [symmetric] flip: power_add)
      then show ?thesis unfolding IH(3) d by (simp add: algebra_simps)
    qed
    also have "v + 2 ^ k * (unat b1 div 2 ^ k) = unat b1" by (simp add: v_def)
    finally have s: "vsum (v # vs) + 2 ^ vw (v # vs) * unat b' = unat b + 2 ^ n * le_num (byte # data)"
      using num by simp
    have "vw (v # vs) + n' = n + 8 * length (byte # data)" using IH(4) w k(1) by simp
    then show ?thesis
      using e IH(1,2,5,6) s kv
      by (intro exI [of _ "v # vs"] exI [of _ b'] exI [of _ n']) simp
  qed
qed


section \<open>The decoder\<close>

lemma drain_value:
  assumes "8 \<le> n" "unat b < 2 ^ n"
  shows "\<exists>d b' n'. drain out b n = (out @ d, b', n') \<and> le_num d + 256 ^ length d * unat b' = unat b \<and>
    8 * length d + n' = n \<and> n' \<le> 7 \<and> unat b' < 2 ^ n'"
  using assms
proof (induction out b n rule: drain.induct)
  case (1 out b n)
  let ?x = "ucast (b AND 0xff) :: byte" and ?b = "drop_bit 8 b"
  have x: "unat ?x = unat b mod 256"
    by (simp add: unat_and_mask unsigned_ucast_eq take_bit_eq_mod)
  have b: "unat ?b = unat b div 256" using unat_shr [of 8 b] by simp
  have split: "unat ?x + 256 * unat ?b = unat b" unfolding x b by simp
  have "(2 :: nat) ^ n = 2 ^ (n - 8) * 2 ^ 8" using 1(2) by (metis le_add_diff_inverse2 power_add)
  then have "(2 :: nat) ^ n = 2 ^ (n - 8) * 256" by simp
  then have lt: "unat ?b < 2 ^ (n - 8)" unfolding b using 1(3) by (simp add: less_mult_imp_div_less)
  show ?case
  proof (cases "n - 8 > 7")
    case True
    then obtain d b' n' where IH: "drain (out @ [?x]) ?b (n - 8) = ((out @ [?x]) @ d, b', n')"
      "le_num d + 256 ^ length d * unat b' = unat ?b" "8 * length d + n' = n - 8" "n' \<le> 7" "unat b' < 2 ^ n'"
      using 1(1) [OF refl refl refl True _ lt] by auto
    have e: "drain out b n = drain (out @ [?x]) ?b (n - 8)" using True by (subst drain.simps) (simp add: Let_def)
    have "le_num (?x # d) + 256 ^ length (?x # d) * unat b' = unat b"
      using IH(2) split by (simp add: algebra_simps)
    then show ?thesis
      using e IH(1,3-5) 1(2) by (intro exI [of _ "?x # d"] exI [of _ b'] exI [of _ n']) simp
  next
    case False
    have e: "drain out b n = (out @ [?x], ?b, n - 8)" using False by (subst drain.simps) (simp add: Let_def)
    have "le_num [?x] + 256 ^ length [?x] * unat ?b = unat b" using split by simp
    then show ?thesis
      using e False lt 1(2) by (intro exI [of _ "[?x]"] exI [of _ ?b] exI [of _ "n - 8"]) simp
  qed
qed

lemma dec_pair:
  assumes "good v" "n \<le> 7" "unat b < 2 ^ n"
  shows "\<exists>d b' n'. dec_loop (pair v @ rest) (None, b, n, out) = dec_loop rest (None, b', n', out @ d) \<and>
    le_num d + 256 ^ length d * unat b' = unat b + 2 ^ n * v \<and> 8 * length d + n' = n + wd v \<and>
    n' \<le> 7 \<and> unat b' < 2 ^ n'"
proof -
  have v: "v mod 91 < 91" "v div 91 < 91" "v < 8281" "v < 2 ^ 14"
    using assms(1) by (simp_all add: good_def less_mult_imp_div_less)
  have sum: "v mod 91 + v div 91 * 91 = v" by simp
  have w: "(if v AND 8191 > 88 then 13 else 14) = wd v" by (simp add: wd_def and_8191)
  define b1 where "b1 = b OR push_bit n (of_nat v)"
  have vl: "v < 2 ^ wd v" using assms(1) by (simp add: good_def)
  have lt: "unat b + 2 ^ n * v < 2 ^ (n + wd v)"
  proof -
    have "2 ^ n * v \<le> 2 ^ n * (2 ^ wd v - 1)" using vl by (intro mult_le_mono2) simp
    moreover have "(2 :: nat) ^ (n + wd v) = 2 ^ n * (2 ^ wd v - 1) + 2 ^ n"
      by (simp add: power_add diff_mult_distrib2)
    ultimately show ?thesis using assms(3) by linarith
  qed
  have "(2 :: nat) ^ (n + wd v) \<le> 2 ^ 21" using assms(2) by (intro power_increasing) (simp_all add: wd_def)
  moreover have "unat (of_nat v :: u32) = v" using v(4) by (simp add: unat_of_nat)
  ultimately have b1: "unat b1 = unat b + 2 ^ n * v"
    unfolding b1_def using unat_pack [OF assms(3), of "of_nat v"] assms(2) lt by simp
  have n: "8 \<le> n + wd v" by (simp add: wd_def)
  obtain d b' n' where D: "drain out b1 (n + wd v) = (out @ d, b', n')"
    "le_num d + 256 ^ length d * unat b' = unat b1" "8 * length d + n' = n + wd v" "n' \<le> 7" "unat b' < 2 ^ n'"
    using drain_value [OF n, of b1 out] lt b1 by auto
  have "dec_loop (pair v @ rest) (None, b, n, out) = dec_loop rest (None, b', n', out @ d)"
    using D(1) unfolding b1_def
    by (simp add: pair_def b91_char_no_space decode_table_char v(1,2) sum w Let_def)
  then show ?thesis using D b1 by (intro exI [of _ d] exI [of _ b'] exI [of _ n']) simp
qed

lemma dec_pairs:
  assumes "list_all good vs" "n \<le> 7" "unat b < 2 ^ n"
  shows "\<exists>d b' n'. dec_loop (concat (List.map pair vs) @ rest) (None, b, n, out) = dec_loop rest (None, b', n', out @ d) \<and>
    le_num d + 256 ^ length d * unat b' = unat b + 2 ^ n * vsum vs \<and> 8 * length d + n' = n + vw vs \<and>
    n' \<le> 7 \<and> unat b' < 2 ^ n'"
  using assms
proof (induction vs arbitrary: b n out)
  case Nil
  then show ?case by (intro exI [of _ "[]"] exI [of _ b] exI [of _ n]) (simp add: vw_def)
next
  case (Cons v vs)
  then obtain d b1 n1 where 1: "dec_loop (pair v @ concat (List.map pair vs) @ rest) (None, b, n, out) =
      dec_loop (concat (List.map pair vs) @ rest) (None, b1, n1, out @ d)"
    "le_num d + 256 ^ length d * unat b1 = unat b + 2 ^ n * v" "8 * length d + n1 = n + wd v"
    "n1 \<le> 7" "unat b1 < 2 ^ n1"
    using dec_pair [of v n b "concat (List.map pair vs) @ rest" out] by auto
  then obtain d' b2 n2 where 2: "dec_loop (concat (List.map pair vs) @ rest) (None, b1, n1, out @ d) =
      dec_loop rest (None, b2, n2, (out @ d) @ d')"
    "le_num d' + 256 ^ length d' * unat b2 = unat b1 + 2 ^ n1 * vsum vs" "8 * length d' + n2 = n1 + vw vs"
    "n2 \<le> 7" "unat b2 < 2 ^ n2"
    using Cons.IH [of n1 b1 "out @ d"] Cons.prems(1) by auto
  have p: "(256 :: nat) ^ length d * 2 ^ n1 = 2 ^ n * 2 ^ wd v"
  proof -
    have "(256 :: nat) ^ length d = 2 ^ (8 * length d)" by (simp add: power_mult)
    then show ?thesis using 1(3) by (simp flip: power_add)
  qed
  have "le_num (d @ d') + 256 ^ length (d @ d') * unat b2 =
      le_num d + 256 ^ length d * (le_num d' + 256 ^ length d' * unat b2)"
    by (simp add: le_num_append power_add algebra_simps)
  also have "\<dots> = le_num d + 256 ^ length d * unat b1 + 256 ^ length d * 2 ^ n1 * vsum vs"
    unfolding 2(2) by (simp add: algebra_simps)
  also have "\<dots> = unat b + 2 ^ n * vsum (v # vs)"
    unfolding p 1(2) by (simp add: algebra_simps)
  finally have s: "le_num (d @ d') + 256 ^ length (d @ d') * unat b2 = unat b + 2 ^ n * vsum (v # vs)" .
  have "8 * length (d @ d') + n2 = n + vw (v # vs)" using 1(3) 2(3) by (simp add: vw_def)
  then show ?case
    using 1(1) 2(1,4,5) s by (intro exI [of _ "d @ d'"] exI [of _ b2] exI [of _ n2]) simp
qed

lemma le_num_inj: "length xs = length ys \<Longrightarrow> le_num xs = le_num ys \<Longrightarrow> xs = ys"
proof (induction xs ys rule: list_induct2)
  case (Cons x xs y ys)
  have e: "unat x + 256 * le_num xs = unat y + 256 * le_num ys" using Cons.prems by simp
  from arg_cong [OF e, of "\<lambda>z. z mod 256"] have "unat x = unat y"
    using unat_byte_less [of x] unat_byte_less [of y] by simp
  moreover from this have "xs = ys" using e Cons.IH by simp
  ultimately show ?case by (simp add: word_unat_eq_iff)
qed simp

text \<open>Bytes with the right number of bits and the right value are the data.\<close>

lemma bytes_determined:
  assumes "le_num d + 256 ^ length d * r = le_num data" "8 * length d + n = 8 * length data + m" "n \<le> 7" "m \<le> 7"
  shows "d = data"
proof -
  have l: "length d = length data" using assms(2-4) by presburger
  have "256 ^ length d * r < 256 ^ length d"
    using assms(1) le_num_less [of data] unfolding l by linarith
  then have "r = 0" by simp
  then show ?thesis using le_num_inj [OF l] assms(1) by simp
qed

lemma decode_encode: "base91_decode (base91_encode data) = Some data"
proof -
  obtain vs b n where E: "enc_loop data ([], 0, 0) = (concat (List.map pair vs), b, n)"
    "list_all good vs" "vsum vs + 2 ^ vw vs * unat b = le_num data" "vw vs + n = 8 * length data"
    "n \<le> 13" "unat b < 2 ^ n"
    using enc_loop_values [of 0 0 data "[]"] by auto
  consider (none) "n = 0" | (two) "n \<noteq> 0" "n > 7 \<or> b > 90" | (one) "n \<noteq> 0" "\<not> (n > 7 \<or> b > 90)" by blast
  then show ?thesis
  proof cases
    case none
    then have e: "base91_encode data = concat (List.map pair vs) @ []" using E(1) by (simp add: base91_encode_def)
    obtain d b' n' where D: "dec_loop (concat (List.map pair vs) @ []) (None, 0, 0, []) = dec_loop [] (None, b', n', [] @ d)"
      "le_num d + 256 ^ length d * unat b' = vsum vs" "8 * length d + n' = vw vs" "n' \<le> 7"
      using dec_pairs [OF E(2), of 0 0 "[]" "[]"] by auto
    have "d = data" by (rule bytes_determined [of d "unat b'" data n' 0]) (use D E none in simp_all)
    then show ?thesis unfolding e base91_decode_def D(1) by simp
  next
    case two
    have bl: "unat b < 2 ^ 13" using E(5,6) power_increasing [of n 13 "2 :: nat"] by simp
    have g: "good (unat b)" using bl by (auto simp: good_def wd_def)
    have p: "pair (unat b) = [b91_char (unat b mod 91), b91_char (unat b div 91)]" by (simp add: pair_def)
    have e: "base91_encode data = concat (List.map pair (vs @ [unat b])) @ []"
      using E(1) two p by (simp add: base91_encode_def)
    obtain d b' n' where D: "dec_loop (concat (List.map pair (vs @ [unat b])) @ []) (None, 0, 0, []) = dec_loop [] (None, b', n', [] @ d)"
      "le_num d + 256 ^ length d * unat b' = vsum (vs @ [unat b])" "8 * length d + n' = vw (vs @ [unat b])" "n' \<le> 7"
      using dec_pairs [of "vs @ [unat b]" 0 0 "[]" "[]"] E(2) g by auto
    have n7: "7 \<le> n"
    proof (rule ccontr)
      assume "\<not> 7 \<le> n"
      then have "b > 90" "n \<le> 6" using two by auto
      then have "unat b > 90" by (simp add: word_less_nat_alt)
      moreover have "(2 :: nat) ^ n \<le> 2 ^ 6" by (rule power_increasing) (use \<open>n \<le> 6\<close> in simp_all)
      ultimately show False using E(6) by simp
    qed
    have "wd (unat b) \<in> {13, 14}" by (simp add: wd_def)
    then have m: "wd (unat b) - n \<le> 7" "n \<le> wd (unat b)" using n7 E(5) by auto
    have "d = data"
      by (rule bytes_determined [of d "unat b'" data n' "wd (unat b) - n"])
        (use D E m in \<open>simp_all add: vsum_append vw_append\<close>)
    then show ?thesis unfolding e base91_decode_def D(1) by simp
  next
    case one
    have b90: "unat b \<le> 90" using one by (simp add: word_le_nat_alt not_less)
    have e: "base91_encode data = concat (List.map pair vs) @ [b91_char (unat b)]"
      using E(1) one b90 by (simp add: base91_encode_def)
    obtain d b' n' where D: "dec_loop (concat (List.map pair vs) @ [b91_char (unat b)]) (None, 0, 0, []) =
        dec_loop [b91_char (unat b)] (None, b', n', [] @ d)"
      "le_num d + 256 ^ length d * unat b' = vsum vs" "8 * length d + n' = vw vs" "n' \<le> 7" "unat b' < 2 ^ n'"
      using dec_pairs [OF E(2), of 0 0 "[b91_char (unat b)]" "[]"] by auto
    have last: "dec_loop [b91_char (unat b)] (None, b', n', [] @ d) = Some (Some (unat b), b', n', d)"
      using b90 by (simp add: b91_char_no_space decode_table_char)
    let ?x = "ucast ((b' OR push_bit n' (of_nat (unat b))) AND 0xff) :: byte"
    have n: "n' + n = 8" "8 * length d + 8 = 8 * length data"
    proof -
      have "8 * length d + n' + n = 8 * length data" "n' \<le> 7" "n \<le> 7" "n \<noteq> 0" using D E one by auto
      then show "n' + n = 8" "8 * length d + 8 = 8 * length data" by presburger+
    qed
    have lt: "unat b' + 2 ^ n' * unat b < 256"
    proof -
      have "2 ^ n' * unat b \<le> 2 ^ n' * (2 ^ n - 1)" using E(6) by (intro mult_le_mono2) simp
      moreover have "(2 :: nat) ^ n' * (2 ^ n - 1) + 2 ^ n' = 2 ^ n' * 2 ^ n"
        by (simp add: diff_mult_distrib2)
      moreover have "(2 :: nat) ^ n' * 2 ^ n = 256" using n(1) by (simp flip: power_add)
      ultimately show ?thesis using D(5) by linarith
    qed
    then have "unat ?x = unat b' + 2 ^ n' * unat b"
      using unat_pack [OF D(5), of b] D(4) by (simp add: unat_and_mask unsigned_ucast_eq take_bit_eq_mod)
    moreover have "(2 :: nat) ^ vw vs = 256 ^ length d * 2 ^ n'"
      unfolding D(3) [symmetric] by (simp add: power_add power_mult)
    ultimately have x: "le_num (d @ [?x]) = le_num data"
      unfolding E(3) [symmetric] D(2) [symmetric] by (simp add: le_num_append algebra_simps)
    have "d @ [?x] = data" by (rule le_num_inj [OF _ x]) (use n(2) in simp)
    then show ?thesis unfolding e base91_decode_def D(1) last by simp
  qed
qed


section \<open>Lengths\<close>

lemma drain_shape:
  assumes "8 \<le> n"
  shows "\<exists>d b' n'. drain out b n = (out @ d, b', n') \<and> 8 * length d + n' = n \<and> n' \<le> 7"
  using assms
proof (induction out b n rule: drain.induct)
  case (1 out b n)
  show ?case
  proof (cases "n - 8 > 7")
    case True
    then obtain d b' n' where IH: "drain (out @ [ucast (b AND 0xff)]) (drop_bit 8 b) (n - 8) =
        ((out @ [ucast (b AND 0xff)]) @ d, b', n')" "8 * length d + n' = n - 8" "n' \<le> 7"
      using 1(1) [OF refl refl refl True] by auto
    then show ?thesis using True 1(2)
      by (subst drain.simps) (intro exI [of _ "ucast (b AND 0xff) # d"] exI [of _ b'] exI [of _ n'], simp add: Let_def)
  next
    case False
    then show ?thesis using 1(2) by (subst drain.simps) (simp add: Let_def)
  qed
qed

lemma dec_loop_length:
  assumes "dec_loop t (v, b, n, out) = Some (v', b', n', out')" "n \<le> 7"
  shows "length out' + (if v' = None then 0 else 1) \<le> length out + length t + (if v = None then 0 else 1)"
  using assms
proof (induction t arbitrary: v b n out)
  case (Cons ch t)
  show ?case
  proof (cases "is_space ch")
    case True
    then show ?thesis using Cons.IH [of v b n out] Cons.prems by simp
  next
    case False
    then obtain c where c: "decode_table ch = Some c" using Cons.prems(1) by (cases "decode_table ch") simp_all
    show ?thesis
    proof (cases v)
      case None
      then show ?thesis using Cons.IH [of "Some c" b n out] Cons.prems False c by simp
    next
      case (Some v0)
      define b2 where "b2 = b OR push_bit n (of_nat (v0 + c * 91))"
      define n2 where "n2 = n + (if (v0 + c * 91) AND 8191 > 88 then 13 else 14 :: nat)"
      obtain out2 b3 n3 where d: "drain out b2 n2 = (out2, b3, n3)" by (metis prod_cases3)
      have "8 \<le> n2" "n2 \<le> 21" using Cons.prems(2) by (simp_all add: n2_def)
      then have "n3 \<le> 7 \<and> length out2 \<le> length out + 2" using drain_shape [of n2 out b2] d by fastforce
      moreover have "dec_loop t (None, b3, n3, out2) = Some (v', b', n', out')"
        using Cons.prems(1) False c Some d by (simp add: Let_def b2_def n2_def)
      ultimately show ?thesis using Cons.IH [of None b3 n3 out2] Some by simp
    qed
  qed
qed simp

text \<open>Decoding never makes a text longer, so an encoding is at least as long as its data.\<close>

lemma base91_decode_length: "base91_decode t = Some data \<Longrightarrow> length data \<le> length t"
  using dec_loop_length [of t None 0 0 "[]"]
  by (fastforce simp: base91_decode_def split: option.splits prod.splits)

lemma enc_loop_extends: "\<exists>t. fst (enc_loop data (out, b, n)) = out @ t"
proof (induction data arbitrary: out b n)
  case (Cons x data)
  have "\<exists>t. fst (enc_loop data (out @ y, b', n')) = out @ t" for y b' n'
    using Cons.IH [of "out @ y" b' n'] by auto
  then show ?case using Cons.IH by (simp add: Let_def)
qed simp

section \<open>Properties\<close>

text \<open>C37: base91_decode gives back every byte string that base91_encode wrote; whitespace in the
  text does not change the result; and the texts that decode are exactly those that
  base91_is_clean accepts.\<close>

theorem base91_round_trip:
  "base91_decode (base91_encode data) = Some data \<and>
   base91_decode (filter (\<lambda>c. \<not> is_space c) text) = base91_decode text \<and>
   (base91_is_clean text \<longleftrightarrow> base91_decode text \<noteq> None)"
proof (intro conjI)
  show "base91_decode (base91_encode data) = Some data" by (rule decode_encode)
  show "base91_decode (filter (\<lambda>c. \<not> is_space c) text) = base91_decode text"
    by (simp add: base91_decode_def dec_loop_spaces)
  have "base91_decode text = None \<longleftrightarrow> dec_loop text (None, 0, 0, []) = None"
    by (simp add: base91_decode_def split: option.split prod.split)
  then show "base91_is_clean text \<longleftrightarrow> base91_decode text \<noteq> None"
    using dec_loop_clean [of "text" "(None, 0, 0, [])"] by simp
qed

end
