(* ===== verification/Tokens.thy ===== *)
theory Tokens
  imports Handshake Base91
begin

text \<open>
  The connect token and its three packagings, from \<open>client/src/net/signaling.cpp\<close>,
  \<open>client/src/crypto/token.cpp\<close> and \<open>client/include/crypto/token.h\<close>: the serialized payload, the sealed
  bundle, the offline blob, and the record published under a room code, with the room codes
  themselves. The operating system's random generator is an infinite tape of bytes; Argon2id
  (libsodium) is a parameter. An operation that the code ends with \<open>err = ...; return false\<close> is
  \<open>Inl\<close> of that message.
\<close>

section \<open>Random bytes\<close>

type_synonym entropy = "nat \<Rightarrow> byte"

text \<open>The generator fills whole 32-bit words, so a draw uses up a multiple of four bytes.\<close>

definition random_bytes :: "nat \<Rightarrow> entropy \<Rightarrow> bytes \<times> entropy" where
  "random_bytes n r = (map r [0..<n], \<lambda>i. r (i + (n + 3) div 4 * 4))"

lemma length_random_bytes [simp, len_simps]: "length (fst (random_bytes n r)) = n"
  by (simp add: random_bytes_def)

lemma random_bytesD: "random_bytes n r = (b, r') \<Longrightarrow> length b = n"
  by (metis fst_conv length_random_bytes)

section \<open>Tokens\<close>

record token =
  t_ip :: string
  t_port :: u16
  t_secret :: bytes
  t_folder :: string
  t_allowWrites :: bool

definition kSecretBytes :: nat where "kSecretBytes = 32"

definition kPayloadMagic :: bytes where "kPayloadMagic = str_bytes ''FBZK1''"
definition kOfflineMagic :: bytes where "kOfflineMagic = str_bytes ''FBOF1''"
definition kPayloadVersion :: u32 where "kPayloadVersion = 2"

definition kArgonOps :: nat where "kArgonOps = 3"
definition kArgonMem :: nat where "kArgonMem = 64 * 1024 * 1024"
definition kArgonSaltLen :: nat where "kArgonSaltLen = 16"

definition to_key :: "bytes \<Rightarrow> bytes" where
  "to_key v = take 32 v"

definition serialize_token_payload :: "token \<Rightarrow> bytes" where
  "serialize_token_payload tok =
     (let w = w_raw [] kPayloadMagic;
          w = w_pod w kPayloadVersion;
          w = w_str w (t_ip tok);
          w = w_pod w (t_port tok);
          w = w_str w (t_folder tok);
          writes = (if t_allowWrites tok then 1 else 0) :: byte;
          w = w_pod w writes
      in w_bytes w (t_secret tok) (of_nat (length (t_secret tok))))"

definition deserialize_token_payload :: "bytes \<Rightarrow> token option" where
  "deserialize_token_payload plain = (case r_raw 5 plain of
      (None, _) \<Rightarrow> None
    | (Some magic, r) \<Rightarrow> if magic \<noteq> kPayloadMagic then None else
     (case (r_pod r :: u32 option \<times> bytes) of
      (None, _) \<Rightarrow> None
    | (Some version, r) \<Rightarrow> if version \<noteq> 1 \<and> version \<noteq> kPayloadVersion then None else
     (case r_str r of
      (None, _) \<Rightarrow> None
    | (Some ip, r) \<Rightarrow>
     (case (r_pod r :: u16 option \<times> bytes) of
      (None, _) \<Rightarrow> None
    | (Some port, r) \<Rightarrow>
     (case r_str r of
      (None, _) \<Rightarrow> None
    | (Some folder, r) \<Rightarrow>
     (case (if version \<ge> 2
            then (case (r_pod r :: byte option \<times> bytes) of
                (None, r) \<Rightarrow> (None, r)
              | (Some writes, r) \<Rightarrow> (Some (writes \<noteq> 0), r))
            else (Some True, r)) of
      (None, _) \<Rightarrow> None
    | (Some allowWrites, r) \<Rightarrow>
     (case r_bytes r of
      (None, _) \<Rightarrow> None
    | (Some secret, r) \<Rightarrow>
        if ip \<noteq> [] \<and> port \<noteq> 0 \<and> secret \<noteq> []
        then Some \<lparr>t_ip = ip, t_port = port, t_secret = secret, t_folder = folder,
                   t_allowWrites = allowWrites\<rparr>
        else None)))))))"

section \<open>The sealed bundle\<close>

text \<open>\<open>seal_token\<close> returns the fresh blob key and the bundle: magic, nonce, ciphertext, tag.\<close>

definition seal_token :: "token \<Rightarrow> entropy \<Rightarrow> (bytes \<times> bytes) \<times> entropy" where
  "seal_token tok r =
     (case random_bytes 32 r of (blobKey, r) \<Rightarrow>
      let plain = serialize_token_payload tok in
      case random_bytes 12 r of (nonce, r) \<Rightarrow>
      case aead_encrypt (to_key blobKey) nonce [] plain of (ct, tag) \<Rightarrow>
        ((blobKey, kPayloadMagic @ nonce @ ct @ tag), r))"

definition open_token_bundle :: "bytes \<Rightarrow> bytes \<Rightarrow> string + token" where
  "open_token_bundle blobKey bundle =
     (if length blobKey \<noteq> 32 then Inl ''bad key''
      else let header = 5 + 12 + 16 in
      if length bundle < header \<or> take 5 bundle \<noteq> kPayloadMagic then Inl ''malformed payload bundle''
      else let nonce = take 12 (drop 5 bundle);
               off = 5 + 12;
               ctLen = length bundle - off - 16;
               ct = take ctLen (drop off bundle);
               tag = take 16 (drop (off + ctLen) bundle)
      in (case aead_decrypt (to_key blobKey) nonce [] ct tag of
          None \<Rightarrow> Inl ''wrong code or tampered payload''
        | Some plain \<Rightarrow> (case deserialize_token_payload plain of
            None \<Rightarrow> Inl ''decrypted payload is malformed''
          | Some tok \<Rightarrow> Inr tok)))"

section \<open>Room codes\<close>

definition kShortLookupLen :: nat where "kShortLookupLen = 4"
definition kShortKeyPartLen :: nat where "kShortKeyPartLen = 2"
definition kShortCodeLength :: nat where "kShortCodeLength = kShortLookupLen + kShortKeyPartLen"
definition kLongLookupLen :: nat where "kLongLookupLen = 8"
definition kLongKeyPartLen :: nat where "kLongKeyPartLen = 8"
definition kLongCodeLength :: nat where "kLongCodeLength = kLongLookupLen + kLongKeyPartLen"

lemmas code_lengths = kShortLookupLen_def kShortKeyPartLen_def kShortCodeLength_def kLongLookupLen_def
  kLongKeyPartLen_def kLongCodeLength_def

definition clean_one_line :: "string \<Rightarrow> string" where
  "clean_one_line s = filter (\<lambda>c. \<not> is_space c) s"

text \<open>The lengths of the lookup half and of the secret half.\<close>

definition code_split :: "nat \<Rightarrow> (nat \<times> nat) option" where
  "code_split len =
     (if len = kShortCodeLength then Some (kShortLookupLen, kShortKeyPartLen)
      else if len = kLongCodeLength then Some (kLongLookupLen, kLongKeyPartLen)
      else None)"

definition kLimit :: byte where "kLimit = of_nat (256 - 256 mod kBase91Base)"

text \<open>The inner loop of \<open>random_room_code\<close> over one batch of random bytes.\<close>

fun room_fill :: "nat \<Rightarrow> bytes \<Rightarrow> string \<Rightarrow> string" where
  "room_fill n [] code = code"
| "room_fill n (b # rb) code =
     (if b \<ge> kLimit then room_fill n rb code
      else let code = code @ [b91_char (unat b mod kBase91Base)] in
        if length code = n then code else room_fill n rb code)"

partial_function (option) room_loop :: "nat \<Rightarrow> string \<Rightarrow> entropy \<Rightarrow> (string \<times> entropy) option" where
  "room_loop n code r =
     (if length code < n
      then (case random_bytes n r of (rb, r) \<Rightarrow> room_loop n (room_fill n rb code) r)
      else Some (code, r))"

definition random_room_code :: "bool \<Rightarrow> entropy \<Rightarrow> (string \<times> entropy) option" where
  "random_room_code longCode r = room_loop (if longCode then kLongCodeLength else kShortCodeLength) [] r"

definition looks_like_room_code :: "string \<Rightarrow> bool" where
  "looks_like_room_code s0 = (let s = clean_one_line s0
     in code_split (length s) \<noteq> None \<and> base91_is_clean s)"

definition room_lookup_id :: "string \<Rightarrow> string" where
  "room_lookup_id code = (case code_split (length code) of
      None \<Rightarrow> code
    | Some (lookupLen, keyLen) \<Rightarrow> take lookupLen code)"

section \<open>The offline blob\<close>

definition seal_for_offline :: "token \<Rightarrow> entropy \<Rightarrow> string \<times> entropy" where
  "seal_for_offline tok r = (case seal_token tok r of ((blobKey, bundle), r) \<Rightarrow>
     (base91_encode (kOfflineMagic @ blobKey @ bundle), r))"

definition open_offline_blob :: "string \<Rightarrow> string + token" where
  "open_offline_blob blob = (case base91_decode blob of
      None \<Rightarrow> Inl ''not a valid offline blob''
    | Some raw \<Rightarrow> (let header = 5 + 32 in
        if length raw < header \<or> take 5 raw \<noteq> kOfflineMagic then Inl ''not a valid offline blob''
        else open_token_bundle (take 32 (drop 5 raw)) (drop header raw)))"

section \<open>The published record\<close>

record cloud_record =
  c_lookupId :: string
  c_salt :: string
  c_wrapped :: string
  c_payload :: string
  c_owner :: string

text \<open>
  libsodium: whether \<open>sodium_init\<close> succeeds, and \<open>crypto_pwhash\<close> with Argon2id on password, salt,
  operation and memory limits, \<open>None\<close> when it cannot get the memory.
\<close>

record pwhash =
  sodium_ok :: bool
  crypto_pwhash :: "bytes \<Rightarrow> bytes \<Rightarrow> nat \<Rightarrow> nat \<Rightarrow> bytes option"

definition argon2id_key :: "pwhash \<Rightarrow> string \<Rightarrow> bytes \<Rightarrow> string + bytes" where
  "argon2id_key pw keyPart salt =
     (if \<not> sodium_ok pw then Inl ''libsodium init failed''
      else if length salt \<noteq> kArgonSaltLen then Inl ''bad salt length''
      else (case crypto_pwhash pw (str_bytes keyPart) salt kArgonOps kArgonMem of
          None \<Rightarrow> Inl ''Argon2id derivation failed (out of memory?)''
        | Some key \<Rightarrow> Inr key))"

text \<open>The owner credential of the record is also the second result.\<close>

definition seal_for_cloud ::
    "pwhash \<Rightarrow> token \<Rightarrow> string \<Rightarrow> entropy \<Rightarrow> (string + cloud_record \<times> string) \<times> entropy" where
  "seal_for_cloud pw tok roomCode r = (case code_split (length roomCode) of
      None \<Rightarrow> (Inl ''bad room code'', r)
    | Some (lookupLen, keyLen) \<Rightarrow>
     (let keyPart = take keyLen (drop lookupLen roomCode) in
      case seal_token tok r of ((blobKey, bundle), r) \<Rightarrow>
      case random_bytes kArgonSaltLen r of (salt, r) \<Rightarrow>
      case argon2id_key pw keyPart salt of
        Inl err \<Rightarrow> (Inl err, r)
      | Inr wrapKey \<Rightarrow>
       (case random_bytes 12 r of (wnonce, r) \<Rightarrow>
        case aead_encrypt wrapKey wnonce [] blobKey of (wct, wtag) \<Rightarrow>
        let wrapped = wnonce @ wct @ wtag in
        case random_bytes 16 r of (ob, r) \<Rightarrow>
        let owner = base91_encode ob in
        (Inr (\<lparr>c_lookupId = take lookupLen roomCode, c_salt = base91_encode salt,
               c_wrapped = base91_encode wrapped, c_payload = base91_encode bundle,
               c_owner = owner\<rparr>, owner), r))))"

definition open_cloud_record ::
    "pwhash \<Rightarrow> string \<Rightarrow> string \<Rightarrow> string \<Rightarrow> string \<Rightarrow> string + token" where
  "open_cloud_record pw roomCode saltB91 wrappedB91 payloadB91 = (case code_split (length roomCode) of
      None \<Rightarrow> Inl ''bad room code''
    | Some (lookupLen, keyLen) \<Rightarrow> (let keyPart = take keyLen (drop lookupLen roomCode) in
     (case base91_decode saltB91 of
      None \<Rightarrow> Inl ''bad record salt''
    | Some salt \<Rightarrow> if length salt \<noteq> kArgonSaltLen then Inl ''bad record salt'' else
     (case base91_decode wrappedB91 of
      None \<Rightarrow> Inl ''bad wrapped key''
    | Some wrapped \<Rightarrow> if length wrapped \<noteq> 12 + 32 + 16 then Inl ''bad wrapped key'' else
     (case base91_decode payloadB91 of
      None \<Rightarrow> Inl ''bad record payload''
    | Some bundle \<Rightarrow>
     (case argon2id_key pw keyPart salt of
      Inl err \<Rightarrow> Inl err
    | Inr wrapKey \<Rightarrow>
       (let wnonce = take 12 wrapped;
            wct = take 32 (drop 12 wrapped);
            wtag = take 16 (drop (12 + 32) wrapped)
        in (case aead_decrypt wrapKey wnonce [] wct wtag of
            None \<Rightarrow> Inl ''wrong code''
          | Some blobKey \<Rightarrow> open_token_bundle blobKey bundle))))))))"

section \<open>Payload round trip\<close>

text \<open>What a payload needs to be accepted.\<close>

definition token_valid :: "token \<Rightarrow> bool" where
  "token_valid tok \<longleftrightarrow> t_ip tok \<noteq> [] \<and> t_port tok \<noteq> 0 \<and> t_secret tok \<noteq> []"

definition token_fits :: "token \<Rightarrow> bool" where
  "token_fits tok \<longleftrightarrow> length (t_ip tok) < 2 ^ 32 \<and> length (t_folder tok) < 2 ^ 32 \<and> length (t_secret tok) < 2 ^ 32"

lemma magic_lengths [simp]: "length kPayloadMagic = 5" "length kOfflineMagic = 5"
  by (simp_all add: kPayloadMagic_def kOfflineMagic_def)

lemma serialize_eq:
  assumes "token_fits tok"
  shows "serialize_token_payload tok = kPayloadMagic @ le_bytes 4 kPayloadVersion @
     (le_bytes 4 (of_nat (length (t_ip tok)) :: u32) @ str_bytes (t_ip tok) @
     (le_bytes 2 (t_port tok) @
     (le_bytes 4 (of_nat (length (t_folder tok)) :: u32) @ str_bytes (t_folder tok) @
     (le_bytes (Suc 0) (if t_allowWrites tok then 1 else 0 :: byte) @
     (le_bytes 4 (of_nat (length (t_secret tok)) :: u32) @ t_secret tok @ [])))))"
  using assms by (simp add: serialize_token_payload_def token_fits_def writer_defs Let_def u32_len)

lemma deserialize_serialize:
  assumes "token_fits tok"
  shows "deserialize_token_payload (serialize_token_payload tok) =
     (if token_valid tok then Some tok else None)"
  using assms unfolding serialize_eq [OF assms] deserialize_token_payload_def token_valid_def token_fits_def
  by (simp add: r_str_append r_bytes_append kPayloadVersion_def del: append_Nil2 le_bytes.simps)

lemma deserialize_valid: "deserialize_token_payload plain = Some tok \<Longrightarrow> token_valid tok"
  by (auto simp: deserialize_token_payload_def token_valid_def split: option.splits prod.splits if_splits)

section \<open>Bundles, blobs and records\<close>

lemma decrypted_is_encrypted:
  "aead_decrypt key nonce aad ct tag = Some pt \<Longrightarrow> length tag = 16 \<Longrightarrow>
   aead_encrypt key nonce aad pt = (ct, tag)"
  by (simp add: aead_decrypt_iff aead_encrypt_eq)

lemma open_sealed:
  assumes "length blobKey = 32" "length nonce = 12"
    "aead_encrypt (to_key blobKey) nonce [] plain = (ct, tag)"
  shows "open_token_bundle blobKey (kPayloadMagic @ nonce @ ct @ tag) =
     (case deserialize_token_payload plain of
        None \<Rightarrow> Inl ''decrypted payload is malformed'' | Some tok \<Rightarrow> Inr tok)"
proof -
  have tag: "length tag = 16" using length_aead_encrypt(2) [of "to_key blobKey" nonce "[]" plain] assms(3) by simp
  have "aead_decrypt (to_key blobKey) nonce [] ct tag = Some plain"
    using aead_decrypt_encrypt [of "to_key blobKey" nonce "[]" plain] assms(3) by simp
  with tag show ?thesis using assms(1,2) by (simp add: open_token_bundle_def Let_def)
qed

lemma open_seal_token:
  assumes "seal_token tok r = ((blobKey, bd), r')" "token_fits tok"
  shows "length blobKey = 32" "open_token_bundle blobKey bd =
     (if token_valid tok then Inr tok else Inl ''decrypted payload is malformed'')"
proof -
  obtain r1 where k: "random_bytes 32 r = (blobKey, r1)" 
    using assms(1) by (auto simp: seal_token_def Let_def split: prod.splits)
  obtain nonce where n: "random_bytes 12 r1 = (nonce, r')"
    using assms(1) k by (auto simp: seal_token_def Let_def split: prod.splits)
  obtain ct tag where e: "aead_encrypt (to_key blobKey) nonce [] (serialize_token_payload tok) = (ct, tag)"
    by fastforce
  have b: "bd = kPayloadMagic @ nonce @ ct @ tag"
    using assms(1) by (simp add: seal_token_def Let_def k n e)
  show "length blobKey = 32" using random_bytesD [OF k] .
  from open_sealed [OF this random_bytesD [OF n] e]
  show "open_token_bundle blobKey bd =
     (if token_valid tok then Inr tok else Inl ''decrypted payload is malformed'')"
    by (simp add: b deserialize_serialize [OF assms(2)])
qed

lemma seal_token_prod: "\<exists>k b r'. seal_token tok r = ((k, b), r')"
  by (metis prod.exhaust)

lemma open_seal_for_offline:
  assumes "token_fits tok"
  shows "open_offline_blob (fst (seal_for_offline tok r)) =
     (if token_valid tok then Inr tok else Inl ''decrypted payload is malformed'')"
proof -
  obtain k b r' where s: "seal_token tok r = ((k, b), r')" using seal_token_prod by blast
  show ?thesis
    using open_seal_token [OF s assms]
    by (simp add: seal_for_offline_def s open_offline_blob_def decode_encode Let_def)
qed

lemma open_token_bundle_sound:
  assumes "open_token_bundle blobKey bd = Inr tok"
  obtains nonce plain ct tag where "length blobKey = 32" "length nonce = 12"
    "aead_encrypt blobKey nonce [] plain = (ct, tag)" "bd = kPayloadMagic @ nonce @ ct @ tag"
    "deserialize_token_payload plain = Some tok"
proof -
  let ?nonce = "take 12 (drop 5 bd)"
  let ?n = "length bd - 33"
  let ?ct = "take ?n (drop 17 bd)"
  let ?tag = "take 16 (drop (17 + ?n) bd)"
  have h: "length blobKey = 32" "\<not> length bd < 33" "take 5 bd = kPayloadMagic"
    using assms by (auto simp: open_token_bundle_def Let_def split: if_splits)
  then obtain plain where p: "aead_decrypt (to_key blobKey) ?nonce [] ?ct ?tag = Some plain"
    "deserialize_token_payload plain = Some tok"
    using assms by (auto simp: open_token_bundle_def Let_def split: if_splits option.splits)
  have tag: "length ?tag = 16" using h by simp
  have "aead_encrypt blobKey ?nonce [] plain = (?ct, ?tag)"
    using decrypted_is_encrypted [OF p(1) tag] h(1) by (simp add: to_key_def)
  moreover have "bd = kPayloadMagic @ ?nonce @ ?ct @ ?tag"
    unfolding h(3) [symmetric]
    by (rule nth_equalityI) (use h(2) in \<open>auto simp: nth_append\<close>)
  moreover have "length ?nonce = 12" using h(2) by simp
  ultimately show thesis using that h(1) p(2) by blast
qed

text \<open>The law of \<open>crypto_pwhash\<close>: it fills the 32 bytes it is given.\<close>

definition pwhash_32 :: "pwhash \<Rightarrow> bool" where
  "pwhash_32 pw \<longleftrightarrow> (\<forall>p s a b k. crypto_pwhash pw p s a b = Some k \<longrightarrow> length k = 32)"

lemma seal_for_cloudD:
  assumes "seal_for_cloud pw tok code r = (Inr (rec, owner), r')"
  obtains lookupLen keyLen blobKey bd salt wrapKey wnonce wct wtag ob r1 where
    "code_split (length code) = Some (lookupLen, keyLen)"
    "seal_token tok r = ((blobKey, bd), r1)" "length salt = kArgonSaltLen"
    "argon2id_key pw (take keyLen (drop lookupLen code)) salt = Inr wrapKey" "length wnonce = 12"
    "aead_encrypt wrapKey wnonce [] blobKey = (wct, wtag)"
    "rec = \<lparr>c_lookupId = take lookupLen code, c_salt = base91_encode salt,
       c_wrapped = base91_encode (wnonce @ wct @ wtag), c_payload = base91_encode bd,
       c_owner = base91_encode ob\<rparr>" "owner = base91_encode ob" "length ob = 16"
proof -
  obtain lookupLen keyLen where cs: "code_split (length code) = Some (lookupLen, keyLen)"
    using assms by (auto simp: seal_for_cloud_def split: option.splits)
  obtain blobKey bd r1 where st: "seal_token tok r = ((blobKey, bd), r1)"
    using seal_token_prod by blast
  obtain salt r2 where sa: "random_bytes kArgonSaltLen r1 = (salt, r2)" by fastforce
  obtain wrapKey where wk: "argon2id_key pw (take keyLen (drop lookupLen code)) salt = Inr wrapKey"
    using assms by (auto simp: seal_for_cloud_def cs st sa Let_def split: sum.splits)
  obtain wnonce r3 where wn: "random_bytes 12 r2 = (wnonce, r3)" by fastforce
  obtain wct wtag where e: "aead_encrypt wrapKey wnonce [] blobKey = (wct, wtag)" by fastforce
  obtain ob r4 where o: "random_bytes 16 r3 = (ob, r4)" by fastforce
  show thesis
    by (rule that [OF cs st random_bytesD [OF sa] wk random_bytesD [OF wn] e _ _ random_bytesD [OF o]])
      (use assms in \<open>auto simp: seal_for_cloud_def cs st sa wk wn e o Let_def\<close>)
qed

lemma open_seal_for_cloud:
  assumes "token_fits tok" "seal_for_cloud pw tok code r = (Inr (rec, owner), r')"
  shows "open_cloud_record pw code (c_salt rec) (c_wrapped rec) (c_payload rec) =
     (if token_valid tok then Inr tok else Inl ''decrypted payload is malformed'')"
proof -
  obtain lookupLen keyLen blobKey bd salt wrapKey wnonce wct wtag ob r1 where h:
    "code_split (length code) = Some (lookupLen, keyLen)"
    "seal_token tok r = ((blobKey, bd), r1)" "length salt = kArgonSaltLen"
    "argon2id_key pw (take keyLen (drop lookupLen code)) salt = Inr wrapKey" "length wnonce = 12"
    "aead_encrypt wrapKey wnonce [] blobKey = (wct, wtag)"
    "rec = \<lparr>c_lookupId = take lookupLen code, c_salt = base91_encode salt,
       c_wrapped = base91_encode (wnonce @ wct @ wtag), c_payload = base91_encode bd,
       c_owner = base91_encode ob\<rparr>"
    using seal_for_cloudD [OF assms(2)] by metis
  note o = open_seal_token [OF h(2) assms(1)]
  have l: "length wct = 32" "length wtag = 16"
    using length_aead_encrypt [of wrapKey wnonce "[]" blobKey] h(6) o(1) by simp_all
  have d: "aead_decrypt wrapKey wnonce [] wct wtag = Some blobKey"
    using aead_decrypt_encrypt [of wrapKey wnonce "[]" blobKey] h(6) by simp
  show ?thesis
    using o(2) by (simp add: open_cloud_record_def h l d decode_encode Let_def)
qed

text \<open>What an accepted record is: its wrapped key was sealed under the code's secret half.\<close>

lemma open_cloud_record_sound:
  assumes "open_cloud_record pw code s w p = Inr tok"
  obtains lookupLen keyLen salt wrapKey wnonce blobKey wct wtag nonce plain ct tag where
    "code_split (length code) = Some (lookupLen, keyLen)"
    "base91_decode s = Some salt"
    "argon2id_key pw (take keyLen (drop lookupLen code)) salt = Inr wrapKey"
    "base91_decode w = Some (wnonce @ wct @ wtag)"
    "aead_encrypt wrapKey wnonce [] blobKey = (wct, wtag)"
    "base91_decode p = Some (kPayloadMagic @ nonce @ ct @ tag)"
    "aead_encrypt blobKey nonce [] plain = (ct, tag)"
    "deserialize_token_payload plain = Some tok"
proof -
  obtain lookupLen keyLen where cs: "code_split (length code) = Some (lookupLen, keyLen)"
    using assms by (auto simp: open_cloud_record_def split: option.splits)
  obtain salt where s: "base91_decode s = Some salt" "length salt = kArgonSaltLen"
    using assms by (auto simp: open_cloud_record_def cs Let_def split: option.splits if_splits)
  obtain wrapped where w: "base91_decode w = Some wrapped" "length wrapped = 60"
    using assms by (auto simp: open_cloud_record_def cs s Let_def split: option.splits if_splits)
  obtain bd where p: "base91_decode p = Some bd"
    using assms by (auto simp: open_cloud_record_def cs s w Let_def split: option.splits if_splits)
  obtain wrapKey where k: "argon2id_key pw (take keyLen (drop lookupLen code)) salt = Inr wrapKey"
    using assms by (auto simp: open_cloud_record_def cs s w p Let_def split: sum.splits)
  let ?n = "take 12 wrapped" and ?c = "take 32 (drop 12 wrapped)" and ?t = "take 16 (drop 44 wrapped)"
  obtain blobKey where b: "aead_decrypt wrapKey ?n [] ?c ?t = Some blobKey"
    "open_token_bundle blobKey bd = Inr tok"
    using assms by (auto simp: open_cloud_record_def cs s w p k Let_def split: option.splits)
  have e: "aead_encrypt wrapKey ?n [] blobKey = (?c, ?t)"
    by (rule decrypted_is_encrypted [OF b(1)]) (simp add: w)
  have w': "wrapped = ?n @ ?c @ ?t"
    by (rule nth_equalityI) (use w(2) in \<open>auto simp: nth_append\<close>)
  show thesis
  proof (rule open_token_bundle_sound [OF b(2)])
    fix nonce plain ct tag
    assume "aead_encrypt blobKey nonce [] plain = (ct, tag)"
      "bd = kPayloadMagic @ nonce @ ct @ tag" "deserialize_token_payload plain = Some tok"
    then show thesis using that [OF cs s(1) k _ e] w(1) w' p by metis
  qed
qed

section \<open>Drawing a room code\<close>

definition accepted :: "bytes \<Rightarrow> string" where
  "accepted rb = map (\<lambda>b. b91_char (unat b mod 91)) (filter (\<lambda>b. b < kLimit) rb)"

text \<open>The bytes that the first \<open>k\<close> batches of \<open>n\<close> hand out.\<close>

fun batches :: "nat \<Rightarrow> nat \<Rightarrow> entropy \<Rightarrow> bytes" where
  "batches n 0 r = []"
| "batches n (Suc k) r = (case random_bytes n r of (rb, r) \<Rightarrow> rb @ batches n k r)"

lemma accepted_append: "accepted (xs @ ys) = accepted xs @ accepted ys"
  by (simp add: accepted_def)

lemma room_fill_accepted: "length code < n \<Longrightarrow> room_fill n rb code = take n (code @ accepted rb)"
proof (induction rb arbitrary: code)
  case (Cons b rb)
  show ?case
  proof (cases "b \<ge> kLimit")
    case True
    then show ?thesis using Cons by (simp add: accepted_def not_less)
  next
    case False
    then have lt: "b < kLimit" by simp
    let ?code = "code @ [b91_char (unat b mod 91)]"
    have "length ?code = n \<or> length ?code < n" using Cons.prems by auto
    then show ?thesis
    proof
      assume "length ?code = n"
      then show ?thesis using False lt by (auto simp: accepted_def Let_def kBase91Base_def)
    next
      assume "length ?code < n"
      then show ?thesis using False lt Cons.IH [of ?code] by (simp add: accepted_def Let_def kBase91Base_def)
    qed
  qed
qed (simp add: accepted_def)

lemma room_loop_accepted:
  assumes "length code \<le> n" "n \<le> length code + length (accepted (batches n k r))"
  shows "\<exists>r'. room_loop n code r = Some (take n (code @ accepted (batches n k r)), r')"
  using assms
proof (induction k arbitrary: code r)
  case 0
  then show ?case by (simp add: room_loop.simps accepted_def)
next
  case (Suc k)
  obtain rb r1 where rb: "random_bytes n r = (rb, r1)" by fastforce
  show ?case
  proof (cases "length code = n")
    case True
    then show ?thesis by (simp add: room_loop.simps)
  next
    case False
    with Suc.prems have lt: "length code < n" by simp
    let ?code = "take n (code @ accepted rb)"
    have "room_loop n code r = room_loop n ?code r1"
      by (subst room_loop.simps) (simp add: rb lt room_fill_accepted)
    moreover have "length ?code \<le> n" by simp
    moreover have "n \<le> length ?code + length (accepted (batches n k r1))"
      using Suc.prems by (auto simp: rb accepted_append)
    ultimately obtain r' where "room_loop n code r = room_loop n ?code r1" "room_loop n ?code r1 = Some (take n (?code @ accepted (batches n k r1)), r')"
      using Suc.IH [of ?code r1] by blast
    moreover have "take n (?code @ accepted (batches n k r1)) = take n (code @ accepted (batches n (Suc k) r))"
      by (cases "n \<le> length code + length (accepted rb)") (use lt in \<open>simp_all add: rb accepted_append min_def\<close>)
    ultimately show ?thesis by simp
  qed
qed

definition code_len :: "bool \<Rightarrow> nat" where
  "code_len longCode = (if longCode then 16 else 6)"

lemma random_room_code_drawn:
  assumes "code_len longCode \<le> length (accepted (batches (code_len longCode) k r))"
  obtains r' where "random_room_code longCode r =
     Some (take (code_len longCode) (accepted (batches (code_len longCode) k r)), r')"
proof -
  have "(if longCode then kLongCodeLength else kShortCodeLength) = code_len longCode"
    by (simp add: code_len_def code_lengths)
  then show thesis
    using room_loop_accepted [of "[]" "code_len longCode" k r] assms that by (auto simp: random_room_code_def)
qed

lemma accepted_chars: "c \<in> set (accepted rb) \<Longrightarrow> \<exists>i < 91. c = b91_char i"
proof -
  assume "c \<in> set (accepted rb)"
  then obtain b :: byte where "c = b91_char (unat b mod 91)" by (auto simp: accepted_def)
  moreover have "unat b mod 91 < 91" by simp
  ultimately show ?thesis by blast
qed

definition code_text :: "string \<Rightarrow> bool" where
  "code_text s \<longleftrightarrow> list_all (\<lambda>c. \<not> is_space c \<and> decode_table c \<noteq> None) s"

lemma code_text_accepted: "code_text (take n (accepted rb))"
  using accepted_chars
  by (fastforce simp: code_text_def list_all_iff b91_char_no_space decode_table_char dest: in_set_takeD)

lemma code_text_clean: "code_text s \<Longrightarrow> clean_one_line s = s \<and> base91_is_clean s"
  by (auto simp: code_text_def clean_one_line_def base91_is_clean_def list_all_iff)

lemma room_code_recognised:
  assumes "code_text s" "length s = code_len longCode"
  shows "looks_like_room_code s" "length (room_lookup_id s) = (if longCode then 8 else 4)"
    "room_lookup_id s = take (if longCode then 8 else 4) s"
  using assms code_text_clean [OF assms(1)]
  by (auto simp: looks_like_room_code_def room_lookup_id_def code_split_def code_len_def code_lengths Let_def)

lemma byte_of_unat: "unat (b :: byte) = k \<Longrightarrow> b = of_nat k"
  by (drule sym) simp

text \<open>Each character of the alphabet is the image of exactly two accepted byte values.\<close>

lemma accepted_uniform: "i < 91 \<Longrightarrow> {b. b < kLimit \<and> unat b mod 91 = i} = {of_nat i, of_nat (i + 91)}"
proof (intro set_eqI iffI)
  fix b assume i: "i < 91" and "b \<in> {b. b < kLimit \<and> unat b mod 91 = i}"
  then have b: "unat b < 182" "unat b mod 91 = i" by (simp_all add: kLimit_def kBase91Base_def word_less_nat_alt)
  have "unat b div 91 < 2" using b(1) by simp
  moreover have "unat b = 91 * (unat b div 91) + i" using b(2) mult_div_mod_eq [of 91 "unat b"] by simp
  ultimately have "unat b = i \<or> unat b = i + 91" by (cases "unat b div 91 = 0") simp_all
  then have "b = of_nat i \<or> b = of_nat (i + 91)" using byte_of_unat by blast
  then show "b \<in> {of_nat i, of_nat (i + 91)}" by blast
next
  fix b :: byte assume i: "i < 91" and "b \<in> {of_nat i, of_nat (i + 91)}"
  then consider "b = of_nat i" | "b = of_nat (i + 91)" by blast
  then have "unat b = i \<or> unat b = i + 91" using i by cases (auto simp: unat_of_nat simp del: of_nat_add)
  then show "b \<in> {b. b < kLimit \<and> unat b mod 91 = i}"
    using i by (auto simp: kLimit_def kBase91Base_def word_less_nat_alt)
qed

section \<open>Properties\<close>

text \<open>C28: A token with fields below 2^32 bytes comes back from its offline blob and from the
  record published under any room code exactly as it was sealed, or is refused as malformed
  when its address, port or secret is empty; publishing fails only for a bad code length, a
  failed sodium_init or a failed Argon2id.\<close>

theorem token_round_trips:
  assumes "token_fits tok"
  shows "open_offline_blob (fst (seal_for_offline tok r)) =
      (if token_valid tok then Inr tok else Inl ''decrypted payload is malformed'') \<and>
    (case seal_for_cloud pw tok code r of
       (Inl err, _) \<Rightarrow> code_split (length code) = None \<or> \<not> sodium_ok pw \<or>
         err = ''Argon2id derivation failed (out of memory?)''
     | (Inr (rec, owner), _) \<Rightarrow> owner = c_owner rec \<and> c_lookupId rec = room_lookup_id code \<and>
         open_cloud_record pw code (c_salt rec) (c_wrapped rec) (c_payload rec) =
           (if token_valid tok then Inr tok else Inl ''decrypted payload is malformed''))"
proof (intro conjI open_seal_for_offline assms)
  show "case seal_for_cloud pw tok code r of
       (Inl err, _) \<Rightarrow> code_split (length code) = None \<or> \<not> sodium_ok pw \<or>
         err = ''Argon2id derivation failed (out of memory?)''
     | (Inr (rec, owner), _) \<Rightarrow> owner = c_owner rec \<and> c_lookupId rec = room_lookup_id code \<and>
         open_cloud_record pw code (c_salt rec) (c_wrapped rec) (c_payload rec) =
           (if token_valid tok then Inr tok else Inl ''decrypted payload is malformed'')"
  proof (cases "seal_for_cloud pw tok code r")
    case (Pair res r')
    show ?thesis
    proof (cases res)
      case (Inl err)
      then show ?thesis using Pair
        by (auto simp: seal_for_cloud_def argon2id_key_def Let_def split: option.splits prod.splits
            dest: random_bytesD)
    next
      case (Inr ro)
      obtain rec owner where ro: "ro = (rec, owner)" by fastforce
      have s: "seal_for_cloud pw tok code r = (Inr (rec, owner), r')" using Pair Inr ro by simp
      have "owner = c_owner rec \<and> c_lookupId rec = room_lookup_id code"
        by (rule seal_for_cloudD [OF s]) (simp add: room_lookup_id_def)
      then show ?thesis using open_seal_for_cloud [OF assms s] s by simp
    qed
  qed
qed

text \<open>A token of the self-test of the code.\<close>

definition ex_token :: token where
  "ex_token = \<lparr>t_ip = ''2001:db8::1'', t_port = 50321, t_secret = replicate 32 7,
     t_folder = ''cool folder'', t_allowWrites = True\<rparr>"

lemma ex_token_ok: "token_fits ex_token" "token_valid ex_token"
  by (simp_all add: ex_token_def token_fits_def token_valid_def)

theorem token_round_trips_witness:
  "open_offline_blob (fst (seal_for_offline ex_token (\<lambda>i. of_nat i))) = Inr ex_token"
  using token_round_trips [OF ex_token_ok(1), of "\<lambda>i. of_nat i"] by (simp add: ex_token_ok(2))

text \<open>C29: open_cloud_record accepts a record only if its wrapped key is exactly the AEAD
  encryption under the Argon2id key of the code's secret half, its payload is exactly the
  encryption of a well-formed token under that blob key, and the token has an address, a
  port and a secret.\<close>

theorem cloud_record_needs_the_secret_half:
  assumes "open_cloud_record pw code s w p = Inr tok"
  shows "\<exists>lookupLen keyLen salt wrapKey wnonce blobKey wct wtag nonce plain ct tag.
     code_split (length code) = Some (lookupLen, keyLen) \<and> base91_decode s = Some salt \<and>
     argon2id_key pw (take keyLen (drop lookupLen code)) salt = Inr wrapKey \<and>
     base91_decode w = Some (wnonce @ wct @ wtag) \<and>
     aead_encrypt wrapKey wnonce [] blobKey = (wct, wtag) \<and>
     base91_decode p = Some (kPayloadMagic @ nonce @ ct @ tag) \<and>
     aead_encrypt blobKey nonce [] plain = (ct, tag) \<and>
     deserialize_token_payload plain = Some tok \<and> token_valid tok"
proof (rule open_cloud_record_sound [OF assms])
  fix lookupLen keyLen salt wrapKey wnonce blobKey wct wtag nonce plain ct tag
  assume h: "code_split (length code) = Some (lookupLen, keyLen)" "base91_decode s = Some salt"
    "argon2id_key pw (take keyLen (drop lookupLen code)) salt = Inr wrapKey"
    "base91_decode w = Some (wnonce @ wct @ wtag)"
    "aead_encrypt wrapKey wnonce [] blobKey = (wct, wtag)"
    "base91_decode p = Some (kPayloadMagic @ nonce @ ct @ tag)"
    "aead_encrypt blobKey nonce [] plain = (ct, tag)" "deserialize_token_payload plain = Some tok"
  show ?thesis using h deserialize_valid [OF h(8)] by blast
qed

definition ex_pw :: pwhash where
  "ex_pw = \<lparr>sodium_ok = True, crypto_pwhash = (\<lambda>p s ops mem. Some (take 32 (p @ s @ replicate 32 1)))\<rparr>"

lemma ex_seal_for_cloud: "\<exists>rec owner r'. seal_for_cloud ex_pw tok ''abcdXY'' r = (Inr (rec, owner), r')"
proof -
  obtain k b r1 where st: "seal_token tok r = ((k, b), r1)" using seal_token_prod by blast
  obtain salt r2 where sa: "random_bytes kArgonSaltLen r1 = (salt, r2)" by fastforce
  obtain key where k: "argon2id_key ex_pw ''XY'' salt = Inr key"
    using random_bytesD [OF sa] by (simp add: argon2id_key_def ex_pw_def)
  show ?thesis
    by (auto simp: seal_for_cloud_def code_split_def code_lengths st sa k Let_def
        numeral_eq_Suc split: prod.splits)
qed

theorem cloud_record_needs_the_secret_half_witness:
  "\<exists>s w p salt wrapKey. open_cloud_record ex_pw ''abcdXY'' s w p = Inr ex_token \<and>
     base91_decode s = Some salt \<and> argon2id_key ex_pw ''XY'' salt = Inr wrapKey"
proof -
  obtain rec owner r' where s: "seal_for_cloud ex_pw ex_token ''abcdXY'' (\<lambda>i. 5) = (Inr (rec, owner), r')"
    using ex_seal_for_cloud by blast
  have o: "open_cloud_record ex_pw ''abcdXY'' (c_salt rec) (c_wrapped rec) (c_payload rec) = Inr ex_token"
    using open_seal_for_cloud [OF ex_token_ok(1) s] ex_token_ok(2) by simp
  have c: "code_split (length ''abcdXY'') = Some (4, 2)" by (simp add: code_split_def code_lengths)
  show ?thesis
    using cloud_record_needs_the_secret_half [OF o] o c by (auto simp: numeral_eq_Suc)
qed

text \<open>Once the random tape holds enough bytes below 182, random_room_code returns: the code
  is the first accepted bytes mapped into the alphabet, has the tier's length, is recognised
  as a room code, its lookup half is its 4- or 8-character prefix, and every alphabet
  character is the image of exactly two accepted byte values.\<close>

theorem room_codes_are_uniform:
  assumes "code_len longCode \<le> length (accepted (batches (code_len longCode) k r))"
  shows "\<exists>code r'. random_room_code longCode r = Some (code, r') \<and>
     code = take (code_len longCode) (accepted (batches (code_len longCode) k r)) \<and>
     length code = code_len longCode \<and> looks_like_room_code code \<and>
     room_lookup_id code = take (if longCode then 8 else 4) code \<and>
     (\<forall>i < 91. card {b. b < kLimit \<and> b91_char (unat b mod kBase91Base) = b91_char i} = 2)"
proof -
  let ?code = "take (code_len longCode) (accepted (batches (code_len longCode) k r))"
  obtain r' where d: "random_room_code longCode r = Some (?code, r')"
    using random_room_code_drawn [OF assms] .
  have l: "length ?code = code_len longCode" using assms by simp
  have inj: "b91_char a = b91_char i \<longleftrightarrow> a = i" if "a < 91" "i < 91" for a i
    using that decode_table_char by (metis option.inject)
  have "card {b. b < kLimit \<and> b91_char (unat b mod kBase91Base) = b91_char i} = 2" if i: "i < 91" for i
  proof -
    have "{b. b < kLimit \<and> b91_char (unat b mod kBase91Base) = b91_char i} = {b. b < kLimit \<and> unat b mod 91 = i}"
      using inj i by (auto simp: kBase91Base_def)
    also have "\<dots> = {of_nat i, of_nat (i + 91)}" by (rule accepted_uniform [OF i])
    moreover have "unat (of_nat i :: byte) \<noteq> unat (of_nat (i + 91) :: byte)"
      using i by (simp add: unat_of_nat del: of_nat_add)
    ultimately show ?thesis by (auto simp: card_insert_if)
  qed
  then show ?thesis using d l room_code_recognised [OF code_text_accepted l] by blast
qed

theorem room_codes_are_uniform_witness:
  "\<exists>r'. random_room_code False (\<lambda>i. of_nat (180 + i)) = Some (''}~0145'', r')"
proof -
  have "accepted (batches 6 11 (\<lambda>i. of_nat (180 + i))) = ''}~01456789''" by code_simp
  then show ?thesis
    using room_codes_are_uniform [of False 11 "\<lambda>i. of_nat (180 + i)"] by (simp add: code_len_def)
qed

end
