(* ===== verification/Signaling.thy ===== *)
theory Signaling
  imports Complex_Main Tokens
begin

text \<open>
  The two room directories of \<open>client/src/net/signaling.cpp\<close>: \<open>SignalingClient\<close> (the Cloudflare
  worker) and \<open>FirebaseSignalingClient\<close>, over \<open>sync_http\<close>. Qt is a parameter: the environment
  record holds the network manager (a request and the world give a reply and the next world), the
  JSON reader and writer, the percent and base64url encodings, the clock, the process environment
  and the two addresses fixed at build time. Every operation returns \<open>Inl\<close> of the message the code
  leaves in \<open>err\<close>, or \<open>Inr\<close> of its results.
\<close>

section \<open>Qt\<close>

datatype json = JNull | JBool bool | JNum rat | JStr string | JArr "json list" | JObj "(string \<times> json) list"

type_synonym json_object = "(string \<times> json) list"

record http_request =
  hq_method :: string
  hq_url :: string
  hq_query :: "string option"
  hq_headers :: "(string \<times> string) list"
  hq_body :: string

record http_reply =
  hr_finished :: bool
  hr_status :: int
  hr_body :: string
  hr_error :: "string option"

record 'w env =
  qt_getenv :: "string \<Rightarrow> string option"
  qt_send :: "http_request \<Rightarrow> 'w \<Rightarrow> http_reply \<times> 'w"
  qt_to_json :: "json_object \<Rightarrow> string"
  qt_from_json :: "string \<Rightarrow> json option"
  qt_trimmed :: "string \<Rightarrow> string"
  qt_percent :: "string \<Rightarrow> string"
  qt_base64url :: "string \<Rightarrow> string"
  qt_now_ms :: "'w \<Rightarrow> int"
  kHardcodedWorkerUrl :: string
  kHardcodedFirebaseUrl :: string

text \<open>\<open>QJsonObject::value(key).toString()\<close>: empty unless the member is a string.\<close>

definition json_string :: "json_object \<Rightarrow> string \<Rightarrow> string" where
  "json_string ob key = (case map_of ob key of Some (JStr s) \<Rightarrow> s | _ \<Rightarrow> [])"

definition starts_with :: "string \<Rightarrow> string \<Rightarrow> bool" where
  "starts_with sub s \<longleftrightarrow> take (length sub) s = sub"

fun contains :: "string \<Rightarrow> string \<Rightarrow> bool" where
  "contains sub [] = (sub = [])"
| "contains sub (c # s) = (starts_with sub (c # s) \<or> contains sub s)"

text \<open>A request that is still running after the ten seconds of the timer is aborted.\<close>

definition sync_http :: "'w env \<Rightarrow> http_request \<Rightarrow> 'w \<Rightarrow> (string + int \<times> string) \<times> 'w" where
  "sync_http e req w = (case qt_send e req w of (reply, w) \<Rightarrow>
     if \<not> hr_finished reply then (Inl ''Cloudflare signaling timed out'', w)
     else (case hr_error reply of
         Some msg \<Rightarrow> if hr_status reply = 0 then (Inl msg, w) else (Inr (hr_status reply, hr_body reply), w)
       | None \<Rightarrow> (Inr (hr_status reply, hr_body reply), w)))"

definition trim_slashes :: "string \<Rightarrow> string" where
  "trim_slashes url = rev (dropWhile (\<lambda>c. c = CHR ''/'') (rev url))"

section \<open>Cloudflare\<close>

definition kRoomTtlSeconds :: int where "kRoomTtlSeconds = 30 * 24 * 60 * 60"

definition sig_base_url :: "'w env \<Rightarrow> string" where
  "sig_base_url e = trim_slashes (case qt_getenv e ''FOLDERBUDDIES_SIGNALING_URL'' of
      Some v \<Rightarrow> if v \<noteq> [] then v else kHardcodedWorkerUrl e
    | None \<Rightarrow> kHardcodedWorkerUrl e)"

definition sig_configured :: "'w env \<Rightarrow> bool" where
  "sig_configured e = (let u = sig_base_url e in u \<noteq> [] \<and> starts_with ''https://'' u)"

definition json_headers :: "(string \<times> string) list" where
  "json_headers = [(''Content-Type'', ''application/json''), (''Accept'', ''application/json''),
     (''User-Agent'', ''FolderBuddies/1'')]"

definition json_request :: "'w env \<Rightarrow> string \<Rightarrow> string \<Rightarrow> string \<Rightarrow> http_request" where
  "json_request e path mth body = \<lparr>hq_method = mth, hq_url = sig_base_url e @ path, hq_query = None,
     hq_headers = json_headers, hq_body = body\<rparr>"

text \<open>The request that \<open>get\<close> and \<open>remove\<close> build on \<open>/room\<close>.\<close>

definition room_request :: "'w env \<Rightarrow> string \<Rightarrow> string \<Rightarrow> (string \<times> string) list \<Rightarrow> http_request" where
  "room_request e lookupId mth extra = \<lparr>hq_method = mth, hq_url = sig_base_url e @ ''/room'',
     hq_query = Some (''code='' @ qt_percent e lookupId),
     hq_headers = (''Accept'', ''application/json'') # extra, hq_body = []\<rparr>"

definition sig_create :: "'w env \<Rightarrow> cloud_record \<Rightarrow> 'w \<Rightarrow> (string + unit) \<times> 'w" where
  "sig_create e rec w =
     (if \<not> sig_configured e then (Inl ''Cloudflare signaling URL is not configured'', w)
      else let obj = [(''lookup'', JStr (c_lookupId rec)), (''salt'', JStr (c_salt rec)),
             (''wrapped'', JStr (c_wrapped rec)), (''payload'', JStr (c_payload rec)),
             (''owner'', JStr (c_owner rec)), (''ttl'', JNum (of_int kRoomTtlSeconds))];
             body = qt_to_json e obj
      in (case sync_http e (json_request e ''/create'' ''POST'' body) w of
          (Inl err, w) \<Rightarrow> (Inl err, w)
        | (Inr (status, resp), w) \<Rightarrow>
            if status = 201 \<or> status = 200 then (Inr (), w)
            else if status = 409 then (Inl ''room code collision'', w)
            else (Inl (''Cloudflare create failed (HTTP '' @ int_string status @ ''): '' @ resp), w)))"

definition sig_get :: "'w env \<Rightarrow> string \<Rightarrow> 'w \<Rightarrow> (string + string \<times> string \<times> string) \<times> 'w" where
  "sig_get e lookupId w =
     (if \<not> sig_configured e then (Inl ''Cloudflare signaling URL is not configured'', w)
      else (case sync_http e (room_request e lookupId ''GET'' []) w of
          (Inl err, w) \<Rightarrow> (Inl err, w)
        | (Inr (status, resp), w) \<Rightarrow>
            if status \<noteq> 200
            then (Inl (if status = 429 then ''rate limited by signaling server; wait a minute and try again''
                       else if status = 404 then ''no share found for that code''
                       else ''Cloudflare room lookup failed (HTTP '' @ int_string status @ '')''), w)
            else (case qt_from_json e resp of
                Some (JObj ob) \<Rightarrow>
                  (let salt = json_string ob ''salt''; wrapped = json_string ob ''wrapped'';
                       payload = json_string ob ''payload''
                   in if salt = [] \<or> wrapped = [] \<or> payload = []
                      then (Inl ''Cloudflare returned an incomplete record'', w)
                      else (Inr (salt, wrapped, payload), w))
              | _ \<Rightarrow> (Inl ''Cloudflare returned invalid JSON'', w))))"

definition sig_remove :: "'w env \<Rightarrow> string \<Rightarrow> string \<Rightarrow> 'w \<Rightarrow> (string + unit) \<times> 'w" where
  "sig_remove e lookupId owner w =
     (if \<not> sig_configured e then (Inl ''Cloudflare signaling URL is not configured'', w)
      else (case sync_http e (room_request e lookupId ''DELETE'' [(''X-FB-Owner'', owner)]) w of
          (Inl err, w) \<Rightarrow> (Inl err, w)
        | (Inr (status, resp), w) \<Rightarrow>
            if status = 200 \<or> status = 204 \<or> status = 404 then (Inr (), w)
            else (Inl (''Cloudflare room delete failed (HTTP '' @ int_string status @ '')''), w)))"

section \<open>Firebase\<close>

definition fb_base_url :: "'w env \<Rightarrow> string" where
  "fb_base_url e = trim_slashes (case qt_getenv e ''FOLDERBUDDIES_FIREBASE_DATABASE_URL'' of
      Some v \<Rightarrow> if v \<noteq> [] then v else kHardcodedFirebaseUrl e
    | None \<Rightarrow> kHardcodedFirebaseUrl e)"

definition fb_configured :: "'w env \<Rightarrow> bool" where
  "fb_configured e = (let u = fb_base_url e in u \<noteq> [] \<and> starts_with ''https://'' u \<and>
     (contains ''firebasedatabase.app'' u \<or> contains ''firebaseio.com'' u))"

definition firebase_safe_key :: "'w env \<Rightarrow> string \<Rightarrow> string" where
  "firebase_safe_key e lookupId = qt_base64url e lookupId"

definition firebase_room_path :: "'w env \<Rightarrow> string \<Rightarrow> string" where
  "firebase_room_path e lookupId = ''/nativeRooms/'' @ firebase_safe_key e lookupId @ ''.json''"

definition kFirebaseRoomMaxAgeMs :: int where
  "kFirebaseRoomMaxAgeMs = 30 * 24 * 60 * 60 * 1000"

text \<open>A \<open>createdAt\<close> below 20000000000 is in seconds, any other in milliseconds.\<close>

definition firebase_created_at_ms :: "json_object \<Rightarrow> int" where
  "firebase_created_at_ms ob = (case map_of ob ''createdAt'' of
      Some (JNum raw) \<Rightarrow>
        if raw \<le> 0 then 0
        else if raw < 20000000000 then \<lfloor>raw * 1000\<rfloor>
        else \<lfloor>raw\<rfloor>
    | _ \<Rightarrow> 0)"

definition firebase_room_expired :: "json_object \<Rightarrow> int \<Rightarrow> bool" where
  "firebase_room_expired ob now = (let createdAtMs = firebase_created_at_ms ob in
     createdAtMs \<le> 0 \<or> createdAtMs < now - kFirebaseRoomMaxAgeMs)"

definition firebase_request :: "'w env \<Rightarrow> string \<Rightarrow> string \<Rightarrow> string \<Rightarrow> http_request" where
  "firebase_request e lookupId mth body = \<lparr>hq_method = mth,
     hq_url = fb_base_url e @ firebase_room_path e lookupId, hq_query = None,
     hq_headers = json_headers, hq_body = body\<rparr>"

definition fb_create :: "'w env \<Rightarrow> cloud_record \<Rightarrow> 'w \<Rightarrow> (string + unit) \<times> 'w" where
  "fb_create e rec w =
     (if \<not> fb_configured e then (Inl ''Firebase fallback URL is not configured'', w)
      else (case sync_http e (firebase_request e (c_lookupId rec) ''GET'' []) w of
          (Inl err, w) \<Rightarrow> (Inl err, w)
        | (Inr (status, resp), w) \<Rightarrow>
            if status \<noteq> 200
            then (Inl (''Firebase fallback room check failed (HTTP '' @ int_string status @ '')''), w)
            else if qt_trimmed e resp \<noteq> ''null'' then (Inl ''Firebase fallback room code collision'', w)
            else let obj = [(''v'', JNum 1), (''lookup'', JStr (c_lookupId rec)),
                   (''salt'', JStr (c_salt rec)), (''wrapped'', JStr (c_wrapped rec)),
                   (''payload'', JStr (c_payload rec)), (''owner'', JStr (c_owner rec)),
                   (''createdAt'', JNum (of_int (qt_now_ms e w div 1000)))];
                   body = qt_to_json e obj
            in (case sync_http e (firebase_request e (c_lookupId rec) ''PUT'' body) w of
                (Inl err, w) \<Rightarrow> (Inl err, w)
              | (Inr (status, resp), w) \<Rightarrow>
                  if status = 200 then (Inr (), w)
                  else (Inl (''Firebase fallback create failed (HTTP '' @ int_string status @ ''): '' @ resp), w))))"

definition fb_remove :: "'w env \<Rightarrow> string \<Rightarrow> string \<Rightarrow> 'w \<Rightarrow> (string + unit) \<times> 'w" where
  "fb_remove e lookupId owner w =
     (if \<not> fb_configured e then (Inl ''Firebase fallback URL is not configured'', w)
      else (case sync_http e (firebase_request e lookupId ''DELETE'' []) w of
          (Inl err, w) \<Rightarrow> (Inl err, w)
        | (Inr (status, resp), w) \<Rightarrow>
            if status = 200 \<or> status = 204 then (Inr (), w)
            else (Inl (''Firebase fallback delete failed (HTTP '' @ int_string status @ '')''), w)))"

definition fb_get :: "'w env \<Rightarrow> string \<Rightarrow> 'w \<Rightarrow> (string + string \<times> string \<times> string) \<times> 'w" where
  "fb_get e lookupId w =
     (if \<not> fb_configured e then (Inl ''Firebase fallback URL is not configured'', w)
      else (case sync_http e (firebase_request e lookupId ''GET'' []) w of
          (Inl err, w) \<Rightarrow> (Inl err, w)
        | (Inr (status, resp), w) \<Rightarrow>
            if status \<noteq> 200
            then (Inl (''Firebase fallback lookup failed (HTTP '' @ int_string status @ '')''), w)
            else if qt_trimmed e resp = ''null''
            then (Inl ''no Firebase fallback share found for that code'', w)
            else (case qt_from_json e resp of
                Some (JObj ob) \<Rightarrow>
                  if firebase_room_expired ob (qt_now_ms e w)
                  then (case fb_remove e lookupId [] w of (_, w) \<Rightarrow> (Inl ''Firebase fallback room expired'', w))
                  else (let salt = json_string ob ''salt''; wrapped = json_string ob ''wrapped'';
                            payload = json_string ob ''payload''
                        in if salt = [] \<or> wrapped = [] \<or> payload = []
                           then (Inl ''Firebase fallback returned an incomplete record'', w)
                           else (Inr (salt, wrapped, payload), w))
              | _ \<Rightarrow> (Inl ''Firebase fallback returned invalid JSON'', w))))"

section \<open>What a directory promises its users\<close>

text \<open>
  Both clients are used through the same three operations. A directory that is not configured
  fails every call and sends nothing; a lookup that succeeds brings three non-empty fields.
\<close>

locale room_directory =
  fixes configured :: bool
    and create :: "cloud_record \<Rightarrow> 'w \<Rightarrow> (string + unit) \<times> 'w"
    and get :: "string \<Rightarrow> 'w \<Rightarrow> (string + string \<times> string \<times> string) \<times> 'w"
    and remove :: "string \<Rightarrow> string \<Rightarrow> 'w \<Rightarrow> (string + unit) \<times> 'w"
  assumes create_off: "\<not> configured \<Longrightarrow> \<exists>msg. create rec w = (Inl msg, w)"
    and get_off: "\<not> configured \<Longrightarrow> \<exists>msg. msg \<noteq> [] \<and> get i w = (Inl msg, w)"
    and remove_off: "\<not> configured \<Longrightarrow> \<exists>msg. remove i owner w = (Inl msg, w)"
    and get_fields: "get i w = (Inr (s, wr, p), w') \<Longrightarrow> s \<noteq> [] \<and> wr \<noteq> [] \<and> p \<noteq> []"
begin

lemma create_needs_configuration: "create rec w = (Inr u, w') \<Longrightarrow> configured"
  using create_off [of rec w] by auto

lemma get_needs_configuration: "get i w = (Inr r, w') \<Longrightarrow> configured"
  using get_off [of i w] by auto

end

lemma sig_get_iff:
  "sig_get e lookupId w = (Inr (s, wr, p), w') \<longleftrightarrow>
     sig_configured e \<and> (\<exists>resp ob.
       sync_http e (room_request e lookupId ''GET'' []) w = (Inr (200, resp), w') \<and>
       qt_from_json e resp = Some (JObj ob) \<and> s = json_string ob ''salt'' \<and>
       wr = json_string ob ''wrapped'' \<and> p = json_string ob ''payload'' \<and>
       s \<noteq> [] \<and> wr \<noteq> [] \<and> p \<noteq> [])"
proof (cases "sync_http e (room_request e lookupId ''GET'' []) w")
  case (Pair res w1)
  show ?thesis
  proof (cases res)
    case (Inr sr)
    obtain status resp where "sr = (status, resp)" by fastforce
    then show ?thesis using Pair Inr
      by (auto simp: sig_get_def Let_def split: option.splits json.splits if_splits)
  qed (use Pair in \<open>simp add: sig_get_def\<close>)
qed

lemma fb_get_iff:
  "fb_get e lookupId w = (Inr (s, wr, p), w') \<longleftrightarrow>
     fb_configured e \<and> (\<exists>resp ob.
       sync_http e (firebase_request e lookupId ''GET'' []) w = (Inr (200, resp), w') \<and>
       qt_trimmed e resp \<noteq> ''null'' \<and>
       qt_from_json e resp = Some (JObj ob) \<and> \<not> firebase_room_expired ob (qt_now_ms e w') \<and>
       s = json_string ob ''salt'' \<and>
       wr = json_string ob ''wrapped'' \<and> p = json_string ob ''payload'' \<and>
       s \<noteq> [] \<and> wr \<noteq> [] \<and> p \<noteq> [])"
proof (cases "sync_http e (firebase_request e lookupId ''GET'' []) w")
  case (Pair res w1)
  show ?thesis
  proof (cases res)
    case (Inr sr)
    obtain status resp where "sr = (status, resp)" by fastforce
    then show ?thesis using Pair Inr
      by (auto simp: fb_get_def Let_def split: option.splits json.splits if_splits prod.splits)
  qed (use Pair in \<open>simp add: fb_get_def\<close>)
qed

interpretation cloudflare: room_directory "sig_configured e" "sig_create e" "sig_get e" "sig_remove e"
  by unfold_locales (auto simp: sig_create_def sig_remove_def sig_get_iff, simp add: sig_get_def)

interpretation firebase: room_directory "fb_configured e" "fb_create e" "fb_get e" "fb_remove e"
  by unfold_locales (auto simp: fb_create_def fb_remove_def fb_get_iff, simp add: fb_get_def)

section \<open>The requests\<close>

text \<open>The same environment on a world that also keeps the requests sent.\<close>

definition traced :: "'w env \<Rightarrow> ('w \<times> http_request list) env" where
  "traced e = \<lparr>qt_getenv = qt_getenv e,
     qt_send = (\<lambda>req (w, sent). case qt_send e req w of (reply, w) \<Rightarrow> (reply, (w, sent @ [req]))),
     qt_to_json = qt_to_json e, qt_from_json = qt_from_json e, qt_trimmed = qt_trimmed e,
     qt_percent = qt_percent e, qt_base64url = qt_base64url e, qt_now_ms = (\<lambda>(w, sent). qt_now_ms e w),
     kHardcodedWorkerUrl = kHardcodedWorkerUrl e, kHardcodedFirebaseUrl = kHardcodedFirebaseUrl e\<rparr>"

text \<open>What the requests sent by a run satisfy.\<close>

definition sends :: "(http_request \<Rightarrow> bool) \<Rightarrow> (('w \<times> http_request list) \<Rightarrow> 'a \<times> ('w \<times> http_request list)) \<Rightarrow> bool" where
  "sends P run \<longleftrightarrow> (\<forall>w sent. \<exists>new. snd (snd (run (w, sent))) = sent @ new \<and> list_all P new)"

lemma sends_nothing: "(\<And>ws. snd (run ws) = ws) \<Longrightarrow> sends P run"
  by (auto simp: sends_def)

lemma sendsD: "sends P run \<Longrightarrow> run (w, s) = (x, (w', s')) \<Longrightarrow> \<exists>new. s' = s @ new \<and> list_all P new"
  unfolding sends_def by (metis snd_conv)

lemma traced_sync_http:
  "\<exists>res w'. sync_http (traced e) req (w, sent) = (res, (w', sent @ [req]))"
  by (auto simp: sync_http_def traced_def split: prod.split option.split)

lemma sends_sync_http: "(\<And>w. P (req w)) \<Longrightarrow> sends P (\<lambda>w. sync_http (traced e) (req w) w)"
  unfolding sends_def
proof (intro allI)
  fix w sent
  assume p: "\<And>w. P (req w)"
  let ?req = "req (w, sent)"
  obtain res w' where r: "sync_http (traced e) ?req (w, sent) = (res, (w', sent @ [?req]))"
    using traced_sync_http [of e ?req w sent] by blast
  show "\<exists>new. snd (snd (sync_http (traced e) ?req (w, sent))) = sent @ new \<and> list_all P new"
    by (rule exI [of _ "[?req]"]) (simp add: r p)
qed

lemma sends_bind:
  assumes "sends P run" "\<And>x. sends P (k x)"
  shows "sends P (\<lambda>w. case run w of (x, w) \<Rightarrow> k x w)"
  unfolding sends_def
proof (intro allI)
  fix w sent
  obtain x w1 sent1 where r: "run (w, sent) = (x, (w1, sent1))" by (metis prod.exhaust)
  obtain new where n: "sent1 = sent @ new" "list_all P new"
    using sendsD [OF assms(1) r] by blast
  obtain new' where "snd (snd (k x (w1, sent1))) = sent1 @ new'" "list_all P new'"
    using assms(2) [of x] unfolding sends_def by blast
  then show "\<exists>new. snd (snd (case run (w, sent) of (x, w) \<Rightarrow> k x w)) = sent @ new \<and> list_all P new"
    using r n by auto
qed

lemma sends_if: "(c \<Longrightarrow> sends P a) \<Longrightarrow> (\<not> c \<Longrightarrow> sends P b) \<Longrightarrow> sends P (\<lambda>w. if c then a w else b w)"
  by (cases c) simp_all

lemma sends_if_state: "sends P a \<Longrightarrow> sends P b \<Longrightarrow> sends P (\<lambda>w. if c w then a w else b w)"
  by (simp add: sends_def)

lemma sends_result:
  "(\<And>st resp. sends P (\<lambda>w. f st resp w)) \<Longrightarrow>
   sends P (\<lambda>w. case res of Inl err \<Rightarrow> (Inl err, w) | Inr (st, resp) \<Rightarrow> f st resp w)"
  by (cases res) (auto split: prod.split simp: sends_def)

definition https_under :: "string \<Rightarrow> http_request \<Rightarrow> bool" where
  "https_under base req \<longleftrightarrow> starts_with ''https://'' base \<and> starts_with base (hq_url req)"

lemma starts_with_append [simp]: "starts_with u (u @ x)"
  by (simp add: starts_with_def)

lemma traced_fields [simp]:
  "qt_getenv (traced e) = qt_getenv e" "kHardcodedWorkerUrl (traced e) = kHardcodedWorkerUrl e"
  "kHardcodedFirebaseUrl (traced e) = kHardcodedFirebaseUrl e"
  by (simp_all add: traced_def)

lemma traced_urls [simp]: "sig_base_url (traced e) = sig_base_url e" "fb_base_url (traced e) = fb_base_url e"
  by (simp_all add: sig_base_url_def fb_base_url_def split: option.split)

lemma traced_configured [simp]:
  "sig_configured (traced e) = sig_configured e" "fb_configured (traced e) = fb_configured e"
  by (simp_all add: sig_configured_def fb_configured_def)

lemma request_under:
  "sig_configured e \<Longrightarrow> https_under (sig_base_url e) (json_request (traced e) path mth body)"
  "sig_configured e \<Longrightarrow> https_under (sig_base_url e) (room_request (traced e) i mth extra)"
  "fb_configured e \<Longrightarrow> https_under (fb_base_url e) (firebase_request (traced e) i mth body)"
  by (simp_all add: https_under_def json_request_def room_request_def firebase_request_def
      sig_configured_def fb_configured_def Let_def)

lemma sends_leaf: "(\<And>w. snd (f w) = w) \<Longrightarrow> sends P f"
  by (simp add: sends_def)

lemma sends_sig:
  "sends (https_under (sig_base_url e)) (sig_create (traced e) rec)"
  "sends (https_under (sig_base_url e)) (sig_get (traced e) i)"
  "sends (https_under (sig_base_url e)) (sig_remove (traced e) i owner)"
  unfolding sig_create_def sig_get_def sig_remove_def Let_def
  by (intro sends_if sends_bind sends_sync_http sends_result sends_leaf;
      simp add: request_under split: option.split json.split)+

lemma sends_fb_remove: "sends (https_under (fb_base_url e)) (fb_remove (traced e) i owner)"
  unfolding fb_remove_def Let_def
  by (intro sends_if sends_bind sends_sync_http sends_result sends_leaf; simp add: request_under)

lemma sends_fb_create: "sends (https_under (fb_base_url e)) (fb_create (traced e) rec)"
  unfolding fb_create_def Let_def
  by (intro sends_if sends_bind sends_sync_http sends_result sends_leaf; simp add: request_under)

lemma sends_fb_get: "sends (https_under (fb_base_url e)) (fb_get (traced e) i)"
proof -
  let ?P = "https_under (fb_base_url e)"
  have tail: "sends ?P (\<lambda>w. if firebase_room_expired ob (qt_now_ms (traced e) w)
      then (case fb_remove (traced e) i [] w of (_, w) \<Rightarrow> (Inl err, w))
      else if c then (Inl err', w) else (Inr res, w))" for ob err c err' and res :: "string \<times> string \<times> string"
    by (intro sends_if_state sends_bind [OF sends_fb_remove] sends_leaf) simp_all
  have cases: "sends ?P (\<lambda>w. case j of Some (JObj ob) \<Rightarrow> f ob w | _ \<Rightarrow> (Inl err, w))"
    if "\<And>ob. sends ?P (f ob)" for j err and f :: "_ \<Rightarrow> _ \<Rightarrow> (string + string \<times> string \<times> string) \<times> _"
  proof (cases j)
    case (Some x)
    then show ?thesis using that by (cases x) (simp_all add: sends_leaf)
  qed (simp add: sends_leaf)
  show ?thesis
    unfolding fb_get_def Let_def
    by (intro sends_if sends_bind sends_sync_http sends_result cases tail) (simp_all add: request_under sends_leaf)
qed

section \<open>Properties\<close>

text \<open>Every HTTP request that creating, fetching or removing a room sends, to either
  directory, goes to a URL under that directory's configured base, which starts with
  https://.\<close>

theorem signaling_requests_use_https:
  "sends (https_under (sig_base_url e)) (sig_create (traced e) rec) \<and>
   sends (https_under (sig_base_url e)) (sig_get (traced e) i) \<and>
   sends (https_under (sig_base_url e)) (sig_remove (traced e) i owner) \<and>
   sends (https_under (fb_base_url e)) (fb_create (traced e) rec) \<and>
   sends (https_under (fb_base_url e)) (fb_get (traced e) i) \<and>
   sends (https_under (fb_base_url e)) (fb_remove (traced e) i owner)"
  by (intro conjI sends_sig sends_fb_create sends_fb_get sends_fb_remove)

text \<open>FirebaseSignalingClient::get succeeds exactly when the address is configured, the reply
  is HTTP 200 with a JSON object other than null, its createdAt is positive and at most 30
  days old, and all three fields are non-empty strings; those are the fields it returns.\<close>

theorem firebase_never_serves_an_expired_room:
  "fb_get e lookupId w = (Inr (s, wr, p), w') \<longleftrightarrow>
     fb_configured e \<and> (\<exists>resp ob.
       sync_http e (firebase_request e lookupId ''GET'' []) w = (Inr (200, resp), w') \<and>
       qt_trimmed e resp \<noteq> ''null'' \<and> qt_from_json e resp = Some (JObj ob) \<and>
       0 < firebase_created_at_ms ob \<and>
       qt_now_ms e w' \<le> firebase_created_at_ms ob + kFirebaseRoomMaxAgeMs \<and>
       (s, wr, p) = (json_string ob ''salt'', json_string ob ''wrapped'', json_string ob ''payload'') \<and>
       [] \<notin> {s, wr, p})"
  unfolding fb_get_iff by (auto simp: firebase_room_expired_def Let_def)

end
