(* ===== verification/NetAddr.thy ===== *)
theory NetAddr
  imports ServerSessions
begin

text \<open>
  How a host finds the address it advertises: \<open>client/src/net/netutil.cpp\<close>, which classifies the
  addresses of the local interfaces, and \<open>client/src/net/upnp.cpp\<close>, which asks the router for a port
  mapping. The interface list of \<open>getifaddrs\<close>, the address formatting of \<open>inet_ntop\<close> and the calls of
  miniupnpc are parameters.
\<close>

section \<open>Address classes\<close>

type_synonym in6 = bytes

definition is_global_v6 :: "in6 \<Rightarrow> bool" where
  "is_global_v6 a \<longleftrightarrow> a ! 0 AND 0xe0 = 0x20"

definition is_ula_v6 :: "in6 \<Rightarrow> bool" where
  "is_ula_v6 a \<longleftrightarrow> a ! 0 AND 0xfe = 0xfc"

definition is_linklocal_v6 :: "in6 \<Rightarrow> bool" where
  "is_linklocal_v6 a \<longleftrightarrow> a ! 0 = 0xfe \<and> a ! 1 AND 0xc0 = 0x80"

definition is_loopback_v6 :: "in6 \<Rightarrow> bool" where
  "is_loopback_v6 a \<longleftrightarrow> list_all (\<lambda>i. a ! i = 0) [0..<15] \<and> a ! 15 = 1"

definition v4_octets :: "u32 \<Rightarrow> byte \<times> byte" where
  "v4_octets h = (ucast (drop_bit 24 h AND 0xff), ucast (drop_bit 16 h AND 0xff))"

definition is_private_v4 :: "u32 \<Rightarrow> bool" where
  "is_private_v4 h = (case v4_octets h of (a, b) \<Rightarrow>
     a = 10 \<or> (a = 172 \<and> b \<ge> 16 \<and> b \<le> 31) \<or> (a = 192 \<and> b = 168))"

definition is_usable_v4 :: "u32 \<Rightarrow> bool" where
  "is_usable_v4 h = (case v4_octets h of (a, b) \<Rightarrow>
     a \<noteq> 127 \<and> \<not> (a = 169 \<and> b = 254) \<and> a \<noteq> 0)"

record local_addrs =
  globalV6 :: string
  ulaV6 :: string
  privateV4 :: string
  anyV4 :: string

text \<open>An IPv4 address is kept in host order, after the \<open>ntohl\<close> of the code.\<close>

datatype sockaddr = AF_INET6 in6 | AF_INET u32 | AF_OTHER

record ifaddr =
  ifa_addr :: "sockaddr option"
  ifa_up :: bool
  ifa_loopback :: bool

record ntop =
  ntop6 :: "in6 \<Rightarrow> string option"
  ntop4 :: "u32 \<Rightarrow> string option"

definition no_addrs :: local_addrs where
  "no_addrs = \<lparr>globalV6 = [], ulaV6 = [], privateV4 = [], anyV4 = []\<rparr>"

definition consider_v6 :: "ntop \<Rightarrow> in6 \<Rightarrow> local_addrs \<Rightarrow> local_addrs" where
  "consider_v6 t a out =
     (if is_loopback_v6 a \<or> is_linklocal_v6 a then out
      else (case ntop6 t a of
          None \<Rightarrow> out
        | Some buf \<Rightarrow>
            if is_global_v6 a \<and> globalV6 out = [] then out\<lparr>globalV6 := buf\<rparr>
            else if is_ula_v6 a \<and> ulaV6 out = [] then out\<lparr>ulaV6 := buf\<rparr>
            else out))"

definition consider_v4 :: "ntop \<Rightarrow> u32 \<Rightarrow> local_addrs \<Rightarrow> local_addrs" where
  "consider_v4 t h out =
     (if \<not> is_usable_v4 h then out
      else (case ntop4 t h of
          None \<Rightarrow> out
        | Some buf \<Rightarrow>
            let out = (if is_private_v4 h \<and> privateV4 out = [] then out\<lparr>privateV4 := buf\<rparr> else out)
            in (if anyV4 out = [] then out\<lparr>anyV4 := buf\<rparr> else out)))"

text \<open>The body of the interface loop.\<close>

definition consider_if :: "ntop \<Rightarrow> ifaddr \<Rightarrow> local_addrs \<Rightarrow> local_addrs" where
  "consider_if t p out = (case ifa_addr p of
      None \<Rightarrow> out
    | Some sa \<Rightarrow>
        if \<not> ifa_up p \<or> ifa_loopback p then out
        else (case sa of
            AF_INET6 a \<Rightarrow> consider_v6 t a out
          | AF_INET h \<Rightarrow> consider_v4 t h out
          | AF_OTHER \<Rightarrow> out))"

text \<open>\<open>None\<close> is a failing \<open>getifaddrs\<close>.\<close>

definition enumerate_local_addrs :: "ntop \<Rightarrow> ifaddr list option \<Rightarrow> local_addrs" where
  "enumerate_local_addrs t ifs = (case ifs of
      None \<Rightarrow> no_addrs
    | Some ps \<Rightarrow> fold (consider_if t) ps no_addrs)"

definition best_local_ip :: "ntop \<Rightarrow> ifaddr list option \<Rightarrow> bool \<Rightarrow> string" where
  "best_local_ip t ifs lanOnly = (let a = enumerate_local_addrs t ifs in
     if lanOnly then
       (if ulaV6 a \<noteq> [] then ulaV6 a
        else if privateV4 a \<noteq> [] then privateV4 a
        else if anyV4 a \<noteq> [] then anyV4 a
        else ''127.0.0.1'')
     else if globalV6 a \<noteq> [] then globalV6 a
     else [])"

section \<open>Port mapping\<close>

text \<open>
  The router as miniupnpc presents it: whether a gateway is discovered, the code of
  \<open>UPNP_GetValidIGD\<close> with the control URL, the service type and the local address, the external
  address, and the three calls on mappings.
\<close>

record 'r igd =
  igd_discovered :: bool
  igd_valid :: int
  igd_control :: string
  igd_service :: string
  igd_lan :: string
  igd_external :: string
  igd_exists :: "u16 \<Rightarrow> 'r \<Rightarrow> bool \<times> 'r"
  igd_add :: "u16 \<Rightarrow> u16 \<Rightarrow> string \<Rightarrow> 'r \<Rightarrow> bool \<times> 'r"
  igd_delete :: "string \<Rightarrow> string \<Rightarrow> u16 \<Rightarrow> 'r \<Rightarrow> 'r"

record upnp =
  up_active :: bool
  up_externalPort :: u16
  up_ctrlUrl :: string
  up_serviceType :: string

definition upnp_init :: upnp where
  "upnp_init = \<lparr>up_active = False, up_externalPort = 0, up_ctrlUrl = [], up_serviceType = []\<rparr>"

fun upnp_loop :: "'r igd \<Rightarrow> u16 \<Rightarrow> nat \<Rightarrow> u16 \<Rightarrow> 'r \<Rightarrow> u16 option \<times> 'r" where
  "upnp_loop g internalPort 0 candidate r = (None, r)"
| "upnp_loop g internalPort (Suc tries) candidate r =
     (let candidate = (if candidate = 0 then candidate + 1 else candidate) in
      case igd_exists g candidate r of (exists, r) \<Rightarrow>
        if exists then upnp_loop g internalPort tries (candidate + 1) r
        else (case igd_add g candidate internalPort (igd_lan g) r of (added, r) \<Rightarrow>
          if added then (Some candidate, r)
          else upnp_loop g internalPort tries (candidate + 1) r))"

definition upnp_map :: "'r igd \<Rightarrow> u16 \<Rightarrow> upnp \<Rightarrow> 'r \<Rightarrow> (string + string \<times> u16) \<times> upnp \<times> 'r" where
  "upnp_map g internalPort u r =
     (if \<not> igd_discovered g then (Inl ''no UPnP IGD discovered'', u, r)
      else if igd_valid g \<noteq> 1 \<and> igd_valid g \<noteq> 2 then (Inl ''no connected IGD'', u, r)
      else (case upnp_loop g internalPort 64 internalPort r of
          (None, r) \<Rightarrow> (Inl ''AddPortMapping failed (no free external port on the router)'', u, r)
        | (Some port, r) \<Rightarrow>
            (Inr (if igd_external g \<noteq> [] then igd_external g else igd_lan g, port),
             u\<lparr>up_externalPort := port, up_ctrlUrl := igd_control g, up_serviceType := igd_service g,
               up_active := True\<rparr>, r)))"

definition upnp_unmap :: "'r igd \<Rightarrow> upnp \<Rightarrow> 'r \<Rightarrow> upnp \<times> 'r" where
  "upnp_unmap g u r =
     (if \<not> up_active u then (u, r)
      else let r = igd_delete g (up_ctrlUrl u) (up_serviceType u) (up_externalPort u) r
           in (u\<lparr>up_active := False\<rparr>, r))"

section \<open>Which address is chosen\<close>

text \<open>Where each field of the enumeration comes from.\<close>

definition addr_ok :: "ntop \<Rightarrow> ifaddr list \<Rightarrow> local_addrs \<Rightarrow> bool" where
  "addr_ok t ps out \<longleftrightarrow>
     (globalV6 out \<noteq> [] \<longrightarrow> (\<exists>p \<in> set ps. ifa_up p \<and> \<not> ifa_loopback p \<and>
        (\<exists>a. ifa_addr p = Some (AF_INET6 a) \<and> is_global_v6 a \<and> ntop6 t a = Some (globalV6 out)))) \<and>
     (ulaV6 out \<noteq> [] \<longrightarrow> (\<exists>p \<in> set ps. ifa_up p \<and> \<not> ifa_loopback p \<and>
        (\<exists>a. ifa_addr p = Some (AF_INET6 a) \<and> is_ula_v6 a \<and> \<not> is_global_v6 a \<and> ntop6 t a = Some (ulaV6 out)))) \<and>
     (privateV4 out \<noteq> [] \<longrightarrow> (\<exists>p \<in> set ps. ifa_up p \<and> \<not> ifa_loopback p \<and>
        (\<exists>h. ifa_addr p = Some (AF_INET h) \<and> is_private_v4 h \<and> is_usable_v4 h \<and> ntop4 t h = Some (privateV4 out)))) \<and>
     (anyV4 out \<noteq> [] \<longrightarrow> (\<exists>p \<in> set ps. ifa_up p \<and> \<not> ifa_loopback p \<and>
        (\<exists>h. ifa_addr p = Some (AF_INET h) \<and> is_usable_v4 h \<and> ntop4 t h = Some (anyV4 out))))"

lemma ula_not_global: "is_ula_v6 a \<Longrightarrow> \<not> is_global_v6 a"
proof
  assume u: "is_ula_v6 a" and g: "is_global_v6 a"
  have "bit (a ! 0 AND 0xfe) 7" using u by (simp add: is_ula_v6_def)
  then have "bit (a ! 0) 7" by (simp add: bit_and_iff)
  moreover have "\<not> bit (a ! 0 AND 0xe0) 7" using g by (simp add: is_global_v6_def)
  then have "\<not> bit (a ! 0) 7" by (simp add: bit_and_iff)
  ultimately show False by simp
qed

lemma consider_if_ok:
  assumes "addr_ok t ps out"
  shows "addr_ok t (ps @ [p]) (consider_if t p out)"
proof -
  have m: "addr_ok t (ps @ [p]) out" using assms by (auto simp: addr_ok_def)
  show ?thesis
  proof (cases "ifa_addr p")
    case (Some sa)
    show ?thesis
    proof (cases "ifa_up p \<and> \<not> ifa_loopback p")
      case up: True
      show ?thesis
      proof (cases sa)
        case (AF_INET6 a)
        then show ?thesis using m Some up ula_not_global [of a]
          by (auto simp: consider_if_def consider_v6_def addr_ok_def split: option.split)
      next
        case (AF_INET h)
        then show ?thesis using m Some up
          by (auto simp: consider_if_def consider_v4_def addr_ok_def Let_def split: option.split)
      qed (use m Some in \<open>simp add: consider_if_def\<close>)
    qed (use m Some in \<open>auto simp: consider_if_def\<close>)
  qed (use m in \<open>simp add: consider_if_def\<close>)
qed

lemma fold_consider_ok: "addr_ok t ps out \<Longrightarrow> addr_ok t (ps @ qs) (fold (consider_if t) qs out)"
proof (induction qs arbitrary: ps out)
  case (Cons q qs)
  from Cons.IH [OF consider_if_ok [OF Cons.prems, of q]] show ?case by simp
qed simp

lemma enumerate_ok: "addr_ok t ps (enumerate_local_addrs t (Some ps))"
  using fold_consider_ok [of t "[]" no_addrs ps]
  by (simp add: enumerate_local_addrs_def addr_ok_def no_addrs_def)

section \<open>Mapping attempts\<close>

fun candidates :: "nat \<Rightarrow> u16 \<Rightarrow> u16 list" where
  "candidates 0 c = []"
| "candidates (Suc n) c = (let c = (if c = 0 then c + 1 else c) in c # candidates n (c + 1))"

lemma length_candidates [simp]: "length (candidates n c) = n"
  by (induction n arbitrary: c) (simp_all add: Let_def)

lemma candidates_nonzero: "0 \<notin> set (candidates n c)"
  by (induction n arbitrary: c) (auto simp: Let_def)

text \<open>A candidate that the loop passed over: it had a mapping, or the router refused one.\<close>

fun passed :: "'r igd \<Rightarrow> u16 \<Rightarrow> u16 list \<Rightarrow> 'r \<Rightarrow> 'r \<Rightarrow> bool" where
  "passed g i [] r r' = (r = r')"
| "passed g i (c # cs) r r' =
     (case igd_exists g c r of (exists, r1) \<Rightarrow>
        if exists then passed g i cs r1 r'
        else (case igd_add g c i (igd_lan g) r1 of (added, r2) \<Rightarrow> \<not> added \<and> passed g i cs r2 r'))"

lemma upnp_loop_Some:
  "upnp_loop g i n c r = (Some p, r') \<Longrightarrow>
   \<exists>k r1 r2. k < n \<and> p = candidates n c ! k \<and> passed g i (take k (candidates n c)) r r1 \<and>
     igd_exists g p r1 = (False, r2) \<and> igd_add g p i (igd_lan g) r2 = (True, r')"
proof (induction n arbitrary: c r)
  case (Suc n)
  let ?c = "if c = 0 then c + 1 else c"
  obtain ex r1 where e: "igd_exists g ?c r = (ex, r1)" by fastforce
  obtain ad r2 where a: "igd_add g ?c i (igd_lan g) r1 = (ad, r2)" by fastforce
  consider "ex" | "\<not> ex" "ad" | "\<not> ex" "\<not> ad" by blast
  then show ?case
  proof cases
    case 1
    with Suc.prems e have "upnp_loop g i n (?c + 1) r1 = (Some p, r')" by (simp add: Let_def)
    from Suc.IH [OF this] obtain k q1 q2 where
      "k < n" "p = candidates n (?c + 1) ! k" "passed g i (take k (candidates n (?c + 1))) r1 q1"
      "igd_exists g p q1 = (False, q2)" "igd_add g p i (igd_lan g) q2 = (True, r')" by blast
    then show ?thesis using 1 e by (intro exI [of _ "Suc k"]) (auto simp: Let_def)
  next
    case 2
    with Suc.prems e a have "p = ?c" "r' = r2" by (simp_all add: Let_def)
    then show ?thesis using 2 e a by (intro exI [of _ 0]) (auto simp: Let_def)
  next
    case 3
    with Suc.prems e a have "upnp_loop g i n (?c + 1) r2 = (Some p, r')" by (simp add: Let_def)
    from Suc.IH [OF this] obtain k q1 q2 where
      "k < n" "p = candidates n (?c + 1) ! k" "passed g i (take k (candidates n (?c + 1))) r2 q1"
      "igd_exists g p q1 = (False, q2)" "igd_add g p i (igd_lan g) q2 = (True, r')" by blast
    then show ?thesis using 3 e a by (intro exI [of _ "Suc k"]) (auto simp: Let_def)
  qed
qed simp

lemma upnp_loop_None: "upnp_loop g i n c r = (None, r') \<longleftrightarrow> passed g i (candidates n c) r r'"
  if "fst (upnp_loop g i n c r) = None"
  using that
proof (induction n arbitrary: c r)
  case (Suc n)
  then show ?case by (auto simp: Let_def split: prod.splits if_splits)
qed simp

section \<open>Properties\<close>

text \<open>An address of an interface that is up and is not a loopback, of a class \<open>P6\<close> or \<open>P4\<close>.\<close>

definition interface_address :: "ntop \<Rightarrow> ifaddr list \<Rightarrow> (in6 \<Rightarrow> bool) \<Rightarrow> (u32 \<Rightarrow> bool) \<Rightarrow> string \<Rightarrow> bool" where
  "interface_address t ps P6 P4 ip \<longleftrightarrow> (\<exists>p \<in> set ps. ifa_up p \<and> \<not> ifa_loopback p \<and>
     ((\<exists>a. ifa_addr p = Some (AF_INET6 a) \<and> P6 a \<and> ntop6 t a = Some ip) \<or>
      (\<exists>h. ifa_addr p = Some (AF_INET h) \<and> P4 h \<and> ntop4 t h = Some ip)))"

text \<open>best_local_ip for a LAN share is never empty and is either the loopback address or the
  address of an up, non-loopback interface that is a unique-local IPv6 (never a global one)
  or a usable IPv4; for an Internet share it is empty or a global IPv6 of such an interface.\<close>

theorem advertised_address:
  "best_local_ip t (Some ps) True \<noteq> [] \<and>
   (best_local_ip t (Some ps) True = ''127.0.0.1'' \<or>
    interface_address t ps (\<lambda>a. is_ula_v6 a \<and> \<not> is_global_v6 a) is_usable_v4 (best_local_ip t (Some ps) True)) \<and>
   (best_local_ip t (Some ps) False = [] \<or>
    interface_address t ps is_global_v6 (\<lambda>h. False) (best_local_ip t (Some ps) False)) \<and>
   best_local_ip t None True = ''127.0.0.1'' \<and> best_local_ip t None False = []"
proof (intro conjI)
  let ?o = "enumerate_local_addrs t (Some ps)"
  note ok = enumerate_ok [of t ps, unfolded addr_ok_def]
  show "best_local_ip t (Some ps) True \<noteq> []" by (simp add: best_local_ip_def Let_def)
  show "best_local_ip t None True = ''127.0.0.1''" "best_local_ip t None False = []"
    by (simp_all add: best_local_ip_def enumerate_local_addrs_def no_addrs_def Let_def)
  show "best_local_ip t (Some ps) False = [] \<or>
      interface_address t ps is_global_v6 (\<lambda>h. False) (best_local_ip t (Some ps) False)"
    using ok by (auto simp: best_local_ip_def Let_def interface_address_def)
  show "best_local_ip t (Some ps) True = ''127.0.0.1'' \<or>
      interface_address t ps (\<lambda>a. is_ula_v6 a \<and> \<not> is_global_v6 a) is_usable_v4 (best_local_ip t (Some ps) True)"
    using ok unfolding best_local_ip_def Let_def interface_address_def
    by (cases "ulaV6 ?o = []"; cases "privateV4 ?o = []"; cases "anyV4 ?o = []") auto
qed

text \<open>C38: A successful Upnp::map returns a non-zero port among its 64 candidates (wrapping past
  65535) that had no mapping and that the router accepted after refusing all earlier ones;
  unmap deletes exactly that mapping, once.\<close>

theorem upnp_maps_a_free_port:
  assumes "upnp_map g i u r = (Inr (ip, p), u', r')"
  shows "p \<noteq> 0 \<and>
     (\<exists>k < 64. p = candidates 64 i ! k \<and> (\<exists>r1 r2. passed g i (take k (candidates 64 i)) r r1 \<and>
        igd_exists g p r1 = (False, r2) \<and> igd_add g p i (igd_lan g) r2 = (True, r'))) \<and>
     ip = (if igd_external g = [] then igd_lan g else igd_external g) \<and>
     upnp_unmap g u' r' = (u'\<lparr>up_active := False\<rparr>, igd_delete g (igd_control g) (igd_service g) p r') \<and>
     upnp_unmap g (fst (upnp_unmap g u' r')) r'' = (u'\<lparr>up_active := False\<rparr>, r'')"
proof -
  have l: "upnp_loop g i 64 i r = (Some p, r')" "ip = (if igd_external g = [] then igd_lan g else igd_external g)"
    "u' = u\<lparr>up_externalPort := p, up_ctrlUrl := igd_control g, up_serviceType := igd_service g, up_active := True\<rparr>"
    using assms by (auto simp: upnp_map_def split: if_splits prod.splits option.splits)
  obtain k r1 r2 where k: "k < 64" "p = candidates 64 i ! k" "passed g i (take k (candidates 64 i)) r r1"
    "igd_exists g p r1 = (False, r2)" "igd_add g p i (igd_lan g) r2 = (True, r')"
    using upnp_loop_Some [OF l(1)] by blast
  have "p \<in> set (candidates 64 i)" using k(1,2) nth_mem [of k "candidates 64 i"] by simp
  then have "p \<noteq> 0" using candidates_nonzero by metis
  moreover have "upnp_unmap g u' r' = (u'\<lparr>up_active := False\<rparr>, igd_delete g (igd_control g) (igd_service g) p r')"
    by (simp add: upnp_unmap_def l(3) Let_def)
  ultimately show ?thesis using k l(2) by (auto simp: upnp_unmap_def)
qed

text \<open>A router with one mapping, on port 65535, that the loop steps over and wraps past 0.\<close>

definition ex_igd :: "u16 list igd" where
  "ex_igd = \<lparr>igd_discovered = True, igd_valid = 1, igd_control = ''ctl'', igd_service = ''svc'',
     igd_lan = ''192.168.1.2'', igd_external = ''203.0.113.7'',
     igd_exists = (\<lambda>p r. (p \<in> set r, r)), igd_add = (\<lambda>p i lan r. (True, p # r)),
     igd_delete = (\<lambda>ctl svc p r. removeAll p r)\<rparr>"

theorem upnp_maps_a_free_port_witness:
  "case upnp_map ex_igd 65535 upnp_init [65535] of (res, u', r') \<Rightarrow>
     res = Inr (''203.0.113.7'', 1) \<and> r' = [1, 65535] \<and> snd (upnp_unmap ex_igd u' r') = [65535]"
proof -
  have "upnp_loop ex_igd 65535 (Suc (Suc 62)) 65535 [65535] = (Some 1, [1, 65535])"
    by (simp add: ex_igd_def Let_def del: Suc_numeral)
  then have l: "upnp_loop ex_igd 65535 64 65535 [65535] = (Some 1, [1, 65535])" by simp
  have m: "upnp_map ex_igd 65535 upnp_init [65535] = (Inr (''203.0.113.7'', 1),
      \<lparr>up_active = True, up_externalPort = 1, up_ctrlUrl = ''ctl'', up_serviceType = ''svc''\<rparr>, [1, 65535])"
    by (simp add: upnp_map_def l) (simp add: ex_igd_def upnp_init_def)
  from upnp_maps_a_free_port [OF m] show ?thesis by (simp add: m) (simp add: ex_igd_def)
qed

end
