(* ===== verification/ClientConnect.thy ===== *)
theory ClientConnect
  imports Tokens "HOL-Library.Multiset"
begin

text \<open>
  How the native client connects, from \<open>client/src/clients/client.cpp\<close>: the non-blocking connect with
  its time limit, the parallel connections of \<open>Client::connect\<close>, \<open>Client::connectStreams\<close> over streams
  made elsewhere, and \<open>Client::disconnect\<close>. The socket calls are a parameter that acts on a world;
  the two hash functions of the handshake are those of \<open>Handshake\<close>.
\<close>

section \<open>The system\<close>

text \<open>
  \<open>na_socket\<close> takes whether an IPv6 socket is wanted; \<open>na_select\<close> gives the return code and whether
  the socket is in the exception set; \<open>na_soerror\<close> is \<open>getsockopt(SO_ERROR)\<close>, \<open>None\<close> if it fails;
  \<open>na_stream s\<close> is the \<open>SocketByteStream\<close> on socket \<open>s\<close>.
\<close>

record 'n net_api =
  na_socket :: "bool \<Rightarrow> 'n \<Rightarrow> nat option \<times> 'n"
  na_pton6 :: "string \<Rightarrow> bytes option"
  na_pton4 :: "string \<Rightarrow> bytes option"
  na_getfl :: "nat \<Rightarrow> 'n \<Rightarrow> u32 option \<times> 'n"
  na_setfl :: "nat \<Rightarrow> u32 \<Rightarrow> 'n \<Rightarrow> bool \<times> 'n"
  na_connect :: "nat \<Rightarrow> bytes \<Rightarrow> u16 \<Rightarrow> 'n \<Rightarrow> bool \<times> 'n"
  na_errno :: "'n \<Rightarrow> int"
  na_select :: "nat \<Rightarrow> int \<Rightarrow> 'n \<Rightarrow> (int \<times> bool) \<times> 'n"
  na_soerror :: "nat \<Rightarrow> 'n \<Rightarrow> int option \<times> 'n"
  na_tune :: "nat \<Rightarrow> 'n \<Rightarrow> 'n"
  na_close :: "nat \<Rightarrow> 'n \<Rightarrow> 'n"
  na_stream :: "nat \<Rightarrow> 'n byte_stream"

text \<open>Linux values.\<close>

definition O_NONBLOCK :: u32 where "O_NONBLOCK = 0x800"
definition EINPROGRESS :: int where "EINPROGRESS = 115"

definition kConnectTimeoutMs :: int where "kConnectTimeoutMs = 5000"

definition set_nonblocking :: "'n net_api \<Rightarrow> nat \<Rightarrow> bool \<Rightarrow> 'n \<Rightarrow> bool \<times> 'n" where
  "set_nonblocking a s nonblocking n = (case na_getfl a s n of
      (None, n) \<Rightarrow> (False, n)
    | (Some flags, n) \<Rightarrow>
        na_setfl a s (if nonblocking then flags OR O_NONBLOCK else flags AND NOT O_NONBLOCK) n)"

definition connect_in_progress :: "'n net_api \<Rightarrow> 'n \<Rightarrow> bool" where
  "connect_in_progress a n \<longleftrightarrow> na_errno a n = EINPROGRESS"

definition await_connect :: "'n net_api \<Rightarrow> nat \<Rightarrow> int \<Rightarrow> 'n \<Rightarrow> bool \<times> 'n" where
  "await_connect a s timeoutMs n = (case na_select a s timeoutMs n of
      ((rc, eset), n) \<Rightarrow>
        if rc \<le> 0 then (False, n)
        else if eset then (False, n)
        else (case na_soerror a s n of
            (None, n) \<Rightarrow> (False, n)
          | (Some soerr, n) \<Rightarrow> (soerr = 0, n)))"

definition connect_socket :: "'n net_api \<Rightarrow> string \<Rightarrow> u16 \<Rightarrow> 'n \<Rightarrow> (string + nat) \<times> 'n" where
  "connect_socket a ip port n =
     (let v6 = CHR '':'' \<in> set ip in
      case na_socket a v6 n of
        (None, n) \<Rightarrow> (Inl ''socket() failed'', n)
      | (Some s, n) \<Rightarrow>
       (case (if v6 then na_pton6 a ip else na_pton4 a ip) of
          None \<Rightarrow> (Inl ((if v6 then ''invalid IPv6 address: '' else ''invalid IPv4 address: '') @ ip),
                   na_close a s n)
        | Some addr \<Rightarrow>
         (case set_nonblocking a s True n of
            (False, n) \<Rightarrow> (Inl ''failed to set socket non-blocking'', na_close a s n)
          | (True, n) \<Rightarrow>
           (case na_connect a s addr port n of (rc, n) \<Rightarrow>
            case (if rc then (True, n)
                  else if \<not> connect_in_progress a n then (False, n)
                  else await_connect a s kConnectTimeoutMs n) of
              (False, n) \<Rightarrow> (Inl (''connect() to '' @ ip @ '':'' @ nat_string (unat port) @ '' timed out or was refused''), na_close a s n)
            | (True, n) \<Rightarrow>
             (case set_nonblocking a s False n of
                (False, n) \<Rightarrow> (Inl ''failed to restore blocking mode'', na_close a s n)
              | (True, n) \<Rightarrow> (Inr s, na_tune a s n))))))"

section \<open>Connections\<close>

text \<open>
  A \<open>Conn\<close>: its stream, its channel and whether it is alive. The table of pending requests and the
  request counter belong to the threads that use the connection, in \<open>ClientRequests\<close>.
\<close>

record 'n conn =
  cn_stream :: "'n byte_stream"
  cn_chan :: channel
  cn_alive :: bool

record 'n client =
  cl_conns :: "'n conn list"
  cl_clientId :: bytes
  cl_connected :: bool

definition client_init :: "'n client" where
  "client_init = \<lparr>cl_conns = [], cl_clientId = replicate 16 0, cl_connected = False\<rparr>"

definition handshake_message :: "hs_error \<Rightarrow> string" where
  "handshake_message e = (case e of
      HandshakeSendFailed \<Rightarrow> ''handshake send failed''
    | ServerRejected \<Rightarrow> ''server rejected connection (folder/full?)''
    | AuthSendFailed \<Rightarrow> ''auth send failed''
    | AuthFailed \<Rightarrow> ''authentication failed (wrong password or token)'')"

text \<open>Closing a stream ends the reader on it, which \<open>disconnect\<close> then joins.\<close>

definition disconnect :: "'n client \<Rightarrow> 'n \<Rightarrow> 'n client \<times> 'n" where
  "disconnect c n = (c\<lparr>cl_connected := False, cl_conns := []\<rparr>,
     fold (\<lambda>cn. bs_close (cn_stream cn)) (cl_conns c) n)"

text \<open>
  One turn of the loops of \<open>connect\<close> and \<open>connectStreams\<close>: the handshake on a stream, and the new
  connection if it succeeds.
\<close>

definition join_stream ::
    "(bytes \<Rightarrow> bytes) \<Rightarrow> (bytes \<Rightarrow> bytes \<Rightarrow> bytes) \<Rightarrow> token \<Rightarrow> 'n byte_stream \<Rightarrow>
     'n client \<times> 'n \<times> entropy \<Rightarrow> (string + unit) \<times> 'n client \<times> 'n \<times> entropy" where
  "join_stream sha hm tok m = (\<lambda>(c, n, r).
     case random_bytes 16 r of (nonceC, r) \<Rightarrow>
     case client_handshake sha hm m (t_folder tok) (t_secret tok) (cl_clientId c) nonceC (chan_init, n) of
       (Inl e, chan, n) \<Rightarrow>
         (case disconnect c (bs_close m n) of (c, n) \<Rightarrow> (Inl (handshake_message e), c, n, r))
     | (Inr _, chan, n) \<Rightarrow>
         (Inr (), c\<lparr>cl_conns := cl_conns c @ [\<lparr>cn_stream = m, cn_chan = chan, cn_alive = True\<rparr>]\<rparr>, n, r))"

fun connect_loop ::
    "'n net_api \<Rightarrow> (bytes \<Rightarrow> bytes) \<Rightarrow> (bytes \<Rightarrow> bytes \<Rightarrow> bytes) \<Rightarrow> token \<Rightarrow> nat \<Rightarrow>
     'n client \<times> 'n \<times> entropy \<Rightarrow> (string + unit) \<times> 'n client \<times> 'n \<times> entropy" where
  "connect_loop a sha hm tok 0 (c, n, r) = (Inr (), c\<lparr>cl_connected := True\<rparr>, n, r)"
| "connect_loop a sha hm tok (Suc k) (c, n, r) = (case connect_socket a (t_ip tok) (t_port tok) n of
      (Inl err, n) \<Rightarrow> (case disconnect c n of (c, n) \<Rightarrow> (Inl err, c, n, r))
    | (Inr s, n) \<Rightarrow> (case join_stream sha hm tok (na_stream a s) (c, n, r) of
        (Inl err, st) \<Rightarrow> (Inl err, st)
      | (Inr _, st) \<Rightarrow> connect_loop a sha hm tok k st))"

definition client_connect ::
    "'n net_api \<Rightarrow> (bytes \<Rightarrow> bytes) \<Rightarrow> (bytes \<Rightarrow> bytes \<Rightarrow> bytes) \<Rightarrow> token \<Rightarrow> int \<Rightarrow>
     'n client \<times> 'n \<times> entropy \<Rightarrow> (string + unit) \<times> 'n client \<times> 'n \<times> entropy" where
  "client_connect a sha hm tok nconns = (\<lambda>(c, n, r).
     case disconnect c n of (c, n) \<Rightarrow>
     case random_bytes 16 r of (rb, r) \<Rightarrow>
       connect_loop a sha hm tok (nat nconns) (c\<lparr>cl_clientId := rb\<rparr>, n, r))"

text \<open>A stream of the vector may be a null pointer.\<close>

fun streams_loop ::
    "(bytes \<Rightarrow> bytes) \<Rightarrow> (bytes \<Rightarrow> bytes \<Rightarrow> bytes) \<Rightarrow> token \<Rightarrow> 'n byte_stream option list \<Rightarrow>
     'n client \<times> 'n \<times> entropy \<Rightarrow> (string + unit) \<times> 'n client \<times> 'n \<times> entropy" where
  "streams_loop sha hm tok [] (c, n, r) = (Inr (), c\<lparr>cl_connected := True\<rparr>, n, r)"
| "streams_loop sha hm tok (stream # streams) (c, n, r) = (case stream of
      None \<Rightarrow> (case disconnect c n of (c, n) \<Rightarrow> (Inl ''invalid QUIC stream'', c, n, r))
    | Some m \<Rightarrow> (case join_stream sha hm tok m (c, n, r) of
        (Inl err, st) \<Rightarrow> (Inl err, st)
      | (Inr _, st) \<Rightarrow> streams_loop sha hm tok streams st))"

definition connect_streams ::
    "(bytes \<Rightarrow> bytes) \<Rightarrow> (bytes \<Rightarrow> bytes \<Rightarrow> bytes) \<Rightarrow> token \<Rightarrow> 'n byte_stream option list \<Rightarrow>
     'n client \<times> 'n \<times> entropy \<Rightarrow> (string + unit) \<times> 'n client \<times> 'n \<times> entropy" where
  "connect_streams sha hm tok streams = (\<lambda>(c, n, r).
     case disconnect c n of (c, n) \<Rightarrow>
     case random_bytes 16 r of (rb, r) \<Rightarrow>
       if streams = [] then (Inl ''QUIC established no usable streams'', c\<lparr>cl_clientId := rb\<rparr>, n, r)
       else streams_loop sha hm tok streams (c\<lparr>cl_clientId := rb\<rparr>, n, r))"

section \<open>A ledger of sockets\<close>

text \<open>The same system on a world that also lists the sockets opened and the sockets closed.\<close>

definition through_world :: "('n \<Rightarrow> 'a \<times> 'n) \<Rightarrow> 'n \<times> 'l \<Rightarrow> 'a \<times> 'n \<times> 'l" where
  "through_world f = (\<lambda>(n, l). case f n of (x, n) \<Rightarrow> (x, n, l))"

definition tracked_stream :: "'n byte_stream \<Rightarrow> nat \<Rightarrow> ('n \<times> nat list \<times> nat list) byte_stream" where
  "tracked_stream m s = \<lparr>bs_read = (\<lambda>k. through_world (bs_read m k)),
     bs_write = (\<lambda>b. through_world (bs_write m b)),
     bs_close = (\<lambda>(n, opened, closed). (bs_close m n, opened, closed @ [s]))\<rparr>"

definition tracked :: "'n net_api \<Rightarrow> ('n \<times> nat list \<times> nat list) net_api" where
  "tracked a = \<lparr>
     na_socket = (\<lambda>v6 (n, opened, closed). case na_socket a v6 n of
         (None, n) \<Rightarrow> (None, n, opened, closed)
       | (Some s, n) \<Rightarrow> (Some s, n, opened @ [s], closed)),
     na_pton6 = na_pton6 a, na_pton4 = na_pton4 a,
     na_getfl = (\<lambda>s. through_world (na_getfl a s)),
     na_setfl = (\<lambda>s fl. through_world (na_setfl a s fl)),
     na_connect = (\<lambda>s ad port. through_world (na_connect a s ad port)),
     na_errno = (\<lambda>(n, l). na_errno a n),
     na_select = (\<lambda>s ms. through_world (na_select a s ms)),
     na_soerror = (\<lambda>s. through_world (na_soerror a s)),
     na_tune = (\<lambda>s (n, l). (na_tune a s n, l)),
     na_close = (\<lambda>s (n, opened, closed). (na_close a s n, opened, closed @ [s])),
     na_stream = (\<lambda>s. tracked_stream (na_stream a s) s)\<rparr>"

lemma through_world_ledger [simp]: "snd (snd (through_world f w)) = snd w"
  by (simp add: through_world_def split: prod.split)

lemma through_worldD: "through_world f w = (x, w') \<Longrightarrow> snd w' = snd w"
  by (metis snd_conv through_world_ledger)

lemma set_nonblocking_ledger: "set_nonblocking (tracked a) s b w = (x, w') \<Longrightarrow> snd w' = snd w"
  by (auto simp: set_nonblocking_def tracked_def split: prod.splits option.splits dest!: through_worldD)

lemma await_connect_ledger: "await_connect (tracked a) s ms w = (x, w') \<Longrightarrow> snd w' = snd w"
  by (auto simp: await_connect_def tracked_def split: prod.splits option.splits if_splits dest!: through_worldD)

lemma na_connect_ledger: "na_connect (tracked a) s ad port w = (x, w') \<Longrightarrow> snd w' = snd w"
  by (auto simp: tracked_def dest: through_worldD)

lemma na_close_ledger: "snd (na_close (tracked a) s w) = (fst (snd w), snd (snd w) @ [s])"
  by (simp add: tracked_def split: prod.split)

lemma na_tune_ledger: "snd (na_tune (tracked a) s w) = snd w"
  by (simp add: tracked_def split: prod.split)

text \<open>A socket that cannot be connected is closed again.\<close>

lemma connect_socket_ledger:
  assumes "connect_socket (tracked a) ip port w = (res, w')"
  shows "case res of
      Inl err \<Rightarrow> \<exists>new. snd w' = (fst (snd w) @ new, snd (snd w) @ new)
    | Inr s \<Rightarrow> snd w' = (fst (snd w) @ [s], snd (snd w))"
proof -
  let ?v6 = "CHR '':'' \<in> set ip"
  obtain so w1 where so: "na_socket (tracked a) ?v6 w = (so, w1)" by (metis surj_pair)
  show ?thesis
  proof (cases so)
    case None
    then have "snd w1 = snd w" using so by (auto simp: tracked_def split: prod.splits option.splits)
    moreover have "res = Inl ''socket() failed''" "w' = w1"
      using assms so None by (simp_all add: connect_socket_def Let_def)
    ultimately show ?thesis by (simp, intro exI [of _ "[]"]) simp
  next
    case (Some s)
    then have w1: "snd w1 = (fst (snd w) @ [s], snd (snd w))"
      using so by (auto simp: tracked_def split: prod.splits option.splits)
    have closed: ?thesis if "snd w2 = snd w1" "w' = na_close (tracked a) s w2" "res = Inl err" for w2 err
      using that w1 by (simp add: na_close_ledger)
    show ?thesis
    proof (cases "if ?v6 then na_pton6 (tracked a) ip else na_pton4 (tracked a) ip")
      case None
      then show ?thesis using assms so Some closed [of w1]
        by (auto simp: connect_socket_def Let_def)
    next
      case ad: (Some ad)
      obtain b w2 where b: "set_nonblocking (tracked a) s True w1 = (b, w2)" by (metis surj_pair)
      note l2 = set_nonblocking_ledger [OF b]
      obtain rc w3 where rc: "na_connect (tracked a) s ad port w2 = (rc, w3)" by (metis surj_pair)
      note l3 = na_connect_ledger [OF rc]
      obtain ok w4 where ok: "(if rc then (True, w3) else if \<not> connect_in_progress (tracked a) w3 then (False, w3)
          else await_connect (tracked a) s kConnectTimeoutMs w3) = (ok, w4)" by (metis prod.exhaust)
      have l4: "snd w4 = snd w3" using ok by (auto split: if_splits dest!: await_connect_ledger)
      obtain d w5 where d: "set_nonblocking (tracked a) s False w4 = (d, w5)" by (metis surj_pair)
      note l5 = set_nonblocking_ledger [OF d]
      have e: "connect_socket (tracked a) ip port w =
        (if \<not> b then (Inl ''failed to set socket non-blocking'', na_close (tracked a) s w2)
         else if \<not> ok then (Inl (''connect() to '' @ ip @ '':'' @ nat_string (unat port) @ '' timed out or was refused''),
           na_close (tracked a) s w4)
         else if \<not> d then (Inl ''failed to restore blocking mode'', na_close (tracked a) s w5)
         else (Inr s, na_tune (tracked a) s w5))"
        unfolding connect_socket_def Let_def so Some ad b
        by (simp add: b rc ok d del: if_split split: bool.split)
      show ?thesis
      proof (cases "b \<and> ok \<and> d")
        case True
        then show ?thesis using assms e w1 l2 l3 l4 l5 by (auto simp: na_tune_ledger)
      next
        case False
        then show ?thesis using assms e closed [of w2] closed [of w4] closed [of w5] l2 l3 l4 l5
          by (auto split: if_splits)
      qed
    qed
  qed
qed

lemma tracked_stream_ledger:
  "bs_read (tracked_stream m s) k w = (x, w') \<Longrightarrow> snd w' = snd w"
  "bs_write (tracked_stream m s) b w = (y, w') \<Longrightarrow> snd w' = snd w"
  by (auto simp: tracked_stream_def dest: through_worldD)

lemma send_message_ledger:
  "send_message (tracked_stream m s) opc st i p w = (x, w') \<Longrightarrow> snd w' = snd w"
  by (auto simp: send_message_def Let_def split: prod.splits bool.splits if_splits dest!: tracked_stream_ledger)

lemma recv_message_ledger:
  "recv_message (tracked_stream m s) w = (x, w') \<Longrightarrow> snd w' = snd w"
  by (auto simp: recv_message_def Let_def split: prod.splits option.splits if_splits dest!: tracked_stream_ledger)

lemma handshake_ledger:
  assumes "client_handshake sha hm (tracked_stream m s) folder secret i nonceC (chan, w) = (res, chan', w')"
  shows "snd w' = snd w"
proof -
  note ledgers = send_message_ledger recv_message_ledger
  show ?thesis using assms
    by (auto simp: client_handshake_def Let_def split: prod.splits bool.splits option.splits if_splits
        dest!: ledgers)
qed

lemma handshake_activates:
  assumes "client_handshake sha hm m folder secret i nonceC (chan, w) = (Inr u, chan', w')"
  shows "active chan'"
  using assms
  by (auto simp: client_handshake_def Let_def chan_activate_def split: prod.splits bool.splits option.splits if_splits)

text \<open>
  The connections of a client are on the sockets \<open>ss\<close>, and apart from these and the sockets \<open>extra\<close>
  every socket opened so far has been closed.
\<close>

definition balanced :: "'n net_api \<Rightarrow> nat list \<Rightarrow> nat list \<Rightarrow>
    ('n \<times> nat list \<times> nat list) client \<Rightarrow> ('n \<times> nat list \<times> nat list) \<Rightarrow> bool" where
  "balanced a ss extra c w \<longleftrightarrow> map cn_stream (cl_conns c) = map (na_stream (tracked a)) ss \<and>
     mset (fst (snd w)) = mset (snd (snd w)) + mset ss + mset extra"

lemma close_ledger: "snd (bs_close (na_stream (tracked a) s) w) = (fst (snd w), snd (snd w) @ [s])"
  by (simp add: tracked_def tracked_stream_def split: prod.split)

lemma close_all_ledger:
  "snd (fold (\<lambda>s. bs_close (na_stream (tracked a) s)) ss w) = (fst (snd w), snd (snd w) @ ss)"
  by (induction ss arbitrary: w) (simp_all add: close_ledger)

lemma disconnect_balanced:
  assumes "balanced a ss extra c w" "disconnect c w = (c', w')"
  shows "balanced a [] extra c' w'" "\<not> cl_connected c'" "cl_conns c' = []"
proof -
  have "fold (\<lambda>cn. bs_close (cn_stream cn)) (cl_conns c) w = fold bs_close (map cn_stream (cl_conns c)) w"
    by (simp add: fold_map comp_def)
  also have "\<dots> = fold (\<lambda>s. bs_close (na_stream (tracked a) s)) ss w"
    using assms(1) by (simp add: balanced_def fold_map comp_def)
  finally have w': "w' = fold (\<lambda>s. bs_close (na_stream (tracked a) s)) ss w"
    using assms(2) by (simp add: disconnect_def)
  show "balanced a [] extra c' w'"
    using assms by (auto simp: balanced_def disconnect_def w' close_all_ledger)
  show "\<not> cl_connected c'" "cl_conns c' = []" using assms(2) by (auto simp: disconnect_def)
qed

lemma join_stream_balanced:
  assumes "balanced a ss [s] c w"
    "join_stream sha hm tok (na_stream (tracked a) s) (c, w, r) = (res, c', w', r')"
  shows "case res of
      Inl err \<Rightarrow> balanced a [] [] c' w' \<and> \<not> cl_connected c' \<and> cl_conns c' = []
    | Inr _ \<Rightarrow> balanced a (ss @ [s]) [] c' w' \<and> cl_clientId c' = cl_clientId c \<and>
        (list_all (\<lambda>cn. cn_alive cn \<and> active (cn_chan cn)) (cl_conns c) \<longrightarrow>
         list_all (\<lambda>cn. cn_alive cn \<and> active (cn_chan cn)) (cl_conns c'))"
proof -
  let ?m = "na_stream (tracked a) s"
  have m: "?m = tracked_stream (na_stream a s) s" by (simp add: tracked_def)
  obtain nonce r1 where rb: "random_bytes 16 r = (nonce, r1)" by (metis surj_pair)
  obtain hr chan w1 where h: "client_handshake sha hm ?m (t_folder tok) (t_secret tok) (cl_clientId c) nonce
      (chan_init, w) = (hr, chan, w1)" by (metis prod_cases3)
  have w1: "snd w1 = snd w" using handshake_ledger h m by metis
  show ?thesis
  proof (cases hr)
    case (Inl e)
    obtain c2 w2 where d: "disconnect c (bs_close ?m w1) = (c2, w2)" by (metis surj_pair)
    have "balanced a ss [] c (bs_close ?m w1)"
      using assms(1) w1 by (simp add: balanced_def close_ledger)
    note disconnect_balanced [OF this d]
    then show ?thesis using assms(2) by (auto simp: join_stream_def rb h Inl d)
  next
    case (Inr u)
    then have "active chan" using handshake_activates h by metis
    then show ?thesis using assms w1 by (auto simp: join_stream_def rb h Inr balanced_def)
  qed
qed

lemma connect_loop_balanced:
  assumes "balanced a ss [] c w" "list_all (\<lambda>cn. cn_alive cn \<and> active (cn_chan cn)) (cl_conns c)"
    "connect_loop (tracked a) sha hm tok k (c, w, r) = (res, c', w', r')"
  shows "case res of
      Inl err \<Rightarrow> balanced a [] [] c' w' \<and> \<not> cl_connected c' \<and> cl_conns c' = []
    | Inr _ \<Rightarrow> cl_connected c' \<and> length (cl_conns c') = length (cl_conns c) + k \<and>
        list_all (\<lambda>cn. cn_alive cn \<and> active (cn_chan cn)) (cl_conns c') \<and>
        (\<exists>ss'. balanced a ss' [] c' w')"
  using assms
proof (induction k arbitrary: ss c w r)
  case 0
  then show ?case by (auto simp: balanced_def)
next
  case (Suc k)
  obtain so w1 where so: "connect_socket (tracked a) (t_ip tok) (t_port tok) w = (so, w1)" by (metis surj_pair)
  note led = connect_socket_ledger [OF so]
  show ?case
  proof (cases so)
    case (Inl err)
    then obtain new where "snd w1 = (fst (snd w) @ new, snd (snd w) @ new)" using led by auto
    then have b: "balanced a ss [] c w1" using Suc.prems(1) by (simp add: balanced_def)
    obtain c2 w2 where d: "disconnect c w1 = (c2, w2)" by (metis surj_pair)
    show ?thesis using disconnect_balanced [OF b d] Suc.prems(3) by (auto simp: so Inl d)
  next
    case (Inr s)
    then have "snd w1 = (fst (snd w) @ [s], snd (snd w))" using led by simp
    then have b: "balanced a ss [s] c w1" using Suc.prems(1) by (simp add: balanced_def)
    obtain jr c2 w2 r2 where j: "join_stream sha hm tok (na_stream (tracked a) s) (c, w1, r) = (jr, c2, w2, r2)"
      by (metis prod_cases4)
    note jb = join_stream_balanced [OF b j]
    show ?thesis
    proof (cases jr)
      case Inl
      then show ?thesis using jb Suc.prems(3) by (auto simp: so \<open>so = Inr s\<close> j)
    next
      case (Inr u)
      have b2: "balanced a (ss @ [s]) [] c2 w2" using jb Inr by simp
      then have l: "length (cl_conns c2) = length (cl_conns c) + 1"
        using Suc.prems(1) unfolding balanced_def by (metis length_append length_map length_Cons list.size(3) One_nat_def)
      have al: "list_all (\<lambda>cn. cn_alive cn \<and> active (cn_chan cn)) (cl_conns c2)"
        using jb Inr Suc.prems(2) by simp
      have "connect_loop (tracked a) sha hm tok k (c2, w2, r2) = (res, c', w', r')"
        using Suc.prems(3) by (simp add: so \<open>so = Inr s\<close> j Inr)
      from Suc.IH [OF b2 al this] show ?thesis by (auto simp: l split: sum.splits)
    qed
  qed
qed

section \<open>Properties\<close>

text \<open>C20: Client::connect either opens exactly the wanted number of connections, all alive, with
  activated channels, on sockets that are exactly the ones opened and not closed; or it
  fails with no connection left, not connected, and every socket it ever opened closed again
  (also those of the session it replaced).\<close>

theorem connect_all_or_nothing:
  assumes "balanced a ss [] c w"
    "client_connect (tracked a) sha hm tok nconns (c, w, r) = (res, c', w', r')"
  shows "case res of
      Inl err \<Rightarrow> cl_conns c' = [] \<and> \<not> cl_connected c' \<and> mset (fst (snd w')) = mset (snd (snd w'))
    | Inr _ \<Rightarrow> cl_connected c' \<and> length (cl_conns c') = nat nconns \<and>
        list_all (\<lambda>cn. cn_alive cn \<and> active (cn_chan cn)) (cl_conns c') \<and>
        (\<exists>ss'. map cn_stream (cl_conns c') = map (na_stream (tracked a)) ss' \<and>
          mset (fst (snd w')) = mset (snd (snd w')) + mset ss')"
proof -
  obtain c1 w1 where d: "disconnect c w = (c1, w1)" by (metis surj_pair)
  note db = disconnect_balanced [OF assms(1) d]
  obtain rb r1 where rb: "random_bytes 16 r = (rb, r1)" by (metis surj_pair)
  have b: "balanced a [] [] (c1\<lparr>cl_clientId := rb\<rparr>) w1" using db(1) by (simp add: balanced_def)
  have "connect_loop (tracked a) sha hm tok (nat nconns) (c1\<lparr>cl_clientId := rb\<rparr>, w1, r1) = (res, c', w', r')"
    using assms(2) by (simp add: client_connect_def d rb)
  from connect_loop_balanced [OF b _ this] db(3) show ?thesis
    by (auto simp: balanced_def split: sum.splits)
qed

text \<open>A system on which every connect is refused.\<close>

definition ex_refusing :: "unit net_api" where
  "ex_refusing = \<lparr>na_socket = (\<lambda>v6 n. (Some 3, n)), na_pton6 = (\<lambda>s. None), na_pton4 = (\<lambda>s. Some [127, 0, 0, 1]),
     na_getfl = (\<lambda>s n. (Some 2, n)), na_setfl = (\<lambda>s fl n. (True, n)), na_connect = (\<lambda>s ad port n. (False, n)),
     na_errno = (\<lambda>n. 111), na_select = (\<lambda>s ms n. ((0, False), n)), na_soerror = (\<lambda>s n. (None, n)),
     na_tune = (\<lambda>s n. n), na_close = (\<lambda>s n. n), na_stream = (\<lambda>s. \<lparr>bs_read = (\<lambda>k n. (None, n)),
       bs_write = (\<lambda>b n. (False, n)), bs_close = (\<lambda>n. n)\<rparr>)\<rparr>"

lemma ex_refused:
  "\<exists>err. connect_socket (tracked ex_refusing) ''127.0.0.1'' 50321 ((), [], []) = (Inl err, (), [3], [3])"
  by (simp add: connect_socket_def set_nonblocking_def connect_in_progress_def EINPROGRESS_def tracked_def
      ex_refusing_def through_world_def Let_def)

theorem connect_all_or_nothing_witness:
  "\<exists>err c' r'. client_connect (tracked ex_refusing) (\<lambda>x. x) (\<lambda>k x. x) (ex_token\<lparr>t_ip := ''127.0.0.1''\<rparr>) 8
       (client_init, ((), [], []), (\<lambda>i. 0)) = (Inl err, c', ((), [3], [3]), r') \<and> \<not> cl_connected c'"
proof -
  let ?run = "client_connect (tracked ex_refusing) (\<lambda>x. x) (\<lambda>k x. x) (ex_token\<lparr>t_ip := ''127.0.0.1''\<rparr>) 8
       (client_init, ((), [], []), (\<lambda>i. 0))"
  obtain err where e: "connect_socket (tracked ex_refusing) ''127.0.0.1'' 50321 ((), [], []) = (Inl err, (), [3], [3])"
    using ex_refused by blast
  obtain rb r1 where rb: "random_bytes 16 (\<lambda>i. 0) = (rb, r1)" by (metis surj_pair)
  have "nat 8 = Suc 7" by simp
  then have run: "?run = (Inl err, client_init\<lparr>cl_clientId := rb\<rparr>, ((), [3], [3]), r1)"
    by (simp only: client_connect_def connect_loop.simps) (simp add: disconnect_def client_init_def rb ex_token_def e)
  have b: "balanced ex_refusing [] [] client_init ((), [], [])" by (simp add: balanced_def client_init_def)
  show ?thesis using connect_all_or_nothing [OF b run] run by auto
qed

end
