(* ===== verification/ClientRequests.thy ===== *)
theory ClientRequests
  imports RemoteFs
begin

text \<open>
  The requests of the native client on one connection, from \<open>Client::request\<close> and
  \<open>Client::readerLoop\<close> of \<open>client/src/clients/client.cpp\<close>: any number of caller threads, each in one
  call, and the reader thread, over the table of pending requests. Each step is one critical section
  or one atomic access of the code. Shown: a call returns \<open>EIO\<close> or an answer that arrived under its own
  request number, and once the reader has ended no call is left waiting.
\<close>

section \<open>State\<close>

text \<open>A \<open>Pending\<close>, which lives as long as its call or the reader holds it.\<close>

record pending =
  p_done :: bool
  p_status :: u16
  p_data :: bytes

definition no_answer :: pending where
  "no_answer = \<lparr>p_done = False, p_status = 0, p_data = []\<rparr>"

text \<open>Where a call of \<open>request\<close> stands; from \<open>Numbered\<close> on it has its request number.\<close>

datatype call =
    Idle
  | Entered
  | Numbered u64
  | Registered u64
  | Unsent u64
  | Waiting u64
  | Ended u64 bool
  | Returned int bytes

datatype reader =
    Receiving
  | Holding nat u16 bytes
  | Failing
  | Gone

text \<open>
  The connection with its callers, numbered by \<open>nat\<close>, and the reader. \<open>q_received\<close>, \<open>q_issued\<close> and
  \<open>q_id\<close> are history: the answers received, how many request numbers were drawn, and the number that a
  call drew.
\<close>

record conn_run =
  q_connected :: bool
  q_alive :: bool
  q_nextId :: u64
  q_pend :: "u64 \<rightharpoonup> nat"
  q_slot :: "nat \<Rightarrow> pending"
  q_call :: "nat \<Rightarrow> call"
  q_reader :: reader
  q_invalidated :: "string list"
  q_received :: "(u64 \<times> u16 \<times> bytes) list"
  q_issued :: nat
  q_id :: "nat \<Rightarrow> u64"

definition conn_start :: conn_run where
  "conn_start = \<lparr>q_connected = True, q_alive = True, q_nextId = 1, q_pend = Map.empty,
     q_slot = (\<lambda>k. no_answer), q_call = (\<lambda>k. Idle), q_reader = Receiving, q_invalidated = [],
     q_received = [], q_issued = 0, q_id = (\<lambda>k. 0)\<rparr>"

abbreviation becomes :: "nat \<Rightarrow> call \<Rightarrow> conn_run \<Rightarrow> conn_run" where
  "becomes k c s \<equiv> s\<lparr>q_call := (q_call s)(k := c)\<rparr>"

text \<open>\<open>rr_.fetch_add(1) % conns_.size()\<close>: which connection a request takes, and the next counter.\<close>

definition pick_conn :: "u32 \<Rightarrow> nat \<Rightarrow> nat \<times> u32" where
  "pick_conn rr n = (unat rr mod n, rr + 1)"

section \<open>The caller\<close>

definition req_enter :: "nat \<Rightarrow> conn_run \<Rightarrow> conn_run" where
  "req_enter k s = becomes k (if \<not> q_connected s \<or> \<not> q_alive s then Returned kEIO [] else Entered) s"

definition req_number :: "nat \<Rightarrow> conn_run \<Rightarrow> conn_run" where
  "req_number k s = (becomes k (Numbered (q_nextId s)) s)\<lparr>q_nextId := q_nextId s + 1,
     q_issued := q_issued s + 1, q_id := (q_id s)(k := q_nextId s)\<rparr>"

definition req_register :: "nat \<Rightarrow> u64 \<Rightarrow> conn_run \<Rightarrow> conn_run" where
  "req_register k i s =
     (if \<not> q_alive s then becomes k (Returned kEIO []) s
      else (becomes k (Registered i) s)\<lparr>q_pend := (q_pend s)(i \<mapsto> k),
        q_slot := (q_slot s)(k := no_answer)\<rparr>)"

definition req_send :: "nat \<Rightarrow> u64 \<Rightarrow> bool \<Rightarrow> conn_run \<Rightarrow> conn_run" where
  "req_send k i sent s = becomes k (if sent then Waiting i else Unsent i) s"

definition req_unsend :: "nat \<Rightarrow> u64 \<Rightarrow> conn_run \<Rightarrow> conn_run" where
  "req_unsend k i s = (becomes k (Returned kEIO []) s)\<lparr>q_pend := (q_pend s)(i := None)\<rparr>"

text \<open>\<open>wait_for\<close> returns when the answer is there, or after ten seconds with whether it is there.\<close>

definition req_wake :: "nat \<Rightarrow> u64 \<Rightarrow> conn_run \<Rightarrow> conn_run" where
  "req_wake k i s = becomes k (Ended i (p_done (q_slot s k))) s"

definition req_finish :: "nat \<Rightarrow> u64 \<Rightarrow> bool \<Rightarrow> conn_run \<Rightarrow> conn_run" where
  "req_finish k i done s =
     (becomes k (if \<not> done then Returned kEIO []
        else Returned (sint (p_status (q_slot s k))) (p_data (q_slot s k))) s)
     \<lparr>q_pend := (q_pend s)(i := None)\<rparr>"

section \<open>The reader\<close>

text \<open>A message taken off the channel: an invalidation runs the callback, an answer looks up its call.\<close>

definition rd_message :: "u16 \<Rightarrow> u16 \<Rightarrow> u64 \<Rightarrow> bytes \<Rightarrow> conn_run \<Rightarrow> conn_run" where
  "rd_message opc status i payload s =
     (if opc = op_code OP_INVALIDATE
      then (case r_str payload of
          (Some path, _) \<Rightarrow> s\<lparr>q_invalidated := q_invalidated s @ [path]\<rparr>
        | (None, _) \<Rightarrow> s)
      else (case q_pend s i of
          None \<Rightarrow> s
        | Some k \<Rightarrow> s\<lparr>q_reader := Holding k status payload, q_received := q_received s @ [(i, status, payload)]\<rparr>))"

definition rd_deliver :: "nat \<Rightarrow> u16 \<Rightarrow> bytes \<Rightarrow> conn_run \<Rightarrow> conn_run" where
  "rd_deliver k status payload s =
     s\<lparr>q_slot := (q_slot s)(k := \<lparr>p_done = True, p_status = status, p_data = payload\<rparr>), q_reader := Receiving\<rparr>"

definition rd_end :: "conn_run \<Rightarrow> conn_run" where
  "rd_end s = s\<lparr>q_alive := False, q_reader := Failing\<rparr>"

definition rd_fail_all :: "conn_run \<Rightarrow> conn_run" where
  "rd_fail_all s = s\<lparr>q_slot := (\<lambda>k. if k \<in> ran (q_pend s)
       then (q_slot s k)\<lparr>p_status := 5, p_done := True\<rparr> else q_slot s k), q_reader := Gone\<rparr>"

section \<open>Interleavings\<close>

inductive conn_step :: "conn_run \<Rightarrow> conn_run \<Rightarrow> bool" where
  enter: "q_call s k = Idle \<Longrightarrow> conn_step s (req_enter k s)"
| number: "q_call s k = Entered \<Longrightarrow> conn_step s (req_number k s)"
| register: "q_call s k = Numbered i \<Longrightarrow> conn_step s (req_register k i s)"
| send: "q_call s k = Registered i \<Longrightarrow> conn_step s (req_send k i sent s)"
| unsend: "q_call s k = Unsent i \<Longrightarrow> conn_step s (req_unsend k i s)"
| answered: "q_call s k = Waiting i \<Longrightarrow> p_done (q_slot s k) \<Longrightarrow> conn_step s (req_wake k i s)"
| timed_out: "q_call s k = Waiting i \<Longrightarrow> conn_step s (req_wake k i s)"
| finish: "q_call s k = Ended i done \<Longrightarrow> conn_step s (req_finish k i done s)"
| message: "q_reader s = Receiving \<Longrightarrow> conn_step s (rd_message opc status i payload s)"
| deliver: "q_reader s = Holding k status payload \<Longrightarrow> conn_step s (rd_deliver k status payload s)"
| end_reader: "q_reader s = Receiving \<Longrightarrow> conn_step s (rd_end s)"
| fail_all: "q_reader s = Failing \<Longrightarrow> conn_step s (rd_fail_all s)"
| close: "conn_step s (s\<lparr>q_alive := False\<rparr>)"
| disconnect: "conn_step s (s\<lparr>q_connected := False\<rparr>)"

inductive conn_reachable :: "conn_run \<Rightarrow> bool" where
  start: "conn_reachable conn_start"
| step: "conn_reachable s \<Longrightarrow> conn_step s s' \<Longrightarrow> conn_reachable s'"

inductive_cases conn_stepE: "conn_step s s'"

lemmas req_defs = req_enter_def req_number_def req_register_def req_send_def req_unsend_def req_wake_def
  req_finish_def rd_message_def rd_deliver_def rd_end_def rd_fail_all_def

section \<open>Answers carry the number of their request\<close>

text \<open>The number of a call that has one and has not returned.\<close>

primrec numbered :: "call \<Rightarrow> u64 option" where
  "numbered Idle = None"
| "numbered Entered = None"
| "numbered (Numbered i) = Some i"
| "numbered (Registered i) = Some i"
| "numbered (Unsent i) = Some i"
| "numbered (Waiting i) = Some i"
| "numbered (Ended i d) = Some i"
| "numbered (Returned st data) = None"

definition started :: "call \<Rightarrow> bool" where
  "started c \<longleftrightarrow> c \<noteq> Idle \<and> c \<noteq> Entered"

lemma started_simps [simp]: "\<not> started Idle" "\<not> started Entered" "started (Numbered i)" "started (Registered i)"
  "started (Unsent i)" "started (Waiting i)" "started (Ended i d)" "started (Returned st data)"
  by (simp_all add: started_def)

text \<open>An answer is the \<open>EIO\<close> of a lost connection, or it was received under the number \<open>i\<close>.\<close>

definition from_host :: "(u64 \<times> u16 \<times> bytes) set \<Rightarrow> u64 \<Rightarrow> u16 \<Rightarrow> bytes \<Rightarrow> bool" where
  "from_host R i st data \<longleftrightarrow> st = 5 \<or> (i, st, data) \<in> R"

definition call_ok :: "(u64 \<times> u16 \<times> bytes) set \<Rightarrow> u64 \<Rightarrow> call \<Rightarrow> pending \<Rightarrow> bool" where
  "call_ok R i c p \<longleftrightarrow>
     (\<forall>j. numbered c = Some j \<longrightarrow> i = j) \<and>
     (p_done p \<longrightarrow> started c \<and> from_host R i (p_status p) (p_data p)) \<and>
     (\<forall>j. c = Ended j True \<longrightarrow> p_done p) \<and>
     (\<forall>st data. c = Returned st data \<longrightarrow> (\<exists>w. st = sint w \<and> from_host R i w data))"

text \<open>A call that has started keeps the number it drew, and what it is given was received under it.\<close>

definition routed :: "conn_run \<Rightarrow> bool" where
  "routed s \<longleftrightarrow>
     (\<forall>k. call_ok (set (q_received s)) (q_id s k) (q_call s k) (q_slot s k)) \<and>
     (\<forall>i k. q_pend s i = Some k \<longrightarrow> q_id s k = i \<and> started (q_call s k)) \<and>
     (\<forall>k st data. q_reader s = Holding k st data \<longrightarrow>
        (q_id s k, st, data) \<in> set (q_received s) \<and> started (q_call s k))"

lemma returned_eio: "\<exists>w. kEIO = sint w \<and> from_host R i w []"
  by (rule exI [of _ "5 :: u16"]) (simp add: kEIO_def from_host_def)

lemma call_ok_eio: "p_done p \<longrightarrow> from_host R i (p_status p) (p_data p) \<Longrightarrow> call_ok R i (Returned kEIO []) p"
  using returned_eio by (simp add: call_ok_def)

lemma routed_start: "routed conn_start"
  by (simp add: routed_def conn_start_def no_answer_def call_ok_def)

text \<open>The steps of a caller change its own call, its own answer, and its own entry of the table.\<close>

lemma routed_own:
  assumes "routed s" "q_call s' = (q_call s)(k := c)" "q_slot s' = (q_slot s)(k := p)" "q_id s' = q_id s"
    "q_received s' = q_received s" "q_reader s' = q_reader s"
    "call_ok (set (q_received s)) (q_id s k) c p" "started (q_call s k) \<Longrightarrow> started c"
    "\<And>i j. q_pend s' i = Some j \<Longrightarrow> q_pend s i = Some j \<or> (j = k \<and> i = q_id s k \<and> started c)"
  shows "routed s'"
proof -
  have "started (q_call s' j)" if "started (q_call s j)" for j using that assms(2,8) by auto
  moreover have "call_ok (set (q_received s')) (q_id s' j) (q_call s' j) (q_slot s' j)" for j
    using assms(1-7) by (simp add: routed_def)
  moreover have "q_id s' j = i \<and> started (q_call s' j)" if "q_pend s' i = Some j" for i j
    using assms(9) [OF that]
  proof
    assume "q_pend s i = Some j"
    then show ?thesis using assms(1,4) calculation(1) unfolding routed_def by metis
  qed (use assms(2,4) in simp)
  ultimately show ?thesis using assms(1,4,5,6) unfolding routed_def by simp
qed

lemma routed_own_call:
  assumes "routed s" "q_call s' = (q_call s)(k := c)" "q_slot s' = q_slot s" "q_id s' = q_id s"
    "q_received s' = q_received s" "q_reader s' = q_reader s"
    "call_ok (set (q_received s)) (q_id s k) c (q_slot s k)" "started (q_call s k) \<Longrightarrow> started c"
    "\<And>i j. q_pend s' i = Some j \<Longrightarrow> q_pend s i = Some j"
  shows "routed s'"
  by (rule routed_own [OF assms(1,2) _ assms(4-6,7,8)]) (use assms(3,9) in auto)

lemma routed_call: "routed s \<Longrightarrow> call_ok (set (q_received s)) (q_id s k) (q_call s k) (q_slot s k)"
  by (simp add: routed_def)

lemma routed_callers:
  assumes "routed s"
  shows "q_call s k = Idle \<Longrightarrow> routed (req_enter k s)"
    "q_call s k = Numbered i \<Longrightarrow> routed (req_register k i s)"
    "q_call s k = Registered i \<Longrightarrow> routed (req_send k i sent s)"
    "q_call s k = Unsent i \<Longrightarrow> routed (req_unsend k i s)"
    "q_call s k = Waiting i \<Longrightarrow> routed (req_wake k i s)"
    "q_call s k = Ended i d \<Longrightarrow> routed (req_finish k i d s)"
proof -
  note ok = routed_call [OF assms, of k]
  have eio: "call_ok (set (q_received s)) (q_id s k) (Returned kEIO []) (q_slot s k)"
    using ok by (intro call_ok_eio) (simp add: call_ok_def)
  show "routed (req_enter k s)" if "q_call s k = Idle"
    using that ok eio by (intro routed_own_call [OF assms, where k = k]) (auto simp: req_enter_def call_ok_def split: if_splits)
  show "routed (req_register k i s)" if c: "q_call s k = Numbered i"
  proof (cases "q_alive s")
    case True
    have "q_id s k = i" using ok c by (simp add: call_ok_def)
    then show ?thesis
      by (intro routed_own [OF assms, where k = k and c = "Registered i" and p = no_answer])
        (auto simp: True req_register_def call_ok_def no_answer_def split: if_splits)
  next
    case False
    then show ?thesis using eio by (intro routed_own_call [OF assms, where k = k and c = "Returned kEIO []"]) (auto simp: req_register_def)
  qed
  show "routed (req_send k i sent s)" if "q_call s k = Registered i"
    using that ok by (intro routed_own_call [OF assms, where k = k]) (auto simp: req_send_def call_ok_def split: if_splits)
  show "routed (req_unsend k i s)" if "q_call s k = Unsent i"
    using eio by (intro routed_own_call [OF assms, where k = k and c = "Returned kEIO []"]) (auto simp: req_unsend_def split: if_splits)
  show "routed (req_wake k i s)" if "q_call s k = Waiting i"
    using that ok by (intro routed_own_call [OF assms, where k = k]) (auto simp: req_wake_def call_ok_def split: if_splits)
  show "routed (req_finish k i d s)" if c: "q_call s k = Ended i d"
  proof (cases d)
    case True
    have "from_host (set (q_received s)) (q_id s k) (p_status (q_slot s k)) (p_data (q_slot s k))"
      using ok c True by (auto simp: call_ok_def)
    then show ?thesis using ok
      by (intro routed_own_call [OF assms, where k = k and c = "Returned (sint (p_status (q_slot s k))) (p_data (q_slot s k))"])
        (auto simp: True req_finish_def call_ok_def split: if_splits)
  next
    case False
    then show ?thesis using eio
      by (intro routed_own_call [OF assms, where k = k and c = "Returned kEIO []"]) (auto simp: req_finish_def split: if_splits)
  qed
qed

lemma routed_number:
  assumes "routed s" "q_call s k = Entered"
  shows "routed (req_number k s)"
proof -
  have n: "\<not> p_done (q_slot s k)" using routed_call [OF assms(1), of k] assms(2) by (simp add: call_ok_def)
  have p: "q_pend s i \<noteq> Some k" for i using assms unfolding routed_def by (metis started_simps(2))
  have r: "q_reader s \<noteq> Holding k st data" for st data using assms unfolding routed_def by (metis started_simps(2))
  show ?thesis unfolding routed_def
  proof (intro conjI allI impI)
    fix j show "call_ok (set (q_received (req_number k s))) (q_id (req_number k s) j)
        (q_call (req_number k s) j) (q_slot (req_number k s) j)"
      using n routed_call [OF assms(1), of j] by (auto simp: req_number_def call_ok_def)
  next
    fix i j assume "q_pend (req_number k s) i = Some j"
    then have j: "q_pend s i = Some j" by (simp add: req_number_def)
    then have "j \<noteq> k" using p by blast
    then show "q_id (req_number k s) j = i" "started (q_call (req_number k s) j)"
      using j assms(1) by (simp_all add: req_number_def routed_def)
  next
    fix j st data assume "q_reader (req_number k s) = Holding j st data"
    then have j: "q_reader s = Holding j st data" by (simp add: req_number_def)
    then have "j \<noteq> k" using r by blast
    then show "(q_id (req_number k s) j, st, data) \<in> set (q_received (req_number k s))"
      "started (q_call (req_number k s) j)"
      using j assms(1) by (simp_all add: req_number_def routed_def)
  qed
qed

lemma call_ok_mono: "call_ok R i c p \<Longrightarrow> R \<subseteq> R' \<Longrightarrow> call_ok R' i c p"
  unfolding call_ok_def from_host_def by blast

lemma routed_message:
  assumes "routed s"
  shows "routed (rd_message opc st i payload s)"
proof (cases "opc = op_code OP_INVALIDATE")
  case True
  then show ?thesis using assms
    by (simp add: rd_message_def routed_def split: option.split prod.split)
next
  case False
  show ?thesis
  proof (cases "q_pend s i")
    case (Some k)
    have "call_ok (set (q_received s @ [(i, st, payload)])) (q_id s j) (q_call s j) (q_slot s j)" for j
      by (rule call_ok_mono [OF routed_call [OF assms]]) auto
    then show ?thesis using assms Some False by (simp add: rd_message_def routed_def)
  qed (use assms False in \<open>simp add: rd_message_def\<close>)
qed

lemma routed_deliver:
  assumes "routed s" "q_reader s = Holding k st payload"
  shows "routed (rd_deliver k st payload s)"
proof -
  have h: "(q_id s k, st, payload) \<in> set (q_received s)" "started (q_call s k)"
    using assms unfolding routed_def by blast+
  have "call_ok (set (q_received s)) (q_id s k) (q_call s k) \<lparr>p_done = True, p_status = st, p_data = payload\<rparr>"
    using h routed_call [OF assms(1), of k] by (simp add: call_ok_def from_host_def)
  then show ?thesis using assms(1) by (simp add: routed_def rd_deliver_def)
qed

lemma routed_fail_all:
  assumes "routed s"
  shows "routed (rd_fail_all s)"
proof -
  have "call_ok (set (q_received s)) (q_id s k) (q_call s k) ((q_slot s k)\<lparr>p_status := 5, p_done := True\<rparr>)"
    if "k \<in> ran (q_pend s)" for k
    using that routed_call [OF assms, of k] assms by (auto simp: call_ok_def from_host_def routed_def ran_def)
  then show ?thesis using assms by (simp add: routed_def rd_fail_all_def)
qed

lemma routed_step:
  assumes "routed s" "conn_step s s'"
  shows "routed s'"
  using assms(2)
proof cases
  case end_reader
  then show ?thesis using assms(1) by (simp add: routed_def rd_end_def)
next
  case (message opc status i payload)
  then show ?thesis using routed_message assms(1) by blast
qed (use assms(1) routed_callers routed_number routed_deliver routed_fail_all in
      \<open>blast | simp add: routed_def\<close>)+

lemma reachable_routed: "conn_reachable s \<Longrightarrow> routed s"
  by (induction rule: conn_reachable.induct) (simp_all add: routed_start routed_step)

section \<open>A lost connection releases every call\<close>

text \<open>The number under which a call is in the table.\<close>

primrec in_table :: "call \<Rightarrow> u64 option" where
  "in_table Idle = None"
| "in_table Entered = None"
| "in_table (Numbered i) = None"
| "in_table (Registered i) = Some i"
| "in_table (Unsent i) = Some i"
| "in_table (Waiting i) = Some i"
| "in_table (Ended i d) = Some i"
| "in_table (Returned st data) = None"

lemma in_table_numbered: "in_table c = Some i \<Longrightarrow> numbered c = Some i"
  by (cases c) simp_all

text \<open>\<open>f\<close> gives the order in which the calls drew their numbers.\<close>

definition numbering :: "conn_run \<Rightarrow> (nat \<Rightarrow> nat) \<Rightarrow> bool" where
  "numbering s f \<longleftrightarrow> q_nextId s = 1 + of_nat (q_issued s) \<and> inj_on f {k. numbered (q_call s k) \<noteq> None} \<and>
     (\<forall>k i. numbered (q_call s k) = Some i \<longrightarrow> f k < q_issued s \<and> i = 1 + of_nat (f k))"

definition tabled :: "conn_run \<Rightarrow> bool" where
  "tabled s \<longleftrightarrow> (\<forall>k i. in_table (q_call s k) = Some i \<longrightarrow> q_pend s i = Some k)"

definition failed :: "conn_run \<Rightarrow> bool" where
  "failed s \<longleftrightarrow> (q_reader s = Failing \<or> q_reader s = Gone \<longrightarrow> \<not> q_alive s) \<and>
     (q_reader s = Gone \<longrightarrow> (\<forall>i k. q_pend s i = Some k \<longrightarrow> p_done (q_slot s k)))"

lemma numbers_distinct:
  assumes "numbering s f" "q_issued s \<le> 2 ^ 64" "numbered (q_call s k) = Some i" "numbered (q_call s j) = Some i"
  shows "k = j"
proof -
  have f: "f k < 2 ^ 64" "f j < 2 ^ 64" "i = 1 + of_nat (f k)" "i = 1 + of_nat (f j)"
    using assms unfolding numbering_def by (meson less_le_trans)+
  then have "(of_nat (f k) :: u64) = of_nat (f j)" by simp
  moreover have "unat (of_nat (f k) :: u64) = f k" "unat (of_nat (f j) :: u64) = f j"
    using f(1,2) by (simp_all add: unat_of_nat)
  ultimately have "f k = f j" by metis
  then show ?thesis using assms unfolding numbering_def inj_on_def by blast
qed

lemma numbering_own:
  assumes "numbering s f" "q_call s' = (q_call s)(k := c)" "q_nextId s' = q_nextId s" "q_issued s' = q_issued s"
    "numbered c = None \<or> numbered c = numbered (q_call s k)"
  shows "numbering s' f"
proof -
  have "{j. numbered (q_call s' j) \<noteq> None} \<subseteq> {j. numbered (q_call s j) \<noteq> None}" using assms(2,5) by auto
  moreover have "numbered (q_call s j) = Some i" if "numbered (q_call s' j) = Some i" for i j
    using that assms(2,5) by (auto split: if_splits)
  moreover have "inj_on f {j. numbered (q_call s' j) \<noteq> None}"
    using inj_on_subset calculation(1) assms(1) unfolding numbering_def by blast
  ultimately show ?thesis using assms(1,3,4) unfolding numbering_def by simp
qed

lemma numbering_number:
  assumes "numbering s f" "q_call s k = Entered"
  shows "numbering (req_number k s) (f(k := q_issued s))"
proof -
  have "inj_on (f(k := q_issued s)) (insert k {j. numbered (q_call s j) \<noteq> None})"
  proof (rule inj_onI)
    fix x y assume h: "x \<in> insert k {j. numbered (q_call s j) \<noteq> None}"
      "y \<in> insert k {j. numbered (q_call s j) \<noteq> None}" "(f(k := q_issued s)) x = (f(k := q_issued s)) y"
    have lt: "f j < q_issued s" if "numbered (q_call s j) \<noteq> None" for j
      using that assms(1) unfolding numbering_def by blast
    have inj: "inj_on f {j. numbered (q_call s j) \<noteq> None}" using assms(1) unfolding numbering_def by blast
    show "x = y"
    proof (cases "x = k \<or> y = k")
      case True
      then show ?thesis using h lt [of x] lt [of y] by (auto split: if_splits)
    next
      case False
      then show ?thesis using h inj_onD [OF inj, of x y] by auto
    qed
  qed
  moreover have "{j. numbered (q_call (req_number k s) j) \<noteq> None} = insert k {j. numbered (q_call s j) \<noteq> None}"
    by (auto simp: req_number_def)
  moreover have "f j < Suc (q_issued s) \<and> i = 1 + of_nat (f j)" if "numbered (q_call s j) = Some i" for i j
    using that assms(1) unfolding numbering_def by (auto intro: less_SucI)
  ultimately show ?thesis using assms unfolding numbering_def by (simp add: req_number_def)
qed

lemma tabled_own:
  assumes "tabled s" "q_call s' = (q_call s)(k := c)" "in_table c = None \<or> in_table c = in_table (q_call s k)"
    "\<And>i j. in_table (q_call s' j) = Some i \<Longrightarrow> q_pend s i = Some j \<Longrightarrow> q_pend s' i = Some j"
  shows "tabled s'"
  unfolding tabled_def
proof (intro allI impI)
  fix j i assume t: "in_table (q_call s' j) = Some i"
  then have "in_table (q_call s j) = Some i" using assms(2,3) by (auto split: if_splits)
  then show "q_pend s' i = Some j" using assms(1,4) t unfolding tabled_def by blast
qed

lemma failed_own:
  assumes "failed s" "q_reader s' = q_reader s" "q_alive s' \<longrightarrow> q_alive s"
    "\<And>i j. q_pend s' i = Some j \<Longrightarrow> q_reader s' = Gone \<Longrightarrow> q_pend s i = Some j \<and> q_slot s' j = q_slot s j"
  shows "failed s'"
proof -
  have "p_done (q_slot s' j)" if "q_reader s' = Gone" "q_pend s' i = Some j" for i j
    using assms(1,2) assms(4) [OF that(2,1)] that(1) unfolding failed_def by auto
  then show ?thesis using assms(1-3) unfolding failed_def by auto
qed

definition settled :: "conn_run \<Rightarrow> bool" where
  "settled s \<longleftrightarrow> (\<exists>f. numbering s f) \<and> (q_issued s \<le> 2 ^ 64 \<longrightarrow> tabled s) \<and> failed s"

lemma settled_start: "settled conn_start"
  by (auto simp: settled_def numbering_def tabled_def failed_def conn_start_def)

text \<open>A call that leaves the table takes only its own entry with it.\<close>

lemma settled_leave:
  assumes "settled s" "in_table (q_call s k) = Some i" "numbered c = None" "in_table c = None"
  shows "settled ((becomes k c s)\<lparr>q_pend := (q_pend s)(i := None)\<rparr>)"
proof -
  let ?s = "(becomes k c s)\<lparr>q_pend := (q_pend s)(i := None)\<rparr>"
  obtain f where f: "numbering s f" using assms(1) unfolding settled_def by blast
  have "numbering ?s f" by (rule numbering_own [OF f]) (use assms in auto)
  moreover have "failed ?s"
    by (rule failed_own [of s]) (use assms(1) in \<open>auto simp: settled_def split: if_splits\<close>)
  moreover have "tabled ?s" if le: "q_issued ?s \<le> 2 ^ 64"
  proof (rule tabled_own [where s = s and k = k and c = c])
    show "tabled s" using assms(1) le by (simp add: settled_def)
    fix l j assume l: "in_table (q_call ?s j) = Some l" "q_pend s l = Some j"
    then have j: "j \<noteq> k" "in_table (q_call s j) = Some l" using assms(4) by (auto split: if_splits)
    have "l \<noteq> i"
    proof
      assume "l = i"
      then have "j = k"
        using numbers_distinct [OF f _ in_table_numbered [OF j(2)]] in_table_numbered [OF assms(2)] le by simp
      then show False using j(1) by simp
    qed
    then show "q_pend ?s l = Some j" using l by simp
  qed (use assms in auto)
  ultimately show ?thesis by (auto simp: settled_def)
qed

text \<open>A caller that touches neither the table nor an answer.\<close>

lemma settled_move:
  assumes "settled s" "numbered c = None \<or> numbered c = numbered (q_call s k)"
    "in_table c = None \<or> in_table c = in_table (q_call s k)"
  shows "settled (becomes k c s)"
proof -
  obtain f where f: "numbering s f" using assms(1) unfolding settled_def by blast
  have "numbering (becomes k c s) f" by (rule numbering_own [OF f]) (use assms in auto)
  moreover have "failed (becomes k c s)" by (rule failed_own [of s]) (use assms(1) in \<open>auto simp: settled_def\<close>)
  moreover have "tabled (becomes k c s)" if "q_issued s \<le> 2 ^ 64"
    by (rule tabled_own [of s]) (use assms that in \<open>auto simp: settled_def\<close>)
  ultimately show ?thesis by (auto simp: settled_def)
qed

lemma settled_register:
  assumes "settled s" "q_call s k = Numbered i"
  shows "settled (req_register k i s)"
proof (cases "q_alive s")
  case False
  then show ?thesis using settled_move [OF assms(1), of "Returned kEIO []" k] by (simp add: req_register_def)
next
  case True
  let ?s = "req_register k i s"
  have e: "?s = (becomes k (Registered i) s)\<lparr>q_pend := (q_pend s)(i \<mapsto> k), q_slot := (q_slot s)(k := no_answer)\<rparr>"
    using True by (simp add: req_register_def)
  obtain f where f: "numbering s f" using assms(1) unfolding settled_def by blast
  have "numbering ?s f" by (rule numbering_own [OF f]) (use assms in \<open>auto simp: e\<close>)
  moreover have "failed ?s" using assms(1) True by (auto simp: settled_def failed_def e)
  moreover have "tabled ?s" if le: "q_issued s \<le> 2 ^ 64"
    unfolding tabled_def
  proof (intro allI impI)
    fix j l assume t: "in_table (q_call ?s j) = Some l"
    show "q_pend ?s l = Some j"
    proof (cases "j = k")
      case False
      then have j: "in_table (q_call s j) = Some l" using t by (simp add: e)
      have "l \<noteq> i"
        using numbers_distinct [OF f le in_table_numbered [OF j], of k] assms(2) False by auto
      moreover have "q_pend s l = Some j" using assms(1) le j by (auto simp: settled_def tabled_def)
      ultimately show ?thesis by (simp add: e)
    next
      case True
      then have "l = i" using t by (simp add: e)
      then show ?thesis using True by (simp add: e)
    qed
  qed
  ultimately show ?thesis by (auto simp: settled_def e)
qed

lemma settled_number:
  assumes "settled s" "q_call s k = Entered"
  shows "settled (req_number k s)"
proof -
  obtain f where f: "numbering s f" using assms(1) unfolding settled_def by blast
  have "tabled (req_number k s)" if "q_issued s \<le> 2 ^ 64"
    using assms that by (auto simp: settled_def tabled_def req_number_def)
  moreover have "failed (req_number k s)"
    by (rule failed_own [of s]) (use assms(1) in \<open>auto simp: settled_def req_number_def\<close>)
  ultimately show ?thesis using numbering_number [OF f assms(2)]
    by (auto simp: settled_def req_number_def)
qed

text \<open>Steps that leave the callers and the table alone.\<close>

lemma settled_other:
  assumes "settled s" "q_call s' = q_call s" "q_pend s' = q_pend s" "q_nextId s' = q_nextId s"
    "q_issued s' = q_issued s" "failed s'"
  shows "settled s'"
  using assms unfolding settled_def numbering_def tabled_def by simp

lemma settled_step:
  assumes "settled s" "conn_step s s'"
  shows "settled s'"
  using assms(2)
proof cases
  case (enter k)
  then show ?thesis using settled_move [OF assms(1)] by (simp add: req_enter_def)
next
  case (send k i sent)
  then show ?thesis using settled_move [OF assms(1)] by (simp add: req_send_def)
next
  case (unsend k i)
  then show ?thesis using settled_leave [OF assms(1)] by (simp add: req_unsend_def)
next
  case (answered k i)
  then show ?thesis using settled_move [OF assms(1)] by (simp add: req_wake_def)
next
  case (timed_out k i)
  then show ?thesis using settled_move [OF assms(1)] by (simp add: req_wake_def)
next
  case (finish k i d)
  then show ?thesis using settled_leave [OF assms(1)] by (simp add: req_finish_def)
next
  case (message opc st i payload)
  then show ?thesis using assms(1)
    by (intro settled_other [OF assms(1)])
      (auto simp: rd_message_def settled_def failed_def split: option.split prod.split)
next
  case (deliver k st payload)
  then show ?thesis using assms(1)
    by (intro settled_other [OF assms(1)]) (auto simp: rd_deliver_def settled_def failed_def)
next
  case end_reader
  then show ?thesis using assms(1)
    by (intro settled_other [OF assms(1)]) (auto simp: rd_end_def settled_def failed_def)
next
  case fail_all
  then show ?thesis using assms(1)
    by (intro settled_other [OF assms(1)]) (auto simp: rd_fail_all_def settled_def failed_def ran_def)
next
  case close
  then show ?thesis using assms(1)
    by (intro settled_other [OF assms(1)]) (auto simp: settled_def failed_def)
next
  case disconnect
  then show ?thesis using assms(1)
    by (intro settled_other [OF assms(1)]) (auto simp: settled_def failed_def)
qed (use assms(1) settled_number settled_register in blast)+

lemma reachable_settled: "conn_reachable s \<Longrightarrow> settled s"
  by (induction rule: conn_reachable.induct) (simp_all add: settled_start settled_step)

section \<open>Properties\<close>

text \<open>C21: In every interleaving of callers and reader, a call of Client::request returns EIO or
  the status and data of a message that the reader received under that call's own request
  number.\<close>

theorem answers_match_requests:
  assumes "conn_reachable s" "q_call s k = Returned st data"
  shows "st = kEIO \<or> (\<exists>w. st = sint w \<and> (q_id s k, w, data) \<in> set (q_received s))"
proof -
  obtain w where w: "st = sint w" "from_host (set (q_received s)) (q_id s k) w data"
    using routed_call [OF reachable_routed [OF assms(1)], of k] assms(2) by (auto simp: call_ok_def)
  then show ?thesis by (auto simp: from_host_def kEIO_def)
qed

text \<open>A call that is registered and sent, and a second one after it.\<close>

definition ex_waiting :: "conn_run \<Rightarrow> nat \<Rightarrow> u64 \<Rightarrow> conn_run" where
  "ex_waiting s k i = req_send k i True (req_register k i (req_number k (req_enter k s)))"

lemma ex_waiting_reachable:
  assumes "conn_reachable s" "q_call s k = Idle" "q_connected s" "q_alive s" "q_nextId s = i"
  shows "conn_reachable (ex_waiting s k i)"
proof -
  have 1: "conn_reachable (req_enter k s)" using conn_reachable.step [OF assms(1) conn_step.enter] assms(2) .
  have "q_call (req_enter k s) k = Entered" using assms by (simp add: req_enter_def)
  then have 2: "conn_reachable (req_number k (req_enter k s))" using conn_reachable.step [OF 1 conn_step.number] by blast
  have "q_call (req_number k (req_enter k s)) k = Numbered i" using assms by (simp add: req_enter_def req_number_def)
  then have 3: "conn_reachable (req_register k i (req_number k (req_enter k s)))"
    using conn_reachable.step [OF 2 conn_step.register] by blast
  have "q_call (req_register k i (req_number k (req_enter k s))) k = Registered i"
    using assms by (simp add: req_enter_def req_number_def req_register_def)
  then show ?thesis unfolding ex_waiting_def using conn_reachable.step [OF 3 conn_step.send] by blast
qed

definition ex_conn :: conn_run where "ex_conn = ex_waiting (ex_waiting conn_start 0 1) 7 2"

lemmas ex_conn_defs = ex_conn_def ex_waiting_def conn_start_def req_defs no_answer_def

lemma ex_conn_reachable: "conn_reachable ex_conn" "q_reader ex_conn = Receiving"
proof -
  have s: "conn_reachable (ex_waiting conn_start 0 1)"
    by (rule ex_waiting_reachable [OF conn_reachable.start]) (simp_all add: conn_start_def)
  show "conn_reachable ex_conn"
    unfolding ex_conn_def by (rule ex_waiting_reachable [OF s]) (simp_all add: ex_conn_defs)
  show "q_reader ex_conn = Receiving" by (simp add: ex_conn_defs)
qed

theorem answers_match_requests_witness:
  "let s = req_finish 7 2 True (req_wake 7 2 (rd_deliver 7 2 [9] (rd_message 10 2 2 [9] ex_conn)))
   in q_call s 7 = Returned 2 [9] \<and> (q_id s 7, 2, [9]) \<in> set (q_received s)"
proof -
  let ?a = "rd_message 10 2 2 [9] ex_conn"
  let ?b = "rd_deliver 7 2 [9] ?a"
  let ?c = "req_wake 7 2 ?b"
  let ?d = "req_finish 7 2 True ?c"
  have "conn_reachable ?a" using conn_reachable.step [OF ex_conn_reachable(1) conn_step.message [OF ex_conn_reachable(2)]] .
  moreover have "q_reader ?a = Holding 7 2 [9]" by (simp add: ex_conn_defs)
  ultimately have b: "conn_reachable ?b" using conn_reachable.step [OF _ conn_step.deliver] by blast
  have "q_call ?b 7 = Waiting 2" by (simp add: ex_conn_defs)
  then have c: "conn_reachable ?c" using conn_reachable.step [OF b conn_step.timed_out] by blast
  have "q_call ?c 7 = Ended 2 True" by (simp add: ex_conn_defs)
  then have d: "conn_reachable ?d" using conn_reachable.step [OF c conn_step.finish] by blast
  have e: "q_call ?d 7 = Returned 2 [9]" by (simp add: ex_conn_defs)
  from answers_match_requests [OF d e] have "\<exists>w. (2 :: int) = sint w \<and> (q_id ?d 7, w, [9]) \<in> set (q_received ?d)"
    by (simp add: kEIO_def)
  then show ?thesis using e by (auto simp: ex_conn_defs)
qed

text \<open>C22: When the reader thread has ended, in any interleaving with at most 2^64 requests drawn,
  every waiting call finds its answer present and ends at once instead of running into its
  time limit, and every new call returns EIO.\<close>

theorem lost_connection_releases_calls:
  assumes "conn_reachable s" "q_issued s \<le> 2 ^ 64" "q_reader s = Gone" "q_call s k = Waiting i"
  shows "p_done (q_slot s k) \<and> conn_step s (req_wake k i s) \<and> q_call (req_wake k i s) k = Ended i True \<and>
     q_call (req_enter j s) j = Returned kEIO []"
proof -
  have st: "tabled s" "failed s" using reachable_settled [OF assms(1)] assms(2) by (simp_all add: settled_def)
  have "q_pend s i = Some k" using st(1) assms(4) by (simp add: tabled_def)
  then have d: "p_done (q_slot s k)" using st(2) assms(3) by (auto simp: failed_def)
  have "\<not> q_alive s" using st(2) assms(3) by (simp add: failed_def)
  then show ?thesis using conn_step.answered [OF assms(4) d] d
    by (simp add: req_wake_def req_enter_def)
qed

theorem lost_connection_releases_calls_witness:
  "let s = rd_fail_all (rd_end ex_conn)
   in q_call s 0 = Waiting 1 \<and> q_call s 7 = Waiting 2 \<and> p_done (q_slot s 0) \<and> p_done (q_slot s 7)"
proof -
  let ?a = "rd_end ex_conn"
  let ?s = "rd_fail_all ?a"
  have "conn_reachable ?a" using conn_reachable.step [OF ex_conn_reachable(1) conn_step.end_reader [OF ex_conn_reachable(2)]] .
  moreover have "q_reader ?a = Failing" by (simp add: ex_conn_defs)
  ultimately have r: "conn_reachable ?s" using conn_reachable.step [OF _ conn_step.fail_all] by blast
  have g: "q_issued ?s \<le> 2 ^ 64" "q_reader ?s = Gone" "q_call ?s 0 = Waiting 1" "q_call ?s 7 = Waiting 2"
    by (simp_all add: ex_conn_defs)
  show ?thesis
    using lost_connection_releases_calls [OF r g(1,2,3)] lost_connection_releases_calls [OF r g(1,2,4)] g
    by (simp add: Let_def)
qed

end
