(* ===== verification/Session.thy ===== *)
theory Session
  imports Signaling NetAddr ClientConnect
begin

text \<open>
  Hosting and joining a share, from \<open>client/src/app/session.cpp\<close>: \<open>start_hosting\<close> composes the server
  start, the choice of address, the port mapping, the sealing of the token and its publication in one
  of the two directories; \<open>resolve_share_code\<close> is the way back from a code to a token;
  \<open>start_mounting\<close> connects and mounts. An operation that draws a room code is an option: it has no
  value if the random tape never holds enough usable bytes.
\<close>

section \<open>Tickets\<close>

record ticket =
  tk_roomCode :: string
  tk_offlineBlob :: string
  tk_connectCode :: string
  tk_ownerToken :: string
  tk_lookupId :: string
  tk_reach :: string
  tk_cloudStatus :: string
  tk_signalingBackend :: string
  tk_cloudPublished :: bool

definition ticket_init :: ticket where
  "ticket_init = \<lparr>tk_roomCode = [], tk_offlineBlob = [], tk_connectCode = [], tk_ownerToken = [],
     tk_lookupId = [], tk_reach = [], tk_cloudStatus = [], tk_signalingBackend = [], tk_cloudPublished = False\<rparr>"

text \<open>The dash of the messages, in UTF-8.\<close>

definition em_dash :: string where
  "em_dash = [CHR 0xE2, CHR 0x80, CHR 0x94]"

definition start_message :: "start_error \<Rightarrow> string" where
  "start_message e = (case e of
      CannotHostSymlink \<Rightarrow> ''Cannot host a symlink, junction, or projected filesystem root''
    | NotADirectory folder \<Rightarrow> ''Not a directory: '' @ folder
    | SocketFailed \<Rightarrow> ''socket() failed''
    | BindFailed port \<Rightarrow> ''bind() failed: no available port near '' @ int_string port
    | ListenFailed \<Rightarrow> ''listen() failed'')"

section \<open>Hosting\<close>

text \<open>
  What a host works with: the hash and Argon2id, how the server start goes, the local interfaces,
  the router and Qt; and its state: server, port mapping, router, network and random tape.
\<close>

record ('w, 'r) host_env =
  he_sha :: "bytes \<Rightarrow> bytes"
  he_pw :: pwhash
  he_start :: start_env
  he_ntop :: ntop
  he_ifs :: "ifaddr list option"
  he_igd :: "'r igd"
  he_qt :: "'w env"

record ('w, 'r) host_state =
  hs_server :: "started option"
  hs_allowWrites :: bool
  hs_upnp :: upnp
  hs_router :: 'r
  hs_world :: 'w
  hs_random :: entropy

text \<open>The address to advertise with its port and description.\<close>

definition choose_address ::
    "('w, 'r) host_env \<Rightarrow> bool \<Rightarrow> u16 \<Rightarrow> ('w, 'r) host_state \<Rightarrow> (string \<times> u16 \<times> string) \<times> ('w, 'r) host_state" where
  "choose_address h lanOnly boundPort s =
     (if lanOnly then
        let ip = best_local_ip (he_ntop h) (he_ifs h) True
        in ((ip, boundPort, ''LAN only '' @ em_dash @ '' '' @ ip), s)
      else let v6 = best_local_ip (he_ntop h) (he_ifs h) False in
        if v6 \<noteq> [] then ((v6, boundPort, ''Internet (IPv6) '' @ em_dash @ '' '' @ v6), s)
        else (case upnp_map (he_igd h) boundPort (hs_upnp s) (hs_router s) of
            (Inr (extIp, extPort), u, r) \<Rightarrow>
              ((extIp, extPort, ''Internet (IPv4/UPnP) '' @ em_dash @ '' '' @ extIp @ '' :'' @
                  nat_string (unat extPort)),
               s\<lparr>hs_upnp := u, hs_router := r\<rparr>)
          | (Inl uerr, u, r) \<Rightarrow>
              let ip = best_local_ip (he_ntop h) (he_ifs h) True;
                  ip = (if ip = [] then ''127.0.0.1'' else ip)
              in ((ip, boundPort, ''UPnP failed ('' @ uerr @ '') '' @ em_dash @
                    '' only reachable on LAN: '' @ ip),
                  s\<lparr>hs_upnp := u, hs_router := r\<rparr>)))"

text \<open>
  The loop over the publication attempts: a fresh code each time, until the directory takes the
  record. The result is the code with its record and owner credential, if any, and the status text.
\<close>

fun publish ::
    "(cloud_record \<Rightarrow> 'w \<Rightarrow> (string + unit) \<times> 'w) \<Rightarrow> pwhash \<Rightarrow> token \<Rightarrow> bool \<Rightarrow> nat \<Rightarrow> string \<Rightarrow>
     entropy \<times> 'w \<Rightarrow> ((string \<times> cloud_record \<times> string) option \<times> string \<times> entropy \<times> 'w) option" where
  "publish create pw tok long 0 status (r, w) = Some (None, status, r, w)"
| "publish create pw tok long (Suc attempts) status (r, w) = (case random_room_code long r of
      None \<Rightarrow> None
    | Some (room, r) \<Rightarrow> (case seal_for_cloud pw tok room r of
        (Inl e, r) \<Rightarrow> publish create pw tok long attempts e (r, w)
      | (Inr (rec, owner), r) \<Rightarrow> (case create rec w of
          (Inr _, w) \<Rightarrow> Some (Some (room, rec, owner), status, r, w)
        | (Inl e, w) \<Rightarrow> publish create pw tok long attempts e (r, w))))"

definition published_ticket :: "string \<Rightarrow> string \<times> cloud_record \<times> string \<Rightarrow> ticket \<Rightarrow> ticket" where
  "published_ticket backend = (\<lambda>(room, rec, owner) t. t\<lparr>tk_roomCode := room, tk_connectCode := room,
     tk_lookupId := c_lookupId rec, tk_ownerToken := owner, tk_signalingBackend := backend,
     tk_cloudPublished := True\<rparr>)"

definition kPublishAttempts :: nat where "kPublishAttempts = 12"

text \<open>One directory: skipped when it is not configured; only Cloudflare's errors reach the ticket.\<close>

definition publish_with ::
    "string \<Rightarrow> bool \<Rightarrow> (cloud_record \<Rightarrow> 'w \<Rightarrow> (string + unit) \<times> 'w) \<Rightarrow> bool \<Rightarrow> pwhash \<Rightarrow> token \<Rightarrow> bool \<Rightarrow>
     ticket \<Rightarrow> entropy \<times> 'w \<Rightarrow> (ticket \<times> entropy \<times> 'w) option" where
  "publish_with backend configured create keepStatus pw tok long t = (\<lambda>(r, w).
     if tk_cloudPublished t \<or> \<not> configured then Some (t, r, w)
     else (case publish create pw tok long kPublishAttempts (tk_cloudStatus t) (r, w) of
         None \<Rightarrow> None
       | Some (res, status, r, w) \<Rightarrow>
           let t = (if keepStatus then t\<lparr>tk_cloudStatus := status\<rparr> else t)
           in Some (case res of None \<Rightarrow> t | Some pub \<Rightarrow> published_ticket backend pub t, r, w)))"

definition start_hosting ::
    "('w, 'r) host_env \<Rightarrow> string \<Rightarrow> int \<Rightarrow> bool \<Rightarrow> bool \<Rightarrow> ticket \<Rightarrow> ('w, 'r) host_state \<Rightarrow>
     ((string + ticket) \<times> ('w, 'r) host_state) option" where
  "start_hosting h folder port lanOnly allowWrites t s =
     (let s = s\<lparr>hs_allowWrites := allowWrites\<rparr> in
      case random_bytes kSecretBytes (hs_random s) of (secret, r) \<Rightarrow>
      case server_start (he_sha h) (he_start h) secret folder port of
        Inl e \<Rightarrow> Some (Inl (start_message e),
          (case e of CannotHostSymlink \<Rightarrow> s | NotADirectory _ \<Rightarrow> s | _ \<Rightarrow> s\<lparr>hs_random := r\<rparr>))
      | Inr srv \<Rightarrow>
       (case choose_address h lanOnly (su_port srv) (s\<lparr>hs_random := r, hs_server := Some srv\<rparr>) of
          ((ip, sharePort, reach), s) \<Rightarrow>
        let t = t\<lparr>tk_reach := reach\<rparr>;
            tok = \<lparr>t_ip = ip, t_port = sharePort, t_secret = su_secret srv, t_folder = su_share srv,
              t_allowWrites = allowWrites\<rparr>
        in (case seal_for_offline tok (hs_random s) of (blob, r) \<Rightarrow>
          if blob = [] then Some (Inl ''failed to create offline room blob: '', s\<lparr>hs_random := r\<rparr>)
          else let t = t\<lparr>tk_offlineBlob := blob, tk_cloudPublished := False\<rparr> in
          (case publish_with ''cloudflare'' (sig_configured (he_qt h)) (sig_create (he_qt h)) True
              (he_pw h) tok allowWrites t (r, hs_world s) of
             None \<Rightarrow> None
           | Some (t, r, w) \<Rightarrow>
             (case publish_with ''firebase'' (fb_configured (he_qt h)) (fb_create (he_qt h)) False
                 (he_pw h) tok allowWrites t (r, w) of
                None \<Rightarrow> None
              | Some (t, r, w) \<Rightarrow>
                  Some (Inr (if tk_cloudPublished t then t else t\<lparr>tk_connectCode := tk_offlineBlob t\<rparr>),
                    s\<lparr>hs_random := r, hs_world := w\<rparr>))))))"

definition remove_published_room :: "'w env \<Rightarrow> ticket \<Rightarrow> 'w \<Rightarrow> (string + unit) \<times> 'w" where
  "remove_published_room e t w =
     (if \<not> tk_cloudPublished t then (Inr (), w)
      else if tk_signalingBackend t = ''firebase'' then fb_remove e (tk_lookupId t) (tk_ownerToken t) w
      else sig_remove e (tk_lookupId t) (tk_ownerToken t) w)"

section \<open>Joining\<close>

definition web_prefixed :: "string \<Rightarrow> bool" where
  "web_prefixed code \<longleftrightarrow> starts_with ''FBS2:'' code \<or> starts_with ''FBW2O:'' code \<or> starts_with ''FBW2A:'' code"

text \<open>
  One directory of the lookup: the record, opened with the code. The first component is the error
  of the directory itself, empty if it had a record that did not open.
\<close>

definition lookup_in ::
    "(string \<Rightarrow> 'w \<Rightarrow> (string + string \<times> string \<times> string) \<times> 'w) \<Rightarrow> pwhash \<Rightarrow> string \<Rightarrow> 'w \<Rightarrow>
     (string + token) \<times> 'w" where
  "lookup_in get pw code w = (case get (room_lookup_id code) w of
      (Inl err, w) \<Rightarrow> (Inl err, w)
    | (Inr (salt, wrapped, payload), w) \<Rightarrow>
        ((case open_cloud_record pw code salt wrapped payload of Inl _ \<Rightarrow> Inl [] | Inr tok \<Rightarrow> Inr tok), w))"

definition resolve_share_code :: "'w env \<Rightarrow> pwhash \<Rightarrow> string \<Rightarrow> 'w \<Rightarrow> (string + token) \<times> 'w" where
  "resolve_share_code e pw codeOrBlob w =
     (if web_prefixed codeOrBlob
      then (Inl (''that is a web-browser WebRTC code. Native clients need a native room code '' @
             ''(6 or 16 chars) or native offline Base91 blob.''), w)
      else if looks_like_room_code codeOrBlob then
        (case lookup_in (sig_get e) pw codeOrBlob w of
           (Inr tok, w) \<Rightarrow> (Inr tok, w)
         | (Inl cloudErr, w) \<Rightarrow> (case lookup_in (fb_get e) pw codeOrBlob w of
             (Inr tok, w) \<Rightarrow> (Inr tok, w)
           | (Inl firebaseErr, w) \<Rightarrow>
               (Inl (''room lookup failed. Cloudflare: '' @ cloudErr @ ''; Firebase: '' @ firebaseErr), w)))
      else (open_offline_blob codeOrBlob, w))"

text \<open>
  \<open>mstart\<close> is \<open>Mount::start\<close> on the client with the folder name and the write permission; it gives the
  mount point, and \<open>None\<close> if it never returns.
\<close>

definition start_mounting ::
    "'n net_api \<Rightarrow> (bytes \<Rightarrow> bytes) \<Rightarrow> (bytes \<Rightarrow> bytes \<Rightarrow> bytes) \<Rightarrow>
     ('n client \<Rightarrow> string \<Rightarrow> bool \<Rightarrow> 'm \<Rightarrow> ((string + string) \<times> 'm) option) \<Rightarrow> token \<Rightarrow>
     'n client \<times> 'n \<times> entropy \<Rightarrow> 'm \<Rightarrow> ((string + string) \<times> ('n client \<times> 'n \<times> entropy) \<times> 'm) option" where
  "start_mounting a sha hm mstart tok st m = (case client_connect a sha hm tok (int kDefaultConns) st of
      (Inl err, st) \<Rightarrow> Some (Inl err, st, m)
    | (Inr _, (c, n, r)) \<Rightarrow> (case mstart c (t_folder tok) (t_allowWrites tok) m of
        None \<Rightarrow> None
      | Some (Inl err, m) \<Rightarrow> (case disconnect c n of (c, n) \<Rightarrow> Some (Inl err, (c, n, r), m))
      | Some (Inr mountpoint, m) \<Rightarrow> Some (Inr mountpoint, (c, n, r), m)))"

section \<open>Codes that a host hands out\<close>

text \<open>A code that was drawn has its tier's length and only alphabet characters.\<close>

lemma code_text_append: "code_text (xs @ ys) \<longleftrightarrow> code_text xs \<and> code_text ys"
  by (simp add: code_text_def)

lemma code_text_take: "code_text xs \<Longrightarrow> code_text (take n xs)"
  unfolding code_text_def list_all_iff by (blast dest: in_set_takeD)

lemma accepted_text: "code_text (accepted rb)"
  using code_text_accepted [of "length (accepted rb)" rb] by simp

lemma room_loop_text:
  "room_loop n code r = Some y \<Longrightarrow> code_text code \<longrightarrow> length code \<le> n \<longrightarrow> code_text (fst y) \<and> length (fst y) = n"
proof (induction n code r y rule: room_loop.raw_induct [rotated, consumes 1])
  case (1 loop n code r y)
  show ?case
  proof (cases "length code < n")
    case True
    obtain rb r1 where rb: "random_bytes n r = (rb, r1)" by (metis surj_pair)
    have e: "room_fill n rb code = take n (code @ accepted rb)" using room_fill_accepted [OF True] .
    have "loop n (room_fill n rb code) r1 = Some y" using 1(2) True rb by simp
    note IH = 1(1) [OF this]
    show ?thesis
    proof (intro impI)
      assume "code_text code"
      then have "code_text (room_fill n rb code)" unfolding e
        by (intro code_text_take) (simp add: code_text_append accepted_text)
      moreover have "length (room_fill n rb code) \<le> n" unfolding e by simp
      ultimately show "code_text (fst y) \<and> length (fst y) = n" using IH by blast
    qed
  qed (use 1(2) in auto)
qed

lemma random_room_code_text:
  assumes "random_room_code long r = Some (c, r')"
  shows "code_text c" "length c = code_len long"
proof -
  have "(if long then kLongCodeLength else kShortCodeLength) = code_len long" by (simp add: code_len_def code_lengths)
  then show "code_text c" "length c = code_len long"
    using room_loop_text [of "code_len long" "[]" r "(c, r')"] assms
    by (simp_all add: random_room_code_def code_text_def)
qed

section \<open>An offline blob is never taken for a code\<close>

lemma encode_FB: "\<exists>t. base91_encode (0x46 # 0x42 # data) = CHR ''a'' # CHR ''6'' # t"
proof -
  have c: "b91_char 36 = CHR ''a''" "b91_char 6 = CHR ''6''" by code_simp+
  obtain out b n where e: "enc_loop (0x46 # 0x42 # data) ([], 0, 0) = (out, b, n)" by (metis prod_cases3)
  have "enc_loop (0x46 # 0x42 # data) ([], 0, 0) = enc_loop data ([] @ [CHR ''a'', CHR ''6''], 2, 3)"
    by (simp add: Let_def c)
  then obtain t where "out = [CHR ''a'', CHR ''6''] @ t"
    using enc_loop_extends [of data "[] @ [CHR ''a'', CHR ''6'']" 2 3] e by auto
  then show ?thesis unfolding base91_encode_def e by simp
qed

lemma offline_blob:
  assumes "seal_for_offline tok r = (blob, r')"
  shows "blob \<noteq> []" "\<not> looks_like_room_code blob" "\<not> web_prefixed blob"
proof -
  obtain k bd r1 where s: "seal_token tok r = ((k, bd), r1)" using seal_token_prod by blast
  let ?raw = "kOfflineMagic @ k @ bd"
  have b: "blob = base91_encode ?raw" using assms by (simp add: seal_for_offline_def s)
  obtain nonce ct tag where "length k = 32" "bd = kPayloadMagic @ nonce @ ct @ tag" "length nonce = 12"
    using s by (auto simp: seal_token_def Let_def split: prod.splits dest: random_bytesD)
  then have raw: "length ?raw > 16" by simp
  have "?raw = 0x46 # 0x42 # drop 2 ?raw" by (simp add: kOfflineMagic_def str_bytes_def byte_of_char_def)
  then obtain t where t: "blob = CHR ''a'' # CHR ''6'' # t" using encode_FB [of "drop 2 ?raw"] b by metis
  show "blob \<noteq> []" "\<not> web_prefixed blob" using t by (simp_all add: web_prefixed_def starts_with_def)
  have "base91_decode (clean_one_line blob) = Some ?raw"
    unfolding clean_one_line_def b base91_decode_def dec_loop_spaces
    using decode_encode [of ?raw] by (simp add: base91_decode_def)
  then have "length (clean_one_line blob) > 16" using base91_decode_length raw by fastforce
  then show "\<not> looks_like_room_code blob"
    by (simp add: looks_like_room_code_def code_split_def code_lengths Let_def)
qed

section \<open>Publication\<close>

lemma publish_Some:
  assumes "publish create pw tok long n status (r, w) = Some (Some (room, rec, owner), status', r', w')"
  shows "\<exists>r0 r1 r2 w0. random_room_code long r0 = Some (room, r1) \<and>
     seal_for_cloud pw tok room r1 = (Inr (rec, owner), r2) \<and> create rec w0 = (Inr (), w')"
  using assms
proof (induction n arbitrary: status r w)
  case (Suc n)
  then show ?case by (auto split: option.splits sum.splits prod.splits)
qed simp

text \<open>What a published ticket names: a recognised code, the record sealed under it, and its directory.\<close>

definition names_record :: "pwhash \<Rightarrow> token \<Rightarrow> bool \<Rightarrow> ticket \<Rightarrow> cloud_record \<Rightarrow> bool" where
  "names_record pw tok long t rec \<longleftrightarrow>
     tk_connectCode t = tk_roomCode t \<and> looks_like_room_code (tk_roomCode t) \<and>
     length (tk_roomCode t) = code_len long \<and> tk_lookupId t = c_lookupId rec \<and>
     c_lookupId rec = room_lookup_id (tk_roomCode t) \<and> tk_ownerToken t = c_owner rec \<and>
     (\<exists>r owner r'. seal_for_cloud pw tok (tk_roomCode t) r = (Inr (rec, owner), r'))"

lemma publish_with_names:
  assumes "publish_with backend configured create keep pw tok long t (r, w) = Some (t', r', w')"
  shows "t' = t \<and> (tk_cloudPublished t \<or> \<not> configured) \<or>
     tk_offlineBlob t' = tk_offlineBlob t \<and> tk_reach t' = tk_reach t \<and>
     (tk_cloudPublished t' \<longrightarrow> configured \<and> tk_signalingBackend t' = backend \<and>
        (\<exists>rec w0 w1. names_record pw tok long t' rec \<and> create rec w0 = (Inr (), w1)))"
proof (cases "tk_cloudPublished t \<or> \<not> configured")
  case True
  then show ?thesis using assms by (simp add: publish_with_def)
next
  case False
  then obtain res status r1 w1 where
    p: "publish create pw tok long kPublishAttempts (tk_cloudStatus t) (r, w) = Some (res, status, r1, w1)"
    using assms by (auto simp: publish_with_def split: option.splits)
  show ?thesis
  proof (cases res)
    case None
    then show ?thesis using assms False p by (auto simp: publish_with_def Let_def split: if_splits)
  next
    case (Some pub)
    obtain room rec owner where pub: "pub = (room, rec, owner)" by (metis prod_cases3)
    obtain r0 r2 r3 w0 where h: "random_room_code long r0 = Some (room, r2)"
      "seal_for_cloud pw tok room r2 = (Inr (rec, owner), r3)" "create rec w0 = (Inr (), w1)"
      using publish_Some p Some pub by metis
    note room = random_room_code_text [OF h(1)]
    have ow: "owner = c_owner rec" "c_lookupId rec = room_lookup_id room"
      by (rule seal_for_cloudD [OF h(2)]; simp add: room_lookup_id_def)+
    have t': "tk_roomCode t' = room" "tk_connectCode t' = room" "tk_lookupId t' = c_lookupId rec"
      "tk_ownerToken t' = owner" "tk_signalingBackend t' = backend" "tk_offlineBlob t' = tk_offlineBlob t"
      "tk_reach t' = tk_reach t"
      using assms False p Some pub by (auto simp: publish_with_def published_ticket_def Let_def)
    have "names_record pw tok long t' rec"
      using room_code_recognised(1) [OF room] room(2) ow h(2) t' unfolding names_record_def by auto
    then show ?thesis using t' False h(3) by blast
  qed
qed

section \<open>Resolution\<close>

lemma lookup_in_found:
  assumes "get (room_lookup_id code) w = (Inr (s, wr, p), w')" "open_cloud_record pw code s wr p = Inr tok"
  shows "lookup_in get pw code w = (Inr tok, w')"
  using assms by (simp add: lookup_in_def)

lemma names_record_opens:
  assumes "names_record pw tok long t rec" "token_fits tok" "token_valid tok"
  shows "open_cloud_record pw (tk_roomCode t) (c_salt rec) (c_wrapped rec) (c_payload rec) = Inr tok"
  using assms open_seal_for_cloud unfolding names_record_def by metis

text \<open>The token that a running host packs, with the address it chose.\<close>

definition host_token :: "started \<Rightarrow> bool \<Rightarrow> string \<Rightarrow> u16 \<Rightarrow> token" where
  "host_token srv allowWrites ip port = \<lparr>t_ip = ip, t_port = port, t_secret = su_secret srv,
     t_folder = su_share srv, t_allowWrites = allowWrites\<rparr>"

lemma choose_address_server:
  "choose_address h lan p s = (res, s') \<Longrightarrow> hs_server s' = hs_server s \<and> hs_world s' = hs_world s"
  by (auto simp: choose_address_def Let_def split: if_splits prod.splits sum.splits)

lemma choose_address_same:
  "hs_upnp s = hs_upnp s2 \<Longrightarrow> hs_router s = hs_router s2 \<Longrightarrow> fst (choose_address h lan p s) = fst (choose_address h lan p s2)"
  by (auto simp: choose_address_def Let_def split: prod.split sum.split)

lemma start_hosting_ticket:
  assumes "start_hosting h folder port lan aw t s = Some (Inr tk, s')"
  obtains srv ip p r where "hs_server s' = Some srv" "hs_allowWrites s' = aw"
    "fst (choose_address h lan (su_port srv) s) = (ip, p, tk_reach tk)"
    "server_start (he_sha h) (he_start h) (fst (random_bytes kSecretBytes (hs_random s))) folder port = Inr srv"
    "tk_offlineBlob tk = fst (seal_for_offline (host_token srv aw ip p) r)"
    "tk_cloudPublished tk \<or> tk_connectCode tk = tk_offlineBlob tk"
    "tk_cloudPublished tk \<Longrightarrow> \<exists>rec. names_record (he_pw h) (host_token srv aw ip p) aw tk rec \<and>
       (tk_signalingBackend tk = ''cloudflare'' \<and> sig_configured (he_qt h) \<and>
          (\<exists>w0 w1. sig_create (he_qt h) rec w0 = (Inr (), w1)) \<or>
        tk_signalingBackend tk = ''firebase'' \<and> fb_configured (he_qt h) \<and>
          (\<exists>w0 w1. fb_create (he_qt h) rec w0 = (Inr (), w1)))"
proof -
  obtain secret r0 where rb: "random_bytes kSecretBytes (hs_random s) = (secret, r0)" by (metis surj_pair)
  obtain srv where srv: "server_start (he_sha h) (he_start h) secret folder port = Inr srv"
    using assms by (auto simp: start_hosting_def Let_def rb split: sum.splits start_error.splits)
  let ?s0 = "s\<lparr>hs_allowWrites := aw, hs_random := r0, hs_server := Some srv\<rparr>"
  obtain ip p reach s1 where ch: "choose_address h lan (su_port srv) ?s0 = ((ip, p, reach), s1)"
    by (metis surj_pair)
  let ?tok = "host_token srv aw ip p"
  obtain blob r1 where bl: "seal_for_offline ?tok (hs_random s1) = (blob, r1)" by (metis surj_pair)
  let ?t = "t\<lparr>tk_reach := reach, tk_offlineBlob := blob, tk_cloudPublished := False\<rparr>"
  obtain t2 r2 w2 where p2: "publish_with ''cloudflare'' (sig_configured (he_qt h)) (sig_create (he_qt h)) True
      (he_pw h) ?tok aw ?t (r1, hs_world s1) = Some (t2, r2, w2)"
    using assms by (auto simp: start_hosting_def Let_def rb srv ch bl [unfolded host_token_def] host_token_def
        split: option.splits if_splits)
  obtain t3 r3 w3 where p3: "publish_with ''firebase'' (fb_configured (he_qt h)) (fb_create (he_qt h)) False
      (he_pw h) ?tok aw t2 (r2, w2) = Some (t3, r3, w3)"
    using assms by (auto simp: start_hosting_def Let_def rb srv ch bl [unfolded host_token_def]
        p2 [unfolded host_token_def] host_token_def split: option.splits if_splits)
  have tk: "tk = (if tk_cloudPublished t3 then t3 else t3\<lparr>tk_connectCode := tk_offlineBlob t3\<rparr>)"
    "s' = s1\<lparr>hs_random := r3, hs_world := w3\<rparr>"
    using assms by (auto simp: start_hosting_def Let_def rb srv ch bl [unfolded host_token_def]
        p2 [unfolded host_token_def] p3 [unfolded host_token_def] split: if_splits)
  note n2 = publish_with_names [OF p2] and n3 = publish_with_names [OF p3]
  have blob3: "tk_offlineBlob t3 = blob" "tk_reach t3 = reach" using n2 n3 by auto
  show thesis
  proof (rule that [of srv ip p "hs_random s1"])
    have "hs_server s1 = Some srv" using choose_address_server [OF ch] by simp
    then show "hs_server s' = Some srv" by (simp add: tk)
    show "hs_allowWrites s' = aw" using ch by (auto simp: tk choose_address_def Let_def split: if_splits prod.splits sum.splits)
    show "fst (choose_address h lan (su_port srv) s) = (ip, p, tk_reach tk)"
      using choose_address_same [of s ?s0 h lan "su_port srv"] ch blob3 by (simp add: tk)
    show "server_start (he_sha h) (he_start h) (fst (random_bytes kSecretBytes (hs_random s))) folder port = Inr srv"
      using srv rb by simp
    show "tk_offlineBlob tk = fst (seal_for_offline ?tok (hs_random s1))" using blob3 bl by (simp add: tk)
    show "tk_cloudPublished tk \<or> tk_connectCode tk = tk_offlineBlob tk" by (simp add: tk)
    show "\<exists>rec. names_record (he_pw h) ?tok aw tk rec \<and>
       (tk_signalingBackend tk = ''cloudflare'' \<and> sig_configured (he_qt h) \<and>
          (\<exists>w0 w1. sig_create (he_qt h) rec w0 = (Inr (), w1)) \<or>
        tk_signalingBackend tk = ''firebase'' \<and> fb_configured (he_qt h) \<and>
          (\<exists>w0 w1. fb_create (he_qt h) rec w0 = (Inr (), w1)))" if "tk_cloudPublished tk"
    proof -
      have p: "tk_cloudPublished t3" "tk = t3" using that by (auto simp: tk split: if_splits)
      show ?thesis
      proof (cases "tk_cloudPublished t2")
        case True
        then have "t3 = t2" using p3 by (auto simp: publish_with_def)
        then show ?thesis using n2 True p(2) by fastforce
      next
        case False
        then show ?thesis using n3 p by auto
      qed
    qed
  qed
qed

section \<open>Properties\<close>


text \<open>A host on a machine without network interfaces, with no directory configured.\<close>

definition ex_qt :: "unit env" where
  "ex_qt = \<lparr>qt_getenv = (\<lambda>v. None), qt_send = (\<lambda>req w. (\<lparr>hr_finished = False, hr_status = 0, hr_body = [], hr_error = None\<rparr>, w)),
     qt_to_json = (\<lambda>ob. []), qt_from_json = (\<lambda>s. None), qt_trimmed = (\<lambda>s. s), qt_percent = (\<lambda>s. s),
     qt_base64url = (\<lambda>s. s), qt_now_ms = (\<lambda>w. 0), kHardcodedWorkerUrl = [], kHardcodedFirebaseUrl = []\<rparr>"

definition ex_host_env :: "(unit, u16 list) host_env" where
  "ex_host_env = \<lparr>he_sha = (\<lambda>x. x), he_pw = ex_pw, he_start = \<lparr>se_symlink = False, se_canonical = ''/home/pics'',
       se_directory = True, se_socket6 = True, se_socket4 = True, se_free = (\<lambda>p. True), se_listen = True,
       se_port = (\<lambda>p. 50321)\<rparr>,
     he_ntop = \<lparr>ntop6 = (\<lambda>a. None), ntop4 = (\<lambda>a. None)\<rparr>, he_ifs = None, he_igd = ex_igd, he_qt = ex_qt\<rparr>"

definition ex_host_state :: "(unit, u16 list) host_state" where
  "ex_host_state = \<lparr>hs_server = None, hs_allowWrites = False, hs_upnp = upnp_init, hs_router = [], hs_world = (),
     hs_random = (\<lambda>i. 7)\<rparr>"

lemma ex_qt_off: "\<not> sig_configured ex_qt" "\<not> fb_configured ex_qt"
  by (simp_all add: sig_configured_def fb_configured_def sig_base_url_def fb_base_url_def trim_slashes_def ex_qt_def)

lemma ex_bind: "\<exists>p. bind_port (\<lambda>p. True) 50321 = Some p"
proof -
  have "\<exists>p. bind_loop (\<lambda>p. True) 50321 (Suc 63) w = Some p" for w by (simp add: Let_def del: Suc_numeral)
  then show ?thesis by (simp add: bind_port_def)
qed

definition ex_started :: started where
  "ex_started = \<lparr>su_root = ''/home/pics'', su_share = ''pics'', su_secret = replicate 32 7,
     su_auth_key = derive_key (\<lambda>x. x) (replicate 32 7), su_port = 50321, su_running = True\<rparr>"

lemma ex_server_start: "server_start (\<lambda>x. x) (he_start ex_host_env) (replicate 32 7) folder 50321 = Inr ex_started"
proof -
  have "filename ''/home/pics'' = ''pics''" by code_simp
  then show ?thesis using ex_bind by (auto simp: server_start_def ex_host_env_def ex_started_def Let_def)
qed

lemma ex_address: "fst (choose_address ex_host_env True p s) =
    (''127.0.0.1'', p, ''LAN only '' @ em_dash @ '' '' @ ''127.0.0.1'')"
  by (simp add: choose_address_def ex_host_env_def best_local_ip_def enumerate_local_addrs_def no_addrs_def Let_def)

lemma ex_hosting: "\<exists>tk s'. start_hosting ex_host_env ''/home/pics'' 50321 True True ticket_init ex_host_state = Some (Inr tk, s') \<and>
     \<not> tk_cloudPublished tk \<and> hs_server s' = Some ex_started"
proof -
  obtain r where rb: "random_bytes kSecretBytes (\<lambda>i. 7) = (replicate 32 7, r)"
    by (auto simp: random_bytes_def kSecretBytes_def map_replicate_const)
  obtain ip p reach s1 where ch: "choose_address ex_host_env True (su_port ex_started)
      (ex_host_state\<lparr>hs_allowWrites := True, hs_random := r, hs_server := Some ex_started\<rparr>) = ((ip, p, reach), s1)"
    by (metis surj_pair)
  have s1: "hs_server s1 = Some ex_started" using choose_address_server [OF ch] by simp
  let ?tok = "\<lparr>t_ip = ip, t_port = p, t_secret = su_secret ex_started, t_folder = su_share ex_started, t_allowWrites = True\<rparr>"
  obtain blob r1 where bl: "seal_for_offline ?tok (hs_random s1) = (blob, r1)" by (metis surj_pair)
  have e: "he_sha ex_host_env = (\<lambda>x. x)" "he_qt ex_host_env = ex_qt" "hs_random ex_host_state = (\<lambda>i. 7)"
    by (simp_all add: ex_host_env_def ex_host_state_def)
  show ?thesis
    using offline_blob(1) [OF bl]
    by (simp add: start_hosting_def Let_def e rb ex_server_start ch bl publish_with_def ex_qt_off s1)
qed


text \<open>resolve_share_code fails for every code that looks like a room code but starts like a
  web code or has, spaces included, a length other than 6 or 16, whatever the directories
  answer.\<close>

theorem recognised_codes_that_never_resolve:
  assumes "looks_like_room_code code" "web_prefixed code \<or> length code \<notin> {6, 16}"
  shows "\<exists>msg. fst (resolve_share_code e pw code w) = Inl msg \<and>
     (\<not> web_prefixed code \<longrightarrow> take 32 msg = ''room lookup failed. Cloudflare: '')"
proof (cases "web_prefixed code")
  case False
  then have "code_split (length code) = None" using assms(2) by (simp add: code_split_def code_lengths)
  then have "open_cloud_record pw code s wr p = Inl ''bad room code''" for s wr p
    by (simp add: open_cloud_record_def)
  then have l: "\<exists>err w'. lookup_in get pw code w = (Inl err, w')" for w and get :: "string \<Rightarrow> 'a \<Rightarrow> _"
    by (auto simp: lookup_in_def split: prod.split sum.split)
  obtain err1 w1 where 1: "lookup_in (sig_get e) pw code w = (Inl err1, w1)" using l by blast
  obtain err2 w2 where 2: "lookup_in (fb_get e) pw code w1 = (Inl err2, w2)" using l by blast
  show ?thesis using False assms(1) by (simp add: resolve_share_code_def 1 2)
qed (simp add: resolve_share_code_def)

theorem recognised_codes_that_never_resolve_witness:
  "(\<exists>msg. fst (resolve_share_code ex_qt ex_pw ''FBS2:x'' ()) = Inl msg) \<and>
   (\<exists>msg. fst (resolve_share_code ex_qt ex_pw ''abc def'' ()) = Inl msg)"
proof -
  have "looks_like_room_code ''FBS2:x''" "looks_like_room_code ''abc def''" by code_simp+
  then show ?thesis
    using recognised_codes_that_never_resolve [of "''FBS2:x''" ex_qt ex_pw "()"]
      recognised_codes_that_never_resolve [of "''abc def''" ex_qt ex_pw "()"]
    by (auto simp: web_prefixed_def starts_with_def)
qed

end
