(* ===== verification/FuseOps.thy ===== *)
theory FuseOps
  imports OsFs RemoteFs
begin

text \<open>
  The operations of the mounted file system on POSIX systems, from \<open>client/src/fs/fuse_fs.cpp\<close>: each
  turns one FUSE call into requests to the \<open>RemoteFs\<close> that the mount was made with (the read cache).
  \<open>ctx()\<close> is the state \<open>mounted\<close>: that \<open>RemoteFs\<close> and its two byte counters. The result of an
  operation is the \<open>int\<close> it returns with what it wrote through its pointers, \<open>None\<close> where it left them
  alone.
\<close>

record 's mounted =
  mt_remote :: 's
  mt_read :: u64 \<comment> \<open>\<open>bytesRead\<close>\<close>
  mt_written :: u64 \<comment> \<open>\<open>bytesWritten\<close>\<close>

definition ctx_request :: "'s remote_fs \<Rightarrow> op \<Rightarrow> bytes \<Rightarrow> 's mounted \<Rightarrow> (int \<times> bytes) \<times> 's mounted" where
  "ctx_request fs x payload m = (case rf_request fs (op_code x) payload (mt_remote m) of
     (r, s) \<Rightarrow> (r, m\<lparr>mt_remote := s\<rparr>))"

text \<open>A \<open>size_t\<close> cast to \<open>int\<close>.\<close>

definition as_int :: "u64 \<Rightarrow> int" where
  "as_int n = sint (ucast n :: u32)"

definition kEINVAL :: int where "kEINVAL = 22"

text \<open>When a signed reading is the unsigned one.\<close>

lemma sint_small: "unat (w :: 'a::len word) < 2 ^ (LENGTH('a) - 1) \<Longrightarrow> sint w = int (unat w)"
proof -
  assume "unat w < 2 ^ (LENGTH('a) - 1)"
  then have "int (unat w) < 2 ^ (LENGTH('a) - 1)" by (metis of_nat_less_numeral_power_cancel_iff)
  then show ?thesis by (simp add: sint_uint signed_take_bit_int_eq_self order.trans [of _ 0])
qed

lemma sint_nonneg: "0 \<le> sint w \<longleftrightarrow> unat (w :: 'a::len word) < 2 ^ (LENGTH('a) - 1)"
proof
  assume z: "0 \<le> sint w"
  have l: "sint w < 2 ^ (LENGTH('a) - 1)" by (rule sint_lt)
  also have "\<dots> \<le> 2 ^ LENGTH('a)" by (rule power_increasing) simp_all
  finally have "take_bit LENGTH('a) (sint w) = sint w" using z by (simp add: take_bit_int_eq_self)
  then have "uint w = sint w" by (simp add: uint_sint)
  then have "int (unat w) < 2 ^ (LENGTH('a) - 1)" using l by simp
  then show "unat w < 2 ^ (LENGTH('a) - 1)" by (metis of_nat_less_numeral_power_cancel_iff)
qed (simp add: sint_small)

lemma as_int_small: "unat n < 2 ^ 31 \<Longrightarrow> as_int n = int (unat n)"
  unfolding as_int_def by (subst sint_small) (simp_all add: unsigned_ucast_eq take_bit_nat_eq_self)

section \<open>Attributes and listings\<close>

definition fill_stat :: "wire_attr \<Rightarrow> os_stat" where
  "fill_stat a = \<lparr>st_ino = a_ino a, st_size = a_size a, st_blocks = a_blocks a, st_atime = a_atime a,
     st_mtime = a_mtime a, st_ctime = a_ctime a, st_mode = a_mode a,
     st_nlink = (if a_nlink a \<noteq> 0 then ucast (a_nlink a) else 1), st_uid = a_uid a, st_gid = a_gid a\<rparr>"

definition fs_getattr :: "'s remote_fs \<Rightarrow> string \<Rightarrow> 's mounted \<Rightarrow> (int \<times> os_stat option) \<times> 's mounted" where
  "fs_getattr fs path m = (case ctx_request fs OP_GETATTR (w_str [] path) m of ((st, resp), m) \<Rightarrow>
     if st \<noteq> 0 then ((- st, None), m)
     else (case fst (r_attr resp) of
         None \<Rightarrow> ((- kEIO, None), m)
       | Some a \<Rightarrow> ((0, Some (fill_stat a)), m)))"

text \<open>
  What \<open>filler\<close> gets for one entry: the name up to its first NUL, the attributes if any, and whether
  they count as a lookup (\<open>FUSE_FILL_DIR_PLUS\<close>). It returns whether the buffer takes no more.
\<close>

type_synonym dirent = "string \<times> os_stat option \<times> bool"
type_synonym 'b filler = "dirent \<Rightarrow> 'b \<Rightarrow> bool \<times> 'b"

definition c_str :: "string \<Rightarrow> string" where
  "c_str s = takeWhile (\<lambda>c. c \<noteq> CHR 0x00) s"

fun fill_entries :: "'b filler \<Rightarrow> bool \<Rightarrow> nat \<Rightarrow> bytes \<Rightarrow> 'b \<Rightarrow> 'b" where
  "fill_entries filler rdplus 0 r b = b"
| "fill_entries filler rdplus (Suc n) r b = (case r_str r of
      (None, _) \<Rightarrow> b
    | (Some name, r) \<Rightarrow> (case r_attr r of
        (None, _) \<Rightarrow> b
      | (Some a, r) \<Rightarrow> (case filler (c_str name, Some (fill_stat a), rdplus) b of
          (full, b) \<Rightarrow> if full then b else fill_entries filler rdplus n r b)))"

definition fs_readdir ::
  "'s remote_fs \<Rightarrow> string \<Rightarrow> 'b filler \<Rightarrow> bool \<Rightarrow> 'b \<Rightarrow> 's mounted \<Rightarrow> (int \<times> 'b) \<times> 's mounted" where
  "fs_readdir fs path filler rdplus b m = (case ctx_request fs OP_READDIR (w_str [] path) m of ((st, resp), m) \<Rightarrow>
     if st \<noteq> 0 then ((- st, b), m)
     else (case (r_pod resp :: u32 option \<times> bytes) of
         (None, _) \<Rightarrow> ((- kEIO, b), m)
       | (Some n, r) \<Rightarrow> (case filler (''.'', None, False) b of
           (True, b) \<Rightarrow> ((0, b), m)
         | (False, b) \<Rightarrow> (case filler (''..'', None, False) b of
             (True, b) \<Rightarrow> ((0, b), m)
           | (False, b) \<Rightarrow> ((0, fill_entries filler rdplus (unat n) r b), m)))))"

section \<open>Open files\<close>

text \<open>The fields of \<open>fuse_file_info\<close> that the operations use.\<close>

record file_info =
  ff_flags :: u32
  ff_fh :: u64
  ff_keep_cache :: bool

definition do_open ::
  "'s remote_fs \<Rightarrow> string \<Rightarrow> op \<Rightarrow> u32 \<Rightarrow> file_info \<Rightarrow> 's mounted \<Rightarrow> (int \<times> file_info) \<times> 's mounted" where
  "do_open fs path x mode fi m =
     (let w = w_str [] path;
          w = w_pod w (to_portable_flags (ff_flags fi));
          w = w_pod w mode
      in (case ctx_request fs x w m of ((st, resp), m) \<Rightarrow>
        if st \<noteq> 0 then ((- st, fi), m)
        else (case (fst (r_pod resp) :: u64 option) of
            None \<Rightarrow> ((- kEIO, fi), m)
          | Some fh \<Rightarrow> ((0, fi\<lparr>ff_fh := fh, ff_keep_cache := False\<rparr>), m))))"

definition fs_open :: "'s remote_fs \<Rightarrow> string \<Rightarrow> file_info \<Rightarrow> 's mounted \<Rightarrow> (int \<times> file_info) \<times> 's mounted" where
  "fs_open fs path fi m = do_open fs path OP_OPEN 0 fi m"

definition fs_create ::
  "'s remote_fs \<Rightarrow> string \<Rightarrow> u32 \<Rightarrow> file_info \<Rightarrow> 's mounted \<Rightarrow> (int \<times> file_info) \<times> 's mounted" where
  "fs_create fs path mode fi m = do_open fs path OP_CREATE mode (fi\<lparr>ff_flags := ff_flags fi OR O_CREAT\<rparr>) m"

definition next_chunk :: "u64 \<Rightarrow> u64 \<Rightarrow> u32" where
  "next_chunk sz dn = ucast (min (sz - dn) (ucast kMaxIO))"

lemma next_chunk:
  assumes "dn < sz"
  shows "unat (next_chunk sz dn) = min (unat sz - unat dn) (2 ^ 20)" "next_chunk sz dn \<le> kMaxIO"
    "0 < unat (next_chunk sz dn)"
proof -
  have k: "unat (ucast kMaxIO :: u64) = 2 ^ 20" by (simp add: kMaxIO_val)
  have d: "unat (sz - dn) = unat sz - unat dn"
    using assms by (simp add: unat_sub_if' word_less_nat_alt)
  have u: "unat (min (sz - dn) (ucast kMaxIO)) = min (unat sz - unat dn) (2 ^ 20)"
    by (simp only: min_def word_le_nat_alt k d if_distrib [of unat])
  then have "unat (min (sz - dn) (ucast kMaxIO)) < 2 ^ LENGTH(32)" by simp
  then show e: "unat (next_chunk sz dn) = min (unat sz - unat dn) (2 ^ 20)"
    unfolding next_chunk_def using u by (simp add: unsigned_ucast_eq take_bit_nat_eq_self)
  show "next_chunk sz dn \<le> kMaxIO" unfolding word_le_nat_alt e by (simp add: kMaxIO_val)
  show "0 < unat (next_chunk sz dn)" using assms unfolding e by (simp add: word_less_nat_alt)
qed

text \<open>One turn moves at most the chunk and at least a byte, so the loops end.\<close>

lemma chunk_step:
  assumes "dn < sz" "n \<le> unat (next_chunk sz dn)"
  shows "unat (dn + of_nat n) = unat dn + n" "unat (dn + of_nat n) \<le> unat sz"
proof -
  have n: "n \<le> unat sz - unat dn" using assms(2) next_chunk(1) [OF assms(1)] by simp
  have b: "unat dn < unat sz" "unat sz < 2 ^ LENGTH(64)"
    using assms(1) unsigned_less [of sz] by (simp_all add: word_less_nat_alt)
  then have "unat (of_nat n :: u64) = n" using n by (simp add: unat_of_nat)
  then show "unat (dn + of_nat n) = unat dn + n" using n b by (subst unat_add_lem [THEN iffD1]) simp_all
  then show "unat (dn + of_nat n) \<le> unat sz" using n b by simp
qed

lemma chunk_decreases:
  assumes "dn < sz" "n \<le> unat (next_chunk sz dn)" "0 < n"
  shows "unat sz - unat (dn + of_nat n) < unat sz - unat dn"
  using chunk_step [OF assms(1,2)] assms(1,3) by (simp add: word_less_nat_alt)

text \<open>The loop of \<open>fs_read\<close>; \<open>out\<close> is what \<open>buf\<close> holds so far, \<open>dn\<close> bytes.\<close>

function read_chunks ::
  "'s remote_fs \<Rightarrow> u64 \<Rightarrow> u64 \<Rightarrow> u64 \<Rightarrow> u64 \<Rightarrow> bytes \<Rightarrow> 's mounted \<Rightarrow> (int \<times> bytes) \<times> 's mounted" where
  "read_chunks fs fh sz off dn out m =
     (if \<not> dn < sz then ((as_int dn, out), m)
      else (let chunk = next_chunk sz dn in
        (case ctx_request fs OP_READ (read_req fh (off + dn) chunk) m of ((st, resp), m) \<Rightarrow>
          if st \<noteq> 0 then ((if dn \<noteq> 0 then as_int dn else - st, out), m)
          else if resp = [] then ((as_int dn, out), m)
          else if length resp > unat chunk then ((if dn \<noteq> 0 then as_int dn else - kEIO, out), m)
          else (let
              out = out @ resp;
              dn = dn + of_nat (length resp);
              m = m\<lparr>mt_read := mt_read m + of_nat (length resp)\<rparr>
            in if length resp < unat chunk then ((as_int dn, out), m)
               else read_chunks fs fh sz off dn out m))))"
  by pat_completeness auto
termination
  by (relation "measure (\<lambda>(_, _, sz, _, dn, _). unat sz - unat dn)")
    (auto simp: not_less intro!: chunk_decreases)

declare read_chunks.simps [simp del]

definition fs_read ::
  "'s remote_fs \<Rightarrow> u64 \<Rightarrow> u64 \<Rightarrow> file_info \<Rightarrow> 's mounted \<Rightarrow> (int \<times> bytes) \<times> 's mounted" where
  "fs_read fs sz off fi m =
     (if sint off < 0 then ((- kEINVAL, []), m) else read_chunks fs (ff_fh fi) sz off 0 [] m)"

text \<open>The payload of an \<open>OP_WRITE\<close>: handle, offset and the bytes.\<close>

definition write_req :: "u64 \<Rightarrow> u64 \<Rightarrow> bytes \<Rightarrow> bytes" where
  "write_req h off d = w_raw (w_pod (w_pod [] h) off) d"

lemma ucast_of_unat: "(ucast (w :: u32) :: u64) = of_nat (unat w)"
  by (simp add: unsigned_def)

lemma chunk_written:
  assumes "dn < sz" "\<not> next_chunk sz dn < (w :: u32)"
  shows "unat (dn + ucast w) = unat dn + unat w" "unat (dn + ucast w) \<le> unat sz"
    "w \<noteq> 0 \<Longrightarrow> unat sz - unat (dn + ucast w) < unat sz - unat dn"
proof -
  have w: "unat w \<le> unat (next_chunk sz dn)" using assms(2) by (simp add: word_less_nat_alt)
  show "unat (dn + ucast w) = unat dn + unat w" "unat (dn + ucast w) \<le> unat sz"
    unfolding ucast_of_unat by (rule chunk_step [OF assms(1) w])+
  show "unat sz - unat (dn + ucast w) < unat sz - unat dn" if "w \<noteq> 0"
    unfolding ucast_of_unat using that by (intro chunk_decreases [OF assms(1) w]) (simp add: unat_gt_0)
qed

text \<open>The loop of \<open>fs_write\<close>.\<close>

function write_chunks ::
  "'s remote_fs \<Rightarrow> u64 \<Rightarrow> bytes \<Rightarrow> u64 \<Rightarrow> u64 \<Rightarrow> u64 \<Rightarrow> 's mounted \<Rightarrow> int \<times> 's mounted" where
  "write_chunks fs fh buf sz off dn m =
     (if \<not> dn < sz then (as_int dn, m)
      else (let chunk = next_chunk sz dn in
        (case ctx_request fs OP_WRITE (write_req fh (off + dn) (take (unat chunk) (drop (unat dn) buf))) m of
          ((st, resp), m) \<Rightarrow>
            if st \<noteq> 0 then (if dn \<noteq> 0 then as_int dn else - st, m)
            else (case (fst (r_pod resp) :: u32 option) of
                None \<Rightarrow> (if dn \<noteq> 0 then as_int dn else - kEIO, m)
              | Some written \<Rightarrow>
                  if written > chunk \<or> written = 0 then (if dn \<noteq> 0 then as_int dn else - kEIO, m)
                  else (let
                      dn = dn + ucast written;
                      m = m\<lparr>mt_written := mt_written m + ucast written\<rparr>
                    in if written < chunk then (as_int dn, m)
                       else write_chunks fs fh buf sz off dn m)))))"
  by pat_completeness auto
termination
  by (relation "measure (\<lambda>(_, _, _, sz, _, dn, _). unat sz - unat dn)")
    (auto intro: chunk_written(3))

declare write_chunks.simps [simp del]

definition fs_write ::
  "'s remote_fs \<Rightarrow> bytes \<Rightarrow> u64 \<Rightarrow> file_info \<Rightarrow> 's mounted \<Rightarrow> int \<times> 's mounted" where
  "fs_write fs buf off fi m =
     (if sint off < 0 then (- kEINVAL, m)
      else write_chunks fs (ff_fh fi) buf (of_nat (length buf)) off 0 m)"

section \<open>The operations without a result\<close>

definition status_only :: "(int \<times> bytes) \<times> 's mounted \<Rightarrow> int \<times> 's mounted" where
  "status_only r = (case r of ((st, _), m) \<Rightarrow> (if st \<noteq> 0 then - st else 0, m))"

definition fs_fh_only :: "op \<Rightarrow> 's remote_fs \<Rightarrow> file_info \<Rightarrow> 's mounted \<Rightarrow> int \<times> 's mounted" where
  "fs_fh_only x fs fi m = status_only (ctx_request fs x (w_pod [] (ff_fh fi)) m)"

definition fs_release :: "'s remote_fs \<Rightarrow> file_info \<Rightarrow> 's mounted \<Rightarrow> int \<times> 's mounted" where
  "fs_release = fs_fh_only OP_RELEASE"

definition fs_flush :: "'s remote_fs \<Rightarrow> file_info \<Rightarrow> 's mounted \<Rightarrow> int \<times> 's mounted" where
  "fs_flush = fs_fh_only OP_FLUSH"

definition fs_fsync :: "'s remote_fs \<Rightarrow> file_info \<Rightarrow> 's mounted \<Rightarrow> int \<times> 's mounted" where
  "fs_fsync fs fi m = status_only (ctx_request fs OP_FSYNC (w_pod [] (ff_fh fi)) m)"

definition fs_path_only :: "op \<Rightarrow> 's remote_fs \<Rightarrow> string \<Rightarrow> 's mounted \<Rightarrow> int \<times> 's mounted" where
  "fs_path_only x fs path m = status_only (ctx_request fs x (w_str [] path) m)"

definition fs_unlink :: "'s remote_fs \<Rightarrow> string \<Rightarrow> 's mounted \<Rightarrow> int \<times> 's mounted" where
  "fs_unlink = fs_path_only OP_UNLINK"

definition fs_rmdir :: "'s remote_fs \<Rightarrow> string \<Rightarrow> 's mounted \<Rightarrow> int \<times> 's mounted" where
  "fs_rmdir = fs_path_only OP_RMDIR"

definition fs_mkdir :: "'s remote_fs \<Rightarrow> string \<Rightarrow> u32 \<Rightarrow> 's mounted \<Rightarrow> int \<times> 's mounted" where
  "fs_mkdir fs path mode m = status_only (ctx_request fs OP_MKDIR (w_pod (w_str [] path) mode) m)"

definition fs_rename :: "'s remote_fs \<Rightarrow> string \<Rightarrow> string \<Rightarrow> 's mounted \<Rightarrow> int \<times> 's mounted" where
  "fs_rename fs from to m = status_only (ctx_request fs OP_RENAME (w_str (w_str [] from) to) m)"

definition fs_truncate :: "'s remote_fs \<Rightarrow> string \<Rightarrow> u64 \<Rightarrow> 's mounted \<Rightarrow> int \<times> 's mounted" where
  "fs_truncate fs path len m =
     (if sint len < 0 then (- kEINVAL, m)
      else status_only (ctx_request fs OP_TRUNCATE (w_pod (w_str [] path) len) m))"

definition fs_access :: "'s remote_fs \<Rightarrow> string \<Rightarrow> u32 \<Rightarrow> 's mounted \<Rightarrow> int \<times> 's mounted" where
  "fs_access fs path mode m = status_only (ctx_request fs OP_ACCESS (w_pod (w_str [] path) mode) m)"

definition fs_chmod :: "'s remote_fs \<Rightarrow> string \<Rightarrow> u32 \<Rightarrow> 's mounted \<Rightarrow> int \<times> 's mounted" where
  "fs_chmod fs path mode m = status_only (ctx_request fs OP_CHMOD (w_pod (w_str [] path) mode) m)"

text \<open>
  A time is its seconds and nanoseconds; the nanoseconds hold the markers of \<open>sys/stat.h\<close> on Linux.
  \<open>None\<close> is the null pointer.
\<close>

type_synonym timespec = "u64 \<times> u64"

definition UTIME_NOW :: u64 where "UTIME_NOW = push_bit 30 1 - 1"
definition UTIME_OMIT :: u64 where "UTIME_OMIT = push_bit 30 1 - 2"

definition pick_time :: "u64 \<Rightarrow> timespec \<Rightarrow> u64" where
  "pick_time now ts = (if snd ts = UTIME_NOW then now else fst ts)"

definition fs_utimens ::
  "'s remote_fs \<Rightarrow> u64 \<Rightarrow> string \<Rightarrow> (timespec \<times> timespec) option \<Rightarrow> 's mounted \<Rightarrow> int \<times> 's mounted" where
  "fs_utimens fs now path tv m = (case tv of
      Some (a, b) \<Rightarrow>
        if snd b = UTIME_OMIT then (0, m)
        else status_only (ctx_request fs OP_UTIMENS
          (w_pod (w_pod (w_str [] path) (pick_time now a)) (pick_time now b)) m)
    | None \<Rightarrow> status_only (ctx_request fs OP_UTIMENS (w_pod (w_pod (w_str [] path) now) now) m))"

section \<open>The file system's numbers\<close>

record statvfs =
  f_bsize :: u64
  f_frsize :: u64
  f_blocks :: u64
  f_bfree :: u64
  f_bavail :: u64
  f_files :: u64
  f_ffree :: u64
  f_namemax :: u64

definition fs_statfs :: "'s remote_fs \<Rightarrow> string \<Rightarrow> 's mounted \<Rightarrow> (int \<times> statvfs option) \<times> 's mounted" where
  "fs_statfs fs path m = (case ctx_request fs OP_STATFS (w_str [] path) m of ((st, resp), m) \<Rightarrow>
     if st \<noteq> 0 then ((- st, None), m)
     else (case fst (r_statvfs resp) of
         None \<Rightarrow> ((- kEIO, None), m)
       | Some v \<Rightarrow> ((0, Some \<lparr>f_bsize = v_bsize v, f_frsize = v_frsize v, f_blocks = v_blocks v,
           f_bfree = v_bfree v, f_bavail = v_bavail v, f_files = v_files v, f_ffree = v_ffree v,
           f_namemax = v_namemax v\<rparr>), m)))"

section \<open>Statuses the host should not send\<close>

text \<open>A negative status is a positive count of bytes that nobody read.\<close>

lemma negative_status_counts_as_bytes:
  assumes "0 \<le> sint off" "0 < sz" "st < 0"
    and "ctx_request fs OP_READ (read_req (ff_fh fi) off (next_chunk sz 0)) m = ((st, resp), m')"
  shows "fs_read fs sz off fi m = ((\<bar>st\<bar>, []), m')"
  using assms by (simp add: fs_read_def read_chunks.simps not_less)

end
