(* ===== verification/MountedFile.thy ===== *)
theory MountedFile
  imports HostRemote FuseOps
begin

text \<open>
  Reading and writing an open file of the mount: the loops of \<open>fs_read\<close> and \<open>fs_write\<close> over any
  \<open>RemoteFs\<close> that keeps the bytes of a file (the locale \<open>remote_file\<close>), and its two instances, the
  host's request dispatch and the read cache in front of it. One thread of the mount acts at a time.
\<close>

section \<open>Writing into a file\<close>

text \<open>What a \<open>pwrite\<close> of \<open>d\<close> at \<open>off\<close> makes of the bytes \<open>f\<close>: a gap behind the end is filled with zeros.\<close>

definition patch :: "nat \<Rightarrow> bytes \<Rightarrow> bytes \<Rightarrow> bytes" where
  "patch off d f = (if d = [] then f
     else take off (f @ replicate (off - length f) 0) @ d @ drop (off + length d) f)"

lemma patch_Nil [simp]: "patch off [] f = f"
  by (simp add: patch_def)

lemma length_patch: "d \<noteq> [] \<Longrightarrow> length (patch off d f) = max (length f) (off + length d)"
  by (auto simp: patch_def)

lemma patch_append: "patch (off + length a) b (patch off a f) = patch off (a @ b) f"
proof (cases "a = [] \<or> b = []")
  case False
  define p where "p = take off (f @ replicate (off - length f) 0)"
  have l: "length p = off" by (simp add: p_def)
  let ?f = "p @ a @ drop (off + length a) f"
  have f: "patch off a f = ?f" using False by (simp add: patch_def p_def)
  have "take (off + length a) (?f @ replicate (off + length a - length ?f) 0) = p @ a" by (simp add: l)
  moreover have "drop (off + length a + length b) ?f = drop (off + length a + length b) f"
    by (simp add: l add.commute add.left_commute)
  ultimately have "patch (off + length a) b ?f = p @ a @ b @ drop (off + length a + length b) f"
    using False by (simp add: patch_def)
  moreover have "patch off (a @ b) f = p @ a @ b @ drop (off + length a + length b) f"
    using False by (simp add: patch_def p_def add.assoc)
  ultimately show ?thesis unfolding f by simp
qed auto

lemma slice_patch: "slice off (length d) (patch off d f) = d"
proof (cases "d = []")
  case False
  have "length (take off (f @ replicate (off - length f) 0)) = off" by simp
  then show ?thesis using False by (simp add: patch_def slice_def)
qed (simp add: slice_def)

section \<open>A remote that keeps a file\<close>

text \<open>
  \<open>holds s c\<close>: in this state of the remote the handle \<open>h\<close> is open on a file with the bytes \<open>c\<close> that
  \<open>path\<close> names. A write is refused and changes nothing, or takes a prefix of its bytes.
\<close>

locale remote_file =
  fixes fs :: "'s remote_fs"
    and holds :: "'s \<Rightarrow> bytes \<Rightarrow> bool"
    and h :: u64 and path :: string
  assumes reader: "remote_reader fs (\<lambda>s. holds s c) h path c"
    and writes: "holds s c \<Longrightarrow> length d \<le> 2 ^ 20 \<Longrightarrow>
      rf_request fs (op_code OP_WRITE) (write_req h off d) s = ((st, resp), s') \<Longrightarrow>
      0 < st \<and> holds s' c \<or>
      st = 0 \<and> (\<exists>n \<le> length d. resp = le_bytes 4 (of_nat n :: u32) \<and> holds s' (patch (unat off) (take n d) c))"

lemma non_negative_offset: "0 \<le> sint (off :: u64) \<longleftrightarrow> unat off < 2 ^ 63"
  by (simp add: sint_nonneg)

context remote_file begin

lemma read_chunks_file:
  assumes "holds (mt_remote m) c" "unat sz < 2 ^ 31" "unat off < 2 ^ 63" "dn \<le> sz"
    and "out = slice (unat off) (unat dn) c" "length out = unat dn"
    and "read_chunks fs h sz off dn out m = ((ret, buf), m')"
  shows "holds (mt_remote m') c \<and> buf = slice (unat off) (unat sz) c \<and> ret = int (length buf)"
  using assms(1,4-7)
proof (induction "unat sz - unat dn" arbitrary: dn out m rule: less_induct)
  case less
  note small = assms(2,3)
  show ?case
  proof (cases "dn < sz")
    case False
    then have "dn = sz" using less.prems(2) by simp
    then show ?thesis using less.prems small by (simp add: read_chunks.simps as_int_small)
  next
    case True
    let ?n = "next_chunk sz dn"
    have dn: "unat dn < unat sz" using True by (simp add: word_less_nat_alt)
    have o: "unat (off + dn) = unat off + unat dn" using small dn by (subst unat_add_lem [THEN iffD1]) simp_all
    obtain st resp s1 where rq: "rf_request fs (op_code OP_READ) (read_req h (off + dn) ?n) (mt_remote m) = ((st, resp), s1)"
      by (metis prod.exhaust)
    have rd: "holds s1 c" "st = 0" "resp = slice (unat off + unat dn) (unat ?n) c"
      using remote_reader.reads [OF reader less.prems(1) next_chunk(2) [OF True] rq] by (simp_all add: o)
    then have len: "length resp \<le> unat ?n" by (simp add: length_slice)
    define m1 where "m1 = m\<lparr>mt_remote := s1, mt_read := mt_read m + of_nat (length resp)\<rparr>"
    have turn: "read_chunks fs h sz off dn out m =
        (if resp = [] then ((as_int dn, out), m\<lparr>mt_remote := s1\<rparr>)
         else if length resp < unat ?n then ((as_int (dn + of_nat (length resp)), out @ resp), m1)
         else read_chunks fs h sz off (dn + of_nat (length resp)) (out @ resp) m1)"
      using True rq rd(2) len
      by (subst read_chunks.simps) (auto simp: ctx_request_def m1_def Let_def not_less simp del: op_code.simps)
    have next_dn: "unat (dn + of_nat (length resp)) = unat dn + length resp"
      "unat (dn + of_nat (length resp)) \<le> unat sz"
      by (rule chunk_step [OF True len])+
    have out: "out @ resp = slice (unat off) (unat dn + unat ?n) c" "length (out @ resp) = unat dn + length resp"
      using less.prems(3,4) rd(3) by (simp_all flip: slice_append)
    have short: "out @ resp = slice (unat off) (unat sz) c" if "length resp < unat ?n"
    proof -
      have "length c \<le> unat off + (unat dn + unat ?n)" using that rd(3) by (simp add: length_slice)
      moreover have "unat dn + unat ?n \<le> unat sz" using next_chunk(1) [OF True] dn by simp
      ultimately show ?thesis unfolding out(1) by (simp add: slice_def)
    qed
    consider (eof) "resp = []" | (short) "resp \<noteq> []" "length resp < unat ?n" | (full) "resp \<noteq> []" "length resp = unat ?n"
      using len by linarith
    then show ?thesis
    proof cases
      case eof
      then show ?thesis
        using turn less.prems rd(1) short next_chunk(3) [OF True] small dn by (auto simp: as_int_small)
    next
      case short
      then show ?thesis
        using turn less.prems(5) rd(1) \<open>length resp < unat ?n \<Longrightarrow> _\<close> next_dn out(2) small
        by (auto simp: m1_def as_int_small)
    next
      case full
      have l: "read_chunks fs h sz off (dn + of_nat (length resp)) (out @ resp) m1 = ((ret, buf), m')"
        using turn full less.prems(5) by simp
      have "unat sz - unat (dn + of_nat (length resp)) < unat sz - unat dn"
        using chunk_decreases [OF True len] full(1) by simp
      moreover have "dn + of_nat (length resp) \<le> sz" using next_dn(2) by (simp add: word_le_nat_alt)
      moreover have "holds (mt_remote m1) c" using rd(1) by (simp add: m1_def)
      moreover have "out @ resp = slice (unat off) (unat (dn + of_nat (length resp))) c"
        "length (out @ resp) = unat (dn + of_nat (length resp))"
        using out full(2) next_dn(1) by simp_all
      ultimately show ?thesis using less.hyps l by blast
    qed
  qed
qed

lemma fs_read_file:
  assumes "holds (mt_remote m) c" "ff_fh fi = h" "unat sz < 2 ^ 31" "0 \<le> sint off"
    and "fs_read fs sz off fi m = ((ret, buf), m')"
  shows "holds (mt_remote m') c" "buf = slice (unat off) (unat sz) c" "ret = int (length buf)"
  using read_chunks_file [OF assms(1,3) non_negative_offset [THEN iffD1, OF assms(4)], of 0 "[]" ret buf m'] assms(2,4,5)
  by (simp_all add: fs_read_def slice_def)

lemma write_chunks_file:
  assumes "length buf < 2 ^ 31" "unat off < 2 ^ 63" "sz = of_nat (length buf)" "dn \<le> sz"
    and "holds (mt_remote m) (patch (unat off) (take (unat dn) buf) c)"
    and "write_chunks fs h buf sz off dn m = (ret, m')"
  shows "\<exists>k \<le> length buf. holds (mt_remote m') (patch (unat off) (take k buf) c) \<and>
    (if ret < 0 then k = 0 else ret = int k)"
  using assms(4-6)
proof (induction "unat sz - unat dn" arbitrary: dn m rule: less_induct)
  case less
  have sz: "unat sz = length buf" using assms(1,3) by (simp add: unat_of_nat)
  have dn_le: "unat dn \<le> length buf" using less.prems(1) sz by (simp add: word_le_nat_alt)
  show ?case
  proof (cases "dn < sz")
    case False
    then have "dn = sz" using less.prems(1) by simp
    then show ?thesis using less.prems sz assms(1) by (auto simp: write_chunks.simps as_int_small intro!: exI [of _ "length buf"])
  next
    case True
    let ?n = "next_chunk sz dn" and ?d = "take (unat (next_chunk sz dn)) (drop (unat dn) buf)"
    have dn: "unat dn < length buf" using True sz by (simp add: word_less_nat_alt)
    have o: "unat (off + dn) = unat off + unat dn" using assms(1,2) dn by (subst unat_add_lem [THEN iffD1]) simp_all
    have d: "length ?d = unat ?n" "unat ?n \<le> 2 ^ 20" "length ?d \<le> 2 ^ 20"
      using next_chunk(1) [OF True] sz by simp_all
    obtain st resp s1 where rq: "rf_request fs (op_code OP_WRITE) (write_req h (off + dn) ?d) (mt_remote m) = ((st, resp), s1)"
      by (metis prod.exhaust)
    let ?early = "if dn \<noteq> 0 then as_int dn else - kEIO"
    have turn: "write_chunks fs h buf sz off dn m =
        (if st \<noteq> 0 then (if dn \<noteq> 0 then as_int dn else - st, m\<lparr>mt_remote := s1\<rparr>)
         else (case (fst (r_pod resp) :: u32 option) of
            None \<Rightarrow> (?early, m\<lparr>mt_remote := s1\<rparr>)
          | Some w \<Rightarrow> if w > ?n \<or> w = 0 then (?early, m\<lparr>mt_remote := s1\<rparr>)
              else if w < ?n then (as_int (dn + ucast w), m\<lparr>mt_remote := s1, mt_written := mt_written m + ucast w\<rparr>)
              else write_chunks fs h buf sz off (dn + ucast w) (m\<lparr>mt_remote := s1, mt_written := mt_written m + ucast w\<rparr>)))"
      using True rq by (subst write_chunks.simps) (simp add: ctx_request_def Let_def del: op_code.simps cong: if_cong option.case_cong)
    have early: "\<exists>k \<le> length buf. holds s1 (patch (unat off) (take k buf) c) \<and> (if r < 0 then k = 0 else r = int k)"
      if "holds s1 (patch (unat off) (take (unat dn) buf) c)" "r = (if dn \<noteq> 0 then as_int dn else - e)" "0 < e" for r e
      using that dn assms(1) by (auto simp: as_int_small unat_eq_zero intro!: exI [of _ "unat dn"])
    from writes [OF less.prems(2) d(3) rq]
    consider (refused) "0 < st" "holds s1 (patch (unat off) (take (unat dn) buf) c)"
      | (taken) n where "st = 0" "n \<le> unat ?n" "resp = le_bytes 4 (of_nat n :: u32)"
          "holds s1 (patch (unat off + unat dn) (take n ?d) (patch (unat off) (take (unat dn) buf) c))"
      unfolding o d(1) by blast
    then show ?thesis
    proof cases
      case refused
      then show ?thesis using early [OF refused(2), of ret st] turn less.prems(3) by auto
    next
      case taken
      have l: "length (take (unat dn) buf) = unat dn" using dn_le by simp
      have "take (unat dn) buf @ take n ?d = take (unat dn + n) buf" using taken(2) by (simp add: take_add min_absorb1)
      then have p: "holds s1 (patch (unat off) (take (unat dn + n) buf) c)"
        using taken(4) patch_append [of "unat off" "take (unat dn) buf" "take n ?d" c, unfolded l] by (simp only:)
      define w where "w = (of_nat n :: u32)"
      have w: "unat w = n" using taken(2) d(2) by (simp add: w_def unat_of_nat)
      have "\<not> ?n < w" using taken(2) w by (simp add: word_less_nat_alt)
      note cw = chunk_written [OF True this]
      have "fst (r_pod resp) = Some w" unfolding taken(3) w_def by (simp del: le_bytes.simps)
      then have turn': "write_chunks fs h buf sz off dn m =
          (if n = 0 then (?early, m\<lparr>mt_remote := s1\<rparr>)
           else if n < unat ?n then (as_int (dn + ucast w), m\<lparr>mt_remote := s1, mt_written := mt_written m + ucast w\<rparr>)
           else write_chunks fs h buf sz off (dn + ucast w) (m\<lparr>mt_remote := s1, mt_written := mt_written m + ucast w\<rparr>))"
        using turn taken(1,2) w by (simp add: word_less_nat_alt unat_eq_zero [symmetric])
      consider "n = 0" | "0 < n" "n < unat ?n" | (full) "0 < n" "\<not> n < unat ?n" by linarith
      then show ?thesis
      proof cases
        case 1
        then show ?thesis using early [of ret kEIO] p turn' less.prems(3) by (auto simp: kEIO_def)
      next
        case 2
        have "as_int (dn + ucast w) = int (unat dn + n)" using cw(1,2) w sz assms(1) by (simp add: as_int_small)
        then have e: "ret = int (unat dn + n)" "mt_remote m' = s1" using 2 turn' less.prems(3) by simp_all
        have "\<not> ret < 0" unfolding e(1) not_less by (rule of_nat_0_le_iff)
        moreover have "unat dn + n \<le> length buf" using cw(1,2) w sz by simp
        ultimately show ?thesis using p e by (intro exI [of _ "unat dn + n"]) simp
      next
        case full
        have "unat sz - unat (dn + ucast w) < unat sz - unat dn" using full(1) w cw(3) by (metis unat_0 less_irrefl)
        moreover have "dn + ucast w \<le> sz" using cw(2) by (simp add: word_le_nat_alt)
        moreover define m1 where "m1 = m\<lparr>mt_remote := s1, mt_written := mt_written m + ucast w\<rparr>"
        moreover have "holds (mt_remote m1) (patch (unat off) (take (unat (dn + ucast w)) buf) c)"
          using p cw(1) w by (simp add: m1_def)
        moreover have "write_chunks fs h buf sz off (dn + ucast w) m1 = (ret, m')"
          using turn' full less.prems(3) by (simp add: m1_def)
        ultimately show ?thesis using less.hyps by blast
      qed
    qed
  qed
qed

lemma fs_write_file:
  assumes "holds (mt_remote m) c" "ff_fh fi = h" "length buf < 2 ^ 31" "0 \<le> sint off"
    and "fs_write fs buf off fi m = (ret, m')"
  shows "\<exists>k \<le> length buf. holds (mt_remote m') (patch (unat off) (take k buf) c) \<and>
    (if ret < 0 then k = 0 else ret = int k)"
  using write_chunks_file [OF assms(3) non_negative_offset [THEN iffD1, OF assms(4)] refl, of 0 m c ret m'] assms(1,2,4,5)
  by (simp add: fs_write_def)

end

section \<open>The host keeps a file\<close>

text \<open>
  What it takes of the host's operating system: states \<open>Q c\<close> in which the file has the bytes \<open>c\<close>, which
  reads and look-ups do not leave, and in which a \<open>pwrite\<close> fails without effect or puts a prefix of
  its bytes at the offset.
\<close>

definition os_keeps :: "'o os_api \<Rightarrow> string \<Rightarrow> nat \<Rightarrow> string \<Rightarrow> (bytes \<Rightarrow> 'o \<Rightarrow> bool) \<Rightarrow> bool" where
  "os_keeps api root fd path Q \<longleftrightarrow>
     (\<forall>c. os_serves api root fd path c (Q c)) \<and>
     (\<forall>c s. Q c s \<longrightarrow> length c < 2 ^ 63) \<and>
     (\<forall>c s d off. Q c s \<longrightarrow> (case os_pwrite api fd d off s of
         (None, s') \<Rightarrow> Q c s'
       | (Some n, s') \<Rightarrow> n \<le> length d \<and> Q (patch (unat off) (take n d) c) s'))"

definition host_holds :: "'o os_api \<Rightarrow> u64 \<Rightarrow> string \<Rightarrow> 'o server \<Rightarrow> bytes \<Rightarrow> bool" where
  "host_holds api h path sv c \<longleftrightarrow> length path < 2 ^ 32 \<and> sv_allow_writes sv \<and>
     (\<exists>fd Q. sv_handles sv h = Some fd \<and> os_keeps api (sv_root sv) fd path Q \<and> Q c (sv_os sv))"

lemma dispatch_write:
  assumes "sv_allow_writes sv" "sv_handles sv h = Some fd" "length d < 2 ^ 32"
  shows "dispatch api (op_code OP_WRITE) (write_req h off d) sv =
    (case os_pwrite api fd d off (sv_os sv) of
       (None, s) \<Rightarrow> (Some (EIO, []), sv\<lparr>sv_os := s\<rparr>)
     | (Some put, s) \<Rightarrow> (let sv = sv\<lparr>sv_os := s, sv_bytes_in := sv_bytes_in sv + of_nat put\<rparr>;
           p = (case sv_paths sv h of None \<Rightarrow> [] | Some p \<Rightarrow> p)
         in (Some (0, w_pod [] (of_nat put :: u32)), if p \<noteq> [] then broadcast_invalidate p sv else sv)))"
proof -
  have "write_req h off d = le_bytes 8 h @ le_bytes 8 off @ d" by (simp add: write_req_def w_pod_def w_raw_def)
  moreover have "take (unat (of_nat (length d) :: u32)) d = d" using assms(3) by (simp add: u32_len)
  ultimately show ?thesis
    using assms
    by (simp add: dispatch_def answered_def h_write_def sys_def Let_def del: op_code.simps le_bytes.simps
        split: prod.split option.split)
qed

lemma sv_broadcast [simp]:
  "sv_os (broadcast_invalidate p sv) = sv_os sv" "sv_root (broadcast_invalidate p sv) = sv_root sv"
  "sv_handles (broadcast_invalidate p sv) = sv_handles sv"
  "sv_allow_writes (broadcast_invalidate p sv) = sv_allow_writes sv"
  by (simp_all add: broadcast_invalidate_def)

interpretation hosted_file: remote_file "host_fs api" "host_holds api h path" h path
  for api :: "'o os_api" and h path
proof (unfold_locales, goal_cases)
  case (1 c sv len off st resp sv')
  then obtain fd Q where h: "sv_handles sv h = Some fd" "os_keeps api (sv_root sv) fd path Q" "Q c (sv_os sv)"
    "length path < 2 ^ 32" "sv_allow_writes sv" by (auto simp: host_holds_def)
  then have "os_serves api (sv_root sv) fd path c (Q c)" by (simp add: os_keeps_def)
  from host_read [OF h(1) this h(3) 1(2,3)] show ?case using h by (auto simp: host_holds_def)
next
  case (2 c sv st resp sv')
  then obtain fd Q where h: "sv_handles sv h = Some fd" "os_keeps api (sv_root sv) fd path Q" "Q c (sv_os sv)"
    "length path < 2 ^ 32" "sv_allow_writes sv" by (auto simp: host_holds_def)
  then have "os_serves api (sv_root sv) fd path c (Q c)" by (simp add: os_keeps_def)
  from host_getattr [OF h(4) this h(3) 2(2)] show ?case using h by (auto simp: host_holds_def)
next
  case (3 c sv)
  then show ?case unfolding host_holds_def os_keeps_def by blast
next
  case (4 sv c d off st resp sv')
  then obtain fd Q where h: "sv_handles sv h = Some fd" "os_keeps api (sv_root sv) fd path Q" "Q c (sv_os sv)"
    "length path < 2 ^ 32" "sv_allow_writes sv" by (auto simp: host_holds_def)
  obtain r s1 where p: "os_pwrite api fd d off (sv_os sv) = (r, s1)" by fastforce
  have q: "case r of None \<Rightarrow> Q c s1 | Some n \<Rightarrow> n \<le> length d \<and> Q (patch (unat off) (take n d) c) s1"
    using h(2,3) p unfolding os_keeps_def by (metis (mono_tags, lifting) case_prod_conv option.case_eq_if)
  have "length d < 2 ^ 32" using 4(2) by simp
  note w = dispatch_write [OF h(5,1) this, of api off]
  show ?case
  proof (cases r)
    case None
    then have "st = 5 \<and> sv' = sv\<lparr>sv_os := s1\<rparr>"
      using 4(3) w p by (simp add: host_fs_def EIO_def kMaxRecord_def del: op_code.simps)
    then show ?thesis using h q None by (auto simp: host_holds_def)
  next
    case (Some n)
    then have "st = 0 \<and> resp = le_bytes 4 (of_nat n :: u32) \<and> sv_os sv' = s1 \<and> sv_root sv' = sv_root sv \<and>
        sv_handles sv' = sv_handles sv \<and> sv_allow_writes sv'"
      using 4(3) w p h(5)
      by (auto simp: host_fs_def Let_def w_pod_def w_raw_def kMaxRecord_def simp del: op_code.simps le_bytes.simps)
    then show ?thesis using h q Some by (auto simp: host_holds_def)
  qed
qed

section \<open>The cache in front of it\<close>

text \<open>A write through the cache leaves nothing cached about the file, so any contents agree with it.\<close>

lemma written_serves:
  assumes "serves h path c k" "cache_ok (written h k)"
  shows "serves h path c' (written h k)"
proof -
  obtain f where f: "c_fh k h = Some f" "fi_path f = path" using assms(1) by (auto simp: serves_def readable_def)
  have w: "written h k = invalidate_file path k" using f by (simp add: written_def fh_path_def)
  have "forgotten path (written h k)" unfolding w by simp
  then have n: "c_files (written h k) path = None" "map_of (c_neg (written h k)) path = None" by (simp_all add: forgotten_def)
  have "readable h path (written h k)"
    using f unfolding w by (simp add: readable_def invalidate_file_def clear_fh_version_def meta_erase_def)
  then show ?thesis using n assms(2) by (simp add: serves_def faithful_def blk_def)
qed

lemma cached_file:
  assumes "remote_file fs holds h path" "short_responses fs"
  shows "remote_file (ram_cache fs) (\<lambda>ks c. holds (snd ks) c \<and> serves h path c (fst ks)) h path"
proof (rule remote_file.intro, goal_cases)
  case (1 c)
  show ?case
    using cached_reader [OF remote_file.reader [OF assms(1)] assms(2), of c]
    by (simp add: case_prod_unfold)
next
  case (2 ks c d off st resp ks')
  obtain k s k' s' where ks: "ks = (k, s)" "ks' = (k', s')" by (cases ks; cases ks') auto
  have hs: "holds s c" "serves h path c k" using 2(1) ks by auto
  obtain r s1 where rq: "rf_request fs (op_code OP_WRITE) (write_req h off d) s = (r, s1)" by fastforce
  have rq': "rf_request fs (op_code OP_WRITE) (write_req h off d) s = ((fst r, snd r), s1)" using rq by simp
  have "fhid_of (write_req h off d) = h"
    by (simp add: fhid_of_def write_req_def w_pod_def w_raw_def del: le_bytes.simps)
  then have e: "r = (st, resp)" "s' = s1" "k' = (if st = 0 then written h k else k)"
    using 2(3) rq by (auto simp: ks ram_cache_def cache_request_def through_def Let_def simp del: op_code.simps split: prod.splits)
  have ok: "cache_ok k'"
    using cache_request_keeps [OF assms(2), of "(k, s)" "op_code OP_WRITE" "write_req h off d"] hs(2) 2(3)
    by (simp add: ks ram_cache_def serves_def del: op_code.simps)
  then have "serves h path c' k'" if "st = 0" for c'
    using written_serves [OF hs(2)] e(3) that by simp
  then show ?case
    using remote_file.writes [OF assms(1) hs(1) 2(2) rq'] e hs(2) by (auto simp: ks)
qed

interpretation mounted_file: remote_file "ram_cache (host_fs api)"
  "\<lambda>ks c. host_holds api h path (snd ks) c \<and> serves h path c (fst ks)" h path
  for api :: "'o os_api" and h path
  by (rule cached_file [OF hosted_file.remote_file_axioms host_fs_short])

text \<open>C9: A file written through the mount is the file on the host's disk: against an abstract
  file of bytes, fs_write over the client cache, the server dispatch and the operating
  system patches the bytes at the offset and fs_read returns the bytes of the range, for
  every size up to 2^31 and any split into requests, while the handle is open and the system
  keeps the file.\<close>

theorem mounted_writes_are_read_back:
  assumes "mt_remote m = (k, sv)" "host_holds api h path sv content" "serves h path content k"
    and "ff_fh fi = h" "length buf < 2 ^ 31" "0 \<le> sint off" "unat sz < 2 ^ 31" "0 \<le> sint pos"
    and "fs_write (ram_cache (host_fs api)) buf off fi m = (ret, m1)"
    and "fs_read (ram_cache (host_fs api)) sz pos fi m1 = ((ret', got), m2)"
  shows "\<exists>n \<le> length buf. (if ret < 0 then n = 0 else ret = int n) \<and>
    (let content' = patch (unat off) (take n buf) content in
     got = take (unat sz) (drop (unat pos) content') \<and> ret' = int (length got) \<and>
     host_holds api h path (snd (mt_remote m2)) content' \<and> serves h path content' (fst (mt_remote m2)))"
proof -
  have "host_holds api h path (snd (mt_remote m)) content \<and> serves h path content (fst (mt_remote m))"
    using assms(1-3) by simp
  from mounted_file.fs_write_file [OF this assms(4-6,9)]
  obtain n where n: "n \<le> length buf" "if ret < 0 then n = 0 else ret = int n"
    "host_holds api h path (snd (mt_remote m1)) (patch (unat off) (take n buf) content) \<and>
       serves h path (patch (unat off) (take n buf) content) (fst (mt_remote m1))"
    by blast
  from mounted_file.fs_read_file [OF n(3) assms(4,7,8,10)] show ?thesis
    using n(1,2) by (auto simp: Let_def slice_def intro!: exI [of _ n])
qed

text \<open>The in-memory system with a \<open>pwrite\<close> that writes, and a server with the file open.\<close>

definition ex_disk :: "host os_api" where
  "ex_disk = ex_api\<lparr>os_pwrite := (\<lambda>d b off s.
     if d < length (ho_fds s) \<and> unat off + length b < 2 ^ 63
     then (Some (length b), s\<lparr>ho_files := map (\<lambda>(q, f).
         (q, if q = ho_fds s ! d then patch (unat off) b f else f)) (ho_files s)\<rparr>)
     else (None, s))\<rparr>"

definition ex_disk_state :: "bytes \<Rightarrow> host" where
  "ex_disk_state c = ex_host\<lparr>ho_files := [(''/srv/share/a.txt'', c)], ho_fds := [''/srv/share/a.txt'']\<rparr>"

definition ex_disk_server :: "host server" where
  "ex_disk_server = (ex_server True (ex_disk_state ex_content))
     \<lparr>sv_handles := [1 \<mapsto> 0], sv_paths := [1 \<mapsto> ''/a.txt''], sv_next_fh := 2\<rparr>"

lemma ex_disk_keeps: "os_keeps ex_disk ''/srv/share'' 0 ''/a.txt'' (\<lambda>c s. s = ex_disk_state c \<and> length c < 2 ^ 63)"
proof -
  have r: "resolve ex_disk ''/srv/share'' ''/a.txt'' (ex_disk_state c) = (Some ''/srv/share/a.txt'', ex_disk_state c)" for c
    by code_simp
  have "snd (fill_attr ex_disk ''/srv/share/a.txt'' (ex_disk_state c)) = ex_disk_state c"
    "fst (fill_attr ex_disk ''/srv/share/a.txt'' (ex_disk_state c)) \<noteq> None" for c by code_simp+
  then have a: "\<exists>a. fill_attr ex_disk ''/srv/share/a.txt'' (ex_disk_state c) = (Some a, ex_disk_state c)" for c
    by (metis option.exhaust_sel prod.collapse)
  have p: "os_pread ex_disk 0 n off (ex_disk_state c) = (Some (slice (unat off) n c), ex_disk_state c)" for n off c
    by (simp add: ex_disk_def ex_api_def ex_disk_state_def slice_def)
  have w: "os_pwrite ex_disk 0 d off (ex_disk_state c) =
      (if unat off + length d < 2 ^ 63 then (Some (length d), ex_disk_state (patch (unat off) d c))
       else (None, ex_disk_state c))" for d off c
    by (simp add: ex_disk_def ex_disk_state_def)
  have l: "length (patch o' d c) < 2 ^ 63" if "length c < 2 ^ 63" "o' + length d < 2 ^ 63" for o' d and c :: bytes
    using that by (cases "d = []") (simp_all add: length_patch)
  show ?thesis using r a p l by (auto simp: os_keeps_def os_serves_def w)
qed

definition ex_mounted :: "(cache \<times> host server) mounted" where
  "ex_mounted = \<lparr>mt_remote = (ex_open_cache, ex_disk_server), mt_read = 0, mt_written = 0\<rparr>"

definition ex_file_info :: file_info where
  "ex_file_info = \<lparr>ff_flags = 2, ff_fh = 1, ff_keep_cache = False\<rparr>"

theorem mounted_writes_are_read_back_witness:
  "let (ret, m1) = fs_write (ram_cache (host_fs ex_disk)) (str_bytes ''EY'') 1 ex_file_info ex_mounted;
       ((ret', got), m2) = fs_read (ram_cache (host_fs ex_disk)) 5 0 ex_file_info m1
   in \<exists>n \<le> 2. got = take 5 (patch 1 (take n (str_bytes ''EY'')) (str_bytes ''hello''))"
proof -
  have h: "host_holds ex_disk 1 ''/a.txt'' ex_disk_server ex_content"
    using ex_disk_keeps unfolding host_holds_def
    by (auto simp: ex_disk_server_def ex_server_def str_bytes_def)
  obtain ret m1 where w: "fs_write (ram_cache (host_fs ex_disk)) (str_bytes ''EY'') 1 ex_file_info ex_mounted = (ret, m1)"
    by fastforce
  obtain ret' got m2 where r: "fs_read (ram_cache (host_fs ex_disk)) 5 0 ex_file_info m1 = ((ret', got), m2)"
    by (metis prod.exhaust)
  have "mt_remote ex_mounted = (ex_open_cache, ex_disk_server)" "ff_fh ex_file_info = 1"
    by (simp_all add: ex_mounted_def ex_file_info_def)
  moreover have "length (str_bytes ''EY'') < 2 ^ 31" "0 \<le> sint (1 :: u64)" "unat (5 :: u64) < 2 ^ 31" "0 \<le> sint (0 :: u64)"
    by simp_all
  ultimately obtain n where "n \<le> length (str_bytes ''EY'')"
    "got = take (unat (5 :: u64)) (drop (unat (0 :: u64)) (patch (unat (1 :: u64)) (take n (str_bytes ''EY'')) (str_bytes ''hello'')))"
    using mounted_writes_are_read_back [OF _ h ex_cache_serves _ _ _ _ _ w r] unfolding Let_def by blast
  moreover have "length (str_bytes ''EY'') = 2" by (simp add: numeral_2_eq_2)
  ultimately have "n \<le> 2" "got = take 5 (patch 1 (take n (str_bytes ''EY'')) (str_bytes ''hello''))" by simp_all
  then show ?thesis by (simp add: w r Let_def) blast
qed

end
