(* ===== verification/MountedOps.thy ===== *)
theory MountedOps
  imports MountedFile
begin

text \<open>
  Listing a directory and opening a file through the whole stack of a mount: the FUSE operation, the
  read cache and the request dispatch of the host.
\<close>

section \<open>Listings\<close>

text \<open>What a listing means to the kernel: the entries offered in order until the buffer is full.\<close>

fun offer :: "'b filler \<Rightarrow> dirent list \<Rightarrow> 'b \<Rightarrow> 'b" where
  "offer filler [] b = b"
| "offer filler (e # es) b = (case filler e b of (full, b) \<Rightarrow> if full then b else offer filler es b)"

definition listed :: "bool \<Rightarrow> (string \<times> wire_attr) list \<Rightarrow> dirent list" where
  "listed rdplus es = (''.'', None, False) # (''..'', None, False) #
     map (\<lambda>(n, a). (c_str n, Some (fill_stat a), rdplus)) es"

text \<open>The bytes of a listing, entry by entry.\<close>

definition entry_bytes :: "string \<times> wire_attr \<Rightarrow> bytes" where
  "entry_bytes e = w_str [] (fst e) @ enc_attr (snd e)"

definition short_name :: "string \<times> wire_attr \<Rightarrow> bool" where
  "short_name e \<longleftrightarrow> length (fst e) < 2 ^ 32"

lemma w_entries_eq:
  assumes "list_all short_name es"
  shows "w_entries es = le_bytes 4 (of_nat (length es) :: u32) @ concat (map entry_bytes es)"
proof -
  have "foldl (\<lambda>w (n, a). w_attr (w_str w n) a) w es = w @ concat (map entry_bytes es)" for w
    using assms
  proof (induction es arbitrary: w)
    case (Cons e es)
    obtain n a where e: "e = (n, a)" by (cases e)
    then have n: "length n < 2 ^ 32" using Cons.prems by (simp add: short_name_def)
    have "w_attr (w_str w n) a = w @ entry_bytes (n, a)"
      by (simp add: w_attr_def w_raw_def entry_bytes_def w_str_eq [OF n])
    then show ?case using Cons e by simp
  qed simp
  then show ?thesis by (simp add: w_entries_def w_pod_def w_raw_def)
qed

lemma read_entry:
  assumes "short_name (n, a)"
  shows "r_str (entry_bytes (n, a) @ rest) = (Some n, enc_attr a @ rest)"
  using assms r_str_append [of n "enc_attr a @ rest"] by (simp add: entry_bytes_def short_name_def w_str_eq)

lemma fill_entries_offer:
  assumes "list_all short_name es"
  shows "fill_entries filler rdplus (length es) (concat (map entry_bytes es) @ rest) b =
    offer filler (map (\<lambda>(n, a). (c_str n, Some (fill_stat a), rdplus)) es) b"
  using assms
proof (induction es arbitrary: b)
  case (Cons e es)
  obtain n a where e: "e = (n, a)" by (cases e)
  then have "r_str (concat (map entry_bytes (e # es)) @ rest) = (Some n, enc_attr a @ concat (map entry_bytes es) @ rest)"
    using Cons.prems read_entry [of n a "concat (map entry_bytes es) @ rest"] by simp
  then show ?case using Cons e by (simp split: prod.split)
qed simp

lemma fs_readdir_offers:
  assumes "ctx_request fs OP_READDIR (w_str [] path) m = ((0, w_entries es), m')"
    and "list_all short_name es" "length es < 2 ^ 32"
  shows "fs_readdir fs path filler rdplus b m = ((0, offer filler (listed rdplus es) b), m')"
proof -
  have "(r_pod (w_entries es) :: u32 option \<times> bytes) = (Some (of_nat (length es)), concat (map entry_bytes es))"
    by (simp add: w_entries_eq [OF assms(2)] del: le_bytes.simps)
  then show ?thesis
    using assms fill_entries_offer [OF assms(2), of filler rdplus "[]"]
    by (simp add: fs_readdir_def listed_def u32_len split: prod.split bool.split)
qed

text \<open>The host's side of it.\<close>

lemma dispatch_readdir:
  assumes "length path < 2 ^ 32" "resolve api (sv_root sv) path (sv_os sv) = (Some ap, s1)"
    "os_listdir api ap s1 = ((names, False), s2)" "read_entries api ap names s2 = (es, s3)"
  shows "dispatch api (op_code OP_READDIR) (w_str [] path) sv = (Some (0, w_entries es), sv\<lparr>sv_os := s3\<rparr>)"
proof -
  have "r_str (w_str [] path) = (Some path, [])"
    using r_str_append [OF assms(1), of "[]"] by (simp add: w_str_eq [OF assms(1)])
  then show ?thesis
    using assms(2-4) by (simp add: dispatch_def answered_def h_readdir_def sys_def del: op_code.simps)
qed

lemma c_dir_store_entries [simp]: "c_dir (store_entries path n r c) = c_dir c"
proof (induction path n r c rule: store_entries.induct)
  case (2 path n r c)
  have "c_dir (meta_store p a c) = c_dir c" for p a c by (simp add: meta_store_def now_ms_def Let_def)
  then show ?case using 2 by (simp split: prod.split option.split)
qed simp

lemma dir_store_holds: "\<exists>t. map_of (c_dir (dir_store path resp c)) path = Some (resp, t)"
  by (simp add: dir_store_def Let_def update_conv' split: prod.split)

lemma dir_lookup_stored:
  "map_of (c_dir c) path = Some (resp, t) \<Longrightarrow> dir_lookup path c = (Some x, c') \<Longrightarrow> x = resp"
  by (auto simp: dir_lookup_def split: prod.splits if_splits)

lemma readdir_through_cache:
  assumes "length path < 2 ^ 32" "map_of (c_dir k) path = None"
    and "rf_request fs (op_code OP_READDIR) (w_str [] path) s = ((0, w_entries es), s')"
  shows "\<exists>k'. cache_request fs (op_code OP_READDIR) (w_str [] path) (k, s) = ((0, w_entries es), k', s') \<and>
    (\<exists>t. map_of (c_dir k') path = Some (w_entries es, t))"
proof -
  have p: "fst (r_str (w_str [] path)) = Some path"
    using r_str_append [OF assms(1), of "[]"] by (simp add: w_str_eq [OF assms(1)])
  have d: "dir_lookup path k = (None, k)" using assms(2) by (simp add: dir_lookup_def)
  obtain n r where n: "(r_pod (w_entries es) :: u32 option \<times> bytes) = (n, r)" by fastforce
  let ?k = "dir_store path (w_entries es) k"
  have "\<exists>k'. cache_request fs (op_code OP_READDIR) (w_str [] path) (k, s) = ((0, w_entries es), k', s') \<and> c_dir k' = c_dir ?k"
    using p d n assms(3)
    by (cases n) (auto simp: cache_request_def do_readdir_def Let_def simp del: op_code.simps)
  then show ?thesis using dir_store_holds by metis
qed

lemma readdir_from_cache:
  assumes "length path < 2 ^ 32" "dir_lookup path k = (Some resp, k')"
  shows "cache_request fs (op_code OP_READDIR) (w_str [] path) (k, s) = ((0, resp), k', s)"
proof -
  have "fst (r_str (w_str [] path)) = Some path"
    using r_str_append [OF assms(1), of "[]"] by (simp add: w_str_eq [OF assms(1)])
  then show ?thesis using assms(2) by (simp add: cache_request_def do_readdir_def Let_def del: op_code.simps)
qed


definition ex_new_mount :: "(cache \<times> host server) mounted" where
  "ex_new_mount = \<lparr>mt_remote = (ex_cache, ex_server True ex_host), mt_read = 0, mt_written = 0\<rparr>"


section \<open>Opening\<close>

lemma dispatch_open:
  assumes "length path < 2 ^ 32" "x = OP_OPEN \<and> create = False \<or> x = OP_CREATE \<and> create = True"
    and "dispatch api (op_code x) (w_pod (w_pod (w_str [] path) (flags :: u32)) (mode :: u32)) sv = (r, sv')"
  shows "(\<exists>e. e \<noteq> 0 \<and> r = Some (e, [])) \<or>
    (\<exists>ap s1 fd s2. (opens_for_write create flags \<longrightarrow> sv_allow_writes sv) \<and>
       resolve api (sv_root sv) path (sv_os sv) = (Some ap, s1) \<and>
       os_open api ap (from_portable_flags flags) mode s1 = (Inr fd, s2) \<and>
       r = Some (0, w_pod [] (sv_next_fh sv)) \<and> sv_os sv' = s2 \<and> sv_handles sv' (sv_next_fh sv) = Some fd) \<or>
    (\<exists>e ap s1 s2. r = Some (of_nat e, []) \<and> 0 < e \<and>  resolve api (sv_root sv) path (sv_os sv) = (Some ap, s1) \<and>
       os_open api ap (from_portable_flags flags) mode s1 = (Inl e, s2))"
proof -
  have "w_pod (w_pod (w_str [] path) flags) mode =
      le_bytes 4 (of_nat (length path) :: u32) @ str_bytes path @ le_bytes 4 flags @ le_bytes 4 mode"
    by (simp add: w_str_eq [OF assms(1)] w_pod_def w_raw_def)
  then have p: "r_str (w_pod (w_pod (w_str [] path) flags) mode) = (Some path, le_bytes 4 flags @ le_bytes 4 mode)"
    using r_str_append [OF assms(1), of "le_bytes 4 flags @ le_bytes 4 mode"] by simp
  have d: "dispatch api (op_code x) (w_pod (w_pod (w_str [] path) flags) mode) sv =
      answered (h_open api create (w_pod (w_pod (w_str [] path) flags) mode) sv)"
    using assms(2) by (auto simp: dispatch_def simp del: op_code.simps)
  show ?thesis
    using assms(3) unfolding d answered_def h_open_def p
    by (auto simp: sys_def Let_def errno_defs simp del: le_bytes.simps split: prod.splits option.splits sum.splits if_splits)
qed

text \<open>A result of 0 means that the host opened the file and answered with its new handle.\<close>

lemma do_open_hosted:
  assumes "mt_remote m = (k, sv)" "length path < 2 ^ 32"
    and "x = OP_OPEN \<and> create = False \<or> x = OP_CREATE \<and> create = True"
    and "do_open (ram_cache (host_fs api)) path x mode fi m = ((0, fi'), m')"
  obtains ap s1 fd sv' where
    "opens_for_write create (to_portable_flags (ff_flags fi)) \<longrightarrow> sv_allow_writes sv"
    "resolve api (sv_root sv) path (sv_os sv) = (Some ap, s1)"
    "os_open api ap (ff_flags fi AND 0x6c3) mode s1 = (Inr fd, sv_os sv')"
    "sv_handles sv' (ff_fh fi') = Some fd"
    "mt_remote m' = (opened create path (w_pod [] (ff_fh fi')) k, sv')"
proof -
  let ?req = "w_pod (w_pod (w_str [] path) (to_portable_flags (ff_flags fi))) mode"
  obtain r sv' where d: "dispatch api (op_code x) ?req sv = (r, sv')" by fastforce
  obtain st resp sv2 where h: "rf_request (host_fs api) (op_code x) ?req sv = ((st, resp), sv2)" by (metis prod.exhaust)
  have "path_of ?req = path"
  proof -
    have "?req = le_bytes 4 (of_nat (length path) :: u32) @ str_bytes path @
        (le_bytes 4 (to_portable_flags (ff_flags fi)) @ le_bytes 4 mode)"
      by (simp add: w_str_eq [OF assms(2)] w_pod_def w_raw_def)
    then show ?thesis using r_str_append [OF assms(2)] by (simp add: path_of_def)
  qed
  then have "cache_request (host_fs api) (op_code x) ?req (k, sv) =
      ((st, resp), (if st = 0 then opened create path resp k else k), sv2)"
    using assms(3) h by (auto simp: cache_request_def through_def Let_def simp del: op_code.simps)
  then have "ctx_request (ram_cache (host_fs api)) x ?req m =
      ((st, resp), m\<lparr>mt_remote := (if st = 0 then opened create path resp k else k, sv2)\<rparr>)"
    using assms(1) by (simp add: ctx_request_def ram_cache_def del: op_code.simps)
  then have o: "st = 0" "fst (r_pod resp) = Some (ff_fh fi')" "mt_remote m' = (opened create path resp k, sv2)"
    using assms(4) by (auto simp: do_open_def Let_def kEIO_def split: if_splits option.splits)
  have ne: "resp \<noteq> []" using o(2) by (auto simp: r_pod_def r_raw_def)
  then have b: "(case r of None \<Rightarrow> False | Some (st, b) \<Rightarrow> b = resp \<and> st = 0) \<and> sv2 = sv'"
    using h d o(1) by (auto simp: host_fs_def signed_eq_0_iff split: option.splits if_splits)
  have w: "fst (r_pod (w_pod [] v)) = Some (v :: u64)" for v by (simp add: w_pod_def w_raw_def del: le_bytes.simps)
  from dispatch_open [OF assms(2,3) d] b ne obtain ap s1 fd where
    "opens_for_write create (to_portable_flags (ff_flags fi)) \<longrightarrow> sv_allow_writes sv"
    "resolve api (sv_root sv) path (sv_os sv) = (Some ap, s1)"
    "os_open api ap (from_portable_flags (to_portable_flags (ff_flags fi))) mode s1 = (Inr fd, sv_os sv')"
    "resp = w_pod [] (sv_next_fh sv)" "sv_handles sv' (sv_next_fh sv) = Some fd"
    by auto
  moreover from this(4) have "sv_next_fh sv = ff_fh fi'" using o(2) w by simp
  ultimately show thesis using that [of ap s1 fd sv'] o(3) b by (simp add: flags_round_trip)
qed

lemma opened_path: "fh_path h (opened create path (w_pod [] h) k) = Some path"
  by (simp add: opened_def w_pod_def w_raw_def fh_path_def fh_add_def fh_new_def invalidate_file_def
      clear_fh_version_def meta_erase_def dir_erase_def Let_def del: le_bytes.simps)

lemma created_serves:
  assumes "cache_ok k"
  shows "serves h path c (opened True path (w_pod [] h) k)"
proof -
  let ?k = "opened True path (w_pod [] h) k"
  have "forgotten path ?k" by (simp add: opened_def Let_def)
  moreover have "readable h path ?k" using opened_path [of h True path k] by (auto simp: readable_def fh_path_def)
  ultimately show ?thesis
    using opened_ok [OF assms] by (simp add: serves_def faithful_def blk_def forgotten_def)
qed



end
