(* ===== verification/FuseMount.thy ===== *)
theory FuseMount
  imports Paths "HOL-Library.Multiset"
begin

text \<open>
  The life of a mount on Linux, from \<open>client/src/fs/fuse_fs.cpp\<close>: the choice of the mount point and the
  options, \<open>Mount::start\<close> with its wait for the kernel, \<open>Mount::stop\<close>, and the FUSE thread that reports
  an ejection. The file system's calls, the clock and libfuse are a parameter that acts on a world.
\<close>

section \<open>The system\<close>

text \<open>
  Queries that change nothing take the world; with an error they answer no, as their
  \<open>error_code\<close> overloads do. \<open>ma_stat\<close> gives the device and the inode; \<open>ma_fuse_new\<close> gives the
  pointer, \<open>None\<close> if it is null; \<open>ma_fuse_mount\<close> whether it returned 0. Times are milliseconds.
\<close>

record 'x mount_api =
  ma_backend :: "'x \<Rightarrow> (string + unit) \<times> 'x" \<comment> \<open>\<open>ensure_fuse_backend\<close>\<close>
  ma_getenv :: "string \<Rightarrow> string option"
  ma_exists :: "string \<Rightarrow> 'x \<Rightarrow> bool"
  ma_is_directory :: "string \<Rightarrow> 'x \<Rightarrow> bool"
  ma_is_empty :: "string \<Rightarrow> 'x \<Rightarrow> bool"
  ma_writable :: "string \<Rightarrow> 'x \<Rightarrow> bool" \<comment> \<open>\<open>access(path, W_OK) == 0\<close>\<close>
  ma_stat :: "string \<Rightarrow> 'x \<Rightarrow> (nat \<times> nat) option"
  ma_create_directories :: "string \<Rightarrow> 'x \<Rightarrow> bool \<times> 'x" \<comment> \<open>whether it failed\<close>
  ma_remove :: "string \<Rightarrow> 'x \<Rightarrow> 'x"
  ma_now :: "'x \<Rightarrow> int \<times> 'x"
  ma_sleep :: "int \<Rightarrow> 'x \<Rightarrow> 'x"
  ma_fuse_new :: "string list \<Rightarrow> 'x \<Rightarrow> nat option \<times> 'x"
  ma_fuse_mount :: "nat \<Rightarrow> string \<Rightarrow> 'x \<Rightarrow> bool \<times> 'x"
  ma_fuse_exit :: "nat \<Rightarrow> 'x \<Rightarrow> 'x"
  ma_fuse_unmount :: "nat \<Rightarrow> 'x \<Rightarrow> 'x"
  ma_fuse_destroy :: "nat \<Rightarrow> 'x \<Rightarrow> 'x"

section \<open>Names and places\<close>

definition sanitize :: "string \<Rightarrow> string" where
  "sanitize name = (let s = map (\<lambda>c. if c \<in> {slash, backslash, CHR '':'', CHR ''*'', CHR ''?'', CHR 0x22,
       CHR ''<'', CHR ''>'', CHR ''|''} then CHR ''_'' else c) name
     in if s = [] then ''share'' else s)"

definition candidate :: "string \<Rightarrow> nat \<Rightarrow> string" where
  "candidate name n = (if n = 1 then name else name @ ''-'' @ nat_string n)"

definition place_free :: "'x mount_api \<Rightarrow> string \<Rightarrow> 'x \<Rightarrow> bool" where
  "place_free a p x \<longleftrightarrow> \<not> ma_exists a p x \<or> (ma_is_directory a p x \<and> ma_is_empty a p x)"

text \<open>The loop over the numbers; the second argument is how many are left.\<close>

fun dedupe_loop :: "'x mount_api \<Rightarrow> string \<Rightarrow> string \<Rightarrow> nat \<Rightarrow> nat \<Rightarrow> 'x \<Rightarrow> string" where
  "dedupe_loop a base name n 0 x = name"
| "dedupe_loop a base name n (Suc k) x =
     (if place_free a (path_append base (candidate name n)) x then candidate name n
      else dedupe_loop a base name (n + 1) k x)"

definition dedupe_path :: "'x mount_api \<Rightarrow> string \<Rightarrow> string \<Rightarrow> 'x \<Rightarrow> string" where
  "dedupe_path a base name x = dedupe_loop a base name 1 999 x"

text \<open>\<open>parent_path()\<close>: without the filename and the slashes before it, except those of the root.\<close>

definition parent_path :: "string \<Rightarrow> string" where
  "parent_path p = (let d = dropWhile (\<lambda>c. c \<noteq> slash) (rev p); q = dropWhile (\<lambda>c. c = slash) d
     in if d = [] then [] else if q = [] then [slash] else rev q)"

definition is_mountpoint :: "'x mount_api \<Rightarrow> string \<Rightarrow> 'x \<Rightarrow> bool" where
  "is_mountpoint a path x = (case ma_stat a path x of
      None \<Rightarrow> False
    | Some (dev, ino) \<Rightarrow>
        if parent_path path = [] then False
        else (case ma_stat a (parent_path path) x of
            None \<Rightarrow> False
          | Some (pdev, pino) \<Rightarrow> dev \<noteq> pdev \<or> ino = pino))"

partial_function (option) wait_loop :: "'x mount_api \<Rightarrow> string \<Rightarrow> int \<Rightarrow> 'x \<Rightarrow> (bool \<times> 'x) option" where
  "wait_loop a path deadline x = (case ma_now a x of (t, x) \<Rightarrow>
     if t < deadline then
       (if is_mountpoint a path x then Some (True, x) else wait_loop a path deadline (ma_sleep a 100 x))
     else Some (is_mountpoint a path x, x))"

definition wait_for_mountpoint :: "'x mount_api \<Rightarrow> string \<Rightarrow> int \<Rightarrow> 'x \<Rightarrow> (bool \<times> 'x) option" where
  "wait_for_mountpoint a path timeout x = (case ma_now a x of (t, x) \<Rightarrow> wait_loop a path (t + timeout) x)"

definition ensure_directory :: "'x mount_api \<Rightarrow> string \<Rightarrow> 'x \<Rightarrow> bool \<times> 'x" where
  "ensure_directory a path x = (case ma_create_directories a path x of (ec, x) \<Rightarrow>
     (\<not> ec \<and> ma_is_directory a path x \<and> ma_writable a path x, x))"

definition env_or :: "'x mount_api \<Rightarrow> string \<Rightarrow> string \<Rightarrow> string" where
  "env_or a v d = (case ma_getenv a v of None \<Rightarrow> d | Some s \<Rightarrow> if s = [] then d else s)"

definition default_linux_mount_base :: "'x mount_api \<Rightarrow> string \<Rightarrow> 'x \<Rightarrow> string \<times> 'x" where
  "default_linux_mount_base a requested x =
     (case (if requested \<noteq> [] then ensure_directory a requested x else (False, x)) of
        (True, x) \<Rightarrow> (requested, x)
      | (False, x) \<Rightarrow>
         (let username = env_or a ''USER'' ''user'';
              media = ''/media/'' @ username;
              runMedia = ''/run/media/'' @ username;
              fallback = env_or a ''HOME'' ''/tmp'' @ ''/FolderBuddies''
          in case ensure_directory a media x of
               (True, x) \<Rightarrow> (media, x)
             | (False, x) \<Rightarrow> (case ensure_directory a runMedia x of
                 (True, x) \<Rightarrow> (runMedia, x)
               | (False, x) \<Rightarrow> (fallback, snd (ensure_directory a fallback x)))))"

section \<open>Starting and stopping\<close>

text \<open>The members of \<open>Mount\<close>; \<open>mo_thread\<close> is whether its thread is joinable.\<close>

record mount =
  mo_fuse :: "nat option"
  mo_cache :: bool
  mo_mp :: string
  mo_active :: bool
  mo_stopping :: bool
  mo_thread :: bool

definition mount_init :: mount where
  "mount_init = \<lparr>mo_fuse = None, mo_cache = False, mo_mp = [], mo_active = False, mo_stopping = False, mo_thread = False\<rparr>"

definition add_opt :: "string \<Rightarrow> string list" where
  "add_opt opt = [''-o'', opt]"

definition mount_args :: "string \<Rightarrow> bool \<Rightarrow> string list" where
  "mount_args label allowWrites = [''folderbuddies''] @ add_opt (''fsname=FolderBuddies:'' @ label) @
     add_opt ''subtype=folderbuddies'' @ (if \<not> allowWrites then add_opt ''ro'' else []) @ add_opt ''auto_unmount''"

text \<open>\<open>Mount::start\<close> up to the wait: the thread is running.\<close>

definition mount_launch ::
  "'x mount_api \<Rightarrow> string \<Rightarrow> string \<Rightarrow> bool \<Rightarrow> mount \<times> 'x \<Rightarrow> (string + unit) \<times> mount \<times> 'x" where
  "mount_launch a mountBase volname allowWrites = (\<lambda>(m, x).
     case ma_backend a x of
       (Inl err, x) \<Rightarrow> (Inl err, m, x)
     | (Inr _, x) \<Rightarrow>
        if mo_fuse m \<noteq> None then (Inl ''a share is already mounted'', m, x)
        else (let m = m\<lparr>mo_stopping := False, mo_active := False\<rparr>; name = sanitize volname in
          case default_linux_mount_base a mountBase x of (base, x) \<Rightarrow>
          let label = dedupe_path a base name x;
              mp = base @ ''/'' @ label;
              m = m\<lparr>mo_mp := mp\<rparr>;
              x = snd (ma_create_directories a mp x);
              m = m\<lparr>mo_cache := True\<rparr>
          in case ma_fuse_new a (mount_args label allowWrites) x of
               (None, x) \<Rightarrow> (Inl ''fuse_new failed (is the FUSE driver installed?)'', m\<lparr>mo_cache := False\<rparr>, x)
             | (Some f, x) \<Rightarrow> (case ma_fuse_mount a f mp x of
                 (False, x) \<Rightarrow> (Inl (''fuse_mount failed for '' @ mp), m\<lparr>mo_fuse := None, mo_cache := False\<rparr>,
                    ma_fuse_destroy a f x)
               | (True, x) \<Rightarrow> (Inr (), m\<lparr>mo_fuse := Some f, mo_thread := True\<rparr>, x))))"

text \<open>The removal of a mount point that is no longer in use.\<close>

definition remove_mountpoint :: "'x mount_api \<Rightarrow> string \<Rightarrow> 'x \<Rightarrow> 'x" where
  "remove_mountpoint a mp x = (if mp \<noteq> [] \<and> ma_is_empty a mp x
     then (let x = ma_remove a mp x
       in if filename (parent_path mp) = ''FolderBuddies'' then ma_remove a (parent_path mp) x else x)
     else x)"

text \<open>Joining the thread waits for the end of its loop, which \<open>fuse_exit\<close> and \<open>fuse_unmount\<close> cause.\<close>

definition mount_stop :: "'x mount_api \<Rightarrow> mount \<times> 'x \<Rightarrow> mount \<times> 'x" where
  "mount_stop a = (\<lambda>(m, x).
     let m = m\<lparr>mo_stopping := True, mo_active := False\<rparr> in
     case mo_fuse m of
       None \<Rightarrow> (m\<lparr>mo_cache := False\<rparr>, x)
     | Some f \<Rightarrow> (let
           x = ma_fuse_unmount a f (ma_fuse_exit a f x);
           m = m\<lparr>mo_thread := False\<rparr>;
           x = ma_fuse_destroy a f x
         in (m\<lparr>mo_fuse := None, mo_cache := False\<rparr>, remove_mountpoint a (mo_mp m) x)))"

definition mount_settle :: "'x mount_api \<Rightarrow> bool \<Rightarrow> mount \<times> 'x \<Rightarrow> (string + unit) \<times> mount \<times> 'x" where
  "mount_settle a visible = (\<lambda>(m, x).
     if \<not> visible
     then (Inl (''FUSE started but the OS did not expose '' @ mo_mp m @ '' as a mounted volume''), mount_stop a (m, x))
     else (Inr (), m\<lparr>mo_active := True\<rparr>, x))"

definition kMountWaitMs :: int where "kMountWaitMs = 25000"

definition mount_start ::
  "'x mount_api \<Rightarrow> string \<Rightarrow> string \<Rightarrow> bool \<Rightarrow> mount \<times> 'x \<Rightarrow> ((string + unit) \<times> mount \<times> 'x) option" where
  "mount_start a mountBase volname allowWrites mx = (case mount_launch a mountBase volname allowWrites mx of
      (Inl err, mx) \<Rightarrow> Some (Inl err, mx)
    | (Inr _, m, x) \<Rightarrow> (case wait_for_mountpoint a (mo_mp m) kMountWaitMs x of
        None \<Rightarrow> None
      | Some (visible, x) \<Rightarrow> Some (mount_settle a visible (m, x))))"

section \<open>The wait ends\<close>

text \<open>\<open>sleep_for\<close> blocks at least as long as it is asked to, and the clock is steady.\<close>

definition clock_runs :: "'x mount_api \<Rightarrow> bool" where
  "clock_runs a \<longleftrightarrow> (\<forall>x t x' t' x''. ma_now a x = (t, x') \<longrightarrow> ma_now a (ma_sleep a 100 x') = (t', x'') \<longrightarrow> t + 100 \<le> t')"

lemma wait_loop_ends:
  assumes "clock_runs a" "ma_now a x = (t, x')" "I x"
    and keeps: "\<And>x. I x \<Longrightarrow> I (snd (ma_now a x))" "\<And>x. I x \<Longrightarrow> I (ma_sleep a 100 x)"
  shows "\<exists>y. wait_loop a path deadline x = Some (is_mountpoint a path y, y) \<and> I y"
  using assms(2,3)
proof (induction "nat (deadline - t)" arbitrary: x t x' rule: less_induct)
  case less
  have y: "I x'" using keeps(1) [OF less.prems(2)] less.prems(1) by simp
  show ?case
  proof (cases "t < deadline \<and> \<not> is_mountpoint a path x'")
    case True
    obtain t' x'' where n: "ma_now a (ma_sleep a 100 x') = (t', x'')" by fastforce
    then have "t + 100 \<le> t'" using assms(1) less.prems unfolding clock_runs_def by blast
    then have "nat (deadline - t') < nat (deadline - t)" using True by simp
    from less.hyps [OF this n keeps(2) [OF y]] True less.prems(1) show ?thesis by (subst wait_loop.simps) simp
  next
    case False
    then show ?thesis using less.prems(1) y by (subst wait_loop.simps) auto
  qed
qed

lemma wait_ends:
  assumes "clock_runs a" "I x"
    and keeps: "\<And>x. I x \<Longrightarrow> I (snd (ma_now a x))" "\<And>x. I x \<Longrightarrow> I (ma_sleep a 100 x)"
  shows "\<exists>y. wait_for_mountpoint a path timeout x = Some (is_mountpoint a path y, y) \<and> I y"
proof -
  obtain t x' where n: "ma_now a x = (t, x')" by fastforce
  obtain t' x'' where n': "ma_now a x' = (t', x'')" by fastforce
  have "I x'" using keeps(1) [OF assms(2)] n by simp
  from wait_loop_ends [where I = I, OF assms(1) n' this keeps] show ?thesis by (simp add: wait_for_mountpoint_def n)
qed

section \<open>What libfuse is left with\<close>

text \<open>
  The same calls with a ledger of the live \<open>struct fuse\<close> objects and of what is mounted.
\<close>

type_synonym 'x ledger = "nat multiset \<times> (nat \<times> string) multiset \<times> 'x"

definition tracked_mounts :: "'x mount_api \<Rightarrow> 'x ledger mount_api" where
  "tracked_mounts a = \<lparr>
     ma_backend = (\<lambda>(l, m, x). case ma_backend a x of (r, x) \<Rightarrow> (r, l, m, x)),
     ma_getenv = ma_getenv a,
     ma_exists = (\<lambda>p (l, m, x). ma_exists a p x),
     ma_is_directory = (\<lambda>p (l, m, x). ma_is_directory a p x),
     ma_is_empty = (\<lambda>p (l, m, x). ma_is_empty a p x),
     ma_writable = (\<lambda>p (l, m, x). ma_writable a p x),
     ma_stat = (\<lambda>p (l, m, x). ma_stat a p x),
     ma_create_directories = (\<lambda>p (l, m, x). case ma_create_directories a p x of (r, x) \<Rightarrow> (r, l, m, x)),
     ma_remove = (\<lambda>p (l, m, x). (l, m, ma_remove a p x)),
     ma_now = (\<lambda>(l, m, x). case ma_now a x of (t, x) \<Rightarrow> (t, l, m, x)),
     ma_sleep = (\<lambda>d (l, m, x). (l, m, ma_sleep a d x)),
     ma_fuse_new = (\<lambda>args (l, m, x). case ma_fuse_new a args x of
         (None, x) \<Rightarrow> (None, l, m, x) | (Some f, x) \<Rightarrow> (Some f, add_mset f l, m, x)),
     ma_fuse_mount = (\<lambda>f p (l, m, x). case ma_fuse_mount a f p x of
         (ok, x) \<Rightarrow> (ok, l, if ok then add_mset (f, p) m else m, x)),
     ma_fuse_exit = (\<lambda>f (l, m, x). (l, m, ma_fuse_exit a f x)),
     ma_fuse_unmount = (\<lambda>f (l, m, x). (l, filter_mset (\<lambda>(g, _). g \<noteq> f) m, ma_fuse_unmount a f x)),
     ma_fuse_destroy = (\<lambda>f (l, m, x). (l - {#f#}, m, ma_fuse_destroy a f x))\<rparr>"

definition ledger_of :: "'x ledger \<Rightarrow> nat multiset \<times> (nat \<times> string) multiset" where
  "ledger_of x = (fst x, fst (snd x))"

lemma ledger_clock:
  "ledger_of (snd (ma_now (tracked_mounts a) x)) = ledger_of x"
  "ledger_of (ma_sleep (tracked_mounts a) d x) = ledger_of x"
  "clock_runs a \<Longrightarrow> clock_runs (tracked_mounts a)"
proof -
  show "ledger_of (snd (ma_now (tracked_mounts a) x)) = ledger_of x" "ledger_of (ma_sleep (tracked_mounts a) d x) = ledger_of x"
    by (cases x; simp add: tracked_mounts_def ledger_of_def split: prod.split)+
  show "clock_runs (tracked_mounts a)" if "clock_runs a"
    unfolding clock_runs_def
  proof (intro allI impI)
    fix x t x' t' x''
    assume "ma_now (tracked_mounts a) x = (t, x')" "ma_now (tracked_mounts a) (ma_sleep (tracked_mounts a) 100 x') = (t', x'')"
    then show "t + 100 \<le> t'"
      using that unfolding clock_runs_def by (cases x; cases x') (fastforce simp: tracked_mounts_def split: prod.splits)
  qed
qed

lemma ledger_dirs: "ledger_of (snd (ma_create_directories (tracked_mounts a) p x)) = ledger_of x"
  "ledger_of (remove_mountpoint (tracked_mounts a) p x) = ledger_of x"
  by (cases x; simp add: tracked_mounts_def ledger_of_def remove_mountpoint_def Let_def split: prod.split)+

lemma ledger_ensure: "ledger_of (snd (ensure_directory (tracked_mounts a) p x)) = ledger_of x"
proof -
  obtain ec y where y: "ma_create_directories (tracked_mounts a) p x = (ec, y)" by (metis surj_pair)
  then show ?thesis using ledger_dirs(1) [of a p x] by (simp add: ensure_directory_def)
qed

lemma ledger_base: "ledger_of (snd (default_linux_mount_base (tracked_mounts a) r x)) = ledger_of x"
proof -
  let ?media = "''/media/'' @ env_or (tracked_mounts a) ''USER'' ''user''"
  let ?run = "''/run/media/'' @ env_or (tracked_mounts a) ''USER'' ''user''"
  obtain b y where y: "(if r \<noteq> [] then ensure_directory (tracked_mounts a) r x else (False, x)) = (b, y)"
    by (metis surj_pair)
  have ly: "ledger_of y = ledger_of x"
    using ledger_ensure [of a r x] y by (cases "r = []") simp_all
  obtain b1 z1 where z1: "ensure_directory (tracked_mounts a) ?media y = (b1, z1)" by (metis surj_pair)
  obtain b2 z2 where z2: "ensure_directory (tracked_mounts a) ?run z1 = (b2, z2)" by (metis surj_pair)
  have l: "ledger_of z1 = ledger_of x" "ledger_of z2 = ledger_of x"
    using ledger_ensure [of a ?media y] ledger_ensure [of a ?run z1] ly unfolding z1 z2 by simp_all
  show ?thesis
    unfolding default_linux_mount_base_def Let_def y prod.case z1 z2
    by (cases b; cases b1; cases b2; simp only: bool.case prod.case snd_conv ledger_ensure ly l)
qed

lemma ledger_unmount:
  "ledger_of (ma_fuse_destroy (tracked_mounts a) f (ma_fuse_unmount (tracked_mounts a) f (ma_fuse_exit (tracked_mounts a) f x))) =
    (fst x - {#f#}, filter_mset (\<lambda>(g, _). g \<noteq> f) (fst (snd x)))"
  by (cases x) (simp add: tracked_mounts_def ledger_of_def)

section \<open>Starting and stopping leave nothing behind\<close>

definition mount_idle :: "mount \<Rightarrow> bool" where
  "mount_idle m \<longleftrightarrow> mo_fuse m = None \<and> \<not> mo_cache m \<and> \<not> mo_active m \<and> \<not> mo_thread m"

lemma mount_stop_idle:
  assumes "mo_fuse m = Some f" "ledger_of x = ({#f#}, {#(f, p)#})"
  shows "mount_idle (fst (mount_stop (tracked_mounts a) (m, x)))"
    "ledger_of (snd (mount_stop (tracked_mounts a) (m, x))) = ({#}, {#})"
  using assms ledger_unmount [of a f x]
  by (simp_all add: mount_stop_def mount_idle_def Let_def ledger_dirs) (simp add: ledger_of_def)

text \<open>The name of the mount point is one component, whatever the host called the share.\<close>

lemma slash_digits: "slash \<notin> set (nat_string n)"
proof (induction n rule: nat_string.induct)
  case (1 n)
  have "char_of (48 + n mod 10) \<noteq> slash"
  proof
    assume "char_of (48 + n mod 10) = slash"
    then have "of_char (char_of (48 + n mod 10) :: char) = (of_char slash :: nat)" by simp
    moreover have "n mod 10 < 10" by simp
    ultimately show False by simp
  qed
  then show ?case using 1 by (subst nat_string.simps) auto
qed

lemma slash_sanitize: "slash \<notin> set (sanitize name)"
  by (auto simp: sanitize_def Let_def)

lemma slash_dedupe: "slash \<notin> set name \<Longrightarrow> slash \<notin> set (dedupe_loop a base name n k x)"
  by (induction a base name n k x rule: dedupe_loop.induct) (auto simp: candidate_def slash_digits)

lemma launch_cases:
  assumes "mount_idle m" "ledger_of x = ({#}, {#})"
  obtains (failed) err m' x' where "mount_launch (tracked_mounts a) mb vol aw (m, x) = (Inl err, m', x')"
      "mount_idle m'" "ledger_of x' = ({#}, {#})"
  | (launched) f m' x' base label where "mount_launch (tracked_mounts a) mb vol aw (m, x) = (Inr (), m', x')"
      "mo_fuse m' = Some f" "mo_cache m'" "mo_thread m'" "ledger_of x' = ({#f#}, {#(f, mo_mp m')#})"
      "mo_mp m' = base @ ''/'' @ label" "slash \<notin> set label"
proof -
  let ?a = "tracked_mounts a"
  obtain r x1 where b: "ma_backend ?a x = (r, x1)" by (metis surj_pair)
  then have l1: "ledger_of x1 = ({#}, {#})"
    using assms(2) by (cases x) (auto simp: tracked_mounts_def ledger_of_def split: prod.splits)
  show thesis
  proof (cases r)
    case (Inl err)
    then show thesis using failed [of err m x1] b l1 assms(1) by (simp add: mount_launch_def)
  next
    case (Inr u)
    obtain base x2 where d: "default_linux_mount_base ?a mb x1 = (base, x2)" by (metis surj_pair)
    define label where "label = dedupe_path ?a base (sanitize vol) x2"
    define mp where "mp = base @ ''/'' @ label"
    obtain ec x3 where c: "ma_create_directories ?a mp x2 = (ec, x3)" by (metis surj_pair)
    have l3: "ledger_of x3 = ({#}, {#})"
      using ledger_base [of a mb x1] ledger_dirs(1) [of a mp x2] l1 d c by simp
    obtain ff x4 where n: "ma_fuse_new ?a (mount_args label aw) x3 = (ff, x4)" by (metis surj_pair)
    let ?m = "m\<lparr>mo_stopping := False, mo_active := False, mo_mp := mp, mo_cache := True\<rparr>"
    have la: "mount_launch ?a mb vol aw (m, x) = (case ff of
        None \<Rightarrow> (Inl ''fuse_new failed (is the FUSE driver installed?)'', ?m\<lparr>mo_cache := False\<rparr>, x4)
      | Some f \<Rightarrow> (case ma_fuse_mount ?a f mp x4 of
          (False, x) \<Rightarrow> (Inl (''fuse_mount failed for '' @ mp), ?m\<lparr>mo_fuse := None, mo_cache := False\<rparr>, ma_fuse_destroy ?a f x)
        | (True, x) \<Rightarrow> (Inr (), ?m\<lparr>mo_fuse := Some f, mo_thread := True\<rparr>, x)))"
      using assms(1) b Inr d c [unfolded mp_def label_def] n [unfolded label_def]
      unfolding mp_def label_def
      by (simp add: mount_launch_def mount_idle_def Let_def split: option.split prod.split bool.split)
    have l4: "ledger_of x4 = (case ff of None \<Rightarrow> ({#}, {#}) | Some f \<Rightarrow> ({#f#}, {#}))"
      using n l3 by (cases x3) (auto simp: tracked_mounts_def ledger_of_def split: prod.splits option.splits)
    show thesis
    proof (cases ff)
      case None
      then show thesis using failed la l4 assms(1) by (simp add: mount_idle_def)
    next
      case (Some f)
      obtain ok x5 where o: "ma_fuse_mount ?a f mp x4 = (ok, x5)" by (metis surj_pair)
      have l5: "ledger_of x5 = ({#f#}, if ok then {#(f, mp)#} else {#})"
        using o l4 Some by (cases x4) (auto simp: tracked_mounts_def ledger_of_def split: prod.splits)
      show thesis
      proof (cases ok)
        case True
        have "slash \<notin> set label" unfolding label_def dedupe_path_def by (rule slash_dedupe [OF slash_sanitize])
        then show thesis using launched la Some o True l5 by (simp add: mp_def)
      next
        case False
        have "ledger_of (ma_fuse_destroy ?a f x5) = ({#}, {#})"
          using l5 False by (cases x5) (simp add: tracked_mounts_def ledger_of_def)
        then show thesis using failed la Some o False assms(1) by (simp add: mount_idle_def)
      qed
    qed
  qed
qed

lemma mount_start_outcome:
  assumes "clock_runs a" "mount_idle m" "ledger_of x = ({#}, {#})"
  obtains (failed) err m' x' where "mount_start (tracked_mounts a) mb vol aw (m, x) = Some (Inl err, m', x')"
      "mount_idle m'" "ledger_of x' = ({#}, {#})"
  | (mounted) f m' x' base label where "mount_start (tracked_mounts a) mb vol aw (m, x) = Some (Inr (), m', x')"
      "mo_fuse m' = Some f" "mo_cache m'" "mo_thread m'" "mo_active m'" "ledger_of x' = ({#f#}, {#(f, mo_mp m')#})"
      "mo_mp m' = base @ ''/'' @ label" "slash \<notin> set label" "is_mountpoint (tracked_mounts a) (mo_mp m') x'"
proof -
  show thesis
  proof (rule launch_cases [OF assms(2,3), of a mb vol aw], goal_cases fails launches)
    case (fails err m' x')
    then show thesis using failed [of err m' x'] by (simp add: mount_start_def)
  next
    case (launches f m1 x1 base label)
    let ?a = "tracked_mounts a"
    have "\<exists>y. wait_for_mountpoint ?a (mo_mp m1) kMountWaitMs x1 = Some (is_mountpoint ?a (mo_mp m1) y, y) \<and> ledger_of y = ledger_of x1"
      by (rule wait_ends [where I = "\<lambda>y. ledger_of y = ledger_of x1"]) (simp_all add: ledger_clock assms(1))
    then obtain y where y: "wait_for_mountpoint ?a (mo_mp m1) kMountWaitMs x1 = Some (is_mountpoint ?a (mo_mp m1) y, y)"
      "ledger_of y = ledger_of x1" by blast
    note y = y(1) y(2) [unfolded launches(5)]
    have st: "mount_start ?a mb vol aw (m, x) = Some (mount_settle ?a (is_mountpoint ?a (mo_mp m1) y) (m1, y))"
      using launches(1) y(1) by (simp add: mount_start_def)
    show thesis
    proof (cases "is_mountpoint ?a (mo_mp m1) y")
      case True
      then show thesis using mounted [of "m1\<lparr>mo_active := True\<rparr>" y f base label] launches(2-7) st y(2)
        by (simp add: mount_settle_def)
    next
      case False
      obtain m2 x2 where s: "mount_stop ?a (m1, y) = (m2, x2)" by (metis surj_pair)
      then show thesis using failed [of _ m2 x2] mount_stop_idle [OF launches(2) y(2), of a] st False
        by (simp add: mount_settle_def)
    qed
  qed
qed

text \<open>C30: On a machine whose clock runs, Mount::start returns; it either mounts, with exactly one
  FUSE object mounted at the mount point, and the mount active, or it fails with no FUSE
  object alive, nothing mounted and the mount idle, so that it can be started again.\<close>

theorem mount_start_all_or_nothing:
  assumes "clock_runs a" "mount_idle m"
  shows "\<exists>r m' live mounted x'. mount_start (tracked_mounts a) mb vol aw (m, {#}, {#}, x) = Some (r, m', live, mounted, x') \<and>
    (case r of
       Inl err \<Rightarrow> mount_idle m' \<and> live = {#} \<and> mounted = {#}
     | Inr _ \<Rightarrow> (\<exists>f base label. mo_fuse m' = Some f \<and> mo_cache m' \<and> mo_active m' \<and> mo_thread m' \<and>
         mo_mp m' = base @ ''/'' @ label \<and> slash \<notin> set label \<and> is_mountpoint a (mo_mp m') x' \<and>
         live = {#f#} \<and> mounted = {#(f, mo_mp m')#} \<and>
         mount_idle (fst (mount_stop (tracked_mounts a) (m', live, mounted, x'))) \<and>
         ledger_of (snd (mount_stop (tracked_mounts a) (m', live, mounted, x'))) = ({#}, {#})))"
proof -
  have l: "ledger_of (({#}, {#}, x) :: 'a ledger) = ({#}, {#})" by (simp add: ledger_of_def)
  show ?thesis
  proof (rule mount_start_outcome [OF assms l, of mb vol aw], goal_cases failed mounted)
    case (failed err m' x')
    obtain lv ms y where "x' = (lv, ms, y)" by (metis prod_cases3)
    then show ?thesis using failed by (auto simp: ledger_of_def)
  next
    case (mounted f m' x' base label)
    obtain lv ms y where x': "x' = (lv, ms, y)" by (metis prod_cases3)
    have "ma_stat (tracked_mounts a) p x' = ma_stat a p y" for p by (simp add: x' tracked_mounts_def)
    then have "is_mountpoint (tracked_mounts a) p x' = is_mountpoint a p y" for p by (simp only: is_mountpoint_def)
    then show ?thesis
      using mounted mount_stop_idle [OF mounted(2,6), of a] by (auto simp: x' ledger_of_def)
  qed
qed

text \<open>A system on which the kernel shows a mount at once.\<close>

definition ex_mount_api :: "(int \<times> string list) mount_api" where
  "ex_mount_api = \<lparr>ma_backend = (\<lambda>x. (Inr (), x)), ma_getenv = (\<lambda>v. if v = ''USER'' then Some ''ann'' else None),
     ma_exists = (\<lambda>p x. False), ma_is_directory = (\<lambda>p x. True), ma_is_empty = (\<lambda>p x. True), ma_writable = (\<lambda>p x. True),
     ma_stat = (\<lambda>p (t, ms). Some (if p \<in> set ms then 2 else 1, 7)),
     ma_create_directories = (\<lambda>p x. (False, x)), ma_remove = (\<lambda>p x. x),
     ma_now = (\<lambda>(t, ms). (t, t, ms)), ma_sleep = (\<lambda>d (t, ms). (t + d, ms)),
     ma_fuse_new = (\<lambda>args x. (Some 1, x)), ma_fuse_mount = (\<lambda>f p (t, ms). (True, t, p # ms)),
     ma_fuse_exit = (\<lambda>f x. x), ma_fuse_unmount = (\<lambda>f (t, ms). (t, [])), ma_fuse_destroy = (\<lambda>f x. x)\<rparr>"

lemma ex_mount_starts:
  "\<exists>m y. mount_start (tracked_mounts ex_mount_api) [] ''pics'' True (mount_init, {#}, {#}, 0, []) = Some (Inr (), m, y)"
proof -
  let ?a = "tracked_mounts ex_mount_api" and ?mp = "''/media/ann/pics''"
  let ?m = "mount_init\<lparr>mo_mp := ?mp, mo_cache := True, mo_fuse := Some 1, mo_thread := True\<rparr>"
  have d: "default_linux_mount_base ?a [] ({#}, {#}, 0, []) = (''/media/ann'', {#}, {#}, 0, [])"
    by (simp add: default_linux_mount_base_def ensure_directory_def env_or_def tracked_mounts_def ex_mount_api_def)
  have n: "sanitize ''pics'' = ''pics''" by code_simp
  have l: "dedupe_path ?a ''/media/ann'' ''pics'' x = ''pics''" for x
    by (cases x) (simp add: dedupe_path_def candidate_def place_free_def tracked_mounts_def ex_mount_api_def numeral_eq_Suc)
  have 1: "mount_launch ?a [] ''pics'' True (mount_init, {#}, {#}, 0, []) = (Inr (), ?m, {#1#}, {#(1, ?mp)#}, 0, [?mp])"
  proof -
    have "ma_backend ?a x = (Inr (), x)" "ma_create_directories ?a p x = (False, x)" for p x
      by (cases x; simp add: tracked_mounts_def ex_mount_api_def)+
    moreover have "ma_fuse_new ?a args ({#}, {#}, 0, []) = (Some 1, {#1#}, {#}, 0, [])"
      "ma_fuse_mount ?a 1 p ({#1#}, {#}, 0, []) = (True, {#1#}, {#(1, p)#}, 0, [p])" for args p
      by (simp_all add: tracked_mounts_def ex_mount_api_def)
    ultimately show ?thesis by (simp add: mount_launch_def d n l Let_def mount_init_def del: One_nat_def)
  qed
  have "parent_path ?mp = ''/media/ann''" by code_simp
  then have v: "is_mountpoint ?a ?mp ({#1#}, {#(1, ?mp)#}, 0, [?mp])"
    by (simp add: is_mountpoint_def tracked_mounts_def ex_mount_api_def)
  have t: "ma_now ?a ({#1#}, {#(1, ?mp)#}, t, [?mp]) = (t, {#1#}, {#(1, ?mp)#}, t, [?mp])" for t
    by (simp add: tracked_mounts_def ex_mount_api_def)
  have "wait_for_mountpoint ?a ?mp kMountWaitMs ({#1#}, {#(1, ?mp)#}, 0, [?mp]) = Some (True, {#1#}, {#(1, ?mp)#}, 0, [?mp])"
    unfolding wait_for_mountpoint_def t prod.case
    by (subst wait_loop.simps) (simp add: t v kMountWaitMs_def del: One_nat_def)
  then show ?thesis unfolding mount_start_def 1 by (simp add: mount_settle_def del: One_nat_def)
qed

theorem mount_start_all_or_nothing_witness:
  "\<exists>m live mounted x'. mount_start (tracked_mounts ex_mount_api) [] ''pics'' True (mount_init, {#}, {#}, 0, []) =
       Some (Inr (), m, live, mounted, x') \<and>
     mo_active m \<and> live = {#the (mo_fuse m)#} \<and> mounted = {#(the (mo_fuse m), mo_mp m)#}"
proof -
  have c: "clock_runs ex_mount_api" by (auto simp: clock_runs_def ex_mount_api_def)
  have "mount_idle mount_init" by (simp add: mount_idle_def mount_init_def)
  from mount_start_all_or_nothing [OF c this, of "[]" "''pics''" True "(0, [])"] ex_mount_starts
  show ?thesis by auto
qed

section \<open>What a failed start and a share name can do\<close>

text \<open>Stopping after a failed start does not remove the directory that the start created.\<close>

lemma failed_mount_point_stays:
  assumes "mo_fuse m = None" "mount_launch a mb vol aw (m, x) = (Inl err, m', x')"
  shows "mount_stop a (m', x') = (m'\<lparr>mo_stopping := True, mo_active := False, mo_cache := False\<rparr>, x')"
    "mount_launch (a\<lparr>ma_remove := rm\<rparr>) mb vol aw (m, x) = (Inl err, m', x')"
proof -
  have "mo_fuse m' = None"
    using assms by (auto simp: mount_launch_def Let_def split: prod.splits sum.splits option.splits bool.splits if_splits)
  then show "mount_stop a (m', x') = (m'\<lparr>mo_stopping := True, mo_active := False, mo_cache := False\<rparr>, x')"
    by (simp add: mount_stop_def Let_def)
  have "ensure_directory (a\<lparr>ma_remove := rm\<rparr>) = ensure_directory a" "env_or (a\<lparr>ma_remove := rm\<rparr>) = env_or a"
    by (intro ext; simp add: ensure_directory_def env_or_def)+
  then have d: "default_linux_mount_base (a\<lparr>ma_remove := rm\<rparr>) = default_linux_mount_base a"
    by (intro ext) (simp only: default_linux_mount_base_def)
  have l: "dedupe_loop (a\<lparr>ma_remove := rm\<rparr>) b n i k y = dedupe_loop a b n i k y" for b n i k y
    by (induction a b n i k y rule: dedupe_loop.induct) (simp_all add: place_free_def)
  have s: "ma_backend (a\<lparr>ma_remove := rm\<rparr>) = ma_backend a" "ma_fuse_new (a\<lparr>ma_remove := rm\<rparr>) = ma_fuse_new a"
    "ma_create_directories (a\<lparr>ma_remove := rm\<rparr>) = ma_create_directories a"
    "ma_fuse_mount (a\<lparr>ma_remove := rm\<rparr>) = ma_fuse_mount a" "ma_fuse_destroy (a\<lparr>ma_remove := rm\<rparr>) = ma_fuse_destroy a"
    by simp_all
  have "mount_launch (a\<lparr>ma_remove := rm\<rparr>) mb vol aw (m, x) = mount_launch a mb vol aw (m, x)"
    unfolding mount_launch_def dedupe_path_def d l s ..
  then show "mount_launch (a\<lparr>ma_remove := rm\<rparr>) mb vol aw (m, x) = (Inl err, m', x')" using assms(2) by simp
qed

text \<open>A comma in the name of a share, at which libfuse splits the value of \<open>-o\<close>, is kept.\<close>

lemma share_name_adds_options:
  assumes "name \<noteq> []" "opt \<noteq> []"
  shows "take 3 (mount_args (sanitize (name @ '','' @ opt)) aw) =
    [''folderbuddies'', ''-o'', ''fsname=FolderBuddies:'' @ sanitize name @ '','' @ sanitize opt]"
  using assms by (simp add: mount_args_def add_opt_def sanitize_def Let_def)

end
