(* ===== verification/MountEject.thy ===== *)
theory MountEject
  imports FuseMount
begin

text \<open>
  The two threads of a mount, from \<open>Mount::start\<close>, \<open>Mount::stop\<close> and the thread that runs the FUSE loop:
  one step per atomic access of \<open>stopping_\<close> and \<open>active_\<close>. The owner starts and stops; the loop's thread
  reports an ejection through the callback. The owner's callback does not call \<open>stop\<close> itself.
\<close>

datatype owner = Resting | Launched | Serving | StopFlagged | Joining
datatype fuse_thread = Looping | Checked | Calling | Ended

record ejection =
  je_stopping :: bool
  je_active :: bool
  je_owner :: owner
  je_thread :: "fuse_thread option"
  je_starts :: nat \<comment> \<open>starts that succeeded\<close>
  je_calls :: nat \<comment> \<open>calls of the ejected callback\<close>

definition eject_init :: ejection where
  "eject_init = \<lparr>je_stopping = False, je_active = False, je_owner = Resting, je_thread = None, je_starts = 0, je_calls = 0\<rparr>"

text \<open>
  \<open>launch\<close> is \<open>mount_launch\<close>, \<open>activate\<close> and \<open>give_up\<close> are the two ends of \<open>mount_settle\<close>, \<open>flag\<close>, \<open>clear\<close> and
  \<open>join\<close> are the parts of \<open>mount_stop\<close>; the other three are the thread after \<open>fuse_loop_mt\<close> returned.
\<close>

inductive eject_step :: "ejection \<Rightarrow> ejection \<Rightarrow> bool" where
  launch: "je_owner s = Resting \<Longrightarrow>
    eject_step s (s\<lparr>je_stopping := False, je_active := False, je_owner := Launched, je_thread := Some Looping\<rparr>)"
| activate: "je_owner s = Launched \<Longrightarrow>
    eject_step s (s\<lparr>je_active := True, je_owner := Serving, je_starts := je_starts s + 1\<rparr>)"
| give_up: "je_owner s = Launched \<Longrightarrow> eject_step s (s\<lparr>je_stopping := True, je_owner := StopFlagged\<rparr>)"
| flag: "je_owner s = Serving \<Longrightarrow> eject_step s (s\<lparr>je_stopping := True, je_owner := StopFlagged\<rparr>)"
| clear: "je_owner s = StopFlagged \<Longrightarrow> eject_step s (s\<lparr>je_active := False, je_owner := Joining\<rparr>)"
| join: "je_owner s = Joining \<Longrightarrow> je_thread s = Some Ended \<Longrightarrow>
    eject_step s (s\<lparr>je_owner := Resting, je_thread := None\<rparr>)"
| loop_end: "je_thread s = Some Looping \<Longrightarrow>
    eject_step s (s\<lparr>je_thread := Some (if je_stopping s then Ended else Checked)\<rparr>)"
| exchange: "je_thread s = Some Checked \<Longrightarrow>
    eject_step s (if je_active s
      then s\<lparr>je_active := False, je_thread := Some Calling, je_calls := je_calls s + 1\<rparr>
      else s\<lparr>je_thread := Some Ended\<rparr>)"
| called: "je_thread s = Some Calling \<Longrightarrow> eject_step s (s\<lparr>je_thread := Some Ended\<rparr>)"

abbreviation eject_steps :: "ejection \<Rightarrow> ejection \<Rightarrow> bool" where
  "eject_steps \<equiv> eject_step\<^sup>*\<^sup>*"

definition eject_inv :: "ejection \<Rightarrow> bool" where
  "eject_inv s \<longleftrightarrow> (je_owner s = Resting \<longleftrightarrow> je_thread s = None) \<and>
     (je_owner s \<in> {Resting, Launched, Joining} \<longrightarrow> \<not> je_active s) \<and>
     (je_owner s = Launched \<longrightarrow> je_thread s \<noteq> Some Calling) \<and>
     (je_owner s \<in> {StopFlagged, Joining} \<longleftrightarrow> je_stopping s \<and> je_owner s \<noteq> Resting) \<and>
     je_calls s + of_bool (je_active s) \<le> je_starts s"

lemma eject_inv_init: "eject_inv eject_init"
  by (simp add: eject_inv_def eject_init_def)

lemma eject_inv_step: "eject_step s s' \<Longrightarrow> eject_inv s \<Longrightarrow> eject_inv s'"
  by (induction rule: eject_step.induct) (auto simp: eject_inv_def split: if_splits)

lemma eject_inv_reachable: "eject_steps eject_init s \<Longrightarrow> eject_inv s"
  by (induction rule: rtranclp_induct) (use eject_inv_init eject_inv_step in blast)+

text \<open>A thread that has left the FUSE loop, or leaves it after \<open>fuse_exit\<close>, ends.\<close>

lemma thread_ends:
  assumes "eject_inv s" "je_owner s = Joining"
  shows "\<exists>s'. eject_steps s s' \<and> je_thread s' = Some Ended \<and> je_owner s' = Joining"
proof -
  obtain p where p: "je_thread s = Some p" using assms by (auto simp: eject_inv_def)
  have f: "\<not> je_active s" "je_stopping s" using assms by (auto simp: eject_inv_def)
  show ?thesis
  proof (cases p)
    case Looping
    then show ?thesis using eject_step.loop_end [of s] p f assms(2) by (intro exI [of _ "s\<lparr>je_thread := Some Ended\<rparr>"]) auto
  next
    case Checked
    then show ?thesis using eject_step.exchange [of s] p f assms(2) by (intro exI [of _ "s\<lparr>je_thread := Some Ended\<rparr>"]) auto
  next
    case Calling
    then show ?thesis using eject_step.called [of s] p assms(2) by (intro exI [of _ "s\<lparr>je_thread := Some Ended\<rparr>"]) auto
  next
    case Ended
    then show ?thesis using p assms(2) by auto
  qed
qed

lemma stop_returns:
  assumes "eject_inv s" "je_owner s \<in> {StopFlagged, Joining}"
  shows "\<exists>s'. eject_steps s s' \<and> je_owner s' = Resting"
proof -
  obtain s1 where s1: "eject_steps s s1" "je_owner s1 = Joining" "eject_inv s1"
  proof (cases "je_owner s = Joining")
    case True
    then show thesis using that [of s] assms(1) by simp
  next
    case False
    let ?s = "s\<lparr>je_active := False, je_owner := Joining\<rparr>"
    have st: "eject_step s ?s" using assms(2) False by (intro eject_step.clear) simp
    show thesis by (rule that [of ?s]) (use st eject_inv_step [OF st assms(1)] in auto)
  qed
  obtain s2 where s2: "eject_steps s1 s2" "je_thread s2 = Some Ended" "je_owner s2 = Joining"
    using thread_ends [OF s1(3,2)] by blast
  then have "eject_step s2 (s2\<lparr>je_owner := Resting, je_thread := None\<rparr>)" by (intro eject_step.join)
  then have "eject_steps s (s2\<lparr>je_owner := Resting, je_thread := None\<rparr>)" using s1(1) s2(1) by auto
  moreover have "je_owner (s2\<lparr>je_owner := Resting, je_thread := None\<rparr>) = Resting" by simp
  ultimately show ?thesis by blast
qed


text \<open>An ejection before \<open>start\<close> has returned: the mount counts as active, and nothing is ever reported.\<close>

definition lost_ejection :: ejection where
  "lost_ejection = \<lparr>je_stopping = False, je_active = True, je_owner = Serving, je_thread = Some Ended, je_starts = 1, je_calls = 0\<rparr>"

lemma early_ejection_is_lost: "eject_steps eject_init lost_ejection"
proof -
  let ?a = "eject_init\<lparr>je_owner := Launched, je_thread := Some Looping\<rparr>"
  have "eject_step eject_init ?a"
    using eject_step.launch [of eject_init] by (simp add: eject_init_def)
  moreover have "eject_step ?a (?a\<lparr>je_thread := Some Checked\<rparr>)"
    using eject_step.loop_end [of ?a] by (simp add: eject_init_def)
  moreover have "eject_step (?a\<lparr>je_thread := Some Checked\<rparr>) (?a\<lparr>je_thread := Some Ended\<rparr>)"
    using eject_step.exchange [of "?a\<lparr>je_thread := Some Checked\<rparr>"] by (simp add: eject_init_def)
  moreover have "eject_step (?a\<lparr>je_thread := Some Ended\<rparr>) lost_ejection"
    using eject_step.activate [of "?a\<lparr>je_thread := Some Ended\<rparr>"] by (simp add: eject_init_def lost_ejection_def)
  ultimately show ?thesis by (meson rtranclp.rtrancl_into_rtrancl rtranclp.rtrancl_refl)
qed


end
