(* ===== verification/Cli.thy ===== *)
theory Cli
  imports Session FuseMount
begin

text \<open>
  The command line, from \<open>client/src/app/cli.cpp\<close>: the parser of the arguments, \<open>cli_host\<close> and
  \<open>cli_connect\<close> with every transport they try and everything they release, and \<open>run_cli\<close>. The model of
  hosting and joining is \<open>Session\<close>, the mount is a record of operations that \<open>CliMount\<close> instantiates.
  The QUIC and WebRTC clients, the event loop and \<open>what()\<close> of an exception are parameters. What goes
  to the two streams is text in the state; the client counts printed from other threads are not.
\<close>

section \<open>Text\<close>

definition nl :: string where "nl = [CHR 0x0A]"
definition quote :: string where "quote = [CHR 0x22]"
definition apostrophe :: string where "apostrophe = [CHR 0x27]"
definition ellipsis :: string where "ellipsis = [CHR 0xE2, CHR 0x80, CHR 0xA6]"

definition usage :: string where
  "usage = ''Folder Buddies '' @ em_dash @ '' share a folder as a real, mounted disk.'' @ nl @ nl @
     ''Usage:'' @ nl @
     ''  folderbuddies host <folder> [options]'' @ nl @
     ''      --lan               share on this LAN only (don'' @ apostrophe @ ''t expose to the internet)'' @ nl @
     ''      --port <n>          listen port (default: auto / OS-chosen)'' @ nl @
     ''      --write             allow clients to upload, edit, and delete files'' @ nl @
     ''      (prints a connect code; a short room code when published via Cloudflare/Firebase,'' @ nl @
     ''       or a longer self-contained offline Base91 blob when they are unavailable)'' @ nl @ nl @
     ''  folderbuddies connect <room-code-or-offline-blob>'' @ nl @
     ''      mounts automatically as a drive/volume at the platform default'' @ nl @ nl @
     ''  With no subcommand the graphical app is launched.'' @ nl"

section \<open>Arguments\<close>

record args =
  ar_positional :: string
  ar_opts :: "string \<rightharpoonup> string"
  ar_flags :: "string set"

definition no_args :: args where
  "no_args = \<lparr>ar_positional = [], ar_opts = Map.empty, ar_flags = {}\<rparr>"

definition args_has :: "args \<Rightarrow> string \<Rightarrow> bool" where
  "args_has a name \<longleftrightarrow> name \<in> ar_flags a"

definition takes_value :: "string \<Rightarrow> bool" where
  "takes_value f \<longleftrightarrow> f = ''--port'' \<or> f = ''--conns''"

text \<open>\<open>parse\<close> from an argument on: the message, or the arguments.\<close>

function parse_args :: "string list \<Rightarrow> args \<Rightarrow> string + args" where
  "parse_args [] a = Inr a"
| "parse_args (tok # rest) a =
     (if starts_with ''--'' tok then
        (if takes_value tok then
           (if rest = [] then Inl (''missing value for '' @ tok)
            else parse_args (tl rest) (a\<lparr>ar_opts := (ar_opts a)(tok \<mapsto> hd rest)\<rparr>))
         else parse_args rest (a\<lparr>ar_flags := insert tok (ar_flags a)\<rparr>))
      else if ar_positional a = [] then parse_args rest (a\<lparr>ar_positional := tok\<rparr>)
      else Inl (''unexpected argument: '' @ tok))"
  by pat_completeness auto
termination
  by (relation "measure (\<lambda>(ts, _). length ts)") auto

text \<open>
  \<open>std::stoi\<close>: leading white space, an optional sign and the digits that follow; an error is one of
  the two exceptions.
\<close>

datatype stoi_error = InvalidArgument | OutOfRange

definition is_digit :: "char \<Rightarrow> bool" where
  "is_digit c \<longleftrightarrow> 48 \<le> (of_char c :: nat) \<and> (of_char c :: nat) \<le> 57"

definition digits_value :: "string \<Rightarrow> int" where
  "digits_value ds = foldl (\<lambda>v c. 10 * v + (of_char c - 48)) 0 ds"

definition stoi :: "string \<Rightarrow> stoi_error + int" where
  "stoi s = (let s = dropWhile is_space s;
       neg = (s \<noteq> [] \<and> hd s = CHR ''-'');
       s = (if s \<noteq> [] \<and> (hd s = CHR ''-'' \<or> hd s = CHR ''+'') then tl s else s);
       ds = takeWhile is_digit s;
       v = (if neg then - digits_value ds else digits_value ds)
     in if ds = [] then Inl InvalidArgument
        else if v < - (2 ^ 31) \<or> 2 ^ 31 \<le> v then Inl OutOfRange else Inr v)"

section \<open>What the commands work with\<close>

datatype transport = Quic | Tcp | Web

record 'm mount_ops =
  mp_start :: "transport \<Rightarrow> string \<Rightarrow> bool \<Rightarrow> 'm \<Rightarrow> ((string + unit) \<times> 'm) option"
  mp_active :: "'m \<Rightarrow> bool"
  mp_point :: "'m \<Rightarrow> string"
  mp_stop :: "'m \<Rightarrow> 'm"
  mp_eject :: "'m \<Rightarrow> 'm" \<comment> \<open>what an ejection by the user does to it\<close>

text \<open>
  \<open>ce_run\<close> is \<open>run_until_signal\<close>: the exit code of the event loop and whether an ejection ended it.
\<close>

record ('w, 'r, 'n, 'm, 'q, 'v) cli_env =
  ce_host :: "('w, 'r) host_env"
  ce_hmac :: "bytes \<Rightarrow> bytes \<Rightarrow> bytes"
  ce_net :: "'n net_api"
  ce_mount :: "'m mount_ops"
  ce_quic_available :: bool
  ce_quic_connect :: "string \<Rightarrow> token \<Rightarrow> 'q \<Rightarrow> (string + unit) \<times> 'q"
  ce_quic_disconnect :: "'q \<Rightarrow> 'q"
  ce_web_available :: bool
  ce_web_connect :: "string \<Rightarrow> 'v \<Rightarrow> (string + unit) \<times> 'v"
  ce_web_can_write :: "'v \<Rightarrow> bool"
  ce_web_disconnect :: "'v \<Rightarrow> 'v"
  ce_web_host :: "string \<Rightarrow> string \<Rightarrow> bool \<Rightarrow> 'v \<Rightarrow> (string + unit) \<times> 'v"
  ce_web_unhost :: "'v \<Rightarrow> 'v"
  ce_run :: "'w \<Rightarrow> (int \<times> bool) \<times> 'w"
  ce_what :: "stoi_error \<Rightarrow> string"

text \<open>
  The process: its two streams, the state of hosting (with the network and the random tape), the
  sockets' world, the mount, the worlds of the QUIC and WebRTC clients, and the three owning pointers
  of \<open>cli_connect\<close>.
\<close>

record ('w, 'r, 'n, 'm, 'q, 'v) cli =
  ci_out :: string
  ci_err :: string
  ci_host :: "('w, 'r) host_state"
  ci_net :: 'n
  ci_mount :: 'm
  ci_quic :: 'q
  ci_web :: 'v
  ci_tcp_client :: "'n client option"
  ci_quic_client :: bool
  ci_web_client :: bool

definition print :: "string \<Rightarrow> ('w, 'r, 'n, 'm, 'q, 'v) cli \<Rightarrow> ('w, 'r, 'n, 'm, 'q, 'v) cli" where
  "print t s = s\<lparr>ci_out := ci_out s @ t\<rparr>"

definition complain :: "string \<Rightarrow> ('w, 'r, 'n, 'm, 'q, 'v) cli \<Rightarrow> ('w, 'r, 'n, 'm, 'q, 'v) cli" where
  "complain t s = s\<lparr>ci_err := ci_err s @ t\<rparr>"

section \<open>Hosting\<close>

definition sharing_text :: "string \<Rightarrow> u16 \<Rightarrow> ticket \<Rightarrow> bool \<Rightarrow> string" where
  "sharing_text share port t writes = ''Sharing '' @ quote @ share @ quote @ '' on port '' @ nat_string (unat port) @ nl @
     ''  '' @ tk_reach t @ nl @
     ''  signaling: '' @ tk_cloudStatus t @ nl @
     ''  access: '' @ (if writes then ''read/write'' else ''read-only'') @ nl @
     ''  encryption: ChaCha20-Poly1305 (always on)'' @ nl @ nl @
     ''Connect code:'' @ nl @ ''  '' @ tk_connectCode t @ nl @ nl @
     ''Share only that code '' @ em_dash @ '' no password. Cloudflare never receives the'' @ nl @
     ''IP, port, data-path secret, or the secret half of the code.'' @ nl @
     ''Press Ctrl+C to stop sharing.'' @ nl"

text \<open>\<open>Server::stop\<close> as the caller sees it once it has returned; how it gets there is \<open>ServerSessions\<close>.\<close>

definition server_stopped :: "('w, 'r) host_state \<Rightarrow> ('w, 'r) host_state" where
  "server_stopped h = h\<lparr>hs_server := map_option (\<lambda>srv. srv\<lparr>su_running := False\<rparr>) (hs_server h)\<rparr>"

definition unmapped :: "('w, 'r) host_env \<Rightarrow> ('w, 'r) host_state \<Rightarrow> ('w, 'r) host_state" where
  "unmapped e h = (case upnp_unmap (he_igd e) (hs_upnp h) (hs_router h) of (u, r) \<Rightarrow> h\<lparr>hs_upnp := u, hs_router := r\<rparr>)"

text \<open>
  The end of \<open>cli_host\<close>: the loop, then the four releases in order. \<open>web\<close> is whether the WebRTC host
  object exists; its destructor stops it again, and the destructor of \<open>Upnp\<close> unmaps.
\<close>

definition host_serve ::
  "('w, 'r, 'n, 'm, 'q, 'v) cli_env \<Rightarrow> ticket \<Rightarrow> bool \<Rightarrow> ('w, 'r, 'n, 'm, 'q, 'v) cli \<Rightarrow>
     int \<times> ('w, 'r, 'n, 'm, 'q, 'v) cli" where
  "host_serve e t web s = (case ce_run e (hs_world (ci_host s)) of ((rc, _), w) \<Rightarrow>
     let s = s\<lparr>ci_host := (ci_host s)\<lparr>hs_world := w\<rparr>\<rparr>;
         s = print (nl @ ''Stopping'' @ ellipsis @ nl) s;
         s = (if web then s\<lparr>ci_web := ce_web_unhost e (ci_web s)\<rparr> else s);
         s = (if tk_cloudPublished t
              then s\<lparr>ci_host := (ci_host s)\<lparr>hs_world := snd (remove_published_room (he_qt (ce_host e)) t (hs_world (ci_host s)))\<rparr>\<rparr>
              else s);
         s = s\<lparr>ci_host := unmapped (ce_host e) (ci_host s)\<rparr>;
         s = s\<lparr>ci_host := server_stopped (ci_host s)\<rparr>;
         s = (if web then s\<lparr>ci_web := ce_web_unhost e (ci_web s)\<rparr> else s)
     in (rc, s\<lparr>ci_host := unmapped (ce_host e) (ci_host s)\<rparr>))"

text \<open>What follows a successful start: the WebRTC host, if there is one, and the announcement.\<close>

definition host_announce ::
  "('w, 'r, 'n, 'm, 'q, 'v) cli_env \<Rightarrow> args \<Rightarrow> ticket \<Rightarrow> ('w, 'r) host_state \<Rightarrow> ('w, 'r, 'n, 'm, 'q, 'v) cli \<Rightarrow>
     bool \<times> ('w, 'r, 'n, 'm, 'q, 'v) cli" where
  "host_announce e a t h s = (let
       s = s\<lparr>ci_host := h\<rparr>;
       writes = args_has a ''--write'';
       web = (tk_cloudPublished t \<and> ce_web_available e);
       s = (if web
            then (case ce_web_host e (ar_positional a) (tk_roomCode t) writes (ci_web s) of
                (Inl werr, v) \<Rightarrow> print (''  WebRTC compatibility disabled: '' @ werr @ nl) (s\<lparr>ci_web := v\<rparr>)
              | (Inr _, v) \<Rightarrow> s\<lparr>ci_web := v\<rparr>)
            else s)
     in (web, case hs_server h of None \<Rightarrow> s | Some srv \<Rightarrow> print (sharing_text (su_share srv) (su_port srv) t writes) s))"

definition cli_host ::
  "('w, 'r, 'n, 'm, 'q, 'v) cli_env \<Rightarrow> args \<Rightarrow> ('w, 'r, 'n, 'm, 'q, 'v) cli \<Rightarrow>
     ((stoi_error + int) \<times> ('w, 'r, 'n, 'm, 'q, 'v) cli) option" where
  "cli_host e a s =
     (if ar_positional a = [] then Some (Inr 2, complain (''host: missing <folder>'' @ nl) s)
      else (case (case ar_opts a ''--port'' of None \<Rightarrow> Inr 0 | Some v \<Rightarrow> stoi v) of
        Inl ex \<Rightarrow> Some (Inl ex, s)
      | Inr port \<Rightarrow> (let writes = args_has a ''--write'' in
          case start_hosting (ce_host e) (ar_positional a) port (args_has a ''--lan'') writes ticket_init (ci_host s) of
            None \<Rightarrow> None
          | Some (Inl msg, h) \<Rightarrow> (let s = complain (''host failed: '' @ msg @ nl) (s\<lparr>ci_host := h\<rparr>)
              in Some (Inr 1, s\<lparr>ci_host := unmapped (ce_host e) (ci_host s)\<rparr>))
          | Some (Inr t, h) \<Rightarrow> (case host_announce e a t h s of (web, s) \<Rightarrow>
              (case host_serve e t web s of (rc, s) \<Rightarrow> Some (Inr rc, s))))))"

section \<open>Connecting\<close>

text \<open>\<open>extract_web_room\<close> of \<open>client/src/clients/web_compat.cpp\<close>.\<close>

definition strip_ws :: "string \<Rightarrow> string" where
  "strip_ws s = filter (\<lambda>c. \<not> is_space c) s"

definition extract_web_room :: "'w env \<Rightarrow> string \<Rightarrow> string option" where
  "extract_web_room q text0 = (let t = strip_ws text0 in
     if looks_like_room_code t then Some t
     else if starts_with ''FBS2:'' t then
       (case base91_decode (drop 5 t) of
          None \<Rightarrow> None
        | Some raw \<Rightarrow> (case qt_from_json q (bytes_str raw) of
            Some (JObj ob) \<Rightarrow> (let c = json_string ob ''code'' in if looks_like_room_code c then Some c else None)
          | _ \<Rightarrow> None))
     else None)"

definition looks_like_web_compat_code :: "'w env \<Rightarrow> string \<Rightarrow> bool" where
  "looks_like_web_compat_code q t \<longleftrightarrow> extract_web_room q t \<noteq> None"

text \<open>
  What \<open>resolve_share_code\<close> leaves in its message when it succeeds: the error of a record that the
  first directory had and that did not open.
\<close>

definition leftover_error :: "'w env \<Rightarrow> pwhash \<Rightarrow> string \<Rightarrow> 'w \<Rightarrow> string" where
  "leftover_error q pw code w =
     (if looks_like_room_code code then
        (case sig_get q (room_lookup_id code) w of
           (Inr (salt, wrapped, payload), _) \<Rightarrow>
             (case open_cloud_record pw code salt wrapped payload of Inl err \<Rightarrow> err | Inr _ \<Rightarrow> [])
         | (Inl _, _) \<Rightarrow> [])
      else [])"

text \<open>
  The three attempts. Each returns the label of what it mounted, if it did, the message \<open>e\<close> and the
  state; \<open>None\<close> if a start of the mount never returns. Resetting a pointer to a QUIC or WebRTC client
  runs its destructor, which disconnects.
\<close>

definition quic_attempt ::
  "('w, 'r, 'n, 'm, 'q, 'v) cli_env \<Rightarrow> string \<Rightarrow> token \<Rightarrow> ('w, 'r, 'n, 'm, 'q, 'v) cli \<Rightarrow>
     (string \<times> string \<times> ('w, 'r, 'n, 'm, 'q, 'v) cli) option" where
  "quic_attempt e code tok s =
     (if \<not> (looks_like_room_code code \<and> ce_quic_available e) then Some ([], [], s)
      else (case ce_quic_connect e code tok (ci_quic s) of
          (Inl quicErr, q) \<Rightarrow> Some (quicErr, [], s\<lparr>ci_quic := ce_quic_disconnect e q, ci_quic_client := False\<rparr>)
        | (Inr _, q) \<Rightarrow> (case mp_start (ce_mount e) Quic (t_folder tok) (t_allowWrites tok) (ci_mount s) of
            None \<Rightarrow> None
          | Some (Inl err, m) \<Rightarrow> Some ([], err, s\<lparr>ci_quic := ce_quic_disconnect e (ce_quic_disconnect e q),
              ci_quic_client := False, ci_mount := m\<rparr>)
          | Some (Inr _, m) \<Rightarrow> Some ([], [], s\<lparr>ci_quic := q, ci_quic_client := True, ci_mount := m\<rparr>))))"

definition tcp_attempt ::
  "('w, 'r, 'n, 'm, 'q, 'v) cli_env \<Rightarrow> token \<Rightarrow> string \<Rightarrow> string \<Rightarrow> ('w, 'r, 'n, 'm, 'q, 'v) cli \<Rightarrow>
     (string \<times> ('w, 'r, 'n, 'm, 'q, 'v) cli) option" where
  "tcp_attempt e tok quicErr err s =
     (if mp_active (ce_mount e) (ci_mount s) then Some (err, s)
      else (let mstart = (\<lambda>c label writes m. case mp_start (ce_mount e) Tcp label writes m of
              None \<Rightarrow> None
            | Some (Inl er, m) \<Rightarrow> Some (Inl er, m)
            | Some (Inr _, m) \<Rightarrow> Some (Inr (mp_point (ce_mount e) m), m))
        in case start_mounting (ce_net e) (he_sha (ce_host e)) (ce_hmac e) mstart tok
            (client_init, ci_net s, hs_random (ci_host s)) (ci_mount s) of
          None \<Rightarrow> None
        | Some (Inr _, (c, n, r), m) \<Rightarrow>
            Some (err, s\<lparr>ci_tcp_client := Some c, ci_net := n, ci_host := (ci_host s)\<lparr>hs_random := r\<rparr>, ci_mount := m\<rparr>)
        | Some (Inl tcpErr, (c, n, r), m) \<Rightarrow> (case disconnect c n of (c, n) \<Rightarrow>
            Some (''Direct QUIC failed: '' @ (if quicErr = [] then ''unavailable'' else quicErr) @
                ''; direct TCP failed: '' @ tcpErr,
              s\<lparr>ci_tcp_client := None, ci_net := n, ci_host := (ci_host s)\<lparr>hs_random := r\<rparr>, ci_mount := m\<rparr>))))"

definition web_attempt ::
  "('w, 'r, 'n, 'm, 'q, 'v) cli_env \<Rightarrow> string \<Rightarrow> string \<Rightarrow> string \<Rightarrow> ('w, 'r, 'n, 'm, 'q, 'v) cli \<Rightarrow>
     (string \<times> ('w, 'r, 'n, 'm, 'q, 'v) cli) option" where
  "web_attempt e code decodeErr err s =
     (if mp_active (ce_mount e) (ci_mount s) \<or> decodeErr = [] \<or> \<not> ce_web_available e \<or>
         \<not> looks_like_web_compat_code (he_qt (ce_host e)) code
      then Some (err, s)
      else (case ce_web_connect e code (ci_web s) of
          (Inl er, v) \<Rightarrow> Some (er, s\<lparr>ci_web := v, ci_web_client := True\<rparr>)
        | (Inr _, v) \<Rightarrow> (case mp_start (ce_mount e) Web ''Web share'' (ce_web_can_write e v) (ci_mount s) of
            None \<Rightarrow> None
          | Some (Inl er, m) \<Rightarrow> Some (er, s\<lparr>ci_web := ce_web_disconnect e (ce_web_disconnect e v),
              ci_web_client := False, ci_mount := m\<rparr>)
          | Some (Inr _, m) \<Rightarrow> Some (err, s\<lparr>ci_web := v, ci_web_client := True, ci_mount := m\<rparr>))))"

text \<open>Everything up to the mount: the message for the user and the label of the share.\<close>

definition cli_open ::
  "('w, 'r, 'n, 'm, 'q, 'v) cli_env \<Rightarrow> string \<Rightarrow> ('w, 'r, 'n, 'm, 'q, 'v) cli \<Rightarrow>
     (string \<times> string \<times> ('w, 'r, 'n, 'm, 'q, 'v) cli) option" where
  "cli_open e code s = (let
       q = he_qt (ce_host e); pw = he_pw (ce_host e); w0 = hs_world (ci_host s);
       web = (\<lambda>decodeErr err label s. case web_attempt e code decodeErr err s of
           None \<Rightarrow> None
         | Some (err, s') \<Rightarrow> Some (if err = [] then decodeErr else err,
             (if ci_web_client s' then ''Web share'' else label), s'))
     in case resolve_share_code q pw code w0 of
         (Inl decodeErr, w) \<Rightarrow> web decodeErr [] ''share'' (s\<lparr>ci_host := (ci_host s)\<lparr>hs_world := w\<rparr>\<rparr>)
       | (Inr tok, w) \<Rightarrow> (case quic_attempt e code tok (s\<lparr>ci_host := (ci_host s)\<lparr>hs_world := w\<rparr>\<rparr>) of
           None \<Rightarrow> None
         | Some (quicErr, err, s) \<Rightarrow> (case tcp_attempt e tok quicErr err s of
             None \<Rightarrow> None
           | Some (err, s) \<Rightarrow> web (leftover_error q pw code w0) err (t_folder tok) s)))"

definition transport_text :: "('w, 'r, 'n, 'm, 'q, 'v) cli \<Rightarrow> string" where
  "transport_text s = (if ci_quic_client s then ''Transport: direct native QUIC via ICE/STUN.'' @ nl
     else if ci_web_client s then ''Transport: WebRTC browser compatibility.'' @ nl
     else ''Transport: direct native TCP.'' @ nl)"

definition mounted_text :: "string \<Rightarrow> string \<Rightarrow> ('w, 'r, 'n, 'm, 'q, 'v) cli \<Rightarrow> string" where
  "mounted_text label mountpoint s = ''Mounted '' @ quote @ label @ quote @ '' as '' @ mountpoint @ nl @
     transport_text s @
     ''It behaves like a local disk; only the bytes apps actually read cross the wire.'' @ nl @ nl @
     ''Press Ctrl+C to unmount, or eject the drive/volume in the OS.'' @ nl"

text \<open>The destructors of the pointers, when \<open>cli_connect\<close> returns.\<close>

definition drop_clients :: "('w, 'r, 'n, 'm, 'q, 'v) cli_env \<Rightarrow> ('w, 'r, 'n, 'm, 'q, 'v) cli \<Rightarrow> ('w, 'r, 'n, 'm, 'q, 'v) cli" where
  "drop_clients e s = (let
       s = (if ci_web_client s then s\<lparr>ci_web := ce_web_disconnect e (ci_web s)\<rparr> else s);
       s = (if ci_quic_client s then s\<lparr>ci_quic := ce_quic_disconnect e (ci_quic s)\<rparr> else s)
     in s\<lparr>ci_tcp_client := None, ci_quic_client := False, ci_web_client := False\<rparr>)"

definition connect_serve ::
  "('w, 'r, 'n, 'm, 'q, 'v) cli_env \<Rightarrow> ('w, 'r, 'n, 'm, 'q, 'v) cli \<Rightarrow> int \<times> ('w, 'r, 'n, 'm, 'q, 'v) cli" where
  "connect_serve e s = (case ce_run e (hs_world (ci_host s)) of ((rc, ejected), w) \<Rightarrow>
     let s = s\<lparr>ci_host := (ci_host s)\<lparr>hs_world := w\<rparr>\<rparr>;
         s = (if ejected then s\<lparr>ci_mount := mp_eject (ce_mount e) (ci_mount s)\<rparr> else s);
         s = print (nl @ (if ejected then ''Ejected; disconnecting'' else ''Unmounting'') @ ellipsis @ nl) s;
         s = s\<lparr>ci_mount := mp_stop (ce_mount e) (ci_mount s)\<rparr>;
         s = (case ci_tcp_client s of None \<Rightarrow> s | Some c \<Rightarrow> (case disconnect c (ci_net s) of
               (c, n) \<Rightarrow> s\<lparr>ci_tcp_client := Some c, ci_net := n\<rparr>));
         s = (if ci_quic_client s then s\<lparr>ci_quic := ce_quic_disconnect e (ci_quic s)\<rparr> else s);
         s = (if ci_web_client s then s\<lparr>ci_web := ce_web_disconnect e (ci_web s)\<rparr> else s)
     in (rc, drop_clients e s))"

definition cli_connect ::
  "('w, 'r, 'n, 'm, 'q, 'v) cli_env \<Rightarrow> args \<Rightarrow> ('w, 'r, 'n, 'm, 'q, 'v) cli \<Rightarrow>
     (int \<times> ('w, 'r, 'n, 'm, 'q, 'v) cli) option" where
  "cli_connect e a s =
     (if ar_positional a = [] then Some (2, complain (''connect: missing <room-code-or-offline-blob>'' @ nl) s)
      else (case cli_open e (ar_positional a)
          (s\<lparr>ci_tcp_client := None, ci_quic_client := False, ci_web_client := False\<rparr>) of
        None \<Rightarrow> None
      | Some (msg, label, s) \<Rightarrow>
          if \<not> mp_active (ce_mount e) (ci_mount s)
          then Some (1, drop_clients e (complain (''connect failed: '' @ msg @ nl) s))
          else (let s = print (mounted_text label (mp_point (ce_mount e) (ci_mount s)) s) s
            in Some (connect_serve e s))))"

section \<open>The program\<close>

definition is_help :: "string \<Rightarrow> bool" where
  "is_help c \<longleftrightarrow> c = ''help'' \<or> c = ''--help'' \<or> c = ''-h''"

text \<open>\<open>argv\<close> with the program's name first.\<close>

definition is_cli_invocation :: "string list \<Rightarrow> bool" where
  "is_cli_invocation argv \<longleftrightarrow> 2 \<le> length argv \<and>
     (let c = argv ! 1 in c = ''host'' \<or> c = ''connect'' \<or> is_help c)"

text \<open>For an \<open>argv\<close> that is a command line, as \<open>main\<close> has checked.\<close>

definition run_cli ::
  "('w, 'r, 'n, 'm, 'q, 'v) cli_env \<Rightarrow> string list \<Rightarrow> ('w, 'r, 'n, 'm, 'q, 'v) cli \<Rightarrow>
     (int \<times> ('w, 'r, 'n, 'm, 'q, 'v) cli) option" where
  "run_cli e argv s = (let cmd = argv ! 1 in
     if is_help cmd then Some (0, print usage s)
     else (case parse_args (drop 2 argv) no_args of
         Inl perr \<Rightarrow> Some (2, complain ((if cmd = ''host'' then ''host: '' else ''connect: '') @ perr @ nl) s)
       | Inr a \<Rightarrow>
           if cmd = ''host'' then (case cli_host e a s of
               None \<Rightarrow> None
             | Some (Inl ex, s) \<Rightarrow> Some (2, complain (''error: '' @ ce_what e ex @ nl) s)
             | Some (Inr rc, s) \<Rightarrow> Some (rc, s))
           else cli_connect e a s))"

end
