(* ===== verification/CliMount.thy ===== *)
theory CliMount
  imports Cli
begin

text \<open>
  What the commands leave behind. The contract that \<open>cli_connect\<close> needs of the mount is a locale,
  instantiated with \<open>Mount\<close> of \<open>FuseMount\<close>; the sockets and the FUSE objects are counted in the ledgers of
  \<open>ClientConnect\<close> and \<open>FuseMount\<close>.
\<close>

section \<open>The contract of a mount\<close>

text \<open>\<open>idle\<close>: nothing is mounted. \<open>held\<close>: something is, and \<open>stop\<close> releases it.\<close>

locale mount_contract =
  fixes ops :: "'m mount_ops"
    and idle :: "'m \<Rightarrow> bool" and held :: "'m \<Rightarrow> bool"
  assumes start: "idle m \<Longrightarrow> \<exists>r m'. mp_start ops t label writes m = Some (r, m') \<and>
      (case r of Inl err \<Rightarrow> idle m' | Inr _ \<Rightarrow> held m' \<and> mp_active ops m')"
    and idle_inactive: "idle m \<Longrightarrow> \<not> mp_active ops m"
    and stop: "held m \<Longrightarrow> idle (mp_stop ops m)"
    and eject: "held m \<Longrightarrow> held (mp_eject ops m)"

text \<open>The mount of \<open>FuseMount\<close> on a system with a ledger.\<close>

definition fuse_ops :: "'x mount_api \<Rightarrow> string \<Rightarrow> (mount \<times> 'x) mount_ops" where
  "fuse_ops a base = \<lparr>mp_start = (\<lambda>t. mount_start a base), mp_active = (\<lambda>(m, x). mo_active m),
     mp_point = (\<lambda>(m, x). mo_mp m), mp_stop = mount_stop a, mp_eject = (\<lambda>(m, x). (m\<lparr>mo_active := False\<rparr>, x))\<rparr>"

definition fuse_idle :: "'x mount_api \<Rightarrow> mount \<times> 'x ledger \<Rightarrow> bool" where
  "fuse_idle a = (\<lambda>(m, x). clock_runs a \<and> mount_idle m \<and> ledger_of x = ({#}, {#}))"

definition fuse_held :: "'x mount_api \<Rightarrow> mount \<times> 'x ledger \<Rightarrow> bool" where
  "fuse_held a = (\<lambda>(m, x). clock_runs a \<and> (\<exists>f. mo_fuse m = Some f \<and> ledger_of x = ({#f#}, {#(f, mo_mp m)#})))"

interpretation fuse_mount: mount_contract "fuse_ops (tracked_mounts a) base" "fuse_idle a" "fuse_held a"
  for a :: "'x mount_api" and base
proof (unfold_locales, goal_cases)
  case (1 m t label writes)
  obtain k x where m: "m = (k, x)" by (cases m)
  then have i: "clock_runs a" "mount_idle k" "ledger_of x = ({#}, {#})" using 1 by (simp_all add: fuse_idle_def)
  show ?case
  proof (rule mount_start_outcome [OF i, of base label writes], goal_cases failed mounted)
    case (failed err m' x')
    then show ?case using i(1) by (simp add: m fuse_ops_def fuse_idle_def)
  next
    case (mounted f m' x' b l)
    then show ?case using i(1) by (simp add: m fuse_ops_def fuse_held_def)
  qed
next
  case (2 m)
  then show ?case by (auto simp: fuse_idle_def fuse_ops_def mount_idle_def)
next
  case (3 m)
  then obtain k x f where m: "m = (k, x)" "clock_runs a" "mo_fuse k = Some f" "ledger_of x = ({#f#}, {#(f, mo_mp k)#})"
    by (auto simp: fuse_held_def)
  obtain k' x' where s: "mount_stop (tracked_mounts a) (k, x) = (k', x')" by (metis surj_pair)
  then show ?case using mount_stop_idle [OF m(3,4), of a] m by (simp add: fuse_ops_def fuse_idle_def)
next
  case (4 m)
  then show ?case by (auto simp: fuse_held_def fuse_ops_def)
qed

section \<open>The attempts to connect\<close>

definition closed_all :: "'n \<times> nat list \<times> nat list \<Rightarrow> bool" where
  "closed_all w \<longleftrightarrow> mset (fst (snd w)) = mset (snd (snd w))"

definition pointers :: "('w, 'r, 'n, 'm, 'q, 'v) cli \<Rightarrow> transport list" where
  "pointers s = (if ci_quic_client s then [Quic] else []) @ (if ci_tcp_client s \<noteq> None then [Tcp] else []) @
     (if ci_web_client s then [Web] else [])"

lemma balanced_init: "closed_all w \<longleftrightarrow> balanced a [] [] client_init w"
  by (auto simp: closed_all_def balanced_def client_init_def)

lemma client_connect_balanced:
  assumes "closed_all w" "client_connect (tracked a) sha hm tok k (client_init, w, r) = (res, c', w', r')"
  shows "case res of
      Inl err \<Rightarrow> balanced a [] [] c' w' \<and> cl_conns c' = []
    | Inr _ \<Rightarrow> cl_connected c' \<and> length (cl_conns c') = nat k \<and> (\<exists>ss. balanced a ss [] c' w')"
proof -
  obtain rb r1 where rb: "random_bytes 16 r = (rb, r1)" by (metis surj_pair)
  let ?c = "(client_init\<lparr>cl_connected := False, cl_conns := []\<rparr>)\<lparr>cl_clientId := rb\<rparr> :: ('a \<times> nat list \<times> nat list) client"
  have l: "connect_loop (tracked a) sha hm tok (nat k) (?c, w, r1) = (res, c', w', r')"
    using assms(2) by (simp add: client_connect_def disconnect_def rb client_init_def)
  have b: "balanced a [] [] ?c w" using assms(1) by (simp add: balanced_def closed_all_def)
  show ?thesis using connect_loop_balanced [OF b _ l] by (auto split: sum.splits)
qed

lemma disconnect_closed:
  assumes "balanced a ss [] c w" "disconnect c w = (c', w')"
  shows "closed_all w'"
  using disconnect_balanced [OF assms] by (simp add: closed_all_def balanced_def)

text \<open>The sockets: all closed, or those of the one client with the eight connections it wants.\<close>

definition net_ok :: "'n net_api \<Rightarrow> ('w, 'r, 'n \<times> nat list \<times> nat list, 'm, 'q, 'v) cli \<Rightarrow> bool" where
  "net_ok a s \<longleftrightarrow> (case ci_tcp_client s of
      None \<Rightarrow> closed_all (ci_net s)
    | Some c \<Rightarrow> cl_connected c \<and> length (cl_conns c) = kDefaultConns \<and> (\<exists>ss. balanced a ss [] c (ci_net s)))"

lemma net_ok_print [simp]: "net_ok a (print t s) = net_ok a s"
  by (cases "ci_tcp_client s") (simp_all add: net_ok_def print_def)

lemma pointers_Nil: "pointers s = [] \<longleftrightarrow> ci_tcp_client s = None \<and> \<not> ci_quic_client s \<and> \<not> ci_web_client s"
  by (auto simp: pointers_def)

text \<open>What serving ends with.\<close>

lemma drop_clients_fields [simp]:
  "ci_mount (drop_clients e s) = ci_mount s" "ci_net (drop_clients e s) = ci_net s" "pointers (drop_clients e s) = []"
  by (simp_all add: drop_clients_def Let_def pointers_Nil)

lemma connect_serve_fields:
  assumes "ce_run e (hs_world (ci_host s)) = ((rc', ej), w)" "connect_serve e s = (rc, s')"
  shows "rc = rc'" "pointers s' = []"
    "ci_mount s' = mp_stop (ce_mount e) (if ej then mp_eject (ce_mount e) (ci_mount s) else ci_mount s)"
    "ci_net s' = (case ci_tcp_client s of None \<Rightarrow> ci_net s | Some c \<Rightarrow> snd (disconnect c (ci_net s)))"
proof -
  define s0 where "s0 = s\<lparr>ci_host := (ci_host s)\<lparr>hs_world := w\<rparr>\<rparr>"
  define s1 where "s1 = print (nl @ (if ej then ''Ejected; disconnecting'' else ''Unmounting'') @ ellipsis @ nl)
      (if ej then s0\<lparr>ci_mount := mp_eject (ce_mount e) (ci_mount s0)\<rparr> else s0)"
  define s2 where "s2 = s1\<lparr>ci_mount := mp_stop (ce_mount e) (ci_mount s1)\<rparr>"
  define s3 where "s3 = (case ci_tcp_client s2 of None \<Rightarrow> s2 | Some c \<Rightarrow> (case disconnect c (ci_net s2) of
               (c, n) \<Rightarrow> s2\<lparr>ci_tcp_client := Some c, ci_net := n\<rparr>))"
  define s4 where "s4 = (if ci_quic_client s3 then s3\<lparr>ci_quic := ce_quic_disconnect e (ci_quic s3)\<rparr> else s3)"
  define s5 where "s5 = (if ci_web_client s4 then s4\<lparr>ci_web := ce_web_disconnect e (ci_web s4)\<rparr> else s4)"
  have "connect_serve e s = (rc', drop_clients e s5)"
    unfolding connect_serve_def assms(1) prod.case Let_def s5_def s4_def s3_def s2_def s1_def s0_def by (rule refl)
  then have e: "rc = rc'" "s' = drop_clients e s5" using assms(2) by simp_all
  have 2: "ci_mount s2 = mp_stop (ce_mount e) (if ej then mp_eject (ce_mount e) (ci_mount s) else ci_mount s)"
    "ci_net s2 = ci_net s" "ci_tcp_client s2 = ci_tcp_client s" by (simp_all add: s2_def s1_def s0_def print_def)
  have 3: "ci_mount s3 = ci_mount s2" "ci_net s3 = (case ci_tcp_client s of None \<Rightarrow> ci_net s | Some c \<Rightarrow> snd (disconnect c (ci_net s)))"
    by (simp_all add: s3_def 2 split: option.split prod.split)
  have 5: "ci_mount s5 = ci_mount s3" "ci_net s5 = ci_net s3" by (simp_all add: s5_def s4_def)
  show "rc = rc'" "pointers s' = []" "ci_mount s' = mp_stop (ce_mount e) (if ej then mp_eject (ce_mount e) (ci_mount s) else ci_mount s)"
    "ci_net s' = (case ci_tcp_client s of None \<Rightarrow> ci_net s | Some c \<Rightarrow> snd (disconnect c (ci_net s)))"
    using e 2 3 5 by simp_all
qed

context mount_contract begin

lemma quic_attempt_outcome:
  assumes "ce_mount e = ops" "idle (ci_mount s)" "pointers s = []"
  shows "\<exists>quicErr err s'. quic_attempt e code tok s = Some (quicErr, err, s') \<and> ci_net s' = ci_net s \<and>
    ci_tcp_client s' = None \<and>
    (idle (ci_mount s') \<and> pointers s' = [] \<or> held (ci_mount s') \<and> mp_active ops (ci_mount s') \<and> pointers s' = [Quic])"
proof -
  obtain r m' where st: "mp_start ops Quic (t_folder tok) (t_allowWrites tok) (ci_mount s) = Some (r, m')"
    "case r of Inl err \<Rightarrow> idle m' | Inr _ \<Rightarrow> held m' \<and> mp_active ops m'" using start [OF assms(2)] by blast
  obtain c q where c: "ce_quic_connect e code tok (ci_quic s) = (c, q)" by (metis surj_pair)
  have p: "ci_tcp_client s = None" "\<not> ci_quic_client s" "\<not> ci_web_client s" using assms(3) by (simp_all add: pointers_Nil)
  show ?thesis
  proof (cases "looks_like_room_code code \<and> ce_quic_available e")
    case True
    then show ?thesis using assms(1,2) c p st
      by (cases c; cases r) (simp_all add: quic_attempt_def pointers_def)
  next
    case False
    then show ?thesis using assms(2) p by (simp add: quic_attempt_def pointers_def)
  qed
qed

lemma tcp_attempt_outcome:
  assumes "ce_mount e = ops" "ce_net e = tracked a" "net_ok a s" "ci_tcp_client s = None"
    and "idle (ci_mount s) \<and> pointers s = [] \<or> held (ci_mount s) \<and> mp_active ops (ci_mount s) \<and> pointers s = [Quic]"
  shows "\<exists>err' s'. tcp_attempt e tok quicErr err s = Some (err', s') \<and> net_ok a s' \<and>
    (idle (ci_mount s') \<and> pointers s' = [] \<or>
     held (ci_mount s') \<and> mp_active ops (ci_mount s') \<and> (pointers s' = [Quic] \<or> pointers s' = [Tcp]))"
proof (cases "mp_active ops (ci_mount s)")
  case True
  then show ?thesis using assms idle_inactive by (auto simp: tcp_attempt_def)
next
  case False
  then have i: "idle (ci_mount s)" "ci_quic_client s = False" "ci_web_client s = False" using assms(5) by (auto simp: pointers_Nil)
  have cl: "closed_all (ci_net s)" using assms(3,4) by (simp add: net_ok_def)
  obtain res c n r where cc: "client_connect (tracked a) (he_sha (ce_host e)) (ce_hmac e) tok (int kDefaultConns)
      (client_init, ci_net s, hs_random (ci_host s)) = (res, c, n, r)" by (metis prod_cases4)
  note b = client_connect_balanced [OF cl cc]
  obtain r2 m' where st: "mp_start ops Tcp (t_folder tok) (t_allowWrites tok) (ci_mount s) = Some (r2, m')"
    "case r2 of Inl err \<Rightarrow> idle m' | Inr _ \<Rightarrow> held m' \<and> mp_active ops m'" using start [OF i(1)] by blast
  obtain c1 n1 where d1: "disconnect c n = (c1, n1)" by (metis surj_pair)
  obtain c2 n2 where d2: "disconnect c1 n1 = (c2, n2)" by (metis surj_pair)
  show ?thesis
  proof (cases res)
    case (Inl er)
    then have "closed_all n1" using b disconnect_closed [OF _ d1] by auto
    then show ?thesis
      using False i assms(1,2) cc Inl d1
      by (simp add: tcp_attempt_def start_mounting_def net_ok_def pointers_def Let_def)
  next
    case (Inr u)
    then obtain ss where ss: "balanced a ss [] c n" "cl_connected c" "length (cl_conns c) = kDefaultConns" using b by auto
    show ?thesis
    proof (cases r2)
      case (Inl er)
      have b1: "balanced a [] [] c1 n1" by (rule disconnect_balanced(1) [OF ss(1) d1])
      have "closed_all n2" by (rule disconnect_closed [OF b1 d2])
      then show ?thesis
        using False i assms(1,2) cc \<open>res = Inr u\<close> st Inl d1 d2
        by (simp add: tcp_attempt_def start_mounting_def net_ok_def pointers_def Let_def)
    next
      case (Inr u')
      then show ?thesis
        using False i assms(1,2) cc \<open>res = Inr u\<close> st ss
        by (auto simp: tcp_attempt_def start_mounting_def net_ok_def pointers_def Let_def)
    qed
  qed
qed

lemma web_attempt_outcome:
  assumes "ce_mount e = ops" "net_ok a s"
    and "idle (ci_mount s) \<and> pointers s = [] \<or>
      held (ci_mount s) \<and> mp_active ops (ci_mount s) \<and> (pointers s = [Quic] \<or> pointers s = [Tcp])"
  shows "\<exists>err' s'. web_attempt e code decodeErr err s = Some (err', s') \<and> net_ok a s' \<and>
    (idle (ci_mount s') \<and> ci_tcp_client s' = None \<or>
     held (ci_mount s') \<and> mp_active ops (ci_mount s') \<and> (\<exists>t. pointers s' = [t]))"
proof (cases "mp_active ops (ci_mount s)")
  case True
  then show ?thesis using assms idle_inactive by (auto simp: web_attempt_def)
next
  case False
  then have i: "idle (ci_mount s)" "ci_tcp_client s = None" "ci_quic_client s = False" "ci_web_client s = False"
    using assms(3) by (auto simp: pointers_Nil)
  obtain c v where v: "ce_web_connect e code (ci_web s) = (c, v)" by (metis surj_pair)
  obtain r m' where st: "mp_start ops Web ''Web share'' (ce_web_can_write e v) (ci_mount s) = Some (r, m')"
    "case r of Inl err \<Rightarrow> idle m' | Inr _ \<Rightarrow> held m' \<and> mp_active ops m'" using start [OF i(1)] by blast
  show ?thesis
  proof (cases "decodeErr = [] \<or> \<not> ce_web_available e \<or> \<not> looks_like_web_compat_code (he_qt (ce_host e)) code")
    case True
    then show ?thesis using i assms(2) by (auto simp: web_attempt_def)
  next
    case tried: False
    then show ?thesis using False i v st assms(1,2)
      by (cases c; cases r) (simp_all add: web_attempt_def net_ok_def pointers_def)
  qed
qed

text \<open>Opening ends with one transport behind the mount, or with no mount and no native connection.\<close>

lemma cli_open_outcome:
  assumes "ce_mount e = ops" "ce_net e = tracked a" "idle (ci_mount s)" "closed_all (ci_net s)" "pointers s = []"
  shows "\<exists>msg label s'. cli_open e code s = Some (msg, label, s') \<and> net_ok a s' \<and>
    (idle (ci_mount s') \<and> ci_tcp_client s' = None \<or>
     held (ci_mount s') \<and> mp_active ops (ci_mount s') \<and> (\<exists>t. pointers s' = [t]))"
proof -
  obtain res w where res: "resolve_share_code (he_qt (ce_host e)) (he_pw (ce_host e)) code (hs_world (ci_host s)) = (res, w)"
    by (metis surj_pair)
  let ?s = "s\<lparr>ci_host := (ci_host s)\<lparr>hs_world := w\<rparr>\<rparr>"
  have s: "idle (ci_mount ?s)" "pointers ?s = []" "net_ok a ?s" "ci_tcp_client ?s = None"
    using assms(3-5) by (simp_all add: pointers_def net_ok_def split: if_splits)
  show ?thesis
  proof (cases res)
    case (Inl decodeErr)
    have "idle (ci_mount ?s) \<and> pointers ?s = [] \<or>
      held (ci_mount ?s) \<and> mp_active ops (ci_mount ?s) \<and> (pointers ?s = [Quic] \<or> pointers ?s = [Tcp])" using s by blast
    from web_attempt_outcome [OF assms(1) s(3) this, of code decodeErr "[]"]
    show ?thesis using res Inl by (auto simp: cli_open_def Let_def)
  next
    case (Inr tok)
    from quic_attempt_outcome [OF assms(1) s(1,2), of code tok] obtain quicErr err1 s1 where
      q: "quic_attempt e code tok ?s = Some (quicErr, err1, s1)" "ci_net s1 = ci_net ?s" "ci_tcp_client s1 = None"
      "idle (ci_mount s1) \<and> pointers s1 = [] \<or> held (ci_mount s1) \<and> mp_active ops (ci_mount s1) \<and> pointers s1 = [Quic]" by blast
    have n1: "net_ok a s1" using s(3,4) q(2,3) by (simp add: net_ok_def)
    from tcp_attempt_outcome [OF assms(1,2) n1 q(3,4), of tok quicErr err1] obtain err2 s2 where
      t: "tcp_attempt e tok quicErr err1 s1 = Some (err2, s2)" "net_ok a s2"
      "idle (ci_mount s2) \<and> pointers s2 = [] \<or>
       held (ci_mount s2) \<and> mp_active ops (ci_mount s2) \<and> (pointers s2 = [Quic] \<or> pointers s2 = [Tcp])" by blast
    from web_attempt_outcome [OF assms(1) t(2,3),
        of code "leftover_error (he_qt (ce_host e)) (he_pw (ce_host e)) code (hs_world (ci_host s))" err2]
    show ?thesis using res Inr q(1) t(1) by (auto simp: cli_open_def Let_def)
  qed
qed

lemma connect_serve_outcome:
  assumes "ce_mount e = ops" "net_ok a s" "held (ci_mount s)" "connect_serve e s = (rc, s')"
  shows "idle (ci_mount s') \<and> closed_all (ci_net s') \<and> pointers s' = []"
proof -
  obtain rc' ej w where run: "ce_run e (hs_world (ci_host s)) = ((rc', ej), w)" by (metis prod.exhaust)
  have i: "idle (mp_stop ops (if ej then mp_eject ops (ci_mount s) else ci_mount s))"
    using stop eject assms(3) by simp
  have n: "closed_all (case ci_tcp_client s of None \<Rightarrow> ci_net s | Some c \<Rightarrow> snd (disconnect c (ci_net s)))"
  proof (cases "ci_tcp_client s")
    case (Some c)
    obtain c' n' where d: "disconnect c (ci_net s) = (c', n')" by (metis surj_pair)
    then show ?thesis using assms(2) Some disconnect_closed [OF _ d] by (auto simp: net_ok_def)
  qed (use assms(2) in \<open>simp add: net_ok_def\<close>)
  show ?thesis
    using connect_serve_fields [OF run assms(4)] i n unfolding assms(1) by (simp only: simp_thms)
qed

end

section \<open>A process to run the commands in\<close>

type_synonym ex_cli = "(unit, u16 list, unit \<times> nat list \<times> nat list, mount \<times> (int \<times> string list) ledger, unit, unit) cli"

definition ex_cli_env ::
  "(unit, u16 list, unit \<times> nat list \<times> nat list, mount \<times> (int \<times> string list) ledger, unit, unit) cli_env" where
  "ex_cli_env = \<lparr>ce_host = ex_host_env, ce_hmac = (\<lambda>k x. x), ce_net = tracked ex_refusing,
     ce_mount = fuse_ops (tracked_mounts ex_mount_api) [],
     ce_quic_available = False, ce_quic_connect = (\<lambda>c t q. (Inl [], q)), ce_quic_disconnect = (\<lambda>q. q),
     ce_web_available = True, ce_web_connect = (\<lambda>c v. (Inr (), v)), ce_web_can_write = (\<lambda>v. False),
     ce_web_disconnect = (\<lambda>v. v), ce_web_host = (\<lambda>f c aw v. (Inr (), v)), ce_web_unhost = (\<lambda>v. v),
     ce_run = (\<lambda>w. ((0, False), w)), ce_what = (\<lambda>ex. ''stoi'')\<rparr>"

definition ex_cli :: ex_cli where
  "ex_cli = \<lparr>ci_out = [], ci_err = [], ci_host = ex_host_state, ci_net = ((), [], []),
     ci_mount = (mount_init, {#}, {#}, 0, []), ci_quic = (), ci_web = (), ci_tcp_client = None,
     ci_quic_client = False, ci_web_client = False\<rparr>"

lemma ex_cli_hosts:
  "\<exists>r s'. cli_host ex_cli_env (no_args\<lparr>ar_positional := ''/home/pics'', ar_opts := [''--port'' \<mapsto> ''50321''],
     ar_flags := {''--lan'', ''--write''}\<rparr>) ex_cli = Some (r, s')"
proof -
  let ?a = "no_args\<lparr>ar_positional := ''/home/pics'', ar_opts := [''--port'' \<mapsto> ''50321''], ar_flags := {''--lan'', ''--write''}\<rparr>"
  have p: "stoi ''50321'' = Inr 50321" by code_simp
  obtain t h where h: "start_hosting ex_host_env ''/home/pics'' 50321 True True ticket_init ex_host_state = Some (Inr t, h)"
    using ex_hosting by blast
  obtain web s1 where an: "host_announce ex_cli_env ?a t h ex_cli = (web, s1)" by (metis surj_pair)
  obtain rc s2 where "host_serve ex_cli_env t web s1 = (rc, s2)" by (metis surj_pair)
  then show ?thesis using p h an
    by (simp add: cli_host_def Let_def args_has_def) (simp add: ex_cli_env_def ex_cli_def)
qed

section \<open>Properties\<close>



text \<open>A start that fails has not started the server, mapped a port or talked to a directory.\<close>

lemma start_hosting_fails:
  assumes "start_hosting h folder port lan writes t s = Some (Inl msg, s')"
  shows "hs_server s' = hs_server s" "hs_upnp s' = hs_upnp s" "hs_router s' = hs_router s" "hs_world s' = hs_world s"
proof -
  obtain secret r where rb: "random_bytes kSecretBytes (hs_random s) = (secret, r)" by (metis surj_pair)
  have "\<exists>er. server_start (he_sha h) (he_start h) secret folder port = Inl er"
  proof (rule ccontr)
    assume "\<nexists>er. server_start (he_sha h) (he_start h) secret folder port = Inl er"
    then obtain srv where srv: "server_start (he_sha h) (he_start h) secret folder port = Inr srv"
      by (cases "server_start (he_sha h) (he_start h) secret folder port") auto
    obtain ip p reach s1 where ch: "choose_address h lan (su_port srv) (s\<lparr>hs_allowWrites := writes, hs_random := r, hs_server := Some srv\<rparr>) =
        ((ip, p, reach), s1)" by (metis surj_pair)
    let ?tok = "\<lparr>t_ip = ip, t_port = p, t_secret = su_secret srv, t_folder = su_share srv, t_allowWrites = writes\<rparr>"
    obtain blob r1 where bl: "seal_for_offline ?tok (hs_random s1) = (blob, r1)" by (metis surj_pair)
    show False using assms offline_blob(1) [OF bl]
      by (auto simp: start_hosting_def Let_def rb srv ch bl split: option.splits prod.splits)
  qed
  then obtain er where er: "server_start (he_sha h) (he_start h) secret folder port = Inl er" by blast
  have "s' = (case er of CannotHostSymlink \<Rightarrow> s\<lparr>hs_allowWrites := writes\<rparr> | NotADirectory f \<Rightarrow> s\<lparr>hs_allowWrites := writes\<rparr>
      | _ \<Rightarrow> s\<lparr>hs_allowWrites := writes, hs_random := r\<rparr>)"
    using assms by (auto simp: start_hosting_def Let_def rb er split: start_error.splits)
  then show "hs_server s' = hs_server s" "hs_upnp s' = hs_upnp s" "hs_router s' = hs_router s" "hs_world s' = hs_world s"
    by (cases er; simp)+
qed

lemma unmapped_fields:
  "\<not> up_active (hs_upnp (unmapped e h))" "hs_world (unmapped e h) = hs_world h" "hs_server (unmapped e h) = hs_server h"
  "hs_router (unmapped e h) = snd (upnp_unmap (he_igd e) (hs_upnp h) (hs_router h))"
  by (auto simp: unmapped_def upnp_unmap_def Let_def)

lemma unmapped_twice: "\<not> up_active (hs_upnp h) \<Longrightarrow> unmapped e h = h"
  by (simp add: unmapped_def upnp_unmap_def)

lemma host_serve_fields:
  assumes "ce_run e (hs_world (ci_host s)) = ((rc', ej), w)" "host_serve e t web s = (rc, s')"
  shows "rc = rc'" "\<not> up_active (hs_upnp (ci_host s'))"
    "hs_server (ci_host s') = map_option (\<lambda>srv. srv\<lparr>su_running := False\<rparr>) (hs_server (ci_host s))"
    "hs_world (ci_host s') = (if tk_cloudPublished t then snd (remove_published_room (he_qt (ce_host e)) t w) else w)"
    "hs_router (ci_host s') = snd (upnp_unmap (he_igd (ce_host e)) (hs_upnp (ci_host s)) (hs_router (ci_host s)))"
proof -
  define h1 where "h1 = (ci_host s)\<lparr>hs_world := if tk_cloudPublished t then snd (remove_published_room (he_qt (ce_host e)) t w) else w\<rparr>"
  let ?h = "server_stopped (unmapped (ce_host e) h1)"
  have e: "host_serve e t web s = (rc', snd (host_serve e t web s))" "ci_host (snd (host_serve e t web s)) = unmapped (ce_host e) ?h"
    unfolding host_serve_def assms(1) by (simp_all add: Let_def h1_def print_def)
  have "\<not> up_active (hs_upnp ?h)" using unmapped_fields(1) [of "ce_host e" h1] by (simp add: server_stopped_def)
  then have "unmapped (ce_host e) ?h = ?h" by (rule unmapped_twice)
  then have s': "rc = rc'" "ci_host s' = ?h" using e assms(2) by simp_all
  then show "rc = rc'" "\<not> up_active (hs_upnp (ci_host s'))"
    "hs_server (ci_host s') = map_option (\<lambda>srv. srv\<lparr>su_running := False\<rparr>) (hs_server (ci_host s))"
    "hs_world (ci_host s') = (if tk_cloudPublished t then snd (remove_published_room (he_qt (ce_host e)) t w) else w)"
    "hs_router (ci_host s') = snd (upnp_unmap (he_igd (ce_host e)) (hs_upnp (ci_host s)) (hs_router (ci_host s)))"
    using unmapped_fields [of "ce_host e" h1] by (simp_all add: server_stopped_def h1_def)
qed

text \<open>C32: When cli_host returns no port mapping is active and no server runs; if hosting did not
  start, router, network and standard output are untouched and the exit code is 1, 2 or an
  exception; if it did, the exit code is the event loop's, a published room has been removed
  and the mapping of that run has been deleted.\<close>

theorem host_command_cleans_up:
  assumes "cli_host e a s = Some (r, s')" "\<not> up_active (hs_upnp (ci_host s))" "hs_server (ci_host s) = None"
  shows "\<not> up_active (hs_upnp (ci_host s')) \<and> (\<forall>srv. hs_server (ci_host s') = Some srv \<longrightarrow> \<not> su_running srv) \<and>
    (r \<in> {Inr 1, Inr 2} \<union> range Inl \<and> hs_server (ci_host s') = None \<and> hs_world (ci_host s') = hs_world (ci_host s) \<and>
       hs_router (ci_host s') = hs_router (ci_host s) \<and> ci_out s' = ci_out s \<or>
     (\<exists>port t h. start_hosting (ce_host e) (ar_positional a) port (args_has a ''--lan'') (args_has a ''--write'') ticket_init
          (ci_host s) = Some (Inr t, h) \<and>
        (let ((rc, ej), w) = ce_run e (hs_world h) in r = Inr rc \<and>
          hs_world (ci_host s') = (if tk_cloudPublished t then snd (remove_published_room (he_qt (ce_host e)) t w) else w)) \<and>
        hs_router (ci_host s') = snd (upnp_unmap (he_igd (ce_host e)) (hs_upnp h) (hs_router h))))"
proof -
  consider (unused) "ar_positional a = []" | (bad) ex where "ar_positional a \<noteq> []"
      "(case ar_opts a ''--port'' of None \<Rightarrow> Inr 0 | Some v \<Rightarrow> stoi v) = Inl ex"
    | (port) port where "ar_positional a \<noteq> []" "(case ar_opts a ''--port'' of None \<Rightarrow> Inr 0 | Some v \<Rightarrow> stoi v) = Inr port"
    by (meson sumE)
  then show ?thesis
  proof cases
    case unused
    then show ?thesis using assms by (auto simp: cli_host_def complain_def)
  next
    case bad
    then have "r = Inl ex" "s' = s" using assms(1) by (simp_all add: cli_host_def)
    then show ?thesis using assms(2,3) by simp
  next
    case port
    let ?st = "start_hosting (ce_host e) (ar_positional a) port (args_has a ''--lan'') (args_has a ''--write'') ticket_init (ci_host s)"
    obtain res h where st: "?st = Some (res, h)"
      using assms(1) port by (auto simp: cli_host_def Let_def split: option.splits)
    show ?thesis
    proof (cases res)
      case (Inl msg)
      note f = start_hosting_fails [OF st [unfolded Inl]]
      have "r = Inr 1" "ci_host s' = unmapped (ce_host e) h" "ci_out s' = ci_out s"
        using assms(1) port st Inl by (auto simp: cli_host_def Let_def complain_def)
      moreover have "unmapped (ce_host e) h = h" using f(2) assms(2) by (intro unmapped_twice) simp
      ultimately show ?thesis using f assms(2,3) by simp
    next
      case (Inr t)
      obtain rc ej w where run: "ce_run e (hs_world h) = ((rc, ej), w)" by (metis prod.exhaust)
      obtain web s1 where an: "host_announce e a t h s = (web, s1)" by (metis surj_pair)
      have c: "ci_host s1 = h"
        using an by (auto simp: host_announce_def Let_def print_def split: option.splits prod.splits sum.splits if_splits)
      obtain rc1 s4 where hv: "host_serve e t web s1 = (rc1, s4)" by (metis surj_pair)
      have "r = Inr rc1" "s' = s4" using assms(1) port st Inr an hv by (simp_all add: cli_host_def Let_def)
      note f = host_serve_fields [OF _ hv, unfolded c, OF run]
      have rs: "r = Inr rc" "s' = s4" using \<open>r = Inr rc1\<close> \<open>s' = s4\<close> f(1) by simp_all
      have "?st = Some (Inr t, h) \<and>
          (let ((rc, ej), w) = ce_run e (hs_world h) in r = Inr rc \<and>
            hs_world (ci_host s') = (if tk_cloudPublished t then snd (remove_published_room (he_qt (ce_host e)) t w) else w)) \<and>
          hs_router (ci_host s') = snd (upnp_unmap (he_igd (ce_host e)) (hs_upnp h) (hs_router h))"
        using st Inr run f(4,5) rs by simp
      moreover have "\<not> up_active (hs_upnp (ci_host s')) \<and> (\<forall>srv. hs_server (ci_host s') = Some srv \<longrightarrow> \<not> su_running srv)"
        using f(2,3) rs by auto
      ultimately show ?thesis by blast
    qed
  qed
qed

theorem host_command_cleans_up_witness:
  "\<exists>r s'. cli_host ex_cli_env (no_args\<lparr>ar_positional := ''/home/pics'', ar_opts := [''--port'' \<mapsto> ''50321''],
       ar_flags := {''--lan'', ''--write''}\<rparr>) ex_cli = Some (r, s') \<and>
     \<not> up_active (hs_upnp (ci_host s')) \<and> (\<forall>srv. hs_server (ci_host s') = Some srv \<longrightarrow> \<not> su_running srv)"
proof -
  obtain r s' where c: "cli_host ex_cli_env (no_args\<lparr>ar_positional := ''/home/pics'', ar_opts := [''--port'' \<mapsto> ''50321''],
       ar_flags := {''--lan'', ''--write''}\<rparr>) ex_cli = Some (r, s')" using ex_cli_hosts by blast
  have "\<not> up_active (hs_upnp (ci_host ex_cli))" "hs_server (ci_host ex_cli) = None"
    by (simp_all add: ex_cli_def ex_host_state_def upnp_init_def)
  from host_command_cleans_up [OF c this] c show ?thesis by blast
qed

section \<open>Command lines\<close>

text \<open>
  A command line as its author means it: options with their values, flags, and the one argument the
  command is about.
\<close>

datatype item = Option string string | Flag string | Positional string

fun words_of :: "item \<Rightarrow> string list" where
  "words_of (Option name v) = [name, v]"
| "words_of (Flag name) = [name]"
| "words_of (Positional p) = [p]"

fun item_ok :: "item \<Rightarrow> bool" where
  "item_ok (Option name v) \<longleftrightarrow> takes_value name"
| "item_ok (Flag name) \<longleftrightarrow> starts_with ''--'' name \<and> \<not> takes_value name"
| "item_ok (Positional p) \<longleftrightarrow> p \<noteq> [] \<and> \<not> starts_with ''--'' p"

definition positions :: "item list \<Rightarrow> string list" where
  "positions items = concat (map (\<lambda>i. case i of Positional p \<Rightarrow> [p] | _ \<Rightarrow> []) items)"

definition options :: "item list \<Rightarrow> (string \<times> string) list" where
  "options items = concat (map (\<lambda>i. case i of Option name v \<Rightarrow> [(name, v)] | _ \<Rightarrow> []) items)"

definition flags :: "item list \<Rightarrow> string list" where
  "flags items = concat (map (\<lambda>i. case i of Flag name \<Rightarrow> [name] | _ \<Rightarrow> []) items)"

lemma items_simps [simp]:
  "positions [] = []" "options [] = []" "flags [] = []"
  "positions (Option n v # its) = positions its" "positions (Flag n # its) = positions its" "positions (Positional p # its) = p # positions its"
  "options (Option n v # its) = (n, v) # options its" "options (Flag n # its) = options its" "options (Positional p # its) = options its"
  "flags (Option n v # its) = flags its" "flags (Flag n # its) = n # flags its" "flags (Positional p # its) = flags its"
  by (simp_all add: positions_def options_def flags_def)

lemma takes_value_dashes: "takes_value n \<Longrightarrow> starts_with ''--'' n"
  by (auto simp: takes_value_def starts_with_def)

lemma given_cases:
  fixes pos :: string and its :: "item list"
  obtains (none) "pos = []" "positions its = []" | (here) "pos = []" "\<exists>p. positions its = [p]"
    | (before) "pos \<noteq> []" "positions its = []" | (two) p q r where "(if pos = [] then [] else [pos]) @ positions its = p # q # r"
  by (cases "pos = []"; cases "positions its"; cases "tl (positions its)") (auto intro: that)

text \<open>
  What the parser makes of it, given what it has already read: more than one positional argument is
  an error at the second, then an option still waiting for its value is.
\<close>

definition read_args :: "item list \<Rightarrow> string list \<Rightarrow> args \<Rightarrow> string + args" where
  "read_args items pending a = (case (if ar_positional a = [] then [] else [ar_positional a]) @ positions items of
       p # q # _ \<Rightarrow> Inl (''unexpected argument: '' @ q)
     | ps \<Rightarrow> if pending \<noteq> [] then Inl (''missing value for '' @ hd pending)
         else Inr \<lparr>ar_positional = (if ps = [] then [] else hd ps), ar_opts = ar_opts a ++ map_of (rev (options items)),
           ar_flags = ar_flags a \<union> set (flags items)\<rparr>)"

lemma parse_args_items:
  assumes "list_all item_ok items" "pending = [] \<or> (\<exists>n. takes_value n \<and> pending = [n])"
  shows "parse_args (concat (map words_of items) @ pending) a = read_args items pending a"
  using assms(1)
proof (induction items arbitrary: a)
  case Nil
  then show ?case using assms(2) takes_value_dashes by (auto simp: read_args_def)
next
  case (Cons i items)
  note IH = Cons.IH [of "a\<lparr>ar_opts := (ar_opts a)(n \<mapsto> v)\<rparr>" for n v] Cons.IH [of "a\<lparr>ar_flags := insert n (ar_flags a)\<rparr>" for n]
    Cons.IH [of "a\<lparr>ar_positional := p\<rparr>" for p]
  show ?case
  proof (cases i)
    case (Option n v)
    then show ?thesis using Cons.prems IH takes_value_dashes
      by (auto simp: read_args_def map_add_def fun_eq_iff split: list.splits option.splits)
  next
    case (Flag n)
    then show ?thesis using Cons.prems IH by (auto simp: read_args_def split: list.splits)
  next
    case (Positional p)
    then show ?thesis using Cons.prems IH by (auto simp: read_args_def split: list.splits)
  qed
qed

lemma missing_positional:
  "ar_positional a = [] \<Longrightarrow> cli_host e a s = Some (Inr 2, complain (''host: missing <folder>'' @ nl) s)"
  "ar_positional a = [] \<Longrightarrow> cli_connect e a s = Some (2, complain (''connect: missing <room-code-or-offline-blob>'' @ nl) s)"
  by (simp_all add: cli_host_def cli_connect_def)



section \<open>Arguments\<close>

text \<open>A second positional argument ends the parser: \<open>--mount\<close> does not take a value.\<close>

lemma mount_option_takes_no_value:
  assumes "code \<noteq> []" "\<not> starts_with ''--'' code" "\<not> starts_with ''--'' p"
  shows "parse_args [code, ''--mount'', p] no_args = Inl (''unexpected argument: '' @ p)"
  using assms by (simp add: no_args_def takes_value_def starts_with_def)

text \<open>The number of connections asked for is read by no command.\<close>

lemma conns_has_no_effect:
  "cli_host e (a\<lparr>ar_opts := (ar_opts a)(''--conns'' \<mapsto> v)\<rparr>) s = cli_host e a s"
  "cli_connect e (a\<lparr>ar_opts := (ar_opts a)(''--conns'' \<mapsto> v)\<rparr>) s = cli_connect e a s"
proof -
  let ?a = "a\<lparr>ar_opts := (ar_opts a)(''--conns'' \<mapsto> v)\<rparr>"
  have a: "ar_positional ?a = ar_positional a" "ar_flags ?a = ar_flags a" "ar_opts ?a ''--port'' = ar_opts a ''--port''"
    by simp_all
  show "cli_host e ?a s = cli_host e a s" unfolding cli_host_def host_announce_def args_has_def a ..
  show "cli_connect e ?a s = cli_connect e a s" unfolding cli_connect_def a ..
qed

end
