(* ===== verification/WebHost.thy ===== *)
theory WebHost
  imports OsFs FuseMount Signaling
begin

text \<open>
  The file service of the WebRTC compatibility host, from \<open>client/src/clients/web_compat.cpp\<close>: path
  resolution, the JSON requests of a peer's data channel (\<open>on_json\<close>) and the binary upload frames
  (\<open>on_binary\<close>) of \<open>WebRtcCompatHost::Impl\<close>. A JSON number is a rational, a \<open>QString\<close> is its UTF-8 bytes.
  What throws in the code gives the left side of a sum, whose message \<open>on_json\<close> turns into an error
  reply. A handler returns what it sends on the channel, which is open.
\<close>

section \<open>Requests and replies\<close>

datatype dc_msg = Text string | Binary bytes

definition json_num :: "json_object \<Rightarrow> string \<Rightarrow> rat option" where
  "json_num ob key = (case map_of ob key of Some (JNum r) \<Rightarrow> Some r | _ \<Rightarrow> None)"

text \<open>\<open>toInt()\<close>: 0 unless the member is a whole number that fits; \<open>toDouble(0)\<close>; \<open>toString(d)\<close>.\<close>

definition json_int :: "json_object \<Rightarrow> string \<Rightarrow> int" where
  "json_int ob key = (case json_num ob key of
      None \<Rightarrow> 0
    | Some r \<Rightarrow> if r = of_int \<lfloor>r\<rfloor> \<and> - (2 ^ 31) \<le> \<lfloor>r\<rfloor> \<and> \<lfloor>r\<rfloor> < 2 ^ 31 then \<lfloor>r\<rfloor> else 0)"

definition json_double :: "json_object \<Rightarrow> string \<Rightarrow> rat" where
  "json_double ob key = (case json_num ob key of None \<Rightarrow> 0 | Some r \<Rightarrow> r)"

definition json_string_or :: "string \<Rightarrow> json_object \<Rightarrow> string \<Rightarrow> string" where
  "json_string_or d ob key = (case map_of ob key of Some (JStr s) \<Rightarrow> s | _ \<Rightarrow> d)"

definition parse_json_obj :: "'w env \<Rightarrow> string \<Rightarrow> json_object" where
  "parse_json_obj q s = (case qt_from_json q s of Some (JObj ob) \<Rightarrow> ob | _ \<Rightarrow> [])"

definition json_compact :: "'w env \<Rightarrow> json_object \<Rightarrow> dc_msg" where
  "json_compact q ob = Text (qt_to_json q ob)"

text \<open>A count in a request: at least 0, and truncated.\<close>

definition json_count :: "json_object \<Rightarrow> string \<Rightarrow> nat" where
  "json_count ob key = nat \<lfloor>max 0 (json_double ob key)\<rfloor>"

section \<open>Binary frames\<close>

definition kBinMagic :: u32 where "kBinMagic = 0x4642494E"
definition kWebChunk :: nat where "kWebChunk = 64 * 1024"

definition be_bytes :: "u32 \<Rightarrow> bytes" where
  "be_bytes w = [ucast (drop_bit 24 w), ucast (drop_bit 16 w), ucast (drop_bit 8 w), ucast w]"

definition be_word :: "byte \<Rightarrow> byte \<Rightarrow> byte \<Rightarrow> byte \<Rightarrow> u32" where
  "be_word a b c d = push_bit 24 (ucast a) OR push_bit 16 (ucast b) OR push_bit 8 (ucast c) OR ucast d"

definition send_bin :: "u32 \<Rightarrow> bytes \<Rightarrow> dc_msg" where
  "send_bin i data = Binary (be_bytes kBinMagic @ be_bytes i @ data)"

text \<open>What \<open>on_binary\<close> of both sides reads of a frame: the id and the data.\<close>

definition read_bin :: "bytes \<Rightarrow> (u32 \<times> bytes) option" where
  "read_bin b = (if length b < 8 then None
     else if be_word (b ! 0) (b ! 1) (b ! 2) (b ! 3) \<noteq> kBinMagic then None
     else Some (be_word (b ! 4) (b ! 5) (b ! 6) (b ! 7), drop 8 b))"

lemma be_word_bytes: "be_word (ucast (drop_bit 24 w)) (ucast (drop_bit 16 w)) (ucast (drop_bit 8 w)) (ucast w) = (w :: u32)"
proof (rule bit_word_eqI)
  fix n assume "n < LENGTH(32)"
  then have "n < 8 \<or> 8 \<le> n \<and> n < 16 \<or> 16 \<le> n \<and> n < 24 \<or> 24 \<le> n \<and> n < 32" by auto
  then show "bit (be_word (ucast (drop_bit 24 w)) (ucast (drop_bit 16 w)) (ucast (drop_bit 8 w)) (ucast w)) n = bit w n"
    by (auto simp: be_word_def bit_simps)
qed

lemma read_send_bin: "send_bin i data = Binary b \<Longrightarrow> read_bin b = Some (i, data)"
  by (auto simp: send_bin_def read_bin_def be_bytes_def be_word_bytes)

section \<open>The system\<close>

text \<open>
  The calls of the file service: those of \<open>OsFs\<close> that path resolution uses, and the throwing calls,
  which return what \<open>what()\<close> says. A directory iterator gives names and the exception that ended it, if
  one did; a stream that did not open is \<open>None\<close>.
\<close>

record 'o web_os =
  wo_os :: "'o os_api"
  wo_is_directory :: "string \<Rightarrow> 'o \<Rightarrow> (string + bool) \<times> 'o"
  wo_is_regular_file :: "string \<Rightarrow> 'o \<Rightarrow> (string + bool) \<times> 'o"
  wo_file_size :: "string \<Rightarrow> 'o \<Rightarrow> (string + nat) \<times> 'o"
  wo_iterate :: "string \<Rightarrow> 'o \<Rightarrow> (string list \<times> string option) \<times> 'o"
  wo_create_directories :: "string \<Rightarrow> 'o \<Rightarrow> string option \<times> 'o"
  wo_remove_all :: "string \<Rightarrow> 'o \<Rightarrow> bool \<times> 'o" \<comment> \<open>whether it failed\<close>
  wo_ifstream :: "string \<Rightarrow> nat \<Rightarrow> 'o \<Rightarrow> nat option \<times> 'o" \<comment> \<open>opened, and moved to the offset\<close>
  wo_read :: "nat \<Rightarrow> nat \<Rightarrow> 'o \<Rightarrow> bytes \<times> 'o"
  wo_ofstream :: "string \<Rightarrow> 'o \<Rightarrow> nat option \<times> 'o" \<comment> \<open>binary and truncated\<close>
  wo_write :: "nat \<Rightarrow> bytes \<Rightarrow> 'o \<Rightarrow> 'o"
  wo_close :: "nat \<Rightarrow> 'o \<Rightarrow> 'o"
  wo_now_ms :: "'o \<Rightarrow> int"

record 'o web_host =
  wh_os :: 'o
  wh_root :: string
  wh_allow_writes :: bool
  wh_uploads :: "u32 \<rightharpoonup> nat option"
  wh_bytes_out :: u64
  wh_bytes_in :: u64

definition wsys :: "('o \<Rightarrow> 'a \<times> 'o) \<Rightarrow> 'o web_host \<Rightarrow> 'a \<times> 'o web_host" where
  "wsys f h = (case f (wh_os h) of (r, s) \<Rightarrow> (r, h\<lparr>wh_os := s\<rparr>))"

section \<open>Paths\<close>

definition normalize_rel :: "string \<Rightarrow> string option" where
  "normalize_rel text0 = (let
       s = (if text0 = [] then [slash] else text0);
       s = (if hd s \<noteq> slash then slash # s else s);
       parts = filter (\<lambda>x. x \<noteq> [] \<and> x \<noteq> dot) (tokens (lexically_normal s));
       out = slash # join (takeWhile (\<lambda>x. x \<noteq> dotdot) parts)
     in if dotdot \<in> set parts then None
        else Some (if out \<noteq> [slash] \<and> last out = slash then butlast out else out))"

fun web_resolve_loop ::
  "'o os_api \<Rightarrow> string \<Rightarrow> string list \<Rightarrow> string \<Rightarrow> string \<Rightarrow> bool \<Rightarrow> 'o \<Rightarrow> (string \<times> string) option \<times> 'o" where
  "web_resolve_loop api base [] current rest missing s = (Some (current, rest), s)"
| "web_resolve_loop api base (part # parts) current rest missing s =
     (if part = [] then web_resolve_loop api base parts current rest missing s
      else if missing then web_resolve_loop api base parts current (path_append rest part) missing s
      else let nxt = path_append current part in
        (case os_exists api nxt s of ((found, ec), s) \<Rightarrow>
          if found then
            (case os_is_symlink api nxt s of (symlink, s) \<Rightarrow>
              if symlink then (None, s)
              else (case os_canonical api nxt s of
                  (None, s) \<Rightarrow> (None, s)
                | (Some canon, s) \<Rightarrow>
                    if path_within base canon then web_resolve_loop api base parts canon rest missing s
                    else (None, s)))
          else if ec then (None, s)
          else web_resolve_loop api base parts current (path_append rest part) True s))"

definition resolve_common :: "'o os_api \<Rightarrow> string \<Rightarrow> string \<Rightarrow> 'o \<Rightarrow> string option \<times> 'o" where
  "resolve_common api base rel s = (case normalize_rel rel of
      None \<Rightarrow> (None, s)
    | Some rpath \<Rightarrow> (case os_canonical api base s of
        (None, s) \<Rightarrow> (None, s)
      | (Some rootPath, s) \<Rightarrow> (case web_resolve_loop api rootPath (rel_parts (drop 1 rpath)) rootPath [] False s of
          (None, s) \<Rightarrow> (None, s)
        | (Some (current, rest), s) \<Rightarrow>
            (let candidate = lexically_normal (path_append current rest)
             in if path_within rootPath candidate then (Some candidate, s) else (None, s)))))"

definition wh_resolve :: "'o web_os \<Rightarrow> string \<Rightarrow> 'o web_host \<Rightarrow> string option \<times> 'o web_host" where
  "wh_resolve a rel h = wsys (resolve_common (wo_os a) (wh_root h) rel) h"

section \<open>Requests\<close>

type_synonym 'o web_handler = "int \<Rightarrow> json_object \<Rightarrow> 'o web_host \<Rightarrow> (string + dc_msg list) \<times> 'o web_host"

definition send_ok :: "'w env \<Rightarrow> int \<Rightarrow> dc_msg list" where
  "send_ok q i = [json_compact q [(''t'', JStr ''ok''), (''id'', JNum (of_int i))]]"

definition send_error :: "'w env \<Rightarrow> int \<Rightarrow> string \<Rightarrow> dc_msg list" where
  "send_error q i e = [json_compact q [(''t'', JStr ''error''), (''id'', JNum (of_int i)), (''message'', JStr e)]]"

text \<open>One entry of a listing; \<open>None\<close> for a link.\<close>

definition list_entry ::
  "'o web_os \<Rightarrow> string \<Rightarrow> string \<Rightarrow> string \<Rightarrow> 'o web_host \<Rightarrow> (string + json option) \<times> 'o web_host" where
  "list_entry a path apath name h = (let p = path_append apath name in
     case wsys (os_is_symlink (wo_os a) p) h of (symlink, h) \<Rightarrow>
       if symlink then (Inr None, h)
       else (let child = (if path = [slash] then slash # name else path @ slash # name) in
         case wsys (wo_is_directory a p) h of
           (Inl e, h) \<Rightarrow> (Inl e, h)
         | (Inr dir, h) \<Rightarrow>
            (let front = [(''name'', JStr name), (''path'', JStr child),
                 (''kind'', JStr (if dir then ''directory'' else ''file''))];
                 back = (\<lambda>h. [(''mtime'', JNum (of_int (wo_now_ms a (wh_os h))))])
             in case wsys (wo_is_regular_file a p) h of
                (Inl e, h) \<Rightarrow> (Inl e, h)
              | (Inr False, h) \<Rightarrow> (Inr (Some (JObj (front @ back h))), h)
              | (Inr True, h) \<Rightarrow> (case wsys (wo_file_size a p) h of
                  (Inl e, h) \<Rightarrow> (Inl e, h)
                | (Inr n, h) \<Rightarrow> (Inr (Some (JObj (front @ [(''size'', JNum (of_nat n))] @ back h))), h)))))"

fun list_entries ::
  "'o web_os \<Rightarrow> string \<Rightarrow> string \<Rightarrow> string list \<Rightarrow> 'o web_host \<Rightarrow> (string + json list) \<times> 'o web_host" where
  "list_entries a path apath [] h = (Inr [], h)"
| "list_entries a path apath (name # names) h = (case list_entry a path apath name h of
      (Inl e, h) \<Rightarrow> (Inl e, h)
    | (Inr entry, h) \<Rightarrow> (case list_entries a path apath names h of
        (Inl e, h) \<Rightarrow> (Inl e, h)
      | (Inr es, h) \<Rightarrow> (Inr ((case entry of None \<Rightarrow> [] | Some j \<Rightarrow> [j]) @ es), h)))"

definition wh_list :: "'w env \<Rightarrow> 'o web_os \<Rightarrow> 'o web_handler" where
  "wh_list q a i msg h = (let path = json_string_or [slash] msg ''path'' in
     case wh_resolve a path h of
       (None, h) \<Rightarrow> (Inl ''Not a directory'', h)
     | (Some apath, h) \<Rightarrow> (case wsys (wo_is_directory a apath) h of
         (Inl e, h) \<Rightarrow> (Inl e, h)
       | (Inr False, h) \<Rightarrow> (Inl ''Not a directory'', h)
       | (Inr True, h) \<Rightarrow> (case wsys (wo_iterate a apath) h of ((names, ended), h) \<Rightarrow>
           (case list_entries a path apath names h of
             (Inl e, h) \<Rightarrow> (Inl e, h)
           | (Inr es, h) \<Rightarrow> (case ended of
               Some e \<Rightarrow> (Inl e, h)
             | None \<Rightarrow> (Inr [json_compact q [(''t'', JStr ''listResult''), (''id'', JNum (of_int i)), (''path'', JStr path),
                   (''entries'', JArr es), (''write'', JBool (wh_allow_writes h)), (''ranges'', JBool True)]], h))))))"

text \<open>The loop over the chunks of a download, with the bytes that remain.\<close>

function send_chunks ::
  "'o web_os \<Rightarrow> nat \<Rightarrow> u32 \<Rightarrow> nat \<Rightarrow> 'o web_host \<Rightarrow> dc_msg list \<times> 'o web_host" where
  "send_chunks a f i remaining h =
     (if remaining = 0 then ([], h)
      else (let want = min remaining kWebChunk in
        case wsys (wo_read a f want) h of (got, h) \<Rightarrow>
          (let got = take want got in
            if got = [] then ([], h)
            else (let h = h\<lparr>wh_bytes_out := wh_bytes_out h + of_nat (length got)\<rparr> in
              if length got < want then ([send_bin i got], h)
              else (case send_chunks a f i (remaining - length got) h of (ms, h) \<Rightarrow> (send_bin i got # ms, h))))))"
  by pat_completeness auto
termination
  by (relation "measure (\<lambda>(_, _, _, remaining, _). remaining)") (auto simp: kWebChunk_def)

declare send_chunks.simps [simp del]

definition wh_download :: "'w env \<Rightarrow> 'o web_os \<Rightarrow> 'o web_handler" where
  "wh_download q a i msg h = (case wh_resolve a (json_string msg ''path'') h of
      (None, h) \<Rightarrow> (Inl ''Not a file'', h)
    | (Some apath, h) \<Rightarrow> (case wsys (wo_is_regular_file a apath) h of
        (Inl e, h) \<Rightarrow> (Inl e, h)
      | (Inr False, h) \<Rightarrow> (Inl ''Not a file'', h)
      | (Inr True, h) \<Rightarrow> (case wsys (wo_file_size a apath) h of
          (Inl e, h) \<Rightarrow> (Inl e, h)
        | (Inr n, h) \<Rightarrow>
           (let off = min n (json_count msg ''offset'');
                remaining = n - off;
                remaining = (if map_of msg ''length'' \<noteq> None then min remaining (json_count msg ''length'') else remaining);
                start = json_compact q [(''t'', JStr ''fileStart''), (''id'', JNum (of_int i)), (''name'', JStr (filename apath)),
                  (''size'', JNum (of_nat remaining)), (''offset'', JNum (of_nat off))];
                finish = json_compact q [(''t'', JStr ''fileEnd''), (''id'', JNum (of_int i))]
            in case wsys (wo_ifstream a apath off) h of
                 (None, h) \<Rightarrow> (Inr [start, finish], h)
               | (Some f, h) \<Rightarrow> (case send_chunks a f (word_of_int i) remaining h of (ms, h) \<Rightarrow>
                   (Inr (start # ms @ [finish]), h\<lparr>wh_os := wo_close a f (wh_os h)\<rparr>))))))"

text \<open>Dropping or replacing an entry of \<open>uploads\<close> closes its stream.\<close>

definition close_upload :: "'o web_os \<Rightarrow> u32 \<Rightarrow> 'o web_host \<Rightarrow> 'o web_host" where
  "close_upload a i h = (case wh_uploads h i of Some (Some f) \<Rightarrow> h\<lparr>wh_os := wo_close a f (wh_os h)\<rparr> | _ \<Rightarrow> h)"

definition writes_disabled :: string where "writes_disabled = ''The host has writes disabled''"

definition wh_upload_start :: "'w env \<Rightarrow> 'o web_os \<Rightarrow> 'o web_handler" where
  "wh_upload_start q a i msg h =
     (if \<not> wh_allow_writes h then (Inl writes_disabled, h)
      else (case wh_resolve a (json_string msg ''path'') h of
          (None, h) \<Rightarrow> (Inl ''Bad upload path'', h)
        | (Some apath, h) \<Rightarrow> (case wsys (wo_create_directories a (parent_path apath)) h of
            (Some e, h) \<Rightarrow> (Inl e, h)
          | (None, h) \<Rightarrow> (case wsys (wo_ofstream a apath) h of (f, h) \<Rightarrow>
             (let h = close_upload a (word_of_int i) h;
                  h = h\<lparr>wh_uploads := (wh_uploads h)(word_of_int i \<mapsto> f)\<rparr>
              in (Inr [json_compact q [(''t'', JStr ''uploadReady''), (''id'', JNum (of_int i))]], h))))))"

definition wh_mkdir :: "'w env \<Rightarrow> 'o web_os \<Rightarrow> 'o web_handler" where
  "wh_mkdir q a i msg h =
     (if \<not> wh_allow_writes h then (Inl writes_disabled, h)
      else (case wh_resolve a (json_string msg ''path'') h of
          (None, h) \<Rightarrow> (Inl ''Bad path'', h)
        | (Some apath, h) \<Rightarrow> (case wsys (wo_create_directories a apath) h of
            (Some e, h) \<Rightarrow> (Inl ''Create folder failed'', h)
          | (None, h) \<Rightarrow> (Inr (send_ok q i), h))))"

definition wh_upload_end :: "'w env \<Rightarrow> 'o web_os \<Rightarrow> 'o web_handler" where
  "wh_upload_end q a i msg h = (let h = close_upload a (word_of_int i) h
     in (Inr (send_ok q i), h\<lparr>wh_uploads := (wh_uploads h)(word_of_int i := None)\<rparr>))"

definition wh_delete :: "'w env \<Rightarrow> 'o web_os \<Rightarrow> 'o web_handler" where
  "wh_delete q a i msg h =
     (if \<not> wh_allow_writes h then (Inl writes_disabled, h)
      else (case wh_resolve a (json_string msg ''path'') h of
          (None, h) \<Rightarrow> (Inl ''Bad path'', h)
        | (Some apath, h) \<Rightarrow> (case wsys (wo_remove_all a apath) h of (failed, h) \<Rightarrow>
            if failed then (Inl ''Delete failed'', h) else (Inr (send_ok q i), h))))"

definition on_json :: "'w env \<Rightarrow> 'o web_os \<Rightarrow> json_object \<Rightarrow> 'o web_host \<Rightarrow> dc_msg list \<times> 'o web_host" where
  "on_json q a msg h = (let t = json_string msg ''t''; i = json_int msg ''id'' in
     case (if t = ''list'' then wh_list q a i msg h
           else if t = ''download'' then wh_download q a i msg h
           else if t = ''uploadStart'' then wh_upload_start q a i msg h
           else if t = ''mkdir'' then wh_mkdir q a i msg h
           else if t = ''uploadEnd'' then wh_upload_end q a i msg h
           else if t = ''delete'' then wh_delete q a i msg h
           else (Inl ''Unknown request'', h)) of
       (Inl e, h) \<Rightarrow> (send_error q i e, h)
     | (Inr out, h) \<Rightarrow> (out, h))"

definition on_binary :: "'o web_os \<Rightarrow> bytes \<Rightarrow> 'o web_host \<Rightarrow> 'o web_host" where
  "on_binary a b h = (case read_bin b of
      None \<Rightarrow> h
    | Some (i, data) \<Rightarrow> (case wh_uploads h i of
        None \<Rightarrow> h
      | Some f \<Rightarrow> (let h = h\<lparr>wh_bytes_in := wh_bytes_in h + of_nat (length b - 8)\<rparr>
          in case f of None \<Rightarrow> h | Some f \<Rightarrow> h\<lparr>wh_os := wo_write a f data (wh_os h)\<rparr>)))"

text \<open>A message of a peer.\<close>

definition web_message :: "'w env \<Rightarrow> 'o web_os \<Rightarrow> dc_msg \<Rightarrow> 'o web_host \<Rightarrow> dc_msg list \<times> 'o web_host" where
  "web_message q a m h = (case m of
      Text s \<Rightarrow> on_json q a (parse_json_obj q s) h
    | Binary b \<Rightarrow> ([], on_binary a b h))"

end
