(* ===== verification/WebHostSafe.thy ===== *)
theory WebHostSafe
  imports WebHost ServerSafety Session
begin

text \<open>
  What a peer of the WebRTC host can reach: every path that a message makes the host hand to the
  system lies in the shared folder, nothing changes on a read-only share, and, on a POSIX system, no
  download succeeds.
\<close>

section \<open>Normal paths\<close>

lemma tokens_slash [simp]: "tokens (slash # s) = tokens s"
  by (simp add: tokens_def)

lemma tokens_trailing_slash: "tokens (s @ [slash]) = tokens s"
proof -
  have "tokens_acc cur (s @ [slash]) = tokens_acc cur s" for cur
    by (induction cur s rule: tokens_acc.induct) auto
  then show ?thesis by (simp add: tokens_def)
qed

lemma tokens_join:
  assumes "list_all (\<lambda>t. t \<noteq> [] \<and> slash \<notin> set t) ts"
  shows "tokens (join ts) = ts"
  using assms
proof (induction ts rule: rev_induct)
  case (snoc t ts)
  show ?case
  proof (cases "ts = []")
    case True
    then show ?thesis using snoc.prems tokens_acc_plain [of t] by (simp add: tokens_def)
  next
    case False
    then show ?thesis
      using snoc tokens_acc_append_plain [of t "[]" "join ts"] by (simp add: join_snoc tokens_def)
  qed
qed (simp add: tokens_def)

lemma plain_names: "list_all plain_name ts \<Longrightarrow> list_all (\<lambda>t. t \<noteq> [] \<and> slash \<notin> set t) ts"
  by (auto simp: list_all_iff plain_name_def)

lemma norm_comps_canon:
  assumes "list_all plain_name ts"
  shows "norm_comps (slash # join ts) = ts" "norm_comps (slash # join ts @ [slash]) = ts"
proof -
  have "foldl (norm_step True) st ts = st @ ts" for st
    using assms by (induction ts arbitrary: st) (auto simp: norm_step_def plain_name_def)
  then show "norm_comps (slash # join ts) = ts" "norm_comps (slash # join ts @ [slash]) = ts"
    using tokens_join [OF plain_names [OF assms]]
    by (simp_all add: norm_comps_def is_absolute_def tokens_trailing_slash)
qed

lemma norm_comps_plain:
  assumes "is_absolute p"
  shows "list_all plain_name (norm_comps p)"
proof -
  have "list_all plain_name (foldl (norm_step True) st ts)"
    if "list_all plain_name st" "list_all (\<lambda>t. t \<noteq> [] \<and> slash \<notin> set t) ts" for st ts
    using that
  proof (induction ts arbitrary: st)
    case (Cons t ts)
    have "list_all plain_name (norm_step True st t)"
      using Cons.prems by (auto simp: norm_step_def plain_name_def list_all_iff dest: in_set_butlastD)
    then show ?case using Cons by simp
  qed simp
  from this [of "[]" "tokens p"] show ?thesis using assms tokens_names by (auto simp: norm_comps_def list_all_iff)
qed

lemma norm_comps_normal:
  assumes "is_absolute p"
  shows "norm_comps (lexically_normal p) = norm_comps p" "is_absolute (lexically_normal p)"
    "lexically_normal p = slash # join (norm_comps p) @ (if norm_trailing p then [slash] else [])"
proof -
  show n: "lexically_normal p = slash # join (norm_comps p) @ (if norm_trailing p then [slash] else [])"
    using assms by (auto simp: lexically_normal_def is_absolute_def Let_def)
  then show "norm_comps (lexically_normal p) = norm_comps p"
    using norm_comps_canon [OF norm_comps_plain [OF assms]] by simp
  show "is_absolute (lexically_normal p)" unfolding n by (simp add: is_absolute_def)
qed

lemma path_within_comps:
  assumes "is_absolute p" "is_absolute p'" "norm_comps p = norm_comps p'"
  shows "path_within r p = path_within r p'"
  using assms path_key_absolute [of p] path_key_absolute [of p'] by (simp add: path_within_def norm_body_def)

lemma plain_last: "plain_name t \<Longrightarrow> t \<noteq> [] \<and> hd t \<noteq> slash \<and> last t \<noteq> slash"
  by (metis hd_in_set last_in_set plain_name_def)

lemma join_last:
  assumes "list_all plain_name ts" "ts \<noteq> []"
  shows "join ts \<noteq> [] \<and> last (join ts) \<noteq> slash \<and> hd (join ts) \<noteq> slash"
  using assms
proof (induction ts rule: rev_induct)
  case (snoc t ts)
  then show ?case using plain_last [of t] by (cases "ts = []") (auto simp: join_snoc hd_append)
qed simp

text \<open>The parent of a canonical path.\<close>

lemma parent_canon:
  assumes "list_all plain_name ts"
  shows "parent_path (slash # join ts) = slash # join (butlast ts)"
    "ts \<noteq> [] \<Longrightarrow> parent_path (slash # join ts @ [slash]) = slash # join ts"
proof -
  have l: "dropWhile (\<lambda>c. c = slash) (rev (slash # join us)) = (if us = [] then [] else rev (slash # join us))"
    if us: "list_all plain_name us" for us
  proof (cases "us = []")
    case False
    then obtain c cs where "rev (join us) = c # cs" "c \<noteq> slash"
      using join_last [OF us False] by (metis hd_rev list.sel(1) rev.simps(1) rev_rev_ident neq_Nil_conv)
    then show ?thesis using False by simp
  qed simp
  show "parent_path (slash # join ts) = slash # join (butlast ts)"
  proof (cases ts rule: rev_cases)
    case (snoc us t)
    have d: "dropWhile (\<lambda>c. c \<noteq> slash) (rev t @ slash # xs) = slash # xs" for xs
      using assms snoc by (subst dropWhile_append2) (auto simp: plain_name_def)
    have b: "list_all plain_name us" using assms snoc by simp
    show ?thesis
    proof (cases "us = []")
      case True
      then show ?thesis using d [of "[]"] by (simp add: parent_path_def Let_def snoc)
    next
      case False
      then show ?thesis
        using d [of "rev (slash # join us)"] l [OF b]
        by (simp add: parent_path_def Let_def snoc join_snoc)
    qed
  qed (simp add: parent_path_def Let_def)
  show "parent_path (slash # join ts @ [slash]) = slash # join ts" if "ts \<noteq> []"
    using l [OF assms] that by (simp add: parent_path_def Let_def)
qed

text \<open>A path made of a directory inside the share and plain names, with its normal form and its parent.\<close>

lemma path_append_join_snoc:
  "ts \<noteq> [] \<Longrightarrow> list_all plain_name (ts @ [t]) \<Longrightarrow> p \<noteq> [] \<Longrightarrow>
     path_append p (join (ts @ [t])) = path_append (path_append p (join ts)) t"
  using join_last [of ts] plain_last [of t] by (auto simp: path_append_def join_snoc is_absolute_def hd_append)

lemma within_append:
  assumes "is_absolute r" "path_within r p" "list_all plain_name ts"
  shows "is_absolute (path_append p (join ts)) \<and> path_within r (path_append p (join ts)) \<and>
     norm_comps (path_append p (join ts)) = norm_comps p @ ts"
  using assms(3)
proof (induction ts rule: rev_induct)
  case Nil
  have a: "is_absolute p" by (rule path_within_absolute [OF assms(1,2)])
  have c: "norm_comps (path_append p []) = norm_comps p"
    using a by (auto simp: path_append_def norm_comps_def is_absolute_def tokens_trailing_slash)
  have a': "is_absolute (path_append p [])" using a by (auto simp: path_append_def is_absolute_def)
  show ?case using a a' c assms(2) path_within_comps [OF a' a c] by simp
next
  case (snoc t ts)
  have t: "plain_name t" using snoc.prems by simp
  have p: "p \<noteq> []" "is_absolute p" using path_within_absolute [OF assms(1,2)] by (auto simp: is_absolute_def)
  show ?case
  proof (cases "ts = []")
    case True
    then show ?thesis using path_within_child [OF assms(1) p(2) assms(2) t] t p by (simp add: norm_comps_child)
  next
    case False
    let ?q = "path_append p (join ts)"
    have q: "is_absolute ?q" "path_within r ?q" "norm_comps ?q = norm_comps p @ ts" using snoc by auto
    have "?q \<noteq> []" using q(1) by (auto simp: is_absolute_def)
    then show ?thesis
      using path_within_child [OF assms(1) q(1,2) t] t q path_append_join_snoc [OF False snoc.prems p(1)]
      by (simp add: norm_comps_child)
  qed
qed

lemma norm_trailing_join:
  assumes "p \<noteq> []" "list_all plain_name ts" "ts \<noteq> []"
  shows "\<not> norm_trailing (path_append p (join ts))"
proof (cases ts rule: rev_cases)
  case (snoc us t)
  show ?thesis
  proof (cases "us = []")
    case True
    then show ?thesis using norm_trailing_child assms snoc by simp
  next
    case False
    have "path_append p (join us) \<noteq> []" using assms(1) by (auto simp: path_append_def is_absolute_def)
    then show ?thesis
      using path_append_join_snoc [of us t p] norm_trailing_child [of t "path_append p (join us)"] assms snoc False by simp
  qed
qed (use assms in simp)

lemma candidate_within:
  assumes "is_absolute r" "path_within r p" "list_all plain_name ts"
  shows "path_within r (lexically_normal (path_append p (join ts)))"
    "path_within r (parent_path (lexically_normal (path_append p (join ts))))"
    "norm_comps (lexically_normal (path_append p (join ts))) = norm_comps p @ ts"
proof -
  let ?q = "path_append p (join ts)"
  note q = within_append [OF assms]
  have a: "is_absolute ?q" using q by simp
  note n = norm_comps_normal [OF a]
  show "norm_comps (lexically_normal ?q) = norm_comps p @ ts" using n(1) q by simp
  show "path_within r (lexically_normal ?q)" using path_within_comps [OF n(2) a n(1)] q by simp
  have abs: "is_absolute (slash # s)" for s by (simp add: is_absolute_def)
  have pl: "list_all plain_name (norm_comps ?q)" by (rule norm_comps_plain [OF a])
  show "path_within r (parent_path (lexically_normal ?q))"
  proof (cases "norm_trailing ?q")
    case True
    then have "parent_path (lexically_normal ?q) = slash # join (norm_comps ?q)"
      using n(3) parent_canon(2) [OF pl] by (simp add: norm_trailing_def)
    then show ?thesis using path_within_comps [OF abs a norm_comps_canon(1) [OF pl]] q by simp
  next
    case False
    then have e: "parent_path (lexically_normal ?q) = slash # join (butlast (norm_comps ?q))"
      using n(3) parent_canon(1) [OF pl] by simp
    have pb: "list_all plain_name (butlast (norm_comps ?q))"
      using pl by (auto simp: list_all_iff dest: in_set_butlastD)
    show ?thesis
    proof (cases ts rule: rev_cases)
      case Nil
      have p: "is_absolute p" by (rule path_within_absolute [OF assms(1,2)])
      have "norm_comps p = []"
      proof (rule ccontr)
        assume "norm_comps p \<noteq> []"
        then have "norm_comps ?q \<noteq> []" "last (norm_comps ?q) \<noteq> dotdot" using q Nil pl
          by (auto simp: list_all_iff plain_name_def dest: last_in_set)
        moreover have "last ?q = slash" using p Nil by (auto simp: path_append_def is_absolute_def)
        ultimately show False using False by (simp add: norm_trailing_def)
      qed
      then have "norm_comps (slash # join (butlast (norm_comps ?q))) = norm_comps p"
        using norm_comps_canon(1) [OF pb] q Nil by simp
      from path_within_comps [OF abs p this] show ?thesis using e assms(2) by simp
    next
      case (snoc us t)
      have us: "list_all plain_name us" using assms(3) snoc by simp
      note w = within_append [OF assms(1,2) us]
      have "butlast (norm_comps ?q) = norm_comps p @ us" using q snoc by (simp add: butlast_append)
      then have "norm_comps (slash # join (butlast (norm_comps ?q))) = norm_comps (path_append p (join us))"
        using norm_comps_canon(1) [OF pb] w by simp
      from path_within_comps [OF abs _ this] show ?thesis using e w by simp
    qed
  qed
qed

section \<open>Resolution stays inside\<close>

lemma normalize_rel_plain:
  "\<exists>ts. normalize_rel rel = Some (slash # join ts) \<and> list_all plain_name ts"
proof -
  define s where "s = (let s = (if rel = [] then [slash] else rel) in if hd s \<noteq> slash then slash # s else s)"
  have a: "is_absolute s" by (auto simp: s_def is_absolute_def Let_def)
  note n = norm_comps_normal(3) [OF a] norm_comps_plain [OF a]
  have t: "tokens (lexically_normal s) = norm_comps s"
    using n(1) tokens_join [OF plain_names [OF n(2)]] by (simp add: tokens_trailing_slash)
  have f: "filter (\<lambda>x. x \<noteq> [] \<and> x \<noteq> dot) (norm_comps s) = norm_comps s" "dotdot \<notin> set (norm_comps s)"
    "takeWhile (\<lambda>x. x \<noteq> dotdot) (norm_comps s) = norm_comps s"
    using n(2) by (auto simp: list_all_iff plain_name_def filter_id_conv takeWhile_eq_all_conv)
  have l: "last (slash # join (norm_comps s)) = slash \<longleftrightarrow> norm_comps s = []"
    using join_last [OF n(2)] by (cases "norm_comps s = []") auto
  have "normalize_rel rel = Some (slash # join (norm_comps s))"
    unfolding normalize_rel_def Let_def s_def [unfolded Let_def, symmetric] t f(1,3)
    using f(2) l join_last [OF n(2)] by (cases "norm_comps s = []") auto
  then show ?thesis using n(2) by blast
qed

lemma rel_parts_join: "list_all plain_name ts \<Longrightarrow> rel_parts (join ts) = ts"
  using tokens_join [OF plain_names] join_last [of ts] by (cases "ts = []") (auto simp: rel_parts_def tokens_def)

lemma join_append:
  assumes "list_all plain_name ts" "plain_name t"
  shows "path_append (join ts) t = join (ts @ [t])"
  using join_last [OF assms(1)] plain_last [OF assms(2)]
  by (cases "ts = []") (auto simp: path_append_def is_absolute_def join_snoc)

lemma web_resolve_loop_permitted:
  assumes "is_absolute r" "path_within r cur" "list_all plain_name parts" "list_all plain_name ts"
    and "web_resolve_loop (logged api) r parts cur (join ts) missing s = (res, s')"
  shows "ext (permitted r allow) s s' \<and>
     (\<forall>c rest. res = Some (c, rest) \<longrightarrow> path_within r c \<and> (\<exists>us. list_all plain_name us \<and> rest = join us))"
  using assms(2-)
proof (induction parts arbitrary: cur ts missing s)
  case Nil
  then show ?case by auto
next
  case (Cons part parts)
  have pl: "plain_name part" "part \<noteq> []" using Cons.prems(2) by (auto simp: plain_name_def)
  have ts: "path_append (join ts) part = join (ts @ [part])" "list_all plain_name (ts @ [part])"
    using join_append [OF Cons.prems(3) pl(1)] Cons.prems(3) pl(1) by simp_all
  have cur: "is_absolute cur" by (rule path_within_absolute [OF assms(1) Cons.prems(1)])
  let ?n = "path_append cur part"
  have nw: "path_within r ?n" by (rule path_within_child [OF assms(1) cur Cons.prems(1) pl(1)])
  show ?case
  proof (cases missing)
    case True
    then show ?thesis using Cons.IH [OF Cons.prems(1) _ ts(2), of True s] Cons.prems(2,4) pl(2) by (simp add: ts(1))
  next
    case False
    obtain found ec s1 where e: "os_exists (logged api) ?n s = ((found, ec), s1)" by (metis prod.exhaust)
    have x1: "ext (permitted r allow) s s1"
      using e nw by (auto simp: logged_def permitted_def intro: ext_log)
    show ?thesis
    proof (cases found)
      case notfound: False
      show ?thesis
      proof (cases ec)
        case True
        then show ?thesis using Cons.prems(4) e x1 False notfound pl(2) by (auto simp: Let_def)
      next
        case noerr: False
        have "web_resolve_loop (logged api) r parts cur (join (ts @ [part])) True s1 = (res, s')"
          using Cons.prems(4) e False notfound noerr pl(2) by (simp add: Let_def ts(1))
        from Cons.IH [OF Cons.prems(1) _ ts(2) this] Cons.prems(2) show ?thesis using ext_trans [OF x1] by auto
      qed
    next
      case found: True
      obtain sym s2 where l: "os_is_symlink (logged api) ?n s1 = (sym, s2)" by (metis prod.exhaust)
      have x2: "ext (permitted r allow) s s2"
        using l nw by (intro ext_trans [OF x1]) (auto simp: logged_def permitted_def intro: ext_log)
      show ?thesis
      proof (cases sym)
        case True
        then show ?thesis using Cons.prems(4) e l x2 False found pl(2) by (auto simp: Let_def)
      next
        case nolink: False
        obtain can s3 where c: "os_canonical (logged api) ?n s2 = (can, s3)" by (metis prod.exhaust)
        have x3: "ext (permitted r allow) s s3"
          using c nw by (intro ext_trans [OF x2]) (auto simp: logged_def permitted_def intro: ext_log)
        show ?thesis
        proof (cases "\<exists>canon. can = Some canon \<and> path_within r canon")
          case True
          then obtain canon where k: "can = Some canon" "path_within r canon" by blast
          have "web_resolve_loop (logged api) r parts canon (join ts) missing s3 = (res, s')"
            using Cons.prems(4) e l c False found nolink k pl(2) by (simp add: Let_def)
          from Cons.IH [OF k(2) _ Cons.prems(3) this] Cons.prems(2) show ?thesis using ext_trans [OF x3] by auto
        next
          case bad: False
          then have "res = None" "s' = s3" using Cons.prems(4) e l c False found nolink pl(2)
            by (auto simp: Let_def split: option.splits if_splits)
          then show ?thesis using x3 by simp
        qed
      qed
    qed
  qed
qed

section \<open>The calls of a message\<close>

text \<open>
  The system with the log of \<open>OsFs\<close>: \<open>exists\<close> stands for the three queries of \<open>wo\<close>, a stream is an open file.
\<close>

definition wlogged :: "'o web_os \<Rightarrow> (os_call list \<times> 'o) web_os" where
  "wlogged a = \<lparr>wo_os = logged (wo_os a),
     wo_is_directory = (\<lambda>p. log_call (C_exists p) (wo_is_directory a p)),
     wo_is_regular_file = (\<lambda>p. log_call (C_exists p) (wo_is_regular_file a p)),
     wo_file_size = (\<lambda>p. log_call (C_exists p) (wo_file_size a p)),
     wo_iterate = (\<lambda>p. log_call (C_listdir p) (wo_iterate a p)),
     wo_create_directories = (\<lambda>p. log_call (C_mkdir p) (wo_create_directories a p)),
     wo_remove_all = (\<lambda>p. log_call (C_remove p) (wo_remove_all a p)),
     wo_ifstream = (\<lambda>p n. log_call (C_open p 0 0) (wo_ifstream a p n)),
     wo_read = (\<lambda>f n. log_call (C_pread f n 0) (wo_read a f n)),
     wo_ofstream = (\<lambda>p. log_call (C_open p (1 OR O_CREAT OR O_TRUNC) 0) (wo_ofstream a p)),
     wo_write = (\<lambda>f b (l, s). (l @ [C_pwrite f b 0], wo_write a f b s)),
     wo_close = (\<lambda>f (l, s). (l @ [C_close f], wo_close a f s)),
     wo_now_ms = (\<lambda>(l, s). wo_now_ms a s)\<rparr>"

text \<open>The root is canonical: \<open>start\<close> made it so, and making a canonical path canonical changes nothing.\<close>

definition canonical_root :: "'o web_os \<Rightarrow> string \<Rightarrow> bool" where
  "canonical_root a r \<longleftrightarrow> is_absolute r \<and> (\<forall>s. fst (os_canonical (wo_os a) r s) \<in> {None, Some r})"

text \<open>A stream is open for writing only where writes are allowed.\<close>

definition uploads_ok :: "'o web_host \<Rightarrow> bool" where
  "uploads_ok h \<longleftrightarrow> wh_uploads h = Map.empty \<or> wh_allow_writes h"

text \<open>One state follows another by permitted calls.\<close>

definition whext :: "(os_call list \<times> 'o) web_host \<Rightarrow> (os_call list \<times> 'o) web_host \<Rightarrow> bool" where
  "whext h h' \<longleftrightarrow> ext (permitted (wh_root h) (wh_allow_writes h)) (wh_os h) (wh_os h') \<and>
     wh_root h' = wh_root h \<and> wh_allow_writes h' = wh_allow_writes h \<and> (uploads_ok h \<longrightarrow> uploads_ok h')"

lemma whext_refl [simp, intro]: "whext h h"
  by (simp add: whext_def)

lemma whext_trans: "whext h h1 \<Longrightarrow> whext h1 h2 \<Longrightarrow> whext h h2"
  by (auto simp: whext_def intro: ext_trans)

lemma whext_fields:
  "whext h h' \<Longrightarrow> wh_root h' = wh_root h" "whext h h' \<Longrightarrow> wh_allow_writes h' = wh_allow_writes h"
  "whext h h' \<Longrightarrow> uploads_ok h \<Longrightarrow> uploads_ok h'"
  by (simp_all add: whext_def)

lemma whext_call:
  assumes "wsys (log_call c f) h = (r, h')" "permitted (wh_root h) (wh_allow_writes h) c"
  shows "whext h h'"
  using assms by (auto simp: wsys_def whext_def uploads_ok_def intro: ext_log split: prod.splits)

lemma whext_free [simp, intro]:
  "whext h (h\<lparr>wh_bytes_out := n\<rparr>)" "whext h (h\<lparr>wh_bytes_in := n\<rparr>)"
  "whext h (h\<lparr>wh_uploads := (wh_uploads h)(i := None)\<rparr>)" "whext h (h\<lparr>wh_os := wo_close (wlogged a) f (wh_os h)\<rparr>)"
  by (cases "wh_os h"; auto simp: whext_def uploads_ok_def wlogged_def ext_def permitted_def)+

lemma whext_close_upload [simp, intro]: "whext h (close_upload (wlogged a) i h)"
  by (auto simp: close_upload_def split: option.split)

text \<open>The continuation of a call, and of a resolution.\<close>

definition share :: "string \<Rightarrow> bool \<Rightarrow> 'o web_host \<Rightarrow> bool" where
  "share r aw h \<longleftrightarrow> wh_root h = r \<and> wh_allow_writes h = aw"

lemma whext_share: "whext h h' \<Longrightarrow> share r aw h \<Longrightarrow> share r aw h'"
  by (simp add: share_def whext_def)

lemma wpx_call:
  assumes "share r aw h" "permitted r aw c" "\<And>x h1. share r aw h1 \<Longrightarrow> whext h1 (snd (K x h1))"
  shows "whext h (snd (case wsys (log_call c f) h of (x, h1) \<Rightarrow> K x h1))"
proof -
  obtain x h1 where w: "wsys (log_call c f) h = (x, h1)" by (metis surj_pair)
  have e: "whext h h1" by (rule whext_call [OF w]) (use assms(1,2) in \<open>simp add: share_def\<close>)
  show ?thesis using w assms(3) [OF whext_share [OF e assms(1)]] by (auto intro: whext_trans [OF e])
qed

lemma wpx_split:
  "(b \<Longrightarrow> whext h (snd x)) \<Longrightarrow> (\<not> b \<Longrightarrow> whext h (snd y)) \<Longrightarrow> whext h (snd (if b then x else y))"
  "(\<And>e. s = Inl e \<Longrightarrow> whext h (snd (f e))) \<Longrightarrow> (\<And>v. s = Inr v \<Longrightarrow> whext h (snd (g v))) \<Longrightarrow>
     whext h (snd (case s of Inl e \<Rightarrow> f e | Inr v \<Rightarrow> g v))"
  "(opt = None \<Longrightarrow> whext h (snd x)) \<Longrightarrow> (\<And>v. opt = Some v \<Longrightarrow> whext h (snd (g v))) \<Longrightarrow>
     whext h (snd (case opt of None \<Rightarrow> x | Some v \<Rightarrow> g v))"
  "(b \<Longrightarrow> whext h (snd x)) \<Longrightarrow> (\<not> b \<Longrightarrow> whext h (snd y)) \<Longrightarrow> whext h (snd (case b of True \<Rightarrow> x | False \<Rightarrow> y))"
  by (auto split: sum.split option.split bool.split)

lemma wpx_pair:
  "(\<And>u v. q = (u, v) \<Longrightarrow> whext h (snd (K2 u v))) \<Longrightarrow> whext h (snd (case q of (u, v) \<Rightarrow> K2 u v))"
  by (cases q) simp

lemma wpx_end: "whext h (snd (r, h))"
  by simp

lemma wh_resolve_permitted:
  assumes "canonical_root a (wh_root h)" "wh_resolve (wlogged a) rel h = (res, h')"
  shows "whext h h'" "res = Some p \<Longrightarrow> path_within (wh_root h) p \<and> path_within (wh_root h) (parent_path p)"
proof -
  let ?r = "wh_root h"
  have abs: "is_absolute ?r" using assms(1) by (simp add: canonical_root_def)
  obtain ts where ts: "normalize_rel rel = Some (slash # join ts)" "list_all plain_name ts" using normalize_rel_plain by blast
  obtain can s1 where c: "os_canonical (logged (wo_os a)) ?r (wh_os h) = (can, s1)" by (metis surj_pair)
  have x1: "ext (permitted ?r (wh_allow_writes h)) (wh_os h) s1"
    using c by (auto simp: logged_def permitted_def intro: ext_log)
  have can: "can = None \<or> can = Some ?r"
    using c assms(1) by (cases "wh_os h") (auto simp: canonical_root_def logged_def log_call_def split: prod.splits, (metis fst_conv)+)
  obtain lr s2 where l: "web_resolve_loop (logged (wo_os a)) ?r ts ?r (join []) False s1 = (lr, s2)" by (metis surj_pair)
  note lp = web_resolve_loop_permitted [OF abs path_within_refl ts(2) _ l, of "wh_allow_writes h"]
  have x2: "ext (permitted ?r (wh_allow_writes h)) (wh_os h) s2" using lp ext_trans [OF x1] by auto
  have "whext h h' \<and> (res = Some p \<longrightarrow> path_within ?r p \<and> path_within ?r (parent_path p))"
  proof (cases "can = None \<or> lr = None")
    case True
    then show ?thesis
      using assms(2) ts c can l x1 x2 rel_parts_join [OF ts(2)]
      by (auto simp: wh_resolve_def wsys_def resolve_common_def wlogged_def whext_def uploads_ok_def)
  next
    case False
    then obtain cur rest where r: "can = Some ?r" "lr = Some (cur, rest)" using can by auto
    then obtain us where us: "path_within ?r cur" "list_all plain_name us" "rest = join us" using lp by auto
    note w = candidate_within(1,2) [OF abs us(1,2)]
    then show ?thesis
      using assms(2) ts c l x2 rel_parts_join [OF ts(2)] r us
      by (auto simp: wh_resolve_def wsys_def resolve_common_def wlogged_def whext_def uploads_ok_def Let_def)
  qed
  then show "whext h h'" "res = Some p \<Longrightarrow> path_within ?r p \<and> path_within ?r (parent_path p)" by auto
qed

lemma wpx_resolve:
  assumes "share r aw h" "canonical_root a r"
    and "\<And>h1. share r aw h1 \<Longrightarrow> whext h1 (snd (K None h1))"
    and "\<And>p h1. share r aw h1 \<Longrightarrow> path_within r p \<Longrightarrow> path_within r (parent_path p) \<Longrightarrow> whext h1 (snd (K (Some p) h1))"
  shows "whext h (snd (case wh_resolve (wlogged a) rel h of (x, h1) \<Rightarrow> K x h1))"
proof -
  obtain x h1 where w: "wh_resolve (wlogged a) rel h = (x, h1)" by (metis surj_pair)
  have c: "canonical_root a (wh_root h)" "wh_root h = r" using assms(1,2) by (simp_all add: share_def)
  note q = wh_resolve_permitted [OF c(1) w]
  have "whext h1 (snd (K x h1))" using q c(2) whext_share [OF q(1) assms(1)] assms(3,4) by (cases x) auto
  then show ?thesis using w q(1) by (auto intro: whext_trans)
qed

lemmas wpx = wpx_end wpx_call wpx_resolve wpx_split

lemma wlogged_sel [simp]:
  "wo_is_directory (wlogged a) p = log_call (C_exists p) (wo_is_directory a p)"
  "wo_is_regular_file (wlogged a) p = log_call (C_exists p) (wo_is_regular_file a p)"
  "wo_file_size (wlogged a) p = log_call (C_exists p) (wo_file_size a p)"
  "wo_iterate (wlogged a) p = log_call (C_listdir p) (wo_iterate a p)"
  "wo_create_directories (wlogged a) p = log_call (C_mkdir p) (wo_create_directories a p)"
  "wo_remove_all (wlogged a) p = log_call (C_remove p) (wo_remove_all a p)"
  "wo_ifstream (wlogged a) p n = log_call (C_open p 0 0) (wo_ifstream a p n)"
  "wo_read (wlogged a) f k = log_call (C_pread f k 0) (wo_read a f k)"
  "wo_ofstream (wlogged a) p = log_call (C_open p (1 OR O_CREAT OR O_TRUNC) 0) (wo_ofstream a p)"
  "os_is_symlink (wo_os (wlogged a)) p = log_call (C_is_symlink p) (os_is_symlink (wo_os a) p)"
  by (simp_all add: wlogged_def logged_def)

lemma permitted_simps [simp]:
  "permitted r aw (C_exists p) = path_within r p" "permitted r aw (C_is_symlink p) = path_within r p"
  "permitted r aw (C_listdir p) = path_within r p" "permitted r aw (C_open p 0 0) = path_within r p"
  "permitted r aw (C_pread f k off)" "permitted r aw (C_close f)"
  "permitted r True (C_mkdir p) = path_within r p" "permitted r True (C_remove p) = path_within r p"
  "permitted r True (C_open p fl md) = path_within r p"
  by (simp_all add: permitted_def open_mutates_def)

lemma send_chunks_permitted: "whext h (snd (send_chunks (wlogged a) f i remaining h))"
proof (induction remaining arbitrary: h rule: less_induct)
  case (less remaining)
  let ?want = "min remaining kWebChunk"
  obtain got0 h1 where w: "wsys (wo_read (wlogged a) f ?want) h = (got0, h1)" by (metis surj_pair)
  have e: "whext h h1" by (rule whext_call [OF w [unfolded wlogged_sel]]) simp
  let ?got = "take ?want got0" and ?h = "h1\<lparr>wh_bytes_out := wh_bytes_out h1 + of_nat (length (take ?want got0))\<rparr>"
  have e2: "whext h ?h" by (rule whext_trans [OF e]) simp
  show ?case
  proof (cases "remaining = 0 \<or> ?got = [] \<or> length ?got < ?want")
    case True
    then show ?thesis using w e e2 by (subst send_chunks.simps) (auto simp: Let_def)
  next
    case False
    then have "remaining - length ?got < remaining" by auto
    from less.IH [OF this, of ?h] show ?thesis
      using w e2 False by (subst send_chunks.simps) (auto simp: Let_def split: prod.split intro: whext_trans)
  qed
qed

lemma list_entry_permitted:
  assumes "share r aw h" "is_absolute r" "path_within r ap" "plain_name name"
  shows "whext h (snd (list_entry (wlogged a) path ap name h))"
proof -
  have "path_within r (path_append ap name)"
    using path_within_child [OF assms(2) path_within_absolute [OF assms(2,3)] assms(3,4)] .
  then show ?thesis using assms(1)
    unfolding list_entry_def Let_def wlogged_sel by - (rule wpx | simp | assumption)+
qed

lemma wpx_then:
  assumes "share r aw h" "whext h (snd m)" "\<And>x h1. share r aw h1 \<Longrightarrow> whext h1 (snd (K x h1))"
  shows "whext h (snd (case m of (x, h1) \<Rightarrow> K x h1))"
  using assms(2) assms(3) [OF whext_share [OF assms(2,1)]] by (cases m) (auto intro: whext_trans)

lemma list_entries_permitted:
  assumes "share r aw h" "is_absolute r" "path_within r ap" "list_all plain_name names"
  shows "whext h (snd (list_entries (wlogged a) path ap names h))"
  using assms(1,4)
proof (induction names arbitrary: h)
  case (Cons name names)
  then show ?case unfolding list_entries.simps
    by (intro wpx_then [OF Cons.prems(1) list_entry_permitted [OF Cons.prems(1) assms(2,3)]] wpx_split wpx_then [OF _ Cons.IH] wpx_end) simp_all
qed simp

text \<open>Each request.\<close>

lemma wpx_listing:
  assumes "share r aw h" "path_within r p" "\<And>p s. list_all plain_name (fst (fst (wo_iterate a p s)))"
    and "\<And>names e h1. share r aw h1 \<Longrightarrow> list_all plain_name names \<Longrightarrow> whext h1 (snd (K (names, e) h1))"
  shows "whext h (snd (case wsys (log_call (C_listdir p) (wo_iterate a p)) h of (x, h1) \<Rightarrow> K x h1))"
proof -
  obtain names e h1 where w: "wsys (log_call (C_listdir p) (wo_iterate a p)) h = ((names, e), h1)" by (metis prod.exhaust)
  have x: "whext h h1" by (rule whext_call [OF w]) (use assms(1,2) in \<open>simp add: share_def\<close>)
  have "names = fst (fst (wo_iterate a p (snd (wh_os h))))"
    using w by (cases "wh_os h") (auto simp: wsys_def log_call_def split: prod.splits)
  then show ?thesis using w assms(3,4) whext_share [OF x assms(1)] by (auto intro: whext_trans [OF x])
qed

lemma wh_list_permitted:
  assumes "share r aw h" "canonical_root a r" "\<And>p s. list_all plain_name (fst (fst (wo_iterate a p s)))"
  shows "whext h (snd (wh_list q (wlogged a) i msg h))"
proof -
  have "is_absolute r" using assms(2) by (simp add: canonical_root_def)
  then show ?thesis
    using assms(1,2) unfolding wh_list_def Let_def wlogged_sel
    by - (rule wpx_end wpx_listing [OF _ _ assms(3)] wpx_call wpx_resolve wpx_split
        wpx_then [OF _ list_entries_permitted] | simp | assumption)+
qed

lemma wh_download_permitted:
  assumes "share r aw h" "canonical_root a r"
  shows "whext h (snd (wh_download q (wlogged a) i msg h))"
  using assms unfolding wh_download_def Let_def wlogged_sel
  by - (rule wpx wpx_then [OF _ send_chunks_permitted] | simp | assumption)+

lemma whext_write:
  assumes "uploads_ok h" "wh_uploads h i = Some f"
  shows "whext h (h\<lparr>wh_os := wo_write (wlogged a) g d (wh_os h)\<rparr>)"
  using assms by (cases "wh_os h") (auto simp: whext_def uploads_ok_def wlogged_def ext_def permitted_def)

lemma whext_upload:
  assumes "wh_allow_writes h"
  shows "whext h (h\<lparr>wh_uploads := u\<rparr>)"
  using assms by (auto simp: whext_def uploads_ok_def)

lemma wh_upload_start_permitted:
  assumes "share r aw h" "canonical_root a r"
  shows "whext h (snd (wh_upload_start q (wlogged a) i msg h))"
proof (cases aw)
  case True
  have w: "wh_allow_writes h" using assms(1) True by (simp add: share_def)
  have f: "whext h1 (close_upload (wlogged a) j h1\<lparr>wh_uploads := u\<rparr>)" if "share r True h1" for h1 j u
  proof -
    have "wh_allow_writes (close_upload (wlogged a) j h1)"
      using that whext_fields(2) [OF whext_close_upload, of a j h1] by (simp add: share_def)
    then show ?thesis by (rule whext_trans [OF whext_close_upload whext_upload])
  qed
  show ?thesis
    using assms True unfolding wh_upload_start_def Let_def wlogged_sel
    by - (rule wpx f | assumption | simp)+
next
  case False
  then show ?thesis using assms(1) by (simp add: wh_upload_start_def share_def)
qed

lemma wh_mkdir_permitted:
  assumes "share r aw h" "canonical_root a r"
  shows "whext h (snd (wh_mkdir q (wlogged a) i msg h))"
proof (cases aw)
  case True
  then show ?thesis
    using assms unfolding wh_mkdir_def Let_def wlogged_sel by - (rule wpx | simp | assumption)+
qed (use assms in \<open>simp add: wh_mkdir_def share_def\<close>)

lemma wh_delete_permitted:
  assumes "share r aw h" "canonical_root a r"
  shows "whext h (snd (wh_delete q (wlogged a) i msg h))"
proof (cases aw)
  case True
  then show ?thesis
    using assms unfolding wh_delete_def Let_def wlogged_sel by - (rule wpx | simp | assumption)+
qed (use assms in \<open>simp add: wh_delete_def share_def\<close>)

lemma wh_upload_end_permitted: "whext h (snd (wh_upload_end q (wlogged a) i msg h))"
  using whext_trans [OF whext_close_upload, of a "word_of_int i" h]
  by (simp add: wh_upload_end_def Let_def)

lemma wpx_answer:
  "whext h (snd y) \<Longrightarrow> whext h (snd (case y of (Inl e, h1) \<Rightarrow> (F e, h1) | (Inr out, h1) \<Rightarrow> (out, h1)))"
  by (cases y; cases "fst y") auto

lemma web_message_permitted:
  assumes "share r aw h" "canonical_root a r" "\<And>p s. list_all plain_name (fst (fst (wo_iterate a p s)))" "uploads_ok h"
  shows "whext h (snd (web_message q (wlogged a) m h))"
proof (cases m)
  case (Text s)
  show ?thesis
    unfolding web_message_def Text dc_msg.case on_json_def Let_def
    by (intro wpx_answer wpx_split(1) wh_list_permitted [OF assms(1-3)] wh_download_permitted [OF assms(1,2)]
      wh_upload_start_permitted [OF assms(1,2)] wh_mkdir_permitted [OF assms(1,2)] wh_delete_permitted [OF assms(1,2)]
      wh_upload_end_permitted wpx_end)
next
  case (Binary b)
  show ?thesis
  proof (cases "read_bin b")
    case (Some p)
    then obtain i d where rb: "read_bin b = Some (i, d)" by (cases p) auto
    let ?h = "h\<lparr>wh_bytes_in := wh_bytes_in h + of_nat (length b - 8)\<rparr>"
    have "whext h (?h\<lparr>wh_os := wo_write (wlogged a) g d (wh_os ?h)\<rparr>)" if "wh_uploads h i = Some (Some g)" for g
      using that assms(4) by (intro whext_trans [OF whext_free(2) whext_write]) (simp_all add: uploads_ok_def)
    then show ?thesis using rb whext_free(2) [of h]
      by (auto simp: web_message_def Binary on_binary_def Let_def split: option.split)
  qed (simp add: web_message_def Binary on_binary_def)
qed

section \<open>Properties\<close>

text \<open>
  A POSIX system while nobody else works on the folder: a path that ends in a slash names no regular
  file, and what \<open>exists\<close> did not find is no regular file later, nor is anything below it.
\<close>

definition quiet_posix :: "'o web_os \<Rightarrow> bool" where
  "quiet_posix a \<longleftrightarrow> (\<forall>p s. p \<noteq> [] \<longrightarrow> last p = slash \<longrightarrow> fst (wo_is_regular_file a p s) = Inr False) \<and>
     (\<forall>p ts p' s s'. fst (os_exists (wo_os a) p s) = (False, False) \<longrightarrow> norm_comps p' = norm_comps p @ ts \<longrightarrow>
        fst (wo_is_regular_file a p' s') = Inr False)"

text \<open>A share \<open>/srv/share\<close> with one file.\<close>

definition ex_posix :: "'o web_os" where
  "ex_posix = (let
       found = [[], [''srv''], [''srv'', ''share''], [''srv'', ''share'', ''a.txt'']];
       file = (\<lambda>p. norm_comps p = [''srv'', ''share'', ''a.txt''] \<and> (p = [] \<or> last p \<noteq> slash)) in
     \<lparr>wo_os = \<lparr>os_lstat = (\<lambda>p s. (None, s)), os_exists = (\<lambda>p s. ((norm_comps p \<in> set found, False), s)),
         os_is_symlink = (\<lambda>p s. (False, s)), os_canonical = (\<lambda>p s. (Some p, s)), os_listdir = (\<lambda>p s. (([], False), s)),
         os_open = (\<lambda>p f m s. (Inl 13, s)), os_pread = (\<lambda>d n off s. (None, s)), os_pwrite = (\<lambda>d b off s. (None, s)),
         os_fsync = (\<lambda>d s. (True, s)), os_close = (\<lambda>d s. ((), s)), os_mkdir = (\<lambda>p s. ((False, True), s)),
         os_remove = (\<lambda>p s. ((False, True), s)), os_rename = (\<lambda>p q s. (True, s)), os_resize = (\<lambda>p n s. (True, s)),
         os_space = (\<lambda>p s. ((0, 0, 0), s)), os_chmod = (\<lambda>p m s. (13, s)), os_utime = (\<lambda>p t s. (True, s))\<rparr>,
       wo_is_directory = (\<lambda>p s. (Inr (norm_comps p \<in> set found \<and> norm_comps p \<noteq> [''srv'', ''share'', ''a.txt'']), s)),
       wo_is_regular_file = (\<lambda>p s. (Inr (file p), s)), wo_file_size = (\<lambda>p s. (Inr 5, s)),
       wo_iterate = (\<lambda>p s. (([''a.txt''], None), s)), wo_create_directories = (\<lambda>p s. (None, s)),
       wo_remove_all = (\<lambda>p s. (False, s)), wo_ifstream = (\<lambda>p n s. (Some 1, s)), wo_read = (\<lambda>f n s. (take n [1, 2, 3, 4, 5], s)),
       wo_ofstream = (\<lambda>p s. (Some 2, s)), wo_write = (\<lambda>f b s. s), wo_close = (\<lambda>f s. s), wo_now_ms = (\<lambda>s. 0)\<rparr>)"

definition ex_web_host :: "'o \<Rightarrow> 'o web_host" where
  "ex_web_host s = \<lparr>wh_os = s, wh_root = ''/srv/share'', wh_allow_writes = True, wh_uploads = Map.empty,
     wh_bytes_out = 0, wh_bytes_in = 0\<rparr>"

lemma ex_posix_root: "canonical_root ex_posix ''/srv/share''"
  by (simp add: canonical_root_def ex_posix_def is_absolute_def Let_def)

lemma ex_posix_quiet: "quiet_posix ex_posix"
proof -
  have "us @ vs \<noteq> [''srv'', ''share'', ''a.txt'']" if "us \<notin> set [[], [''srv''], [''srv'', ''share''], [''srv'', ''share'', ''a.txt'']]" for us vs
    using that by (auto simp: append_eq_Cons_conv)
  then show ?thesis by (simp add: quiet_posix_def ex_posix_def Let_def)
qed

definition ex_delete :: "unit env" where
  "ex_delete = ex_qt\<lparr>qt_from_json := (\<lambda>s. Some (JObj [(''t'', JStr ''delete''), (''id'', JNum 7), (''path'', JStr ''../a.txt'')]))\<rparr>"



text \<open>Where resolution ends: with no rest, or with one whose first name was not found.\<close>

lemma web_resolve_loop_rest:
  assumes "is_absolute r" and nofile: "\<And>p us p' s. fst (os_exists api p s) = (False, False) \<Longrightarrow> norm_comps p' = norm_comps p @ us \<Longrightarrow> G p'"
    and "path_within r cur" "list_all plain_name parts" "list_all plain_name ts"
    and "\<And>p vs. ts \<noteq> [] \<Longrightarrow> norm_comps p = norm_comps cur @ ts @ vs \<Longrightarrow> G p"
    and "web_resolve_loop api r parts cur (join ts) (ts \<noteq> []) s = (Some (c, rest), s')"
  shows "path_within r c \<and> (\<exists>us. list_all plain_name us \<and> rest = join us \<and>
     (us \<noteq> [] \<longrightarrow> (\<forall>p vs. norm_comps p = norm_comps c @ us @ vs \<longrightarrow> G p)))"
  using assms(3-)
proof (induction parts arbitrary: cur ts s)
  case Nil
  then show ?case by auto
next
  case (Cons part parts)
  have pl: "plain_name part" "part \<noteq> []" "list_all plain_name parts" using Cons.prems(2) plain_last [of part] by auto
  have ts: "path_append (join ts) part = join (ts @ [part])" "list_all plain_name (ts @ [part])"
    using join_append [OF Cons.prems(3) pl(1)] Cons.prems(3) pl(1) by simp_all
  have cur: "is_absolute cur" "cur \<noteq> []" using path_within_absolute [OF assms(1) Cons.prems(1)] by (auto simp: is_absolute_def)
  let ?n = "path_append cur part"
  show ?case
  proof (cases "ts = []")
    case False
    have g: "G p" if "norm_comps p = norm_comps cur @ (ts @ [part]) @ vs" for p vs
      using Cons.prems(4) [OF False, of p "part # vs"] that by simp
    have "web_resolve_loop api r parts cur (join (ts @ [part])) (ts @ [part] \<noteq> []) s = (Some (c, rest), s')"
      using Cons.prems(5) False pl(2) by (simp add: ts(1))
    from Cons.IH [OF Cons.prems(1) pl(3) ts(2) g this] show ?thesis by auto
  next
    case True
    obtain found ec s1 where e: "os_exists api ?n s = ((found, ec), s1)" by (metis prod.exhaust)
    show ?thesis
    proof (cases found)
      case False
      then have ec: "\<not> ec" using Cons.prems(5) e True pl(2) by (auto simp: Let_def)
      have g: "G p" if "norm_comps p = norm_comps cur @ [part] @ vs" for p vs
        using nofile [of ?n s p vs] e False ec that norm_comps_child [OF pl(1) cur(2)] by simp
      have "web_resolve_loop api r parts cur (join [part]) ([part] \<noteq> []) s1 = (Some (c, rest), s')"
        using Cons.prems(5) True False ec e pl(2) ts(1) by (simp add: Let_def)
      from Cons.IH [OF Cons.prems(1) pl(3) _ g this] show ?thesis using pl(1) by auto
    next
      case found: True
      obtain sym s2 where l: "os_is_symlink api ?n s1 = (sym, s2)" by (metis prod.exhaust)
      obtain can s3 where c: "os_canonical api ?n s2 = (can, s3)" by (metis prod.exhaust)
      obtain canon where k: "can = Some canon" "path_within r canon" "\<not> sym"
        using Cons.prems(5) e l c True found pl(2) by (auto simp: Let_def split: option.splits if_splits)
      have "web_resolve_loop api r parts canon (join []) ([] \<noteq> ([] :: string list)) s3 = (Some (c, rest), s')"
        using Cons.prems(5) e l c True found k pl(2) by (simp add: Let_def)
      from Cons.IH [OF k(2) pl(3) _ _ this] show ?thesis by auto
    qed
  qed
qed



section \<open>The root itself\<close>

text \<open>The root is a path like any other: a peer that may write can delete the whole folder.\<close>

lemma web_delete_root:
  assumes "canonical_root a (wh_root h)" "wh_allow_writes h" "fst (os_canonical (wo_os a) (wh_root h) (wh_os h)) \<noteq> None"
    and "json_string msg ''path'' = []"
  shows "\<exists>p s1 s2 r. norm_comps p = norm_comps (wh_root h) \<and> wo_remove_all a p s1 = (r, s2) \<and>
    wh_delete q a i msg h = (if r then Inl ''Delete failed'' else Inr (send_ok q i), h\<lparr>wh_os := s2\<rparr>)"
proof -
  let ?r = "wh_root h" and ?p = "lexically_normal (path_append (wh_root h) [])"
  have abs: "is_absolute ?r" using assms(1) by (simp add: canonical_root_def)
  have n: "normalize_rel [] = Some [slash]" by code_simp
  obtain s1 where c: "os_canonical (wo_os a) ?r (wh_os h) = (Some ?r, s1)"
    using assms(1,3) unfolding canonical_root_def by (metis insertE prod.collapse singletonD)
  obtain r s2 where d: "wo_remove_all a ?p s1 = (r, s2)" by (metis surj_pair)
  note w = candidate_within(1,3) [OF abs path_within_refl, of "[]"]
  have "wh_resolve a [] h = (Some ?p, h\<lparr>wh_os := s1\<rparr>)"
    using n c w by (simp add: wh_resolve_def wsys_def resolve_common_def rel_parts_def tokens_def)
  then have "wh_delete q a i msg h = (if r then Inl ''Delete failed'' else Inr (send_ok q i), h\<lparr>wh_os := s2\<rparr>)"
    using assms(2,4) d by (simp add: wh_delete_def wsys_def)
  moreover have "norm_comps ?p = norm_comps ?r" using w by simp
  ultimately show ?thesis using d by blast
qed

end
