(* ===== verification/WebClient.thy ===== *)
theory WebClient
  imports Cli WebHost MountedFile "HOL-Library.AList"
begin

text \<open>
  \<open>WebRtcRemoteClient\<close> of \<open>client/src/clients/web_compat.cpp\<close>: a \<open>RemoteFs\<close> over the JSON and binary
  messages of a data channel. The peer connection and the other side are a parameter: what \<open>send\<close>
  does, which messages the callbacks deliver while a call waits for its reply (until the reply, the
  death of the channel or the timeout), the clock, whether a buffer of some size can be allocated,
  and what an uninitialised variable holds. \<open>catch (...)\<close> of \<open>request\<close> covers the failed allocation.
\<close>

record 'p web_peer =
  wp_send :: "dc_msg \<Rightarrow> 'p \<Rightarrow> bool \<times> 'p" \<comment> \<open>false when it throws\<close>
  wp_await :: "u32 \<Rightarrow> int \<Rightarrow> 'p \<Rightarrow> dc_msg list \<times> 'p"
  wp_now :: "'p \<Rightarrow> int"
  wp_fits :: "nat \<Rightarrow> bool"
  wp_junk :: u64

record web_fh =
  wf_path :: string
  wf_data :: bytes
  wf_loaded :: bool
  wf_dirty :: bool

record 'p web_client =
  wc_peer :: 'p
  wc_dc :: bool
  wc_open :: bool
  wc_dead :: bool
  wc_replies :: "u32 \<rightharpoonup> json_object"
  wc_downloads :: "u32 \<rightharpoonup> bytes"
  wc_fhs :: "u64 \<rightharpoonup> web_fh"
  wc_next_fh :: u64
  wc_next_id :: u32
  wc_can_write :: bool
  wc_can_range :: bool
  wc_bytes_read :: u64
  wc_bytes_written :: u64

definition kEACCES :: int where "kEACCES = 13"
definition kEROFS :: int where "kEROFS = 30"
definition kENOSYS :: int where "kENOSYS = 38"

section \<open>Messages\<close>

definition json_bool :: "bool \<Rightarrow> json_object \<Rightarrow> string \<Rightarrow> bool" where
  "json_bool d ob key = (case map_of ob key of Some (JBool b) \<Rightarrow> b | _ \<Rightarrow> d)"

definition wc_on_json :: "json_object \<Rightarrow> 'p web_client \<Rightarrow> 'p web_client" where
  "wc_on_json ob c = (let t = json_string ob ''t'';
       c = (if t = ''listResult''
            then let c = c\<lparr>wc_can_write := json_bool (wc_can_write c) ob ''write''\<rparr>
              in if map_of ob ''ranges'' \<noteq> None then c\<lparr>wc_can_range := json_bool False ob ''ranges''\<rparr> else c
            else c)
     in if t = ''fileStart'' then c
        else c\<lparr>wc_replies := (wc_replies c)(word_of_int (json_int ob ''id'') \<mapsto> ob)\<rparr>)"

definition download_so_far :: "'p web_client \<Rightarrow> u32 \<Rightarrow> bytes" where
  "download_so_far c i = (case wc_downloads c i of None \<Rightarrow> [] | Some d \<Rightarrow> d)"

definition wc_on_binary :: "bytes \<Rightarrow> 'p web_client \<Rightarrow> 'p web_client" where
  "wc_on_binary b c = (case read_bin b of
      None \<Rightarrow> c
    | Some (i, data) \<Rightarrow> c\<lparr>wc_downloads := (wc_downloads c)(i \<mapsto> download_so_far c i @ data)\<rparr>)"

definition wc_receive :: "'w env \<Rightarrow> dc_msg \<Rightarrow> 'p web_client \<Rightarrow> 'p web_client" where
  "wc_receive q m c = (case m of
      Text s \<Rightarrow> wc_on_json (parse_json_obj q s) c
    | Binary b \<Rightarrow> wc_on_binary b c)"

text \<open>Sending, and what the callbacks do during a wait.\<close>

definition wc_send :: "'p web_peer \<Rightarrow> dc_msg \<Rightarrow> 'p web_client \<Rightarrow> bool \<times> 'p web_client" where
  "wc_send pe m c = (if \<not> wc_dc c then (False, c)
     else (case wp_send pe m (wc_peer c) of (ok, p) \<Rightarrow> (ok, c\<lparr>wc_peer := p\<rparr>)))"

definition wc_wait :: "'w env \<Rightarrow> 'p web_peer \<Rightarrow> u32 \<Rightarrow> int \<Rightarrow> 'p web_client \<Rightarrow> 'p web_client" where
  "wc_wait q pe i timeout c = (if wc_replies c i \<noteq> None \<or> wc_dead c then c
     else (case wp_await pe i timeout (wc_peer c) of (ms, p) \<Rightarrow> fold (wc_receive q) ms (c\<lparr>wc_peer := p\<rparr>)))"

definition send_json_wait ::
  "'w env \<Rightarrow> 'p web_peer \<Rightarrow> json_object \<Rightarrow> int \<Rightarrow> 'p web_client \<Rightarrow> json_object option \<times> 'p web_client" where
  "send_json_wait q pe ob timeout c = (let
       i0 = word_of_int (json_int ob ''id'');
       i = (if i0 = 0 then wc_next_id c else i0);
       c = (if i0 = 0 then c\<lparr>wc_next_id := wc_next_id c + 1\<rparr> else c);
       ob = AList.update ''id'' (JNum (of_int (sint i))) ob
     in case wc_send pe (json_compact q ob) c of
          (False, c) \<Rightarrow> (None, c)
        | (True, c) \<Rightarrow> (let c = wc_wait q pe i timeout c in
            case wc_replies c i of
              None \<Rightarrow> (None, c)
            | Some reply \<Rightarrow> (if i = 0 then None else Some reply, c\<lparr>wc_replies := (wc_replies c)(i := None)\<rparr>)))"

definition wait_file :: "'w env \<Rightarrow> 'p web_peer \<Rightarrow> u32 \<Rightarrow> 'p web_client \<Rightarrow> bytes option \<times> 'p web_client" where
  "wait_file q pe i c = (let c = wc_wait q pe i 120000 c in
     case wc_replies c i of
       None \<Rightarrow> (None, c)
     | Some reply \<Rightarrow> (let
           d = download_so_far c i;
           c = c\<lparr>wc_replies := (wc_replies c)(i := None), wc_downloads := (wc_downloads c)(i := None)\<rparr>
         in if json_string reply ''t'' = ''fileEnd'' then (Some d, c) else (None, c)))"

definition json_error :: "json_object \<Rightarrow> bool" where
  "json_error ob \<longleftrightarrow> json_string ob ''t'' = ''error''"

section \<open>Transfers\<close>

definition send_download :: "'w env \<Rightarrow> 'p web_peer \<Rightarrow> json_object \<Rightarrow> 'p web_client \<Rightarrow> (int \<times> bytes) \<times> 'p web_client" where
  "send_download q pe req c = (let
       i = wc_next_id c;
       c = c\<lparr>wc_next_id := i + 1\<rparr>;
       req = AList.update ''id'' (JNum (of_int (sint i))) req
     in case wc_send pe (json_compact q req) c of
          (False, c) \<Rightarrow> ((kEIO, []), c)
        | (True, c) \<Rightarrow> (case wait_file q pe i c of
            (None, c) \<Rightarrow> ((kEIO, []), c)
          | (Some d, c) \<Rightarrow> ((0, d), c)))"

definition fetch_file :: "'w env \<Rightarrow> 'p web_peer \<Rightarrow> string \<Rightarrow> 'p web_client \<Rightarrow> (int \<times> bytes) \<times> 'p web_client" where
  "fetch_file q pe path = send_download q pe [(''t'', JStr ''download''), (''path'', JStr path)]"

definition fetch_range ::
  "'w env \<Rightarrow> 'p web_peer \<Rightarrow> string \<Rightarrow> u64 \<Rightarrow> u32 \<Rightarrow> 'p web_client \<Rightarrow> (int \<times> bytes) \<times> 'p web_client" where
  "fetch_range q pe path off len = send_download q pe [(''t'', JStr ''download''), (''path'', JStr path),
     (''offset'', JNum (of_nat (unat off))), (''length'', JNum (of_nat (unat len)))]"

function upload_chunks :: "'p web_peer \<Rightarrow> u32 \<Rightarrow> bytes \<Rightarrow> 'p web_client \<Rightarrow> bool \<times> 'p web_client" where
  "upload_chunks pe i d c = (if d = [] then (True, c)
     else (case wc_send pe (send_bin i (take kWebChunk d)) c of
         (False, c) \<Rightarrow> (False, c)
       | (True, c) \<Rightarrow> upload_chunks pe i (drop kWebChunk d) c))"
  by pat_completeness auto
termination
  by (relation "measure (\<lambda>(_, _, d, _). length d)") (auto simp: kWebChunk_def)

declare upload_chunks.simps [simp del]

definition upload_start_msg :: "u32 \<Rightarrow> string \<Rightarrow> bytes \<Rightarrow> json_object" where
  "upload_start_msg i path d = [(''t'', JStr ''uploadStart''), (''id'', JNum (of_int (sint i))), (''path'', JStr path),
     (''size'', JNum (of_nat (length d)))]"

definition upload_end_msg :: "u32 \<Rightarrow> json_object" where
  "upload_end_msg i = [(''t'', JStr ''uploadEnd''), (''id'', JNum (of_int (sint i)))]"

definition upload_file :: "'w env \<Rightarrow> 'p web_peer \<Rightarrow> string \<Rightarrow> bytes \<Rightarrow> 'p web_client \<Rightarrow> int \<times> 'p web_client" where
  "upload_file q pe path d c = (let i = wc_next_id c; c = c\<lparr>wc_next_id := i + 1\<rparr> in
     case send_json_wait q pe (upload_start_msg i path d) 30000 c of
       (None, c) \<Rightarrow> (kEIO, c)
     | (Some reply, c) \<Rightarrow>
         if json_error reply then (kEIO, c)
         else (case upload_chunks pe i d c of
             (False, c) \<Rightarrow> (kEIO, c)
           | (True, c) \<Rightarrow> (case send_json_wait q pe (upload_end_msg i) 60000 c of
               (None, c) \<Rightarrow> (kEIO, c)
             | (Some reply, c) \<Rightarrow> (if json_error reply then kEIO else 0, c))))"

section \<open>Attributes\<close>

definition web_parent_path :: "string \<Rightarrow> string" where
  "web_parent_path p = (let d = dropWhile (\<lambda>c. c \<noteq> slash) (rev p) in
     if p = [slash] \<or> length d \<le> 1 then [slash] else rev (tl d))"

definition web_basename :: "string \<Rightarrow> string" where
  "web_basename p = (if p = [slash] then [] else rev (takeWhile (\<lambda>c. c \<noteq> slash) (rev p)))"

definition fnv1a :: "string \<Rightarrow> u64" where
  "fnv1a s = (let h = foldl (\<lambda>h c. (h XOR of_char c) * 1099511628211) 1469598103934665603 s in if h \<noteq> 0 then h else 1)"

text \<open>A double cast to a 64-bit integer, for values that fit.\<close>

definition truncated :: "rat \<Rightarrow> int" where
  "truncated r = (if r < 0 then \<lceil>r\<rceil> else \<lfloor>r\<rfloor>)"

definition attr_from_web_entry :: "int \<Rightarrow> json_object \<Rightarrow> wire_attr" where
  "attr_from_web_entry now ob = (let
       dir = (json_string ob ''kind'' = ''directory'');
       sz = (if dir then 0 else word_of_int (max 0 (truncated (json_double ob ''size'')))) :: u64;
       ms = truncated (json_double ob ''mtime'');
       sec = word_of_int (if ms > 100000000000 then ms div 1000 else if ms \<noteq> 0 then ms else now) :: u64
     in \<lparr>a_ino = fnv1a (json_string ob ''path''), a_size = sz, a_blocks = (sz + 511) div 512,
          a_atime = sec, a_mtime = sec, a_ctime = sec,
          a_mode = (if dir then 0x41ED else 0x81A4), a_nlink = (if dir then 2 else 1), a_uid = 0, a_gid = 0\<rparr>)"

definition list_msg :: "string \<Rightarrow> json_object" where
  "list_msg path = [(''t'', JStr ''list''), (''path'', JStr path)]"

text \<open>The entries of a listing, an entry that is no object being an empty one.\<close>

definition json_entries :: "json_object \<Rightarrow> json_object list" where
  "json_entries ob = (case map_of ob ''entries'' of
      Some (JArr vs) \<Rightarrow> map (\<lambda>v. case v of JObj e \<Rightarrow> e | _ \<Rightarrow> []) vs | _ \<Rightarrow> [])"

section \<open>Requests\<close>

type_synonym 'p web_op = "bytes \<Rightarrow> 'p web_client \<Rightarrow> (int \<times> bytes) \<times> 'p web_client"

text \<open>A string read into a variable that is empty before.\<close>

definition r_str_or_empty :: "bytes \<Rightarrow> string" where
  "r_str_or_empty r = (case fst (r_str r) of None \<Rightarrow> [] | Some s \<Rightarrow> s)"

definition root_attr :: "int \<Rightarrow> wire_attr" where
  "root_attr now = \<lparr>a_ino = 1, a_size = 0, a_blocks = 0, a_atime = word_of_int now, a_mtime = word_of_int now,
     a_ctime = word_of_int now, a_mode = 0x41ED, a_nlink = 2, a_uid = 0, a_gid = 0\<rparr>"

definition wc_getattr :: "'w env \<Rightarrow> 'p web_peer \<Rightarrow> 'p web_op" where
  "wc_getattr q pe r c = (case normalize_rel (r_str_or_empty r) of
      None \<Rightarrow> ((kEACCES, []), c)
    | Some p \<Rightarrow>
        if p = [slash] then ((0, w_attr [] (root_attr (wp_now pe (wc_peer c)))), c)
        else (case send_json_wait q pe (list_msg (web_parent_path p)) 30000 c of
            (None, c) \<Rightarrow> ((kEIO, []), c)
          | (Some reply, c) \<Rightarrow>
              if json_error reply then ((kEIO, []), c)
              else (case find (\<lambda>e. json_string e ''name'' = web_basename p) (json_entries reply) of
                  None \<Rightarrow> ((kENOENT, []), c)
                | Some e \<Rightarrow> ((0, w_attr [] (attr_from_web_entry (wp_now pe (wc_peer c)) e)), c))))"

text \<open>The request for the attributes that \<open>OP_OPEN\<close> and \<open>OP_ACCESS\<close> make of the client itself.\<close>

definition wc_probe :: "'w env \<Rightarrow> 'p web_peer \<Rightarrow> string \<Rightarrow> 'p web_client \<Rightarrow> (int \<times> bytes) \<times> 'p web_client" where
  "wc_probe q pe path c = (if \<not> wc_open c then ((kEIO, []), c) else wc_getattr q pe (w_str [] path) c)"

definition wc_readdir :: "'w env \<Rightarrow> 'p web_peer \<Rightarrow> 'p web_op" where
  "wc_readdir q pe r c = (case send_json_wait q pe (list_msg (r_str_or_empty r)) 30000 c of
      (None, c) \<Rightarrow> ((kEIO, []), c)
    | (Some reply, c) \<Rightarrow>
        if json_error reply then ((kEIO, []), c)
        else (let es = json_entries reply; now = wp_now pe (wc_peer c) in
          ((0, foldl (\<lambda>w e. w_attr (w_str w (json_string e ''name'')) (attr_from_web_entry now e))
            (w_pod [] (of_nat (length es) :: u32)) es), c)))"

definition wc_do_open :: "'w env \<Rightarrow> 'p web_peer \<Rightarrow> bool \<Rightarrow> 'p web_op" where
  "wc_do_open q pe create r c = (case r_str r of
      (None, _) \<Rightarrow> ((kEINVAL, []), c)
    | (Some path, r) \<Rightarrow> (case (r_pod r :: u32 option \<times> bytes) of
        (None, _) \<Rightarrow> ((kEINVAL, []), c)
      | (Some flags, r) \<Rightarrow> (case (r_pod r :: u32 option \<times> bytes) of
          (None, _) \<Rightarrow> ((kEINVAL, []), c)
        | (Some mode, _) \<Rightarrow>
            if opens_for_write create flags \<and> \<not> wc_can_write c then ((kEROFS, []), c)
            else (case (if flags AND FB_O_TRUNC \<noteq> 0 then (True, c)
                        else if create \<or> flags AND FB_O_CREAT \<noteq> 0
                        then (case wc_probe q pe path c of ((st, _), c) \<Rightarrow> (st = kENOENT, c))
                        else (False, c)) of (startEmpty, c) \<Rightarrow>
              (let fh = wc_next_fh c;
                   f = \<lparr>wf_path = path, wf_data = [], wf_loaded = startEmpty, wf_dirty = startEmpty\<rparr>
               in ((0, w_pod [] fh), c\<lparr>wc_next_fh := fh + 1, wc_fhs := (wc_fhs c)(fh \<mapsto> f)\<rparr>))))))"

text \<open>Loading the whole file into the buffer of a handle that has none: a failure's status, or 0.\<close>

definition wc_load :: "'w env \<Rightarrow> 'p web_peer \<Rightarrow> u64 \<Rightarrow> web_fh \<Rightarrow> 'p web_client \<Rightarrow> int \<times> 'p web_client" where
  "wc_load q pe fh f c = (if wf_loaded f then (0, c)
     else (case fetch_file q pe (wf_path f) c of ((st, d), c) \<Rightarrow>
       if st \<noteq> 0 then (st, c)
       else (case wc_fhs c fh of
           None \<Rightarrow> (kEBADF, c)
         | Some f \<Rightarrow> (0, if wf_loaded f then c
             else c\<lparr>wc_fhs := (wc_fhs c)(fh \<mapsto> f\<lparr>wf_data := d, wf_loaded := True\<rparr>)\<rparr>))))"

definition wc_read :: "'w env \<Rightarrow> 'p web_peer \<Rightarrow> 'p web_op" where
  "wc_read q pe r c = (case (r_pod r :: u64 option \<times> bytes) of
      (None, _) \<Rightarrow> ((kEINVAL, []), c)
    | (Some fh, r) \<Rightarrow> (case (r_pod r :: u64 option \<times> bytes) of
        (None, _) \<Rightarrow> ((kEINVAL, []), c)
      | (Some off, r) \<Rightarrow> (case (r_pod r :: u32 option \<times> bytes) of
          (None, _) \<Rightarrow> ((kEINVAL, []), c)
        | (Some sz, _) \<Rightarrow> (case wc_fhs c fh of
            None \<Rightarrow> ((kEBADF, []), c)
          | Some f \<Rightarrow>
              if \<not> wf_loaded f \<and> wc_can_range c then
                (case fetch_range q pe (wf_path f) off sz c of ((st, d), c) \<Rightarrow>
                  if st \<noteq> 0 then ((st, []), c)
                  else (let d = take (unat sz) d in ((0, d), c\<lparr>wc_bytes_read := wc_bytes_read c + of_nat (length d)\<rparr>)))
              else (case wc_load q pe fh f c of (st, c) \<Rightarrow>
                if st \<noteq> 0 then ((st, []), c)
                else (case wc_fhs c fh of
                    None \<Rightarrow> ((kEBADF, []), c)
                  | Some f \<Rightarrow> if unat off \<ge> length (wf_data f) then ((0, []), c)
                      else (let d = slice (unat off) (unat sz) (wf_data f)
                        in ((0, d), c\<lparr>wc_bytes_read := wc_bytes_read c + of_nat (length d)\<rparr>))))))))"

text \<open>\<open>resize\<close> where the vector is too short, then \<open>memcpy\<close>.\<close>

definition write_buffer :: "nat \<Rightarrow> bytes \<Rightarrow> bytes \<Rightarrow> bytes" where
  "write_buffer pos d f = (let f = f @ replicate (pos + length d - length f) 0
     in take pos f @ d @ drop (pos + length d) f)"

definition wc_write :: "'w env \<Rightarrow> 'p web_peer \<Rightarrow> 'p web_op" where
  "wc_write q pe r c = (if \<not> wc_can_write c then ((kEROFS, []), c)
     else (case (r_pod r :: u64 option \<times> bytes) of (fh, r) \<Rightarrow>
     let fh = (case fh of None \<Rightarrow> wp_junk pe | Some fh \<Rightarrow> fh) in
     case (r_pod r :: u64 option \<times> bytes) of (off, r) \<Rightarrow>
     let off = (case off of None \<Rightarrow> wp_junk pe | Some off \<Rightarrow> off) in
     case wc_fhs c fh of
       None \<Rightarrow> ((kEBADF, []), c)
     | Some f \<Rightarrow> (case wc_load q pe fh f c of (st, c) \<Rightarrow>
         if st \<noteq> 0 then ((st, []), c)
         else if off > - 1 - of_nat (length r) then ((kEIO, []), c)
         else (case wc_fhs c fh of
             None \<Rightarrow> ((kEBADF, []), c)
           | Some f \<Rightarrow>
               if length (wf_data f) < unat off + length r \<and> \<not> wp_fits pe (unat off + length r) then ((kEIO, []), c)
               else ((0, w_pod [] (of_nat (length r) :: u32)),
                 c\<lparr>wc_fhs := (wc_fhs c)(fh \<mapsto> f\<lparr>wf_data := write_buffer (unat off) r (wf_data f), wf_dirty := True,
                     wf_loaded := True\<rparr>),
                   wc_bytes_written := wc_bytes_written c + of_nat (length r)\<rparr>)))))"

definition wc_release :: "'w env \<Rightarrow> 'p web_peer \<Rightarrow> 'p web_op" where
  "wc_release q pe r c = (let fh = (case fst (r_pod r :: u64 option \<times> bytes) of None \<Rightarrow> wp_junk pe | Some fh \<Rightarrow> fh) in
     case wc_fhs c fh of
       None \<Rightarrow> ((0, []), c)
     | Some f \<Rightarrow> (let c = c\<lparr>wc_fhs := (wc_fhs c)(fh := None)\<rparr> in
         if wf_dirty f then (case upload_file q pe (wf_path f) (wf_data f) c of (st, c) \<Rightarrow> ((st, []), c))
         else ((0, []), c)))"

text \<open>A request with a path whose reply only counts as an error or not.\<close>

definition wc_order :: "'w env \<Rightarrow> 'p web_peer \<Rightarrow> string \<Rightarrow> 'p web_op" where
  "wc_order q pe t r c = (if \<not> wc_can_write c then ((kEROFS, []), c)
     else (case send_json_wait q pe [(''t'', JStr t), (''path'', JStr (r_str_or_empty r))] 30000 c of
         (None, c) \<Rightarrow> ((kEIO, []), c)
       | (Some reply, c) \<Rightarrow> ((if json_error reply then kEIO else 0, []), c)))"

definition wc_truncate :: "'w env \<Rightarrow> 'p web_peer \<Rightarrow> 'p web_op" where
  "wc_truncate q pe r c = (if \<not> wc_can_write c then ((kEROFS, []), c)
     else (let path = r_str_or_empty r;
         len = unat (case fst (r_pod (snd (r_str r)) :: u64 option \<times> bytes) of None \<Rightarrow> wp_junk pe | Some n \<Rightarrow> n)
       in case fetch_file q pe path c of ((st, d), c) \<Rightarrow>
         if st \<noteq> 0 then ((st, []), c)
         else if length d < len \<and> \<not> wp_fits pe len then ((kEIO, []), c)
         else (case upload_file q pe path (take len d @ replicate (len - length d) 0) c of (st, c) \<Rightarrow> ((st, []), c))))"

definition wc_access :: "'w env \<Rightarrow> 'p web_peer \<Rightarrow> 'p web_op" where
  "wc_access q pe r c = (let
       mode = (case fst (r_pod (snd (r_str r)) :: u32 option \<times> bytes) of None \<Rightarrow> ucast (wp_junk pe) | Some m \<Rightarrow> m)
     in if \<not> wc_can_write c \<and> mode AND 2 \<noteq> 0 then ((kEROFS, []), c)
        else (case wc_probe q pe (r_str_or_empty r) c of ((st, _), c) \<Rightarrow> ((st, []), c)))"

definition web_statfs :: wire_statvfs where
  "web_statfs = \<lparr>v_bsize = 4096, v_frsize = 4096, v_blocks = 1024 * 1024 * 1024, v_bfree = 1024 * 1024 * 1024,
     v_bavail = 1024 * 1024 * 1024, v_files = 0, v_ffree = 0, v_namemax = 255\<rparr>"

definition wc_request :: "'w env \<Rightarrow> 'p web_peer \<Rightarrow> u16 \<Rightarrow> 'p web_op" where
  "wc_request q pe opc r c =
     (if \<not> wc_open c then ((kEIO, []), c)
      else if \<not> wc_can_write c \<and> (\<exists>x \<in> {OP_WRITE, OP_CREATE, OP_MKDIR, OP_UNLINK, OP_RMDIR, OP_RENAME, OP_TRUNCATE,
          OP_CHMOD, OP_UTIMENS}. opc = op_code x) then ((kEROFS, []), c)
      else if opc = op_code OP_GETATTR then wc_getattr q pe r c
      else if opc = op_code OP_READDIR then wc_readdir q pe r c
      else if opc = op_code OP_OPEN \<or> opc = op_code OP_CREATE then wc_do_open q pe (opc = op_code OP_CREATE) r c
      else if opc = op_code OP_READ then wc_read q pe r c
      else if opc = op_code OP_WRITE then wc_write q pe r c
      else if opc = op_code OP_RELEASE then wc_release q pe r c
      else if opc = op_code OP_UNLINK \<or> opc = op_code OP_RMDIR then wc_order q pe ''delete'' r c
      else if opc = op_code OP_MKDIR then wc_order q pe ''mkdir'' r c
      else if opc = op_code OP_TRUNCATE then wc_truncate q pe r c
      else if opc = op_code OP_ACCESS then wc_access q pe r c
      else if opc = op_code OP_FLUSH \<or> opc = op_code OP_FSYNC then ((0, []), c)
      else if opc = op_code OP_STATFS then ((0, w_statvfs [] web_statfs), c)
      else ((kENOSYS, []), c))"

definition web_fs :: "'w env \<Rightarrow> 'p web_peer \<Rightarrow> 'p web_client remote_fs" where
  "web_fs q pe = \<lparr>rf_connected = wc_open, rf_request = wc_request q pe\<rparr>"

section \<open>Connecting\<close>

text \<open>\<open>connect\<close> before the negotiation, and \<open>refresh_capabilities\<close>.\<close>

definition wc_reset :: "'p web_client \<Rightarrow> 'p web_client" where
  "wc_reset c = c\<lparr>wc_dc := False, wc_open := False, wc_dead := False, wc_replies := Map.empty,
     wc_downloads := Map.empty, wc_fhs := Map.empty, wc_next_fh := 1, wc_next_id := 100,
     wc_can_write := False, wc_can_range := False\<rparr>"

definition refresh_capabilities :: "'w env \<Rightarrow> 'p web_peer \<Rightarrow> 'p web_client \<Rightarrow> (string + unit) \<times> 'p web_client" where
  "refresh_capabilities q pe c = (case send_json_wait q pe (list_msg [slash]) 30000 c of
      (Some reply, c) \<Rightarrow>
        if json_error reply \<or> json_string reply ''t'' \<noteq> ''listResult''
        then (Inl ''WebRTC compatibility connected, but the host did not return the folder listing'', c)
        else (Inr (), c)
    | (None, c) \<Rightarrow> (Inl ''WebRTC compatibility connected, but the host did not return the folder listing'', c))"

definition wc_disconnect :: "('p \<Rightarrow> 'p) \<Rightarrow> 'p web_client \<Rightarrow> 'p web_client" where
  "wc_disconnect shut c = c\<lparr>wc_dead := True, wc_open := False, wc_peer := shut (wc_peer c)\<rparr>"

text \<open>
  The two ways to negotiate, each an outcome: an exception or error, or whether the channel opened in
  time. \<open>leave\<close> closes the socket of the first, \<open>shut\<close> is what \<open>disconnect\<close> does to the connection.
\<close>

definition wc_connect ::
  "'w env \<Rightarrow> 'p web_peer \<Rightarrow> (string \<Rightarrow> 'p \<Rightarrow> (string + bool) \<times> 'p) \<Rightarrow> (string \<Rightarrow> 'p \<Rightarrow> (string + bool) \<times> 'p) \<Rightarrow>
     ('p \<Rightarrow> 'p) \<Rightarrow> ('p \<Rightarrow> 'p) \<Rightarrow> string \<Rightarrow> 'p web_client \<Rightarrow> (string + unit) \<times> 'p web_client" where
  "wc_connect q pe cloud relay leave shut text0 c = (case extract_web_room q text0 of
      None \<Rightarrow> (Inl ''not a web-compatible room code'', c)
    | Some code \<Rightarrow> (let
          c = wc_reset c;
          opened = (\<lambda>c. let c = c\<lparr>wc_dc := True, wc_open := True\<rparr> in
            case refresh_capabilities q pe c of
              (Inr _, c) \<Rightarrow> (Inr (), c)
            | (Inl err, c) \<Rightarrow> (Inl err, wc_disconnect shut c));
          fallback = (\<lambda>cloudErr c.
            if \<not> fb_configured q
            then (Inl (cloudErr @ ''; Firebase fallback URL is not configured for WebRTC compatibility''), c)
            else (let c = c\<lparr>wc_dead := False, wc_open := False\<rparr> in
              case relay (room_lookup_id code) (wc_peer c) of
                (Inl err, p) \<Rightarrow> (Inl (cloudErr @ ''; Firebase WebRTC compatibility fallback failed: '' @ err), c\<lparr>wc_peer := p\<rparr>)
              | (Inr True, p) \<Rightarrow> opened (c\<lparr>wc_peer := p\<rparr>)
              | (Inr False, p) \<Rightarrow> (Inl (cloudErr @ ''; Firebase WebRTC compatibility connection timed out''), c\<lparr>wc_peer := p\<rparr>)))
        in if \<not> sig_configured q
           then fallback ''Cloudflare signaling URL is not configured for WebRTC compatibility'' c
           else (case cloud (room_lookup_id code) (wc_peer c) of
               (Inl what, p) \<Rightarrow> fallback what (c\<lparr>wc_peer := leave p\<rparr>)
             | (Inr True, p) \<Rightarrow> opened (c\<lparr>wc_peer := p\<rparr>)
             | (Inr False, p) \<Rightarrow> fallback ''Cloudflare WebRTC compatibility connection timed out'' (c\<lparr>wc_peer := leave p\<rparr>))))"

end
