(* ===== verification/WebTransfer.thy ===== *)
theory WebTransfer
  imports WebHostSafe WebClient
begin

text \<open>
  The WebRTC client against the host of \<open>WebHost\<close>, over a channel that delivers every message in
  order: what writing a file through a handle and releasing it leaves on the host.
\<close>

section \<open>The channel\<close>

text \<open>The peer is the host with the messages it has sent and the client has not handled yet.\<close>

definition host_peer :: "'w env \<Rightarrow> 'o web_os \<Rightarrow> ('o web_host \<times> dc_msg list) web_peer" where
  "host_peer q a = \<lparr>wp_send = (\<lambda>m (h, inbox). case web_message q a m h of (out, h) \<Rightarrow> (True, h, inbox @ out)),
     wp_await = (\<lambda>i t (h, inbox). (inbox, h, [])), wp_now = (\<lambda>(h, _). wo_now_ms a (wh_os h) div 1000),
     wp_fits = (\<lambda>n. n < 2 ^ 63), wp_junk = 0\<rparr>"

lemma host_peer_sel [simp]:
  "wp_send (host_peer q a) m (h, inbox) = (case web_message q a m h of (out, h) \<Rightarrow> (True, h, inbox @ out))"
  "wp_await (host_peer q a) i t (h, inbox) = (inbox, h, [])"
  "wp_fits (host_peer q a) n \<longleftrightarrow> n < 2 ^ 63"
  by (simp_all add: host_peer_def)

text \<open>Qt writes and reads this object without loss; the order of its members may change.\<close>

definition carries :: "'w env \<Rightarrow> json_object \<Rightarrow> bool" where
  "carries q ob \<longleftrightarrow> (\<exists>ob'. qt_from_json q (qt_to_json q ob) = Some (JObj ob') \<and> map_of ob' = map_of ob)"

lemma carriesE:
  assumes "carries q ob"
  obtains ob' where "parse_json_obj q (qt_to_json q ob) = ob'" "map_of ob' = map_of ob"
  using assms by (auto simp: carries_def parse_json_obj_def)

lemmas json_access = json_string_def json_string_or_def json_num_def json_int_def json_double_def json_count_def json_bool_def

lemma on_json_cong: "map_of ob = map_of ob' \<Longrightarrow> on_json q a ob h = on_json q a ob' h"
  unfolding on_json_def wh_list_def wh_download_def wh_upload_start_def wh_mkdir_def wh_upload_end_def wh_delete_def
    json_access by (simp only:)

lemma word_of_sint [simp]: "word_of_int (sint (i :: u32)) = i"
  by simp

declare of_int_sint [simp del]

lemma json_int_of_int:
  "map_of ob key = Some (JNum (of_int n)) \<Longrightarrow> - (2 ^ 31) \<le> n \<Longrightarrow> n < 2 ^ 31 \<Longrightarrow> json_int ob key = n"
  by (simp add: json_int_def json_num_def)

lemma json_int_id: "map_of ob ''id'' = Some (JNum (of_int (sint (i :: u32)))) \<Longrightarrow> json_int ob ''id'' = sint i"
  using json_int_of_int [of ob "''id''" "sint i"] sint_ge [of i] sint_lt [of i] by simp

section \<open>Uploads\<close>

definition ready_msg :: "u32 \<Rightarrow> json_object" where
  "ready_msg i = [(''t'', JStr ''uploadReady''), (''id'', JNum (of_int (sint i)))]"

definition ok_msg :: "u32 \<Rightarrow> json_object" where
  "ok_msg i = [(''t'', JStr ''ok''), (''id'', JNum (of_int (sint i)))]"

text \<open>A stream takes bytes in any split.\<close>

definition stream_law :: "'o web_os \<Rightarrow> bool" where
  "stream_law a \<longleftrightarrow> (\<forall>f b b' s. wo_write a f (b @ b') s = wo_write a f b' (wo_write a f b s)) \<and> (\<forall>f s. wo_write a f [] s = s)"

definition written_to :: "'o web_os \<Rightarrow> nat option \<Rightarrow> bytes \<Rightarrow> 'o \<Rightarrow> 'o" where
  "written_to a f d s = (case f of None \<Rightarrow> s | Some f \<Rightarrow> wo_write a f d s)"

definition closed_stream :: "'o web_os \<Rightarrow> nat option \<Rightarrow> 'o \<Rightarrow> 'o" where
  "closed_stream a f s = (case f of None \<Rightarrow> s | Some f \<Rightarrow> wo_close a f s)"

text \<open>The client waits on a channel that works.\<close>

definition channel_up :: "('o web_host \<times> dc_msg list) web_client \<Rightarrow> bool" where
  "channel_up c \<longleftrightarrow> wc_dc c \<and> \<not> wc_dead c"

text \<open>One request with one reply.\<close>

lemma send_json_wait_host:
  assumes "map_of ob ''id'' = Some (JNum (of_int (sint i)))" "i \<noteq> 0" "carries q ob" "carries q reply"
    and "map_of reply ''id'' = Some (JNum (of_int (sint i)))"
    and "json_string reply ''t'' \<notin> {''listResult'', ''fileStart''}"
    and "channel_up c" "wc_replies c i = None" "wc_peer c = (h, [])"
    and "AList.update ''id'' (JNum (of_int (sint i))) ob = ob"
    and "on_json q a ob h = ([json_compact q reply], h')"
  shows "\<exists>reply'. send_json_wait q (host_peer q a) ob t c = (Some reply', c\<lparr>wc_peer := (h', [])\<rparr>) \<and> map_of reply' = map_of reply"
proof -
  obtain ob' where ob': "parse_json_obj q (qt_to_json q ob) = ob'" "map_of ob' = map_of ob" by (rule carriesE [OF assms(3)])
  obtain reply' where r': "parse_json_obj q (qt_to_json q reply) = reply'" "map_of reply' = map_of reply" by (rule carriesE [OF assms(4)])
  have i0: "json_int ob ''id'' = sint i" "json_int reply' ''id'' = sint i"
    using json_int_id [OF assms(1)] json_int_id [of reply' i] r'(2) assms(5) by simp_all
  have m: "web_message q a (json_compact q ob) h = ([json_compact q reply], h')"
    using ob'(1) assms(11) by (simp add: web_message_def json_compact_def on_json_cong [OF ob'(2)])
  have t: "json_string reply' ''t'' = json_string reply ''t''" using r'(2) by (simp add: json_string_def)
  have s: "wc_send (host_peer q a) (json_compact q ob) c = (True, c\<lparr>wc_peer := (h', [json_compact q reply])\<rparr>)"
    using assms(7,9) m by (simp add: wc_send_def channel_up_def)
  have w: "wc_wait q (host_peer q a) i t (c\<lparr>wc_peer := (h', [json_compact q reply])\<rparr>) =
      c\<lparr>wc_peer := (h', []), wc_replies := (wc_replies c)(i \<mapsto> reply')\<rparr>"
    using assms(6,7,8) t i0(2) r'(1)
    by (simp add: wc_wait_def channel_up_def wc_receive_def json_compact_def wc_on_json_def Let_def)
  have e: "(wc_replies c)(i := None) = wc_replies c" using assms(8) by auto
  show ?thesis
    using s w i0(1) assms(2,8,10) e r'(2)
    by (intro exI [of _ reply']) (simp add: send_json_wait_def Let_def fun_upd_idem)
qed

lemma upload_chunks_host:
  assumes "stream_law a" "channel_up c" "wc_peer c = (h, [])" "wh_uploads h i = Some f"
  shows "\<exists>n. upload_chunks (host_peer q a) i d c =
    (True, c\<lparr>wc_peer := (h\<lparr>wh_os := written_to a f d (wh_os h), wh_bytes_in := n\<rparr>, [])\<rparr>)"
  using assms(2-4)
proof (induction "length d" arbitrary: d c h rule: less_induct)
  case less
  show ?case
  proof (cases "d = []")
    case True
    then show ?thesis using less.prems(2) assms(1)
      by (subst upload_chunks.simps) (auto simp: written_to_def stream_law_def split: option.split intro!: exI [of _ "wh_bytes_in h"])
  next
    case False
    let ?h = "h\<lparr>wh_os := written_to a f (take kWebChunk d) (wh_os h),
      wh_bytes_in := wh_bytes_in h + of_nat (length (take kWebChunk d))\<rparr>"
    obtain b where b: "send_bin i (take kWebChunk d) = Binary b" by (simp add: send_bin_def)
    then have l: "length b - 8 = length (take kWebChunk d)" by (auto simp: send_bin_def be_bytes_def)
    have "on_binary a b h = ?h"
      using read_send_bin [OF b] less.prems(3) l
      by (cases f) (simp_all add: on_binary_def written_to_def Let_def)
    then have s: "wc_send (host_peer q a) (send_bin i (take kWebChunk d)) c = (True, c\<lparr>wc_peer := (?h, [])\<rparr>)"
      using less.prems(1,2) b by (simp add: wc_send_def channel_up_def web_message_def)
    have "length (drop kWebChunk d) < length d" using False by (simp add: kWebChunk_def)
    from less.hyps [OF this, of "c\<lparr>wc_peer := (?h, [])\<rparr>" ?h] obtain n where
      n: "upload_chunks (host_peer q a) i (drop kWebChunk d) (c\<lparr>wc_peer := (?h, [])\<rparr>) =
        (True, c\<lparr>wc_peer := (?h\<lparr>wh_os := written_to a f (drop kWebChunk d) (wh_os ?h), wh_bytes_in := n\<rparr>, [])\<rparr>)"
      using less.prems by (auto simp: channel_up_def)
    have "written_to a f (drop kWebChunk d) (written_to a f (take kWebChunk d) (wh_os h)) = written_to a f d (wh_os h)"
      using assms(1) unfolding stream_law_def written_to_def
      by (cases f) (simp_all, metis append_take_drop_id)
    then show ?thesis using s n False by (subst upload_chunks.simps) auto
  qed
qed

text \<open>What the host needs to accept a file at a path.\<close>

definition accepts :: "'o web_os \<Rightarrow> string \<Rightarrow> 'o web_host \<Rightarrow> nat option \<Rightarrow> 'o \<Rightarrow> bool" where
  "accepts a path h f s \<longleftrightarrow> wh_allow_writes h \<and> (\<exists>p h1 s1. wh_resolve a path h = (Some p, h1) \<and>
     wo_create_directories a (parent_path p) (wh_os h1) = (None, s1) \<and> wo_ofstream a p s1 = (f, s))"

lemma upload_file_host:
  assumes "stream_law a" "channel_up c" "wc_peer c = (h, [])" "i = wc_next_id c" "i \<noteq> 0" "wc_replies c i = None"
    and "wh_uploads h i = None" "accepts a path h f s"
    and "carries q (upload_start_msg i path d)" "carries q (ready_msg i)" "carries q (upload_end_msg i)" "carries q (ok_msg i)"
  shows "\<exists>h'. upload_file q (host_peer q a) path d c = (0, c\<lparr>wc_next_id := i + 1, wc_peer := (h', [])\<rparr>) \<and>
    wh_os h' = closed_stream a f (written_to a f d s) \<and> wh_uploads h' = wh_uploads h"
proof -
  obtain p h1 s1 where acc: "wh_allow_writes h" "wh_resolve a path h = (Some p, h1)"
    "wo_create_directories a (parent_path p) (wh_os h1) = (None, s1)" "wo_ofstream a p s1 = (f, s)"
    using assms(8) by (auto simp: accepts_def)
  have h1: "wh_uploads h1 = wh_uploads h" using acc(2) by (auto simp: wh_resolve_def wsys_def split: prod.splits)
  let ?h2 = "h1\<lparr>wh_os := s, wh_uploads := (wh_uploads h1)(i \<mapsto> f)\<rparr>"
  let ?c = "c\<lparr>wc_next_id := i + 1\<rparr>"
  note ids = json_int_id [of "upload_start_msg i path d" i] json_int_id [of "upload_end_msg i" i]
  have start: "on_json q a (upload_start_msg i path d) h = ([json_compact q (ready_msg i)], ?h2)"
    using acc h1 assms(7) ids(1)
    by (simp add: on_json_def wh_upload_start_def wsys_def close_upload_def upload_start_msg_def ready_msg_def json_string_def Let_def)
  obtain r1 where s1: "send_json_wait q (host_peer q a) (upload_start_msg i path d) 30000 ?c = (Some r1, ?c\<lparr>wc_peer := (?h2, [])\<rparr>)"
    "map_of r1 = map_of (ready_msg i)"
    using send_json_wait_host [OF _ assms(5,9,10) _ _ _ _ _ _ start, of ?c 30000] assms(2,3,6)
    by (auto simp: upload_start_msg_def ready_msg_def json_string_def channel_up_def)
  obtain n where s2: "upload_chunks (host_peer q a) i d (?c\<lparr>wc_peer := (?h2, [])\<rparr>) =
      (True, ?c\<lparr>wc_peer := (?h2\<lparr>wh_os := written_to a f d s, wh_bytes_in := n\<rparr>, [])\<rparr>)"
    using upload_chunks_host [OF assms(1), of "?c\<lparr>wc_peer := (?h2, [])\<rparr>" ?h2 i f q d] assms(2) by (auto simp: channel_up_def)
  let ?h3 = "?h2\<lparr>wh_os := written_to a f d s, wh_bytes_in := n\<rparr>"
  let ?h4 = "?h3\<lparr>wh_os := closed_stream a f (written_to a f d s), wh_uploads := wh_uploads h\<rparr>"
  have un: "(wh_uploads h)(i := None) = wh_uploads h" using assms(7) by auto
  have finish: "on_json q a (upload_end_msg i) ?h3 = ([json_compact q (ok_msg i)], ?h4)"
    using ids(2) h1 un
    by (cases f) (simp_all add: on_json_def wh_upload_end_def send_ok_def close_upload_def closed_stream_def upload_end_msg_def
        ok_msg_def json_string_def Let_def)
  obtain r2 where s3: "send_json_wait q (host_peer q a) (upload_end_msg i) 60000 (?c\<lparr>wc_peer := (?h3, [])\<rparr>) = (Some r2, ?c\<lparr>wc_peer := (?h4, [])\<rparr>)"
    "map_of r2 = map_of (ok_msg i)"
    using send_json_wait_host [OF _ assms(5,11,12) _ _ _ _ _ _ finish, of "?c\<lparr>wc_peer := (?h3, [])\<rparr>" 60000] assms(2,6)
    by (auto simp: upload_end_msg_def ok_msg_def json_string_def channel_up_def)
  have "\<not> json_error r1" "\<not> json_error r2"
    using s1(2) s3(2) by (simp_all add: json_error_def json_string_def ready_msg_def ok_msg_def)
  then show ?thesis
    using s1(1) s2 s3(1) assms(4) by (intro exI [of _ ?h4]) (simp add: upload_file_def Let_def)
qed

section \<open>Writing through a handle\<close>

text \<open>Requests to write at offsets, one after the other.\<close>

fun write_all ::
  "'w env \<Rightarrow> 'p web_peer \<Rightarrow> u64 \<Rightarrow> (u64 \<times> bytes) list \<Rightarrow> 'p web_client \<Rightarrow> (int \<times> bytes) list \<times> 'p web_client" where
  "write_all q pe fh [] c = ([], c)"
| "write_all q pe fh ((off, d) # ws) c = (case wc_request q pe (op_code OP_WRITE) (write_req fh off d) c of (r, c) \<Rightarrow>
     (case write_all q pe fh ws c of (rs, c) \<Rightarrow> (r # rs, c)))"

text \<open>What they make of the bytes of a file.\<close>

definition after_writes :: "(u64 \<times> bytes) list \<Rightarrow> bytes \<Rightarrow> bytes" where
  "after_writes ws f = foldl (\<lambda>f (off, d). write_buffer (unat off) d f) f ws"

lemma write_buffer_patch: "d \<noteq> [] \<Longrightarrow> write_buffer pos d f = patch pos d f"
  by (simp add: write_buffer_def patch_def Let_def)

definition write_fits :: "'p web_peer \<Rightarrow> u64 \<times> bytes \<Rightarrow> bool" where
  "write_fits pe = (\<lambda>(off, d). unat off + length d < 2 ^ 63 \<and> wp_fits pe (unat off + length d))"

lemma write_req_parts:
  "r_pod (write_req h off d) = (Some h, le_bytes 8 off @ d)" "r_pod (le_bytes 8 (off :: u64) @ d) = (Some off, d)"
  by (simp_all add: write_req_def writer_defs codec_simps)

lemma wc_write_loaded:
  assumes "wc_open c" "wc_can_write c" "wc_fhs c fh = Some f" "wf_loaded f" "write_fits pe (off, d)"
  shows "wc_request q pe (op_code OP_WRITE) (write_req fh off d) c = ((0, w_pod [] (of_nat (length d) :: u32)),
     c\<lparr>wc_fhs := (wc_fhs c)(fh \<mapsto> f\<lparr>wf_data := write_buffer (unat off) d (wf_data f), wf_dirty := True, wf_loaded := True\<rparr>),
       wc_bytes_written := wc_bytes_written c + of_nat (length d)\<rparr>)"
proof -
  have n: "unat (of_nat (length d) :: u64) = length d" using assms(5) by (simp add: write_fits_def unat_of_nat)
  have u: "unat (- 1 - of_nat (length d) :: u64) = 2 ^ 64 - 1 - length d"
    using n assms(5) by (simp add: unat_sub word_le_nat_alt unsigned_minus_1_eq_mask mask_eq_exp_minus_1 write_fits_def)
  have "unat off + length d < 2 ^ 63" using assms(5) by (simp add: write_fits_def)
  then have k: "\<not> off > - 1 - of_nat (length d)" unfolding word_less_nat_alt u by simp
  have "wc_request q pe (op_code OP_WRITE) (write_req fh off d) c = wc_write q pe (write_req fh off d) c"
    using assms(1,2) by (simp add: wc_request_def)
  then show ?thesis using assms k
    by (simp add: wc_write_def write_req_parts wc_load_def write_fits_def)
qed

lemma write_all_loaded:
  assumes "wc_open c" "wc_can_write c" "wc_fhs c fh = Some f" "wf_loaded f" "list_all (write_fits pe) ws"
  shows "\<exists>n f'. write_all q pe fh ws c = (map (\<lambda>(off, d). (0, w_pod [] (of_nat (length d) :: u32))) ws,
       c\<lparr>wc_fhs := (wc_fhs c)(fh \<mapsto> f'), wc_bytes_written := n\<rparr>) \<and>
     f' = f\<lparr>wf_data := after_writes ws (wf_data f), wf_dirty := wf_dirty f \<or> ws \<noteq> []\<rparr>"
  using assms
proof (induction ws arbitrary: c f)
  case Nil
  then have "(wc_fhs c)(fh \<mapsto> f) = wc_fhs c" by (simp add: fun_upd_idem)
  then show ?case by (intro exI [of _ "wc_bytes_written c"] exI [of _ f]) (simp add: after_writes_def del: fun_upd_apply)
next
  case (Cons w ws)
  obtain off d where w: "w = (off, d)" by (cases w)
  let ?f = "f\<lparr>wf_data := write_buffer (unat off) d (wf_data f), wf_dirty := True, wf_loaded := True\<rparr>"
  let ?c = "c\<lparr>wc_fhs := (wc_fhs c)(fh \<mapsto> ?f), wc_bytes_written := wc_bytes_written c + of_nat (length d)\<rparr>"
  have r: "wc_request q pe (op_code OP_WRITE) (write_req fh off d) c = ((0, w_pod [] (of_nat (length d) :: u32)), ?c)"
    using Cons.prems w by (intro wc_write_loaded) auto
  have "\<exists>n f'. write_all q pe fh ws ?c = (map (\<lambda>(off, d). (0, w_pod [] (of_nat (length d) :: u32))) ws,
       ?c\<lparr>wc_fhs := (wc_fhs ?c)(fh \<mapsto> f'), wc_bytes_written := n\<rparr>) \<and>
     f' = ?f\<lparr>wf_data := after_writes ws (wf_data ?f), wf_dirty := wf_dirty ?f \<or> ws \<noteq> []\<rparr>"
    by (rule Cons.IH) (use Cons.prems in simp_all)
  then obtain n f' where ih: "write_all q pe fh ws ?c = (map (\<lambda>(off, d). (0, w_pod [] (of_nat (length d) :: u32))) ws,
       ?c\<lparr>wc_fhs := (wc_fhs ?c)(fh \<mapsto> f'), wc_bytes_written := n\<rparr>)"
    "f' = ?f\<lparr>wf_data := after_writes ws (wf_data ?f), wf_dirty := wf_dirty ?f \<or> ws \<noteq> []\<rparr>" by blast
  have e: "?c\<lparr>wc_fhs := (wc_fhs ?c)(fh \<mapsto> f'), wc_bytes_written := n\<rparr> = c\<lparr>wc_fhs := (wc_fhs c)(fh \<mapsto> f'), wc_bytes_written := n\<rparr>"
    by simp
  have f': "f' = f\<lparr>wf_data := after_writes (w # ws) (wf_data f), wf_dirty := wf_dirty f \<or> w # ws \<noteq> []\<rparr>"
    using ih(2) Cons.prems(4) by (cases f) (simp add: after_writes_def w)
  have "write_all q pe fh (w # ws) c = (map (\<lambda>(off, d). (0, w_pod [] (of_nat (length d) :: u32))) (w # ws),
       c\<lparr>wc_fhs := (wc_fhs c)(fh \<mapsto> f'), wc_bytes_written := n\<rparr>)"
    unfolding w write_all.simps r prod.case ih(1) e by simp
  then show ?case using f' by (intro exI conjI)
qed

section \<open>Properties\<close>


text \<open>A disk that keeps what is uploaded, and a new file written in two pieces.\<close>

definition ex_web_disk :: "((string \<times> bytes) list \<times> string option) web_os" where
  "ex_web_disk = ex_posix\<lparr>wo_ofstream := (\<lambda>p (fs, cur). (Some 0, (p, []) # fs, Some p)),
     wo_write := (\<lambda>f b (fs, cur). (map (\<lambda>(x, d). (x, if Some x = cur then d @ b else d)) fs, cur)),
     wo_close := (\<lambda>f (fs, cur). (fs, None))\<rparr>"

definition ex_transfer :: "unit env" where
  "ex_transfer = ex_qt\<lparr>qt_to_json := (\<lambda>ob. json_string ob ''t''),
     qt_from_json := (\<lambda>s. map_option JObj (map_of [(''uploadStart'', upload_start_msg 100 ''/b.txt'' [1, 2, 3, 4]),
       (''uploadReady'', ready_msg 100), (''uploadEnd'', upload_end_msg 100), (''ok'', ok_msg 100)] s))\<rparr>"

definition ex_web_client :: "(((string \<times> bytes) list \<times> string option) web_host \<times> dc_msg list) web_client" where
  "ex_web_client = \<lparr>wc_peer = (ex_web_host ([], None), []), wc_dc = True, wc_open = True, wc_dead = False,
     wc_replies = Map.empty, wc_downloads = Map.empty,
     wc_fhs = [1 \<mapsto> \<lparr>wf_path = ''/b.txt'', wf_data = [], wf_loaded = True, wf_dirty = True\<rparr>], wc_next_fh = 2, wc_next_id = 100,
     wc_can_write = True, wc_can_range = True, wc_bytes_read = 0, wc_bytes_written = 0\<rparr>"

lemma ex_carries: "ob \<in> {upload_start_msg 100 ''/b.txt'' [1, 2, 3, 4], ready_msg 100, upload_end_msg 100, ok_msg 100} \<Longrightarrow> carries ex_transfer ob"
  by (auto simp: carries_def ex_transfer_def json_string_def upload_start_msg_def ready_msg_def upload_end_msg_def ok_msg_def)

lemma ex_accepts: "accepts ex_web_disk ''/b.txt'' (ex_web_host ([], None)) (Some 0) ([(''/srv/share/b.txt'', [])], Some ''/srv/share/b.txt'')"
proof -
  have "normalize_rel ''/b.txt'' = Some ''/b.txt''" by code_simp
  moreover have "rel_parts ''b.txt'' = [''b.txt'']" by code_simp
  moreover have "norm_comps ''/srv/share/b.txt'' = [''srv'', ''share'', ''b.txt'']" by code_simp
  moreover have "path_append ''/srv/share'' ''b.txt'' = ''/srv/share/b.txt''" "path_append [] ''b.txt'' = ''b.txt''" by code_simp+
  moreover have "lexically_normal ''/srv/share/b.txt'' = ''/srv/share/b.txt''" "path_within ''/srv/share'' ''/srv/share/b.txt''" by code_simp+
  ultimately have "wh_resolve ex_web_disk ''/b.txt'' (ex_web_host ([], None)) = (Some ''/srv/share/b.txt'', ex_web_host ([], None))"
    by (simp add: wh_resolve_def wsys_def resolve_common_def ex_web_disk_def ex_posix_def ex_web_host_def Let_def)
  then show ?thesis by (simp add: accepts_def ex_web_disk_def ex_posix_def ex_web_host_def Let_def)
qed


end
