(* ===== verification/QuicEndpoint.thy ===== *)
theory QuicEndpoint
  imports Streams
begin

text \<open>
  \<open>NativeQuicEndpoint\<close> of \<open>client/src/net/native_quic.cpp\<close>: byte streams over a QUIC connection whose
  datagrams travel on an ICE path. picoquic, libjuice and the clock are a parameter over one library
  state; a library call returns the callbacks it made, which the endpoint then handles in order. This
  theory has the functions, \<open>QuicThreads\<close> the threads that call them.
\<close>

section \<open>State\<close>

record quic_stream =
  qs_rx :: bytes
  qs_tx :: bytes
  qs_local_closed :: bool
  qs_remote_closed :: bool
  qs_fin_sent :: bool

datatype quic_role = Quic_Client | Quic_Server

text \<open>What the endpoint calls back: \<open>incomingStream\<close>, \<open>stateChanged\<close>, \<open>localDescription\<close>.\<close>

datatype ep_call = Incoming_Stream u64 | State_Changed string | Local_Description string

record 'q quic_ep =
  qe_role :: quic_role
  qe_lib :: 'q
  qe_ice :: bool
  qe_quic :: bool
  qe_conn :: bool
  qe_worker :: bool \<comment> \<open>whether the thread was started\<close>
  qe_datagrams :: "bytes list"
  qe_pending :: "bytes list"
  qe_streams :: "(u64 \<times> quic_stream) list" \<comment> \<open>in the order of the identifiers\<close>
  qe_stopping :: bool
  qe_work :: bool
  qe_ice_connected :: bool
  qe_established :: bool
  qe_failed :: bool
  qe_failure :: string
  qe_calls :: "ep_call list"

datatype quic_event =
  Stream_Data u64 bytes | Stream_Fin u64 bytes | Stream_Reset u64 | Stop_Sending u64 | Conn_Ready | Conn_Close | Conn_Other

datatype juice_state = Juice_Connected | Juice_Completed | Juice_Failed | Juice_Other string

datatype juice_result = Juice_Sent | Juice_Again | Juice_Rejected

record 'q quic_api =
  qa_identity :: "'q \<Rightarrow> bool \<times> 'q"
  qa_store_identity :: "'q \<Rightarrow> bool \<times> 'q"
  qa_create :: "bool \<Rightarrow> 'q \<Rightarrow> bool \<times> 'q" \<comment> \<open>with the certificate files, or not\<close>
  qa_remove_identity :: "'q \<Rightarrow> 'q"
  qa_set_default :: "string \<Rightarrow> nat \<Rightarrow> 'q \<Rightarrow> 'q"
  qa_free :: "'q \<Rightarrow> 'q"
  qa_client_cnx :: "nat \<Rightarrow> 'q \<Rightarrow> bool \<times> 'q"
  qa_incoming :: "bytes \<Rightarrow> nat \<Rightarrow> nat \<Rightarrow> 'q \<Rightarrow> quic_event list \<times> 'q"
  qa_first_cnx :: "'q \<Rightarrow> bool"
  qa_add_to_stream :: "u64 \<Rightarrow> bytes \<Rightarrow> bool \<Rightarrow> 'q \<Rightarrow> bool \<times> 'q" \<comment> \<open>whether it returned 0\<close>
  qa_prepare :: "'q \<Rightarrow> (bool \<times> bytes \<times> quic_event list) \<times> 'q"
  qa_wake_delay :: "'q \<Rightarrow> int"
  qa_juice_create :: "'q \<Rightarrow> bool \<times> 'q"
  qa_juice_gather :: "'q \<Rightarrow> bool \<times> 'q"
  qa_juice_send :: "bytes \<Rightarrow> 'q \<Rightarrow> juice_result \<times> 'q"
  qa_juice_remote :: "string \<Rightarrow> 'q \<Rightarrow> bool \<times> 'q"
  qa_juice_local :: "'q \<Rightarrow> string option"
  qa_juice_destroy :: "'q \<Rightarrow> 'q"
  qa_state_name :: "juice_state \<Rightarrow> string"

definition kIdleTimeoutMs :: nat where "kIdleTimeoutMs = 30000"
definition kStreamWindow :: nat where "kStreamWindow = 16 * 1024 * 1024"
definition kConnectionWindow :: nat where "kConnectionWindow = 128 * 1024 * 1024"
definition kPumpChunk :: nat where "kPumpChunk = 64 * 1024"

definition new_stream :: quic_stream where
  "new_stream = \<lparr>qs_rx = [], qs_tx = [], qs_local_closed = False, qs_remote_closed = False, qs_fin_sent = False\<rparr>"

definition quic_ep_init :: "quic_role \<Rightarrow> 'q \<Rightarrow> 'q quic_ep" where
  "quic_ep_init r q = \<lparr>qe_role = r, qe_lib = q, qe_ice = False, qe_quic = False, qe_conn = False, qe_worker = False,
     qe_datagrams = [], qe_pending = [], qe_streams = [], qe_stopping = False, qe_work = False, qe_ice_connected = False,
     qe_established = False, qe_failed = False, qe_failure = [], qe_calls = []\<rparr>"

definition dummy_port :: "bool \<Rightarrow> bool \<Rightarrow> nat" where
  "dummy_port server local_end = (if server = local_end then 41000 else 41001)"

text \<open>A library call.\<close>

definition lib_call :: "('q \<Rightarrow> 'a \<times> 'q) \<Rightarrow> 'q quic_ep \<Rightarrow> 'a \<times> 'q quic_ep" where
  "lib_call f e = (case f (qe_lib e) of (r, q) \<Rightarrow> (r, e\<lparr>qe_lib := q\<rparr>))"

definition ep_called :: "ep_call \<Rightarrow> 'q quic_ep \<Rightarrow> 'q quic_ep" where
  "ep_called k e = e\<lparr>qe_calls := qe_calls e @ [k]\<rparr>"

section \<open>Streams\<close>

text \<open>
  A read is a sequence of turns, each the critical section between two waits: with \<open>got\<close> of \<open>len\<close> bytes
  so far, the turn waits on, fails, or ends with all bytes.
\<close>

datatype read_turn = Read_Wait bytes | Read_Failed | Read_Done bytes

definition quic_read :: "nat \<Rightarrow> bytes \<Rightarrow> quic_stream \<Rightarrow> read_turn \<times> quic_stream" where
  "quic_read len got st =
     (if length got \<ge> len then (Read_Done got, st)
      else if qs_rx st = [] \<and> \<not> qs_remote_closed st \<and> \<not> qs_local_closed st then (Read_Wait got, st)
      else (let got' = got @ take (len - length got) (qs_rx st);
                st' = st\<lparr>qs_rx := drop (len - length got) (qs_rx st)\<rparr>
        in if length got' < len
           then (if qs_remote_closed st \<or> qs_local_closed st then (Read_Failed, st') else (Read_Wait got', st'))
           else (Read_Done got', st')))"

definition quic_write :: "bytes \<Rightarrow> quic_stream \<Rightarrow> bool \<times> quic_stream" where
  "quic_write d st = (if qs_local_closed st \<or> qs_remote_closed st then (False, st) else (True, st\<lparr>qs_tx := qs_tx st @ d\<rparr>))"

definition quic_close :: "quic_stream \<Rightarrow> quic_stream" where
  "quic_close st = st\<lparr>qs_local_closed := True\<rparr>"

definition ep_wake :: "'q quic_ep \<Rightarrow> 'q quic_ep" where
  "ep_wake e = e\<lparr>qe_work := True\<rparr>"

definition upd_stream :: "u64 \<Rightarrow> (quic_stream \<Rightarrow> quic_stream) \<Rightarrow> 'q quic_ep \<Rightarrow> 'q quic_ep" where
  "upd_stream i f e = e\<lparr>qe_streams := map (\<lambda>(j, st). (j, if j = i then f st else st)) (qe_streams e)\<rparr>"

definition stream_at :: "'q quic_ep \<Rightarrow> u64 \<Rightarrow> quic_stream option" where
  "stream_at e i = map_of (qe_streams e) i"

definition ensure_stream :: "u64 \<Rightarrow> bool \<Rightarrow> 'q quic_ep \<Rightarrow> 'q quic_ep" where
  "ensure_stream i announce e = (case stream_at e i of
      Some _ \<Rightarrow> e
    | None \<Rightarrow> (let e = e\<lparr>qe_streams := insort_key fst (i, new_stream) (qe_streams e)\<rparr>
        in if announce then ep_called (Incoming_Stream i) e else e))"

section \<open>Callbacks\<close>

definition set_failure :: "string \<Rightarrow> 'q quic_ep \<Rightarrow> 'q quic_ep" where
  "set_failure msg e = (if qe_stopping e then e else e\<lparr>qe_failure := msg, qe_failed := True\<rparr>)"

definition mark_established :: "'q quic_ep \<Rightarrow> 'q quic_ep" where
  "mark_established e = (if qe_established e then e
     else ep_called (State_Changed ''connected'') (e\<lparr>qe_established := True\<rparr>))"

definition stream_closed :: "quic_stream \<Rightarrow> quic_stream" where
  "stream_closed st = st\<lparr>qs_remote_closed := True\<rparr>"

definition on_quic_event :: "quic_event \<Rightarrow> 'q quic_ep \<Rightarrow> 'q quic_ep" where
  "on_quic_event ev e0 = (let e = e0\<lparr>qe_conn := True\<rparr> in
     case ev of
       Stream_Data i b \<Rightarrow> upd_stream i (\<lambda>st. st\<lparr>qs_rx := qs_rx st @ b\<rparr>) (ensure_stream i (qe_role e = Quic_Server) e)
     | Stream_Fin i b \<Rightarrow> upd_stream i (\<lambda>st. stream_closed (st\<lparr>qs_rx := qs_rx st @ b\<rparr>)) (ensure_stream i (qe_role e = Quic_Server) e)
     | Stream_Reset i \<Rightarrow> upd_stream i stream_closed (ensure_stream i False e)
     | Stop_Sending i \<Rightarrow> upd_stream i stream_closed (ensure_stream i False e)
     | Conn_Ready \<Rightarrow> mark_established e
     | Conn_Close \<Rightarrow> set_failure ''QUIC connection closed'' e
     | Conn_Other \<Rightarrow> e)"

definition ice_state :: "'q quic_api \<Rightarrow> juice_state \<Rightarrow> 'q quic_ep \<Rightarrow> 'q quic_ep" where
  "ice_state a st e = (let
       e = e\<lparr>qe_ice_connected := (st = Juice_Connected \<or> st = Juice_Completed)\<rparr>;
       e = (if st = Juice_Failed
            then e\<lparr>qe_failure := ''ICE/STUN could not establish a direct UDP path'', qe_failed := True\<rparr> else e)
     in ep_called (State_Changed (qa_state_name a st)) (e\<lparr>qe_work := True\<rparr>))"

definition ice_gathered :: "'q quic_api \<Rightarrow> 'q quic_ep \<Rightarrow> 'q quic_ep" where
  "ice_gathered a e = (case qa_juice_local a (qe_lib e) of None \<Rightarrow> e | Some sdp \<Rightarrow> ep_called (Local_Description sdp) e)"

definition ice_recv :: "bytes \<Rightarrow> 'q quic_ep \<Rightarrow> 'q quic_ep" where
  "ice_recv d e = e\<lparr>qe_datagrams := qe_datagrams e @ [d], qe_work := True\<rparr>"

section \<open>The worker\<close>

definition create_client_connection :: "'q quic_api \<Rightarrow> 'q quic_ep \<Rightarrow> 'q quic_ep" where
  "create_client_connection a e = (if qe_conn e then e
     else (case lib_call (qa_client_cnx a (dummy_port False False)) e of (ok, e) \<Rightarrow>
       let e = e\<lparr>qe_conn := ok\<rparr> in if ok then e else set_failure ''failed to create QUIC client connection'' e))"

definition process_datagram :: "'q quic_api \<Rightarrow> bytes \<Rightarrow> 'q quic_ep \<Rightarrow> 'q quic_ep" where
  "process_datagram a packet e = (let server = (qe_role e = Quic_Server) in
     case lib_call (qa_incoming a packet (dummy_port server False) (dummy_port server True)) e of (evs, e) \<Rightarrow>
       let e = fold on_quic_event evs e
       in if qe_conn e then e else e\<lparr>qe_conn := qa_first_cnx a (qe_lib e)\<rparr>)"

text \<open>The critical sections of \<open>pump_streams\<close> for one stream: what to add, and what to take off after.\<close>

definition pump_peek :: "quic_stream \<Rightarrow> bytes \<times> bool" where
  "pump_peek st = (let n = min kPumpChunk (length (qs_tx st))
     in (take n (qs_tx st), qs_local_closed st \<and> \<not> qs_fin_sent st \<and> n = length (qs_tx st)))"

definition pump_pop :: "nat \<Rightarrow> bool \<Rightarrow> quic_stream \<Rightarrow> quic_stream" where
  "pump_pop n closeAfter st = (let st = st\<lparr>qs_tx := drop n (qs_tx st)\<rparr>
     in if closeAfter then st\<lparr>qs_fin_sent := True\<rparr> else st)"

definition pump_stream :: "'q quic_api \<Rightarrow> u64 \<Rightarrow> 'q quic_ep \<Rightarrow> 'q quic_ep" where
  "pump_stream a i e = (case stream_at e i of
      None \<Rightarrow> e
    | Some st \<Rightarrow> (case pump_peek st of (chunk, closeAfter) \<Rightarrow>
        if chunk = [] \<and> \<not> closeAfter then e
        else (case lib_call (qa_add_to_stream a i chunk closeAfter) e of
            (True, e) \<Rightarrow> upd_stream i (pump_pop (length chunk) closeAfter) e
          | (False, e) \<Rightarrow> set_failure ''picoquic rejected filesystem stream data'' e)))"

definition pump_streams :: "'q quic_api \<Rightarrow> 'q quic_ep \<Rightarrow> 'q quic_ep" where
  "pump_streams a e = (if \<not> qe_conn e \<or> \<not> qe_established e then e
     else fold (pump_stream a) (map fst (qe_streams e)) e)"

text \<open>The two loops of \<open>flush_quic\<close>; the first says whether to go on.\<close>

fun send_pending :: "'q quic_api \<Rightarrow> bytes list \<Rightarrow> 'q quic_ep \<Rightarrow> bool \<times> 'q quic_ep" where
  "send_pending a [] e = (True, e\<lparr>qe_pending := []\<rparr>)"
| "send_pending a (p # ps) e = (case lib_call (qa_juice_send a p) e of
      (Juice_Again, e) \<Rightarrow> (False, e\<lparr>qe_pending := p # ps\<rparr>)
    | (Juice_Rejected, e) \<Rightarrow> (False, set_failure ''ICE path rejected a QUIC datagram'' (e\<lparr>qe_pending := p # ps\<rparr>))
    | (Juice_Sent, e) \<Rightarrow> send_pending a ps e)"

partial_function (option) send_prepared :: "'q quic_api \<Rightarrow> 'q quic_ep \<Rightarrow> 'q quic_ep option" where
  "send_prepared a e = (case lib_call (qa_prepare a) e of ((ok, packet, evs), e) \<Rightarrow>
     let e = fold on_quic_event evs e in
     if \<not> ok then Some (set_failure ''QUIC packet generation failed'' e)
     else if packet = [] then Some e
     else (case lib_call (qa_juice_send a packet) e of
         (Juice_Again, e) \<Rightarrow> Some (e\<lparr>qe_pending := qe_pending e @ [packet]\<rparr>)
       | (Juice_Rejected, e) \<Rightarrow> Some (set_failure ''ICE path rejected a QUIC datagram'' e)
       | (Juice_Sent, e) \<Rightarrow> send_prepared a e))"

definition flush_quic :: "'q quic_api \<Rightarrow> 'q quic_ep \<Rightarrow> 'q quic_ep option" where
  "flush_quic a e = (if \<not> qe_quic e \<or> \<not> qe_ice e \<or> \<not> qe_ice_connected e then Some e
     else (case send_pending a (qe_pending e) e of
         (False, e) \<Rightarrow> Some e
       | (True, e) \<Rightarrow> send_prepared a e))"

text \<open>What a turn of \<open>run\<close> takes from the queue, whether it starts the client connection, how long the next one waits.\<close>

definition take_work :: "'q quic_ep \<Rightarrow> (bytes list \<times> bool) \<times> 'q quic_ep" where
  "take_work e = ((qe_datagrams e, qe_ice_connected e \<and> qe_role e = Quic_Client \<and> \<not> qe_conn e),
     e\<lparr>qe_work := False, qe_datagrams := []\<rparr>)"

definition wait_micros :: "'q quic_api \<Rightarrow> 'q quic_ep \<Rightarrow> int" where
  "wait_micros a e = (if qe_pending e = [] then max 0 (qa_wake_delay a (qe_lib e)) else 1000)"

text \<open>A turn that no other thread interrupts.\<close>

definition run_turn :: "'q quic_api \<Rightarrow> 'q quic_ep \<Rightarrow> 'q quic_ep option" where
  "run_turn a e = (case take_work e of ((packets, startClient), e) \<Rightarrow>
     flush_quic a (pump_streams a (fold (process_datagram a) packets
       (if startClient then create_client_connection a e else e))))"

text \<open>The end of the thread.\<close>

definition run_end :: "'q quic_ep \<Rightarrow> 'q quic_ep" where
  "run_end e = fold (\<lambda>i. upd_stream i stream_closed) (map fst (qe_streams e)) e"

section \<open>Starting, opening streams, shutting down\<close>

text \<open>\<open>shutdown\<close>: its critical section, which says whether to go on, and what follows the join.\<close>

definition shutdown_begin :: "'q quic_ep \<Rightarrow> bool \<times> 'q quic_ep" where
  "shutdown_begin e = (if qe_stopping e then (False, e)
     else (let e = e\<lparr>qe_stopping := True\<rparr>
       in (True, if \<not> qe_established e \<and> \<not> qe_failed e
                 then e\<lparr>qe_failure := ''native QUIC endpoint stopped'', qe_failed := True\<rparr> else e)))"

definition shutdown_free :: "'q quic_api \<Rightarrow> 'q quic_ep \<Rightarrow> 'q quic_ep" where
  "shutdown_free a e = (let
       e = (if qe_ice e then e\<lparr>qe_lib := qa_juice_destroy a (qe_lib e)\<rparr> else e);
       e = e\<lparr>qe_ice := False, qe_conn := False\<rparr>;
       e = (if qe_quic e then e\<lparr>qe_lib := qa_free a (qe_lib e)\<rparr> else e)
     in e\<lparr>qe_quic := False\<rparr>)"

text \<open>With a worker that does nothing but end.\<close>

definition ep_shutdown :: "'q quic_api \<Rightarrow> 'q quic_ep \<Rightarrow> 'q quic_ep" where
  "ep_shutdown a e = (case shutdown_begin e of
      (False, e) \<Rightarrow> e
    | (True, e) \<Rightarrow> shutdown_free a (if qe_worker e then run_end e else e))"

definition transport_parameters :: "(string \<times> nat) list" where
  "transport_parameters = [(''idle_timeout'', kIdleTimeoutMs), (''initial_max_data'', kConnectionWindow),
     (''initial_max_stream_data_bidi_local'', kStreamWindow), (''initial_max_stream_data_bidi_remote'', kStreamWindow),
     (''initial_max_streams_bidi'', 64), (''disable_migration'', 1)]"

definition ep_context :: "'q quic_api \<Rightarrow> 'q quic_ep \<Rightarrow> (string + unit) \<times> 'q quic_ep" where
  "ep_context a e = (let server = (qe_role e = Quic_Server);
       create = (\<lambda>e. case lib_call (qa_create a server) e of (ok, e) \<Rightarrow>
         let e = (if server then e\<lparr>qe_lib := qa_remove_identity a (qe_lib e)\<rparr> else e)
         in if ok then (Inr (), e\<lparr>qe_quic := True\<rparr>) else (Inl ''failed to create picoquic context'', e))
     in if \<not> server then create e
        else (case lib_call (qa_identity a) e of
            (False, e) \<Rightarrow> (Inl ''failed to generate an ephemeral QUIC transport certificate'', e)
          | (True, e) \<Rightarrow> (case lib_call (qa_store_identity a) e of
              (False, e) \<Rightarrow> (Inl ''failed to materialize the ephemeral QUIC certificate'', e)
            | (True, e) \<Rightarrow> create e)))"

definition ep_start :: "'q quic_api \<Rightarrow> 'q quic_ep \<Rightarrow> (string + unit) \<times> 'q quic_ep" where
  "ep_start a e = (case ep_context a e of
      (Inl err, e) \<Rightarrow> (Inl err, e)
    | (Inr _, e) \<Rightarrow> (let
          e = e\<lparr>qe_lib := fold (\<lambda>(k, v). qa_set_default a k v) transport_parameters (qe_lib e)\<rparr>
        in case lib_call (qa_juice_create a) e of
             (False, e) \<Rightarrow> (Inl ''failed to create ICE agent'', e\<lparr>qe_lib := qa_free a (qe_lib e), qe_quic := False\<rparr>)
           | (True, e) \<Rightarrow> (case lib_call (qa_juice_gather a) (e\<lparr>qe_ice := True, qe_worker := True\<rparr>) of
               (False, e) \<Rightarrow> (Inl ''failed to start ICE candidate gathering'', ep_shutdown a e)
             | (True, e) \<Rightarrow> (Inr (), e))))"

definition set_remote_description :: "'q quic_api \<Rightarrow> string \<Rightarrow> 'q quic_ep \<Rightarrow> (string + unit) \<times> 'q quic_ep" where
  "set_remote_description a d e = (if \<not> qe_ice e then (Inl ''ICE rejected the remote candidate description'', e)
     else (case lib_call (qa_juice_remote a d) e of
         (False, e) \<Rightarrow> (Inl ''ICE rejected the remote candidate description'', e)
       | (True, e) \<Rightarrow> (Inr (), e)))"

text \<open>\<open>waitConnected\<close> when its wait ends, by the predicate or the time limit.\<close>

definition wait_connected :: "'q quic_ep \<Rightarrow> string + unit" where
  "wait_connected e = (if \<not> qe_established e \<and> \<not> qe_failed e then Inl ''direct QUIC/ICE connection timed out''
     else if \<not> qe_established e then Inl (qe_failure e) else Inr ())"

definition ep_connected :: "'q quic_ep \<Rightarrow> bool" where
  "ep_connected e \<longleftrightarrow> qe_established e \<and> \<not> qe_failed e"

text \<open>The streams that the client opens: identifiers 0, 4, 8, \<dots>\<close>

definition make_streams :: "nat \<Rightarrow> 'q quic_ep \<Rightarrow> u64 list \<times> 'q quic_ep" where
  "make_streams n e = (let ids = map (\<lambda>k. of_nat k * 4) [0..<n] in (ids, fold (\<lambda>i. ensure_stream i False) ids e))"

definition open_streams :: "nat \<Rightarrow> 'q quic_ep \<Rightarrow> (string + u64 list) \<times> 'q quic_ep" where
  "open_streams n e = (if \<not> ep_connected e then (Inl ''QUIC is not connected'', e)
     else if qe_role e \<noteq> Quic_Client then (Inl ''only the QUIC client opens filesystem streams'', e)
     else (case make_streams n e of (ids, e) \<Rightarrow> (Inr ids, e)))"

end
