(* ===== verification/QuicThreads.thy ===== *)
theory QuicThreads
  imports QuicEndpoint "HOL-Library.Sublist"
begin

text \<open>
  The threads of a \<open>NativeQuicEndpoint\<close>: its worker, libjuice's callbacks, and any number of threads that
  read, write and close streams, open streams and shut down. A step is a critical section, or a library
  call of the worker. The callbacks that a library call makes, and the packets of one flush, are part
  of its step: other threads only append to what they take, or take what they append. The endpoint runs on a library that keeps a log of what it delivered
  and took, so that statements can compare it with what was written and read.
\<close>

section \<open>A library with a log\<close>

record quic_log =
  ql_events :: "quic_event list"
  ql_added :: "(u64 \<times> bytes \<times> bool) list"
  ql_prepared :: "bytes list"
  ql_sent :: "bytes list"

definition quic_logged :: "'q quic_api \<Rightarrow> ('q \<times> quic_log) quic_api" where
  "quic_logged a = \<lparr>
     qa_identity = (\<lambda>(q, l). case qa_identity a q of (r, q) \<Rightarrow> (r, (q, l))),
     qa_store_identity = (\<lambda>(q, l). case qa_store_identity a q of (r, q) \<Rightarrow> (r, (q, l))),
     qa_create = (\<lambda>s (q, l). case qa_create a s q of (r, q) \<Rightarrow> (r, (q, l))),
     qa_remove_identity = (\<lambda>(q, l). (qa_remove_identity a q, l)),
     qa_set_default = (\<lambda>k v (q, l). (qa_set_default a k v q, l)),
     qa_free = (\<lambda>(q, l). (qa_free a q, l)),
     qa_client_cnx = (\<lambda>p (q, l). case qa_client_cnx a p q of (r, q) \<Rightarrow> (r, (q, l))),
     qa_incoming = (\<lambda>d x y (q, l). case qa_incoming a d x y q of (evs, q) \<Rightarrow>
       (evs, (q, l\<lparr>ql_events := ql_events l @ evs\<rparr>))),
     qa_first_cnx = (\<lambda>(q, l). qa_first_cnx a q),
     qa_add_to_stream = (\<lambda>i b c (q, l). case qa_add_to_stream a i b c q of (ok, q) \<Rightarrow>
       (ok, (q, if ok then l\<lparr>ql_added := ql_added l @ [(i, b, c)]\<rparr> else l))),
     qa_prepare = (\<lambda>(q, l). case qa_prepare a q of ((ok, p, evs), q) \<Rightarrow>
       ((ok, p, evs), (q, l\<lparr>ql_events := ql_events l @ evs,
          ql_prepared := ql_prepared l @ (if ok \<and> p \<noteq> [] then [p] else [])\<rparr>))),
     qa_wake_delay = (\<lambda>(q, l). qa_wake_delay a q),
     qa_juice_create = (\<lambda>(q, l). case qa_juice_create a q of (r, q) \<Rightarrow> (r, (q, l))),
     qa_juice_gather = (\<lambda>(q, l). case qa_juice_gather a q of (r, q) \<Rightarrow> (r, (q, l))),
     qa_juice_send = (\<lambda>p (q, l). case qa_juice_send a p q of (r, q) \<Rightarrow>
       (r, (q, if r = Juice_Sent then l\<lparr>ql_sent := ql_sent l @ [p]\<rparr> else l))),
     qa_juice_remote = (\<lambda>d (q, l). case qa_juice_remote a d q of (r, q) \<Rightarrow> (r, (q, l))),
     qa_juice_local = (\<lambda>(q, l). qa_juice_local a q),
     qa_juice_destroy = (\<lambda>(q, l). (qa_juice_destroy a q, l)),
     qa_state_name = qa_state_name a\<rparr>"

definition no_log :: quic_log where
  "no_log = \<lparr>ql_events = [], ql_added = [], ql_prepared = [], ql_sent = []\<rparr>"

text \<open>The bytes of one stream, and whether its end was seen.\<close>

fun event_bytes :: "u64 \<Rightarrow> quic_event \<Rightarrow> bytes" where
  "event_bytes i (Stream_Data j b) = (if j = i then b else [])"
| "event_bytes i (Stream_Fin j b) = (if j = i then b else [])"
| "event_bytes i _ = []"

definition received :: "u64 \<Rightarrow> quic_log \<Rightarrow> bytes" where
  "received i l = concat (map (event_bytes i) (ql_events l))"

definition fin_received :: "u64 \<Rightarrow> quic_log \<Rightarrow> bool" where
  "fin_received i l \<longleftrightarrow> (\<exists>b. Stream_Fin i b \<in> set (ql_events l))"

definition adds :: "u64 \<Rightarrow> quic_log \<Rightarrow> (bytes \<times> bool) list" where
  "adds i l = map snd (filter (\<lambda>x. fst x = i) (ql_added l))"

definition added :: "u64 \<Rightarrow> quic_log \<Rightarrow> bytes" where
  "added i l = concat (map fst (adds i l))"

definition fin_added :: "u64 \<Rightarrow> quic_log \<Rightarrow> bool" where
  "fin_added i l \<longleftrightarrow> True \<in> snd ` set (adds i l)"

text \<open>Nothing is added to a stream after its end.\<close>

definition fin_last :: "u64 \<Rightarrow> quic_log \<Rightarrow> bool" where
  "fin_last i l \<longleftrightarrow> list_all (\<lambda>x. \<not> snd x) (butlast (adds i l))"

section \<open>The threads\<close>

datatype quic_worker =
  QW_Wait
| QW_Packets "bytes list" bool
| QW_Pump "u64 list"
| QW_Chosen u64 bytes bool "u64 list"
| QW_Added u64 nat bool "u64 list"
| QW_Check
| QW_Close "u64 list"
| QW_Ended

record 'q quic_sys =
  qy_ep :: "('q \<times> quic_log) quic_ep"
  qy_worker :: quic_worker
  qy_asked :: "nat list" \<comment> \<open>threads in \<open>openStreams\<close> that saw a connection\<close>
  qy_freeing :: bool
  qy_written :: "u64 \<Rightarrow> bytes"
  qy_read :: "u64 \<Rightarrow> bytes"

definition stream_ids :: "'q quic_ep \<Rightarrow> u64 list" where
  "stream_ids e = map fst (qe_streams e)"

definition put_stream :: "u64 \<Rightarrow> quic_stream \<Rightarrow> 'q quic_ep \<Rightarrow> 'q quic_ep" where
  "put_stream i st = upd_stream i (\<lambda>_. st)"

inductive quic_step :: "'q quic_api \<Rightarrow> 'q quic_sys \<Rightarrow> 'q quic_sys \<Rightarrow> bool" for a where
  q_take: "qy_worker s = QW_Wait \<Longrightarrow> \<not> qe_stopping (qy_ep s) \<Longrightarrow> take_work (qy_ep s) = ((ps, b), e) \<Longrightarrow>
    quic_step a s (s\<lparr>qy_ep := e, qy_worker := QW_Packets ps b\<rparr>)"
| q_halt: "qy_worker s = QW_Wait \<Longrightarrow> qe_stopping (qy_ep s) \<Longrightarrow>
    quic_step a s (s\<lparr>qy_worker := QW_Close (stream_ids (qy_ep s))\<rparr>)"
| q_connect: "qy_worker s = QW_Packets ps True \<Longrightarrow>
    quic_step a s (s\<lparr>qy_ep := create_client_connection (quic_logged a) (qy_ep s), qy_worker := QW_Packets ps False\<rparr>)"
| q_packet: "qy_worker s = QW_Packets (p # ps) False \<Longrightarrow>
    quic_step a s (s\<lparr>qy_ep := process_datagram (quic_logged a) p (qy_ep s), qy_worker := QW_Packets ps False\<rparr>)"
| q_snapshot: "qy_worker s = QW_Packets [] False \<Longrightarrow>
    ids = (if \<not> qe_conn (qy_ep s) \<or> \<not> qe_established (qy_ep s) then [] else stream_ids (qy_ep s)) \<Longrightarrow>
    quic_step a s (s\<lparr>qy_worker := QW_Pump ids\<rparr>)"
| q_skip: "qy_worker s = QW_Pump (i # ids) \<Longrightarrow> stream_at (qy_ep s) i = Some st \<Longrightarrow> pump_peek st = ([], False) \<Longrightarrow>
    quic_step a s (s\<lparr>qy_worker := QW_Pump ids\<rparr>)"
| q_choose: "qy_worker s = QW_Pump (i # ids) \<Longrightarrow> stream_at (qy_ep s) i = Some st \<Longrightarrow> pump_peek st = (chunk, c) \<Longrightarrow>
    chunk \<noteq> [] \<or> c \<Longrightarrow> quic_step a s (s\<lparr>qy_worker := QW_Chosen i chunk c ids\<rparr>)"
| q_add: "qy_worker s = QW_Chosen i chunk c ids \<Longrightarrow>
    lib_call (qa_add_to_stream (quic_logged a) i chunk c) (qy_ep s) = (True, e) \<Longrightarrow>
    quic_step a s (s\<lparr>qy_ep := e, qy_worker := QW_Added i (length chunk) c ids\<rparr>)"
| q_reject: "qy_worker s = QW_Chosen i chunk c ids \<Longrightarrow>
    lib_call (qa_add_to_stream (quic_logged a) i chunk c) (qy_ep s) = (False, e) \<Longrightarrow>
    quic_step a s (s\<lparr>qy_ep := set_failure ''picoquic rejected filesystem stream data'' e, qy_worker := QW_Pump ids\<rparr>)"
| q_pop: "qy_worker s = QW_Added i n c ids \<Longrightarrow>
    quic_step a s (s\<lparr>qy_ep := upd_stream i (pump_pop n c) (qy_ep s), qy_worker := QW_Pump ids\<rparr>)"
| q_flush: "qy_worker s = QW_Pump [] \<Longrightarrow> flush_quic (quic_logged a) (qy_ep s) = Some e \<Longrightarrow>
    quic_step a s (s\<lparr>qy_ep := e, qy_worker := QW_Check\<rparr>)"
| q_check: "qy_worker s = QW_Check \<Longrightarrow>
    quic_step a s (s\<lparr>qy_worker := (if qe_failed (qy_ep s) then QW_Close (stream_ids (qy_ep s)) else QW_Wait)\<rparr>)"
| q_close1: "qy_worker s = QW_Close (i # ids) \<Longrightarrow>
    quic_step a s (s\<lparr>qy_ep := upd_stream i stream_closed (qy_ep s), qy_worker := QW_Close ids\<rparr>)"
| q_end: "qy_worker s = QW_Close [] \<Longrightarrow> quic_step a s (s\<lparr>qy_worker := QW_Ended\<rparr>)"
| q_ice: "qe_ice (qy_ep s) \<Longrightarrow> quic_step a s (s\<lparr>qy_ep := ice_state (quic_logged a) js (qy_ep s)\<rparr>)"
| q_gathered: "qe_ice (qy_ep s) \<Longrightarrow> quic_step a s (s\<lparr>qy_ep := ice_gathered (quic_logged a) (qy_ep s)\<rparr>)"
| q_recv: "qe_ice (qy_ep s) \<Longrightarrow> quic_step a s (s\<lparr>qy_ep := ice_recv d (qy_ep s)\<rparr>)"
| q_write: "stream_at (qy_ep s) i = Some st \<Longrightarrow> quic_write d st = (True, st') \<Longrightarrow>
    quic_step a s (s\<lparr>qy_ep := ep_wake (put_stream i st' (qy_ep s)), qy_written := (qy_written s)(i := qy_written s i @ d)\<rparr>)"
| q_close: "stream_at (qy_ep s) i = Some st \<Longrightarrow>
    quic_step a s (s\<lparr>qy_ep := ep_wake (put_stream i (quic_close st) (qy_ep s))\<rparr>)"
| q_read: "stream_at (qy_ep s) i = Some st \<Longrightarrow> quic_read len got st = (r, st') \<Longrightarrow>
    quic_step a s (s\<lparr>qy_ep := put_stream i st' (qy_ep s),
      qy_read := (qy_read s)(i := qy_read s i @ take (length (qs_rx st) - length (qs_rx st')) (qs_rx st))\<rparr>)"
| q_ask: "ep_connected (qy_ep s) \<Longrightarrow> qe_role (qy_ep s) = Quic_Client \<Longrightarrow> quic_step a s (s\<lparr>qy_asked := n # qy_asked s\<rparr>)"
| q_make: "n \<in> set (qy_asked s) \<Longrightarrow>
    quic_step a s (s\<lparr>qy_ep := snd (make_streams n (qy_ep s)), qy_asked := remove1 n (qy_asked s)\<rparr>)"
| q_remote: "set_remote_description (quic_logged a) d (qy_ep s) = (r, e) \<Longrightarrow> quic_step a s (s\<lparr>qy_ep := e\<rparr>)"
| q_shutdown: "shutdown_begin (qy_ep s) = (True, e) \<Longrightarrow> quic_step a s (s\<lparr>qy_ep := e, qy_freeing := True\<rparr>)"
| q_free: "qy_freeing s \<Longrightarrow> qy_worker s = QW_Ended \<Longrightarrow>
    quic_step a s (s\<lparr>qy_ep := shutdown_free (quic_logged a) (qy_ep s), qy_freeing := False\<rparr>)"

definition quic_start :: "('q \<times> quic_log) quic_ep \<Rightarrow> 'q quic_sys" where
  "quic_start e = \<lparr>qy_ep = e, qy_worker = QW_Wait, qy_asked = [], qy_freeing = False, qy_written = (\<lambda>_. []), qy_read = (\<lambda>_. [])\<rparr>"

text \<open>The states after a successful \<open>start\<close>.\<close>

inductive quic_reach :: "'q quic_api \<Rightarrow> 'q quic_sys \<Rightarrow> bool" for a where
  qr_start: "ep_start (quic_logged a) (quic_ep_init r (q, no_log)) = (Inr u, e) \<Longrightarrow> quic_reach a (quic_start e)"
| qr_step: "quic_reach a s \<Longrightarrow> quic_step a s s' \<Longrightarrow> quic_reach a s'"

definition sys_log :: "'q quic_sys \<Rightarrow> quic_log" where
  "sys_log s = snd (qe_lib (qy_ep s))"


section \<open>What the operations keep\<close>

definition st_of :: "'q quic_ep \<Rightarrow> u64 \<Rightarrow> quic_stream" where
  "st_of e i = (case stream_at e i of None \<Rightarrow> new_stream | Some st \<Rightarrow> st)"

definition elog :: "('q \<times> quic_log) quic_ep \<Rightarrow> quic_log" where
  "elog e = snd (qe_lib e)"

definition sent_in_order :: "('q \<times> quic_log) quic_ep \<Rightarrow> bool" where
  "sent_in_order e \<longleftrightarrow> ql_sent (elog e) @ qe_pending e = ql_prepared (elog e) \<or> qe_failed e \<or> qe_stopping e"

text \<open>
  The send side of every stream stays, its receive queue grows by what the library delivers, and
  no packet gets lost; no stream vanishes or opens again.
\<close>

definition stream_moves :: "u64 \<Rightarrow> ('q \<times> quic_log) quic_ep \<Rightarrow> ('q \<times> quic_log) quic_ep \<Rightarrow> bool" where
  "stream_moves i e e' \<longleftrightarrow> (\<exists>new. received i (elog e') = received i (elog e) @ new \<and> qs_rx (st_of e' i) = qs_rx (st_of e i) @ new) \<and>
     qs_tx (st_of e' i) = qs_tx (st_of e i) \<and> qs_local_closed (st_of e' i) = qs_local_closed (st_of e i) \<and>
     qs_fin_sent (st_of e' i) = qs_fin_sent (st_of e i) \<and> (stream_at e i \<noteq> None \<longrightarrow> stream_at e' i \<noteq> None) \<and>
     (qs_remote_closed (st_of e i) \<longrightarrow> qs_remote_closed (st_of e' i))"

definition qmoves :: "('q \<times> quic_log) quic_ep \<Rightarrow> ('q \<times> quic_log) quic_ep \<Rightarrow> bool" where
  "qmoves e e' \<longleftrightarrow> (\<forall>i. stream_moves i e e') \<and>
    ql_added (elog e') = ql_added (elog e) \<and> (sent_in_order e \<longrightarrow> sent_in_order e') \<and>
    (qe_failed e \<longrightarrow> qe_failed e') \<and> (qe_stopping e \<longrightarrow> qe_stopping e')"

lemma stream_moves_trans: "stream_moves i e e' \<Longrightarrow> stream_moves i e' e'' \<Longrightarrow> stream_moves i e e''"
  unfolding stream_moves_def by (elim conjE exE, intro conjI) auto

lemma qmoves_refl [simp, intro]: "qmoves e e"
  by (simp add: qmoves_def stream_moves_def)

lemma qmoves_trans [trans]: "qmoves e e' \<Longrightarrow> qmoves e' e'' \<Longrightarrow> qmoves e e''"
  unfolding qmoves_def by (auto intro: stream_moves_trans)

text \<open>Streams, log, packets and flags determine it.\<close>

lemma qmoves_same:
  "qe_streams e' = qe_streams e \<Longrightarrow> elog e' = elog e \<Longrightarrow> qe_pending e' = qe_pending e \<Longrightarrow>
     (qe_failed e \<longrightarrow> qe_failed e') \<Longrightarrow> (qe_stopping e \<longrightarrow> qe_stopping e') \<Longrightarrow> qmoves e e'"
  by (simp add: qmoves_def stream_moves_def st_of_def stream_at_def sent_in_order_def)

lemma stream_at_frame [simp]:
  "stream_at (e\<lparr>qe_conn := b\<rparr>) = stream_at e" "stream_at (e\<lparr>qe_lib := q\<rparr>) = stream_at e" "stream_at (e\<lparr>qe_work := b\<rparr>) = stream_at e"
  "stream_at (set_failure m e) = stream_at e" "stream_at (mark_established e) = stream_at e" "stream_at (ep_called k e) = stream_at e"
  "stream_at (ep_wake e) = stream_at e"
  by (simp_all add: fun_eq_iff stream_at_def set_failure_def mark_established_def ep_called_def ep_wake_def)

lemma st_of_frame [simp]:
  "st_of (e\<lparr>qe_conn := b\<rparr>) = st_of e" "st_of (e\<lparr>qe_lib := q\<rparr>) = st_of e" "st_of (e\<lparr>qe_work := b\<rparr>) = st_of e"
  "st_of (set_failure m e) = st_of e" "st_of (mark_established e) = st_of e" "st_of (ep_called k e) = st_of e"
  "st_of (ep_wake e) = st_of e"
  by (simp_all add: fun_eq_iff st_of_def)

lemma map_of_insort: "i \<notin> fst ` set xs \<Longrightarrow> map_of (insort_key fst (i, x) xs) = (map_of xs)(i \<mapsto> x)"
  by (induction xs) (auto simp: fun_eq_iff)

lemma stream_at_ensure: "stream_at (ensure_stream i b e) j = (if j = i \<and> stream_at e i = None then Some new_stream else stream_at e j)"
proof (cases "stream_at e i")
  case None
  then have "i \<notin> fst ` set (qe_streams e)" by (simp add: stream_at_def map_of_eq_None_iff)
  then show ?thesis using None by (simp add: ensure_stream_def Let_def stream_at_def ep_called_def map_of_insort)
qed (simp add: ensure_stream_def)

lemma st_of_ensure [simp]: "st_of (ensure_stream i b e) j = st_of e j"
  by (simp add: st_of_def stream_at_ensure)

lemma ensure_fields [simp]:
  "qe_lib (ensure_stream i b e) = qe_lib e" "qe_pending (ensure_stream i b e) = qe_pending e"
  "qe_failed (ensure_stream i b e) = qe_failed e" "qe_stopping (ensure_stream i b e) = qe_stopping e"
  "qe_role (ensure_stream i b e) = qe_role e"
  by (auto simp: ensure_stream_def ep_called_def Let_def split: option.split)

lemma stream_at_upd: "stream_at (upd_stream i f e) j = map_option (if j = i then f else id) (stream_at e j)"
proof -
  have "map_of (map (\<lambda>(j, st). (j, if j = i then f st else st)) xs) j = map_option (if j = i then f else id) (map_of xs j)" for xs
    by (induction xs) auto
  then show ?thesis by (simp add: stream_at_def upd_stream_def)
qed

lemma st_of_upd:
  "stream_at e i \<noteq> None \<Longrightarrow> st_of (upd_stream i f e) j = (if j = i then f (st_of e i) else st_of e j)"
  "j \<noteq> i \<Longrightarrow> st_of (upd_stream i f e) j = st_of e j"
  by (auto simp: st_of_def stream_at_upd option.map_id split: option.split)

lemma upd_fields [simp]:
  "qe_lib (upd_stream i f e) = qe_lib e" "qe_pending (upd_stream i f e) = qe_pending e"
  "qe_failed (upd_stream i f e) = qe_failed e" "qe_stopping (upd_stream i f e) = qe_stopping e"
  by (simp_all add: upd_stream_def)

lemma set_failure_moves: "qmoves e (set_failure msg e)"
  by (rule qmoves_same) (auto simp: set_failure_def elog_def)

text \<open>A callback changes the receive side of its stream.\<close>

lemma on_quic_event_moves:
  "elog (on_quic_event ev e) = elog e" "qe_pending (on_quic_event ev e) = qe_pending e"
  "qe_failed e \<Longrightarrow> qe_failed (on_quic_event ev e)" "qe_stopping (on_quic_event ev e) = qe_stopping e"
  "qs_rx (st_of (on_quic_event ev e) i) = qs_rx (st_of e i) @ event_bytes i ev"
  "qs_tx (st_of (on_quic_event ev e) i) = qs_tx (st_of e i)"
  "qs_local_closed (st_of (on_quic_event ev e) i) = qs_local_closed (st_of e i)"
  "qs_fin_sent (st_of (on_quic_event ev e) i) = qs_fin_sent (st_of e i)"
  "stream_at e i \<noteq> None \<Longrightarrow> stream_at (on_quic_event ev e) i \<noteq> None"
  "qs_remote_closed (st_of e i) \<Longrightarrow> qs_remote_closed (st_of (on_quic_event ev e) i)"
proof -
  have n: "stream_at (ensure_stream j b e') j \<noteq> None" for j b and e' :: "('a \<times> quic_log) quic_ep"
    by (simp add: stream_at_ensure)
  note d = on_quic_event_def Let_def elog_def mark_established_def set_failure_def ep_called_def
  show "elog (on_quic_event ev e) = elog e" "qe_pending (on_quic_event ev e) = qe_pending e"
    "qe_failed e \<Longrightarrow> qe_failed (on_quic_event ev e)" "qe_stopping (on_quic_event ev e) = qe_stopping e"
    by (cases ev; simp add: d)+
  have s: "st_of (on_quic_event ev e) i = (case ev of
      Stream_Data j b \<Rightarrow> if j = i then (st_of e i)\<lparr>qs_rx := qs_rx (st_of e i) @ b\<rparr> else st_of e i
    | Stream_Fin j b \<Rightarrow> if j = i then stream_closed ((st_of e i)\<lparr>qs_rx := qs_rx (st_of e i) @ b\<rparr>) else st_of e i
    | Stream_Reset j \<Rightarrow> if j = i then stream_closed (st_of e i) else st_of e i
    | Stop_Sending j \<Rightarrow> if j = i then stream_closed (st_of e i) else st_of e i
    | _ \<Rightarrow> st_of e i)"
    by (cases ev) (auto simp: on_quic_event_def Let_def st_of_upd(1) [OF n])
  show "qs_rx (st_of (on_quic_event ev e) i) = qs_rx (st_of e i) @ event_bytes i ev"
    "qs_tx (st_of (on_quic_event ev e) i) = qs_tx (st_of e i)"
    "qs_local_closed (st_of (on_quic_event ev e) i) = qs_local_closed (st_of e i)"
    "qs_fin_sent (st_of (on_quic_event ev e) i) = qs_fin_sent (st_of e i)"
    "qs_remote_closed (st_of e i) \<Longrightarrow> qs_remote_closed (st_of (on_quic_event ev e) i)"
    unfolding s by (cases ev; simp add: stream_closed_def)+
  show "stream_at e i \<noteq> None \<Longrightarrow> stream_at (on_quic_event ev e) i \<noteq> None"
    by (cases ev) (auto simp: on_quic_event_def Let_def stream_at_upd stream_at_ensure)
qed

lemma received_events: "received i (l\<lparr>ql_events := ql_events l @ evs\<rparr>) = received i l @ concat (map (event_bytes i) evs)"
  by (simp add: received_def)

lemma received_other [simp]:
  "received i (l\<lparr>ql_added := x\<rparr>) = received i l" "received i (l\<lparr>ql_prepared := y\<rparr>) = received i l"
  "received i (l\<lparr>ql_sent := y\<rparr>) = received i l"
  by (simp_all add: received_def)

lemma fold_events:
  "elog (fold on_quic_event evs e) = elog e \<and> qe_pending (fold on_quic_event evs e) = qe_pending e \<and>
   (qe_failed e \<longrightarrow> qe_failed (fold on_quic_event evs e)) \<and> qe_stopping (fold on_quic_event evs e) = qe_stopping e \<and>
   qs_rx (st_of (fold on_quic_event evs e) i) = qs_rx (st_of e i) @ concat (map (event_bytes i) evs) \<and>
   qs_tx (st_of (fold on_quic_event evs e) i) = qs_tx (st_of e i) \<and>
   qs_local_closed (st_of (fold on_quic_event evs e) i) = qs_local_closed (st_of e i) \<and>
   qs_fin_sent (st_of (fold on_quic_event evs e) i) = qs_fin_sent (st_of e i) \<and>
   (stream_at e i \<noteq> None \<longrightarrow> stream_at (fold on_quic_event evs e) i \<noteq> None) \<and>
   (qs_remote_closed (st_of e i) \<longrightarrow> qs_remote_closed (st_of (fold on_quic_event evs e) i))"
  by (induction evs arbitrary: e) (simp_all add: on_quic_event_moves del: not_None_eq)

text \<open>A library call that logs events, with their callbacks, and what happens to a packet after.\<close>

lemma callbacks_streams:
  assumes "e1 = e\<lparr>qe_lib := (q, l)\<rparr>" "e2 = (fold on_quic_event evs e1)\<lparr>qe_lib := (q', l'), qe_pending := ps\<rparr>"
    and "\<And>i. received i l' = received i (elog e) @ concat (map (event_bytes i) evs)" "ql_added l' = ql_added (elog e)"
  shows "stream_moves i e e2" "ql_added (elog e2) = ql_added (elog e)" "qe_failed e \<longrightarrow> qe_failed e2" "qe_stopping e2 = qe_stopping e"
proof -
  note f = fold_events [of evs e1]
  have s: "st_of e2 = st_of (fold on_quic_event evs e1)" "stream_at e2 = stream_at (fold on_quic_event evs e1)"
    unfolding assms(2) by (auto simp: st_of_def stream_at_def)
  have l: "elog e2 = l'" unfolding assms(2) by (simp add: elog_def)
  show "stream_moves i e e2" using f [of i] l s assms(3) [of i] by (simp add: stream_moves_def assms(1))
  show "ql_added (elog e2) = ql_added (elog e)" using l assms(4) by simp
  show "qe_failed e \<longrightarrow> qe_failed e2" "qe_stopping e2 = qe_stopping e" using f by (simp_all add: assms(1,2))
qed

lemma callbacks_then:
  assumes "e1 = e\<lparr>qe_lib := (q, l)\<rparr>" "e2 = (fold on_quic_event evs e1)\<lparr>qe_lib := (q', l'), qe_pending := ps\<rparr>"
    and "\<And>i. received i l' = received i (elog e) @ concat (map (event_bytes i) evs)" "ql_added l' = ql_added (elog e)"
    and "sent_in_order e \<Longrightarrow> sent_in_order e2"
  shows "qmoves e e2"
  using callbacks_streams [OF assms(1-4)] assms(5) by (simp add: qmoves_def)

lemma callbacks_move:
  assumes "e1 = e\<lparr>qe_lib := (q, l)\<rparr>" "l = (elog e)\<lparr>ql_events := ql_events (elog e) @ evs\<rparr>"
  shows "qmoves e (fold on_quic_event evs e1)"
proof (rule callbacks_then)
  have f: "elog (fold on_quic_event evs e1) = l" "qe_pending (fold on_quic_event evs e1) = qe_pending e1"
    using fold_events [of evs e1] assms(1) by (simp_all add: elog_def)
  show "e1 = e\<lparr>qe_lib := (q, l)\<rparr>" by fact
  show "fold on_quic_event evs e1 = (fold on_quic_event evs e1)\<lparr>qe_lib := (fst (qe_lib (fold on_quic_event evs e1)), l),
      qe_pending := qe_pending e1\<rparr>"
    unfolding f(1) [symmetric] f(2) [symmetric] by (simp add: elog_def)
  show "received i l = received i (elog e) @ concat (map (event_bytes i) evs)" for i
    unfolding assms(2) by (rule received_events)
  show "ql_added l = ql_added (elog e)" unfolding assms(2) by simp
  show "sent_in_order (fold on_quic_event evs e1)" if "sent_in_order e"
    using that fold_events [of evs e1] f by (auto simp: sent_in_order_def assms)
qed

lemma lib_call_logged:
  "lib_call (qa_incoming (quic_logged a) d x y) e = (evs, e') \<Longrightarrow>
     \<exists>q. e' = e\<lparr>qe_lib := (q, (elog e)\<lparr>ql_events := ql_events (elog e) @ evs\<rparr>)\<rparr>"
  "lib_call (qa_client_cnx (quic_logged a) n) e = (ok, e') \<Longrightarrow> \<exists>q. e' = e\<lparr>qe_lib := (q, elog e)\<rparr>"
  "lib_call (qa_juice_remote (quic_logged a) t) e = (ok, e') \<Longrightarrow> \<exists>q. e' = e\<lparr>qe_lib := (q, elog e)\<rparr>"
  "lib_call (qa_add_to_stream (quic_logged a) i b c) e = (ok, e') \<Longrightarrow>
     \<exists>q. e' = e\<lparr>qe_lib := (q, if ok then (elog e)\<lparr>ql_added := ql_added (elog e) @ [(i, b, c)]\<rparr> else elog e)\<rparr>"
  "lib_call (qa_juice_send (quic_logged a) p) e = (r, e') \<Longrightarrow>
     \<exists>q. e' = e\<lparr>qe_lib := (q, if r = Juice_Sent then (elog e)\<lparr>ql_sent := ql_sent (elog e) @ [p]\<rparr> else elog e)\<rparr>"
  "lib_call (qa_prepare (quic_logged a)) e = ((ok, p, evs), e') \<Longrightarrow>
     \<exists>q. e' = e\<lparr>qe_lib := (q, (elog e)\<lparr>ql_events := ql_events (elog e) @ evs,
       ql_prepared := ql_prepared (elog e) @ (if ok \<and> p \<noteq> [] then [p] else [])\<rparr>)\<rparr>"
  by (cases "qe_lib e"; auto simp: lib_call_def quic_logged_def elog_def split: prod.splits)+

lemma lib_frame: "elog e = l \<Longrightarrow> qmoves e (e\<lparr>qe_lib := (q, l)\<rparr>)"
  by (rule qmoves_same) (auto simp: elog_def)

lemma create_client_moves: "qmoves e (create_client_connection (quic_logged a) e)"
proof -
  obtain ok e' where c: "lib_call (qa_client_cnx (quic_logged a) (dummy_port False False)) e = (ok, e')" by fastforce
  then obtain q where "e' = e\<lparr>qe_lib := (q, elog e)\<rparr>" using lib_call_logged(2) by blast
  then have "qmoves e (e'\<lparr>qe_conn := ok\<rparr>)" by (intro qmoves_same) (auto simp: elog_def)
  from qmoves_trans [OF this set_failure_moves] this show ?thesis
    by (cases ok) (simp_all add: create_client_connection_def c Let_def)
qed

lemma process_datagram_moves: "qmoves e (process_datagram (quic_logged a) p e)"
proof -
  let ?sv = "qe_role e = Quic_Server"
  obtain evs e1 where c: "lib_call (qa_incoming (quic_logged a) p (dummy_port ?sv False) (dummy_port ?sv True)) e = (evs, e1)"
    by (metis surj_pair)
  from lib_call_logged(1) [OF c] obtain q where
    "e1 = e\<lparr>qe_lib := (q, (elog e)\<lparr>ql_events := ql_events (elog e) @ evs\<rparr>)\<rparr>" ..
  then have m: "qmoves e (fold on_quic_event evs e1)" by (rule callbacks_move) (rule refl)
  have "qmoves x (x\<lparr>qe_conn := b\<rparr>)" for x :: "('a \<times> quic_log) quic_ep" and b by (rule qmoves_same) (auto simp: elog_def)
  from qmoves_trans [OF m this] m show ?thesis by (simp add: process_datagram_def c Let_def)
qed

lemma send_pending_moves:
  "send_pending (quic_logged a) ps e = (go, e') \<Longrightarrow> qmoves (e\<lparr>qe_pending := ps\<rparr>) e' \<and> (go \<longrightarrow> qe_pending e' = [])"
proof (induction ps arbitrary: e)
  case (Cons p ps)
  obtain r e1 where c: "lib_call (qa_juice_send (quic_logged a) p) e = (r, e1)" by fastforce
  then obtain q where e1: "e1 = e\<lparr>qe_lib := (q, if r = Juice_Sent then (elog e)\<lparr>ql_sent := ql_sent (elog e) @ [p]\<rparr> else elog e)\<rparr>"
    using lib_call_logged(5) by blast
  have keep: "r \<noteq> Juice_Sent \<Longrightarrow> qmoves (e\<lparr>qe_pending := p # ps\<rparr>) (e1\<lparr>qe_pending := p # ps\<rparr>)"
    unfolding e1 by (rule qmoves_same) (auto simp: elog_def)
  show ?case
  proof (cases r)
    case Juice_Sent
    have "qmoves (e\<lparr>qe_pending := p # ps\<rparr>) (e1\<lparr>qe_pending := ps\<rparr>)"
      unfolding e1 Juice_Sent by (simp add: qmoves_def stream_moves_def st_of_def stream_at_def sent_in_order_def elog_def)
    then show ?thesis using Cons c Juice_Sent by (auto intro: qmoves_trans)
  next
    case Juice_Rejected
    then show ?thesis using Cons.prems c keep set_failure_moves by (auto intro: qmoves_trans)
  qed (use Cons.prems c keep in auto)
qed auto

lemma send_prepared_moves:
  assumes "send_prepared (quic_logged a) e0 = Some e0'" "qe_pending e0 = []"
  shows "qmoves e0 e0'"
proof -
  let ?P = "\<lambda>A e e'. A = quic_logged a \<longrightarrow> qe_pending e = [] \<longrightarrow> qmoves e e'"
  have "?P (quic_logged a) e0 e0'"
  proof (rule send_prepared.raw_induct [of ?P, OF _ assms(1)], intro impI)
    fix f A e e'
    assume ih: "\<And>A e e'. f A e = Some e' \<Longrightarrow> A = quic_logged a \<longrightarrow> qe_pending e = [] \<longrightarrow> qmoves e e'"
      and b: "(case lib_call (qa_prepare A) e of ((ok, packet, evs), e) \<Rightarrow>
       let e = fold on_quic_event evs e in
       if \<not> ok then Some (set_failure ''QUIC packet generation failed'' e)
       else if packet = [] then Some e
       else (case lib_call (qa_juice_send A packet) e of
           (Juice_Again, e) \<Rightarrow> Some (e\<lparr>qe_pending := qe_pending e @ [packet]\<rparr>)
         | (Juice_Rejected, e) \<Rightarrow> Some (set_failure ''ICE path rejected a QUIC datagram'' e)
         | (Juice_Sent, e) \<Rightarrow> f A e)) = Some e'" and A: "A = quic_logged a" and pend: "qe_pending e = []"
    note body = b [unfolded A]
    obtain ok p evs e1 where c: "lib_call (qa_prepare (quic_logged a)) e = ((ok, p, evs), e1)" by (metis prod.exhaust)
    then obtain q where e1: "e1 = e\<lparr>qe_lib := (q, (elog e)\<lparr>ql_events := ql_events (elog e) @ evs,
         ql_prepared := ql_prepared (elog e) @ (if ok \<and> p \<noteq> [] then [p] else [])\<rparr>)\<rparr>" using lib_call_logged(6) by blast
    let ?e2 = "fold on_quic_event evs e1"
    note f = fold_events [of evs e1]
    show "qmoves e e'"
    proof (cases "ok \<and> p \<noteq> []")
      case False
      then have "qmoves e ?e2" by (intro callbacks_move [OF e1]) simp
      then show ?thesis using body c False set_failure_moves by (auto simp: Let_def intro: qmoves_trans split: if_splits)
    next
      case True
      obtain r e3 where j: "lib_call (qa_juice_send (quic_logged a) p) ?e2 = (r, e3)" by fastforce
      then obtain q' where e3: "e3 = ?e2\<lparr>qe_lib := (q', if r = Juice_Sent then (elog ?e2)\<lparr>ql_sent := ql_sent (elog ?e2) @ [p]\<rparr> else elog ?e2)\<rparr>"
        using lib_call_logged(5) by blast
      have l: "elog ?e2 = elog e1" "qe_pending ?e2 = []" using f pend e1 by simp_all
      have lg: "elog e1 = (elog e)\<lparr>ql_events := ql_events (elog e) @ evs, ql_prepared := ql_prepared (elog e) @ [p]\<rparr>"
        using True by (simp add: e1 elog_def)
      have rc: "received i (elog e1) = received i (elog e) @ concat (map (event_bytes i) evs)" for i
        unfolding lg by (simp add: received_events)
      let ?l = "if r = Juice_Sent then (elog e1)\<lparr>ql_sent := ql_sent (elog e1) @ [p]\<rparr> else elog e1"
      have e3': "e3 = ?e2\<lparr>qe_lib := (q', ?l), qe_pending := []\<rparr>" unfolding e3 l(1) using l(2) by (cases ?e2) simp
      have rc': "received i ?l = received i (elog e) @ concat (map (event_bytes i) evs)" for i using rc [of i] by simp
      have ad: "ql_added ?l = ql_added (elog e)" by (simp add: lg)
      have l3: "elog e3 = ?l" "qe_pending e3 = []" "qe_stopping e3 = qe_stopping e" "qe_failed e \<longrightarrow> qe_failed e3"
        using f e1 unfolding e3' by (simp_all add: elog_def)
      show ?thesis
      proof (cases r)
        case Juice_Sent
        have "qmoves e e3"
        proof (rule callbacks_then [OF e1 e3' rc' ad])
          show "sent_in_order e3" if "sent_in_order e" using that l3 pend lg Juice_Sent by (auto simp: sent_in_order_def)
        qed
        moreover have "qmoves e3 e'" using ih body c True j Juice_Sent l3(2) by (auto simp: Let_def)
        ultimately show ?thesis by (rule qmoves_trans)
      next
        case Juice_Again
        have e': "e' = e3\<lparr>qe_pending := [p]\<rparr>" using body c True j Juice_Again l3(2) by (auto simp: Let_def)
        then have e4: "e' = ?e2\<lparr>qe_lib := (q', ?l), qe_pending := [p]\<rparr>" unfolding e3' by simp
        have "elog e' = ?l" "qe_stopping e' = qe_stopping e" "qe_failed e \<longrightarrow> qe_failed e'" "qe_pending e' = [p]"
          using l3 unfolding e' by (simp_all add: elog_def)
        then have "sent_in_order e'" if "sent_in_order e" using that pend lg Juice_Again by (auto simp: sent_in_order_def)
        then show ?thesis by (rule callbacks_then [OF e1 e4 rc' ad])
      next
        case Juice_Rejected
        note m = callbacks_streams [OF e1 e3' rc' ad]
        have "qmoves e (set_failure t e3)" for t
          using m(2-4) set_failure_moves [of e3 t] stream_moves_trans [OF m(1)]
          by (auto simp: qmoves_def sent_in_order_def set_failure_def)
        then show ?thesis using body c True j Juice_Rejected by (auto simp: Let_def)
      qed
    qed
  qed
  then show ?thesis using assms(2) by simp
qed

lemma flush_moves: "flush_quic (quic_logged a) e = Some e' \<Longrightarrow> qmoves e e'"
proof -
  assume f: "flush_quic (quic_logged a) e = Some e'"
  show ?thesis
  proof (cases "\<not> qe_quic e \<or> \<not> qe_ice e \<or> \<not> qe_ice_connected e")
    case False
    obtain go e1 where p: "send_pending (quic_logged a) (qe_pending e) e = (go, e1)" by fastforce
    have "e\<lparr>qe_pending := qe_pending e\<rparr> = e" by simp
    then have "qmoves e e1" "go \<longrightarrow> qe_pending e1 = []" using send_pending_moves [OF p] by simp_all
    then show ?thesis using f False p send_prepared_moves by (cases go) (auto simp: flush_quic_def intro: qmoves_trans)
  qed (use f in \<open>auto simp: flush_quic_def\<close>)
qed

lemma close_stream_moves: "qmoves e (upd_stream i stream_closed e)"
proof -
  have "stream_moves j e (upd_stream i stream_closed e)" for j
    by (cases "stream_at e i"; cases "j = i")
      (auto simp: stream_moves_def st_of_def stream_at_upd elog_def stream_closed_def option.map_id split: option.split)
  then show ?thesis by (simp add: qmoves_def elog_def sent_in_order_def)
qed

lemma ensure_moves: "qmoves e (ensure_stream i b e)"
  by (simp add: qmoves_def stream_moves_def stream_at_ensure elog_def sent_in_order_def)

lemma make_streams_moves: "qmoves e (snd (make_streams n e))"
proof -
  have "qmoves e (fold (\<lambda>i. ensure_stream i False) ids e)" for ids
    by (induction ids arbitrary: e) (auto intro: qmoves_trans [OF ensure_moves])
  then show ?thesis by (simp add: make_streams_def Let_def)
qed

lemma shutdown_free_moves: "qmoves e (shutdown_free (quic_logged a) e)"
  by (rule qmoves_same) (auto simp: shutdown_free_def quic_logged_def elog_def Let_def split: prod.split)

lemma frame_moves:
  "qmoves e (ice_state (quic_logged a) js e)" "qmoves e (ice_gathered (quic_logged a) e)" "qmoves e (ice_recv d e)"
  "take_work e = (r, e') \<Longrightarrow> qmoves e e'" "shutdown_begin e = (b, e') \<Longrightarrow> qmoves e e'"
  by (auto intro!: qmoves_same simp: ice_state_def ice_gathered_def ice_recv_def take_work_def shutdown_begin_def ep_called_def
      elog_def Let_def split: option.split if_splits)

lemma remote_moves: "set_remote_description (quic_logged a) d e = (r, e') \<Longrightarrow> qmoves e e'"
proof -
  assume r: "set_remote_description (quic_logged a) d e = (r, e')"
  obtain ok e1 where c: "lib_call (qa_juice_remote (quic_logged a) d) e = (ok, e1)" by fastforce
  then obtain q where "e1 = e\<lparr>qe_lib := (q, elog e)\<rparr>" using lib_call_logged(3) by blast
  then have "qmoves e e1" by (simp add: lib_frame)
  then show ?thesis using r c by (auto simp: set_remote_description_def split: if_splits bool.splits)
qed

section \<open>The invariant\<close>

definition in_flight :: "'q quic_sys \<Rightarrow> u64 \<Rightarrow> nat" where
  "in_flight s i = (case qy_worker s of QW_Added j n c ids \<Rightarrow> if j = i then n else 0 | _ \<Rightarrow> 0)"

definition ending :: "'q quic_sys \<Rightarrow> u64 \<Rightarrow> bool" where
  "ending s i = (case qy_worker s of QW_Added j n c ids \<Rightarrow> j = i \<and> c | _ \<Rightarrow> False)"

definition unsent :: "'q quic_sys \<Rightarrow> u64 \<Rightarrow> bytes" where
  "unsent s i = drop (in_flight s i) (qs_tx (st_of (qy_ep s) i))"

definition send_inv :: "u64 \<Rightarrow> 'q quic_sys \<Rightarrow> bool" where
  "send_inv i s \<longleftrightarrow> (let st = st_of (qy_ep s) i; l = sys_log s in
     qy_written s i = added i l @ unsent s i \<and> in_flight s i \<le> length (qs_tx st) \<and>
     (fin_added i l \<longleftrightarrow> qs_fin_sent st \<or> ending s i) \<and> (fin_added i l \<longrightarrow> qs_local_closed st \<and> unsent s i = []) \<and> fin_last i l)"

definition chosen_inv :: "'q quic_sys \<Rightarrow> bool" where
  "chosen_inv s \<longleftrightarrow> (case qy_worker s of
       QW_Chosen i chunk c ids \<Rightarrow> (let st = st_of (qy_ep s) i in
         (chunk \<noteq> [] \<or> c) \<and> chunk = take (length chunk) (qs_tx st) \<and>
         (c \<longrightarrow> qs_local_closed st \<and> \<not> qs_fin_sent st \<and> length chunk = length (qs_tx st)))
     | QW_Added i n c ids \<Rightarrow> stream_at (qy_ep s) i \<noteq> None
     | _ \<Rightarrow> True)"

definition recv_inv :: "u64 \<Rightarrow> 'q quic_sys \<Rightarrow> bool" where
  "recv_inv i s \<longleftrightarrow> received i (sys_log s) = qy_read s i @ qs_rx (st_of (qy_ep s) i)"

definition quic_inv :: "'q quic_sys \<Rightarrow> bool" where
  "quic_inv s \<longleftrightarrow> (\<forall>i. send_inv i s \<and> recv_inv i s) \<and> chosen_inv s \<and> sent_in_order (qy_ep s)"

lemma log_of [simp]: "sys_log s = elog (qy_ep s)"
  by (simp add: sys_log_def elog_def)

lemma adds_same:
  "ql_added l' = ql_added l \<Longrightarrow> added i l' = added i l \<and> fin_added i l' = fin_added i l \<and> fin_last i l' = fin_last i l"
  by (simp add: added_def fin_added_def fin_last_def adds_def)

text \<open>A step that does not touch what is sent.\<close>

definition at_rest :: "quic_worker \<Rightarrow> bool" where
  "at_rest w = (case w of QW_Chosen _ _ _ _ \<Rightarrow> False | QW_Added _ _ _ _ \<Rightarrow> False | _ \<Rightarrow> True)"

lemma at_rest_not: "at_rest w \<Longrightarrow> w \<noteq> QW_Added j n c ids \<and> w \<noteq> QW_Chosen j b c ids"
  by (auto simp: at_rest_def)

lemma nothing_in_flight:
  "(\<And>j n c ids. qy_worker s \<noteq> QW_Added j n c ids) \<Longrightarrow> in_flight s i = 0 \<and> \<not> ending s i"
  by (cases "qy_worker s") (auto simp: in_flight_def ending_def)

lemma chosen_at_rest: "at_rest (qy_worker s) \<Longrightarrow> chosen_inv s"
  by (cases "qy_worker s") (auto simp: at_rest_def chosen_inv_def)

lemma inv_moves:
  assumes "quic_inv s" "qmoves (qy_ep s) (qy_ep s')" "qy_written s' = qy_written s" "qy_read s' = qy_read s"
    and "qy_worker s' = qy_worker s \<or> (\<forall>j n c ids. qy_worker s \<noteq> QW_Added j n c ids) \<and> at_rest (qy_worker s')"
  shows "quic_inv s'"
proof -
  have fl: "in_flight s' i = in_flight s i" "ending s' i = ending s i" for i
    using assms(5) nothing_in_flight [of s i] nothing_in_flight [of s' i] at_rest_not
    by (auto simp: in_flight_def ending_def)
  have m: "stream_moves i (qy_ep s) (qy_ep s')" for i using assms(2) by (simp add: qmoves_def)
  have un: "unsent s' i = unsent s i" for i using m [of i] fl by (simp add: unsent_def stream_moves_def)
  have ad: "added i (elog (qy_ep s')) = added i (elog (qy_ep s))" "fin_added i (elog (qy_ep s')) = fin_added i (elog (qy_ep s))"
    "fin_last i (elog (qy_ep s')) = fin_last i (elog (qy_ep s))" for i
    using adds_same [of "elog (qy_ep s')" "elog (qy_ep s)" i] assms(2) by (simp_all add: qmoves_def)
  have send: "send_inv i s'" for i
    using assms(1,3) m [of i] fl [of i] un [of i] ad [of i] by (simp add: quic_inv_def send_inv_def Let_def stream_moves_def)
  have recv: "recv_inv i s'" for i
    using assms(1,4) m [of i] by (auto simp: quic_inv_def recv_inv_def stream_moves_def)
  have "chosen_inv s'"
  proof (cases "at_rest (qy_worker s')")
    case False
    then have w: "qy_worker s' = qy_worker s" "chosen_inv s" using assms(1,5) by (auto simp: quic_inv_def)
    show ?thesis
    proof (cases "qy_worker s")
      case (QW_Chosen i chunk c ids)
      then show ?thesis using w m [of i] by (simp add: chosen_inv_def stream_moves_def Let_def)
    next
      case (QW_Added i n c ids)
      then show ?thesis using w m [of i] by (simp add: chosen_inv_def stream_moves_def)
    qed (use w in \<open>simp_all add: chosen_inv_def\<close>)
  qed (rule chosen_at_rest)
  then show ?thesis using assms(1,2) send recv by (simp add: quic_inv_def qmoves_def)
qed

end
