(* ===== verification/QuicSafe.thy ===== *)
theory QuicSafe
  imports QuicThreads
begin

text \<open>
  What the threads of a QUIC endpoint keep: the bytes of a stream reach the library in the order they
  were written and leave it in the order they are read, the end of a stream is announced once and
  last, no datagram is lost or reordered, and when the worker has ended nobody waits on a stream
  that existed.
\<close>

section \<open>The invariant is kept\<close>

lemma put_stream_fields [simp]:
  "elog (put_stream i st e) = elog e" "sent_in_order (put_stream i st e) = sent_in_order e"
  "elog (ep_wake e) = elog e" "sent_in_order (ep_wake e) = sent_in_order e"
  by (simp_all add: put_stream_def elog_def sent_in_order_def ep_wake_def)

lemma st_of_put: "stream_at e i \<noteq> None \<Longrightarrow> st_of (put_stream i st e) j = (if j = i then st else st_of e j)"
  by (simp add: put_stream_def st_of_upd(1))

lemma stream_at_put:
  "stream_at (put_stream i st e) j = None \<longleftrightarrow> stream_at e j = None"
  "(\<exists>x. stream_at (put_stream i st e) j = Some x) \<longleftrightarrow> (\<exists>x. stream_at e j = Some x)"
  by (auto simp: put_stream_def stream_at_upd)

lemma st_of_at: "stream_at e i = Some st \<Longrightarrow> st_of e i = st"
  by (simp add: st_of_def)

text \<open>A step on one stream: every other stream, the log and the worker stay.\<close>

lemma inv_one_stream:
  assumes "quic_inv s" "stream_at (qy_ep s) i \<noteq> None" "qy_worker s' = qy_worker s"
    and "qy_ep s' = put_stream i st (qy_ep s) \<or> qy_ep s' = ep_wake (put_stream i st (qy_ep s))"
    and "\<And>j. j \<noteq> i \<Longrightarrow> qy_written s' j = qy_written s j \<and> qy_read s' j = qy_read s j"
    and "send_inv i s'" "recv_inv i s'" "chosen_inv s'"
  shows "quic_inv s'"
proof -
  have e: "elog (qy_ep s') = elog (qy_ep s)" "sent_in_order (qy_ep s') = sent_in_order (qy_ep s)"
    "st_of (qy_ep s') j = (if j = i then st else st_of (qy_ep s) j)" for j
    using assms(2,4) by (auto simp: st_of_put)
  have f: "in_flight s' j = in_flight s j" "ending s' j = ending s j" for j
    using assms(3) by (simp_all add: in_flight_def ending_def)
  have "send_inv j s' \<and> recv_inv j s'" for j
  proof (cases "j = i")
    case False
    then show ?thesis
      using assms(1) assms(5) [OF False] e f [of j]
      by (simp add: quic_inv_def send_inv_def recv_inv_def unsent_def Let_def)
  qed (use assms in simp)
  then show ?thesis using assms(1,8) e(2) by (simp add: quic_inv_def)
qed

lemma inv_choose:
  assumes "quic_inv s" "qy_worker s = QW_Pump (i # ids)" "stream_at (qy_ep s) i = Some st" "pump_peek st = (chunk, c)"
    "chunk \<noteq> [] \<or> c"
  shows "quic_inv (s\<lparr>qy_worker := QW_Chosen i chunk c ids\<rparr>)"
proof -
  have "send_inv j (s\<lparr>qy_worker := QW_Chosen i chunk c ids\<rparr>)" for j
    using assms(1,2) by (simp add: quic_inv_def send_inv_def in_flight_def ending_def unsent_def Let_def)
  moreover have "chosen_inv (s\<lparr>qy_worker := QW_Chosen i chunk c ids\<rparr>)"
    using assms(4,5) st_of_at [OF assms(3)] by (auto simp: chosen_inv_def pump_peek_def Let_def)
  ultimately show ?thesis using assms(1) by (simp add: quic_inv_def recv_inv_def)
qed

lemma chosen_facts:
  assumes "quic_inv s" "qy_worker s = QW_Chosen i chunk c ids"
  shows "\<not> fin_added i (elog (qy_ep s))" "stream_at (qy_ep s) i \<noteq> None" "in_flight s j = 0" "\<not> ending s j"
    "qs_tx (st_of (qy_ep s) i) = chunk @ drop (length chunk) (qs_tx (st_of (qy_ep s) i))"
    "c \<Longrightarrow> qs_local_closed (st_of (qy_ep s) i) \<and> drop (length chunk) (qs_tx (st_of (qy_ep s) i)) = []"
proof -
  let ?st = "st_of (qy_ep s) i"
  have c: "chunk \<noteq> [] \<or> c" "chunk = take (length chunk) (qs_tx ?st)"
    "c \<longrightarrow> qs_local_closed ?st \<and> \<not> qs_fin_sent ?st \<and> length chunk = length (qs_tx ?st)"
    using assms by (auto simp: quic_inv_def chosen_inv_def Let_def)
  show f: "in_flight s j = 0" "\<not> ending s j" for j using assms(2) by (simp_all add: in_flight_def ending_def)
  have "fin_added i (elog (qy_ep s)) \<longrightarrow> qs_tx ?st = [] \<and> qs_fin_sent ?st"
    using assms(1) f [of i] by (auto simp: quic_inv_def send_inv_def unsent_def Let_def)
  then show "\<not> fin_added i (elog (qy_ep s))" using c by auto
  show "stream_at (qy_ep s) i \<noteq> None" using c by (auto simp: st_of_def new_stream_def split: option.splits)
  show "qs_tx ?st = chunk @ drop (length chunk) (qs_tx ?st)" using c(2) by (metis append_take_drop_id)
  show "qs_local_closed ?st \<and> drop (length chunk) (qs_tx ?st) = []" if c using c(3) that by simp
qed

lemma quic_inv_add:
  assumes "quic_inv s" "qy_worker s = QW_Chosen i chunk c ids"
    "lib_call (qa_add_to_stream (quic_logged a) i chunk c) (qy_ep s) = (True, e)"
  shows "quic_inv (s\<lparr>qy_ep := e, qy_worker := QW_Added i (length chunk) c ids\<rparr>)" (is "quic_inv ?s'")
proof -
  note k = chosen_facts [OF assms(1,2)]
  obtain q where e: "e = (qy_ep s)\<lparr>qe_lib := (q, (elog (qy_ep s))\<lparr>ql_added := ql_added (elog (qy_ep s)) @ [(i, chunk, c)]\<rparr>)\<rparr>"
    using lib_call_logged(4) [OF assms(3)] by auto
  have l: "elog e = (elog (qy_ep s))\<lparr>ql_added := ql_added (elog (qy_ep s)) @ [(i, chunk, c)]\<rparr>" "st_of e = st_of (qy_ep s)"
    "stream_at e = stream_at (qy_ep s)" by (simp_all add: e elog_def)
  have ad: "adds j (elog e) = adds j (elog (qy_ep s)) @ (if j = i then [(chunk, c)] else [])" for j
    by (simp add: l adds_def)
  have "send_inv j ?s'" for j
  proof (cases "j = i")
    case True
    have t: "qy_written s i = added i (elog (qy_ep s)) @ qs_tx (st_of (qy_ep s) i)" "\<not> qs_fin_sent (st_of (qy_ep s) i)"
      using assms(1) k(1) k(3,4) [of i] by (auto simp: quic_inv_def send_inv_def unsent_def Let_def)
    have "fin_last i (elog e)"
      using k(1) ad [of i] by (force simp: fin_last_def fin_added_def list_all_iff)
    moreover have "added i (elog e) = added i (elog (qy_ep s)) @ chunk" "fin_added i (elog e) = c"
      using ad [of i] k(1) by (auto simp: added_def fin_added_def)
    moreover have "length chunk \<le> length (qs_tx (st_of (qy_ep s) i))" using k(5) by (metis length_append le_add1)
    ultimately show ?thesis
      using t k(5,6) True by (simp add: send_inv_def unsent_def in_flight_def ending_def l Let_def)
  next
    case False
    then have "added j (elog e) = added j (elog (qy_ep s))" "fin_added j (elog e) = fin_added j (elog (qy_ep s))"
      "fin_last j (elog e) = fin_last j (elog (qy_ep s))"
      using ad [of j] by (simp_all add: added_def fin_added_def fin_last_def)
    then show ?thesis
      using assms(1) False k(3,4) [of j] by (auto simp: quic_inv_def send_inv_def unsent_def in_flight_def ending_def l Let_def)
  qed
  moreover have "recv_inv j ?s'" for j using assms(1) by (simp add: quic_inv_def recv_inv_def l)
  moreover have "sent_in_order e" using assms(1) by (simp add: quic_inv_def sent_in_order_def l) (simp add: e)
  ultimately show ?thesis using k(2) by (simp add: quic_inv_def chosen_inv_def l)
qed

lemma inv_pop:
  assumes "quic_inv s" "qy_worker s = QW_Added i n c ids"
  shows "quic_inv (s\<lparr>qy_ep := upd_stream i (pump_pop n c) (qy_ep s), qy_worker := QW_Pump ids\<rparr>)" (is "quic_inv ?s'")
proof -
  have at: "stream_at (qy_ep s) i \<noteq> None" using assms by (simp add: quic_inv_def chosen_inv_def)
  have p: "st_of (qy_ep ?s') j = (if j = i then pump_pop n c (st_of (qy_ep s) i) else st_of (qy_ep s) j)" for j
    using st_of_upd(1) [OF at] by simp
  have f: "in_flight ?s' j = 0" "\<not> ending ?s' j" "in_flight s j = (if j = i then n else 0)" "ending s j = (j = i \<and> c)" for j
    using assms(2) by (auto simp: in_flight_def ending_def)
  have l: "elog (qy_ep ?s') = elog (qy_ep s)" by (simp add: elog_def)
  have "send_inv j ?s'" for j
  proof -
    have old: "send_inv j s" using assms(1) by (simp add: quic_inv_def)
    have u: "unsent ?s' j = unsent s j" using f [of j] unfolding unsent_def p by (simp add: pump_pop_def Let_def)
    have fin: "qs_fin_sent (st_of (qy_ep ?s') j) = (qs_fin_sent (st_of (qy_ep s) j) \<or> j = i \<and> c)"
      "qs_local_closed (st_of (qy_ep ?s') j) = qs_local_closed (st_of (qy_ep s) j)"
      unfolding p by (simp_all add: pump_pop_def Let_def)
    show ?thesis using old f(2) unfolding send_inv_def Let_def log_of l u fin f(1,3,4) by auto
  qed
  moreover have "recv_inv j ?s'" for j
    using assms(1) unfolding quic_inv_def recv_inv_def log_of l p by (simp add: pump_pop_def Let_def)
  moreover have "sent_in_order (qy_ep ?s')" using assms(1) by (simp add: quic_inv_def sent_in_order_def elog_def)
  ultimately show ?thesis by (simp add: quic_inv_def chosen_inv_def)
qed

lemma take_own_length: "xs = take (length xs) ys \<Longrightarrow> length xs \<le> length ys"
  by (metis length_take min.cobounded1)

lemma inv_write:
  assumes "quic_inv s" "stream_at (qy_ep s) i = Some st" "quic_write d st = (True, st')"
  shows "quic_inv (s\<lparr>qy_ep := ep_wake (put_stream i st' (qy_ep s)), qy_written := (qy_written s)(i := qy_written s i @ d)\<rparr>)"
    (is "quic_inv ?s'")
proof -
  have w: "\<not> qs_local_closed st" "st' = st\<lparr>qs_tx := qs_tx st @ d\<rparr>" using assms(3) by (auto simp: quic_write_def split: if_splits)
  have at: "stream_at (qy_ep s) i \<noteq> None" using assms(2) by simp
  have p: "st_of (qy_ep ?s') j = (if j = i then st' else st_of (qy_ep s) j)" for j using st_of_put [OF at] by simp
  note st = st_of_at [OF assms(2)]
  have f: "in_flight ?s' j = in_flight s j" "ending ?s' j = ending s j" for j by (simp_all add: in_flight_def ending_def)
  have o: "send_inv i s" "recv_inv i s" "chosen_inv s" using assms(1) by (simp_all add: quic_inv_def)
  show ?thesis
  proof (rule inv_one_stream [OF assms(1) at, of ?s' st'])
    have "in_flight s i \<le> length (qs_tx st)" using o(1) st by (simp add: send_inv_def Let_def)
    then have "unsent ?s' i = unsent s i @ d" using w(2) st unfolding unsent_def f p by simp
    then show "send_inv i ?s'"
      using o(1) w st unfolding send_inv_def Let_def log_of f p by auto
    show "recv_inv i ?s'" using o(2) w st unfolding recv_inv_def log_of p by simp
    show "chosen_inv ?s'"
    proof (cases "qy_worker s")
      case (QW_Chosen j chunk c ids)
      then have "chunk = take (length chunk) (qs_tx (st_of (qy_ep s) j))" using o(3) by (simp add: chosen_inv_def Let_def)
      from take_own_length [OF this] this show ?thesis
        using o(3) w st QW_Chosen unfolding chosen_inv_def p by (auto simp: Let_def)
    next
      case (QW_Added j n c ids)
      then show ?thesis using o(3) by (simp add: chosen_inv_def stream_at_put del: not_None_eq)
    qed (simp_all add: chosen_inv_def)
  qed simp_all
qed

lemma inv_close:
  assumes "quic_inv s" "stream_at (qy_ep s) i = Some st"
  shows "quic_inv (s\<lparr>qy_ep := ep_wake (put_stream i (quic_close st) (qy_ep s))\<rparr>)" (is "quic_inv ?s'")
proof -
  have at: "stream_at (qy_ep s) i \<noteq> None" using assms(2) by simp
  have p: "st_of (qy_ep ?s') j = (if j = i then quic_close st else st_of (qy_ep s) j)" for j using st_of_put [OF at] by simp
  note st = st_of_at [OF assms(2)]
  have f: "in_flight ?s' j = in_flight s j" "ending ?s' j = ending s j" for j by (simp_all add: in_flight_def ending_def)
  have u: "unsent ?s' i = unsent s i" using st unfolding unsent_def f p by (simp add: quic_close_def)
  have o: "send_inv i s" "recv_inv i s" "chosen_inv s" using assms(1) by (simp_all add: quic_inv_def)
  show ?thesis
  proof (rule inv_one_stream [OF assms(1) at, of ?s' "quic_close st"])
    show "send_inv i ?s'" using o(1) st unfolding send_inv_def Let_def log_of f p u by (simp add: quic_close_def)
    show "recv_inv i ?s'" using o(2) st unfolding recv_inv_def log_of p by (simp add: quic_close_def)
    show "chosen_inv ?s'"
    proof (cases "qy_worker s")
      case (QW_Chosen j chunk c ids)
      then show ?thesis using o(3) st unfolding chosen_inv_def p by (auto simp: Let_def quic_close_def)
    next
      case (QW_Added j n c ids)
      then show ?thesis using o(3) by (simp add: chosen_inv_def stream_at_put del: not_None_eq)
    qed (simp_all add: chosen_inv_def)
  qed simp_all
qed

text \<open>A turn of a read takes a prefix of the queue.\<close>

lemma quic_read_takes:
  assumes "quic_read len got st = (r, st')"
  shows "qs_rx st = take (length (qs_rx st) - length (qs_rx st')) (qs_rx st) @ qs_rx st'"
    "qs_tx st' = qs_tx st" "qs_local_closed st' = qs_local_closed st" "qs_fin_sent st' = qs_fin_sent st"
    "qs_remote_closed st' = qs_remote_closed st"
proof -
  have "st' = st\<lparr>qs_rx := drop k (qs_rx st)\<rparr>" if "k = (if st' = st then 0 else len - length got)" for k
    using assms that by (auto simp: quic_read_def Let_def split: if_splits)
  then obtain k where k: "st' = st\<lparr>qs_rx := drop k (qs_rx st)\<rparr>" by blast
  show "qs_rx st = take (length (qs_rx st) - length (qs_rx st')) (qs_rx st) @ qs_rx st'"
    unfolding k by (cases "k \<le> length (qs_rx st)") simp_all
  show "qs_tx st' = qs_tx st" "qs_local_closed st' = qs_local_closed st" "qs_fin_sent st' = qs_fin_sent st"
    "qs_remote_closed st' = qs_remote_closed st" unfolding k by simp_all
qed

lemma inv_read:
  assumes "quic_inv s" "stream_at (qy_ep s) i = Some st" "quic_read len got st = (r, st')"
  shows "quic_inv (s\<lparr>qy_ep := put_stream i st' (qy_ep s),
      qy_read := (qy_read s)(i := qy_read s i @ take (length (qs_rx st) - length (qs_rx st')) (qs_rx st))\<rparr>)" (is "quic_inv ?s'")
proof -
  note t = quic_read_takes [OF assms(3)]
  have at: "stream_at (qy_ep s) i \<noteq> None" using assms(2) by simp
  have p: "st_of (qy_ep ?s') j = (if j = i then st' else st_of (qy_ep s) j)" for j using st_of_put [OF at] by simp
  note st = st_of_at [OF assms(2)]
  have f: "in_flight ?s' j = in_flight s j" "ending ?s' j = ending s j" for j by (simp_all add: in_flight_def ending_def)
  have u: "unsent ?s' i = unsent s i" using st t(2) unfolding unsent_def f p by simp
  have o: "send_inv i s" "recv_inv i s" "chosen_inv s" using assms(1) by (simp_all add: quic_inv_def)
  show ?thesis
  proof (rule inv_one_stream [OF assms(1) at, of ?s' st'])
    show "send_inv i ?s'" using o(1) st t unfolding send_inv_def Let_def log_of f p u by simp
    show "recv_inv i ?s'" using o(2) st t(1) unfolding recv_inv_def log_of p by simp
    show "chosen_inv ?s'"
    proof (cases "qy_worker s")
      case (QW_Chosen j chunk c ids)
      then show ?thesis using o(3) st t unfolding chosen_inv_def p by (auto simp: Let_def)
    next
      case (QW_Added j n c ids)
      then show ?thesis using o(3) by (simp add: chosen_inv_def stream_at_put del: not_None_eq)
    qed (simp_all add: chosen_inv_def)
  qed simp_all
qed

lemma quic_inv_step: "quic_step a s s' \<Longrightarrow> quic_inv s \<Longrightarrow> quic_inv s'"
proof (induction rule: quic_step.induct)
  case (q_reject s i chunk c ids e)
  obtain q where "e = (qy_ep s)\<lparr>qe_lib := (q, elog (qy_ep s))\<rparr>" using lib_call_logged(4) [OF q_reject(2)] by auto
  then have "qmoves (qy_ep s) e" by (simp add: lib_frame)
  then show ?case
    using q_reject qmoves_trans [OF _ set_failure_moves] by (intro inv_moves [OF q_reject(3)]) (simp_all add: at_rest_def)
next
  case (q_choose s i ids st chunk c)
  then show ?case by (intro inv_choose)
next
  case (q_add s i chunk c ids e)
  then show ?case by (intro quic_inv_add)
next
  case (q_pop s i n c ids)
  then show ?case by (intro inv_pop)
next
  case (q_write s i st d st')
  then show ?case by (intro inv_write)
next
  case (q_close s i st)
  then show ?case by (intro inv_close)
next
  case (q_read s i st len got r st')
  then show ?case by (intro inv_read)
next
  case (q_take s ps b e)
  then show ?case using frame_moves(4) [OF q_take(3)] by (intro inv_moves [OF q_take(4)]) (simp_all add: at_rest_def)
next
  case (q_flush s e)
  then show ?case using flush_moves [OF q_flush(2)] by (intro inv_moves [OF q_flush(3)]) (simp_all add: at_rest_def)
next
  case (q_remote d s r e)
  then show ?case using remote_moves [OF q_remote(1)] by (intro inv_moves [OF q_remote(2)]) simp_all
next
  case (q_shutdown s e)
  then show ?case using frame_moves(5) [OF q_shutdown(1)] by (intro inv_moves [OF q_shutdown(2)]) simp_all
qed (erule inv_moves; simp add: at_rest_def create_client_moves process_datagram_moves close_stream_moves frame_moves(1-3)
    make_streams_moves shutdown_free_moves)+

section \<open>The start\<close>

text \<open>What starting leaves alone.\<close>

definition ep_core :: "('q \<times> quic_log) quic_ep \<Rightarrow> (u64 \<times> quic_stream) list \<times> quic_log \<times> bytes list \<times> bool \<times> bool" where
  "ep_core e = (qe_streams e, elog e, qe_pending e, qe_failed e, qe_stopping e)"

lemma logged_start [simp]:
  "snd (snd (qa_identity (quic_logged a) w)) = snd w" "snd (snd (qa_store_identity (quic_logged a) w)) = snd w"
  "snd (snd (qa_create (quic_logged a) b w)) = snd w" "snd (qa_remove_identity (quic_logged a) w) = snd w"
  "snd (qa_set_default (quic_logged a) k v w) = snd w" "snd (snd (qa_juice_create (quic_logged a) w)) = snd w"
  "snd (snd (qa_juice_gather (quic_logged a) w)) = snd w"
  by (simp_all add: quic_logged_def split: prod.split)

lemma core_call: "lib_call f e = (r, e') \<Longrightarrow> snd (snd (f (qe_lib e))) = elog e \<Longrightarrow> ep_core e' = ep_core e"
  by (auto simp: lib_call_def elog_def ep_core_def split: prod.splits)

lemma core_calls:
  "lib_call (qa_identity (quic_logged a)) e = (r, e') \<Longrightarrow> ep_core e' = ep_core e"
  "lib_call (qa_store_identity (quic_logged a)) e = (r, e') \<Longrightarrow> ep_core e' = ep_core e"
  "lib_call (qa_create (quic_logged a) b) e = (r, e') \<Longrightarrow> ep_core e' = ep_core e"
  "lib_call (qa_juice_create (quic_logged a)) e = (r, e') \<Longrightarrow> ep_core e' = ep_core e"
  "lib_call (qa_juice_gather (quic_logged a)) e = (r, e') \<Longrightarrow> ep_core e' = ep_core e"
  by (erule core_call; simp add: elog_def)+

lemma core_frame [simp]:
  "ep_core (e\<lparr>qe_lib := qa_remove_identity (quic_logged a) (qe_lib e)\<rparr>) = ep_core e"
  "ep_core (e\<lparr>qe_quic := b\<rparr>) = ep_core e" "ep_core (e\<lparr>qe_ice := b\<rparr>) = ep_core e" "ep_core (e\<lparr>qe_worker := b\<rparr>) = ep_core e"
  by (simp_all add: ep_core_def elog_def)

lemma core_defaults: "ep_core (e\<lparr>qe_lib := fold (\<lambda>(k, v). qa_set_default (quic_logged a) k v) ps (qe_lib e)\<rparr>) = ep_core e"
proof -
  have "snd (fold (\<lambda>(k, v). qa_set_default (quic_logged a) k v) ps w) = snd w" for w
    by (induction ps arbitrary: w) (auto split: prod.split)
  then show ?thesis by (simp add: ep_core_def elog_def)
qed

lemma create_core:
  assumes "(case lib_call (qa_create (quic_logged a) b) e of (ok, e) \<Rightarrow>
    let e = (if b then e\<lparr>qe_lib := qa_remove_identity (quic_logged a) (qe_lib e)\<rparr> else e)
    in if ok then (Inr (), e\<lparr>qe_quic := True\<rparr>) else (Inl m, e)) = (x, e')"
  shows "ep_core e' = ep_core e"
proof -
  obtain ok e1 where l: "lib_call (qa_create (quic_logged a) b) e = (ok, e1)" by fastforce
  show ?thesis using assms core_calls(3) [OF l] unfolding l by (cases ok; cases b) (auto simp: Let_def)
qed

lemma context_core:
  assumes "ep_context (quic_logged a) e = (r, e')"
  shows "ep_core e' = ep_core e"
proof (cases "qe_role e = Quic_Server")
  case False
  show ?thesis by (rule create_core [where a = a and b = False]) (use assms False in \<open>simp add: ep_context_def\<close>)
next
  case True
  obtain ok1 e1 where i: "lib_call (qa_identity (quic_logged a)) e = (ok1, e1)" by fastforce
  obtain ok2 e2 where st: "lib_call (qa_store_identity (quic_logged a)) e1 = (ok2, e2)" by fastforce
  note k = core_calls(1) [OF i] core_calls(2) [OF st]
  show ?thesis
  proof (cases "ok1 \<and> ok2")
    case t: True
    have "ep_core e' = ep_core e2"
      by (rule create_core [where a = a and b = True]) (use assms True t i st in \<open>simp add: ep_context_def\<close>)
    then show ?thesis using k by simp
  qed (use assms True i st k in \<open>cases ok1; auto simp: ep_context_def Let_def\<close>)
qed

lemma start_core:
  assumes "ep_start (quic_logged a) e = (Inr u, e')"
  shows "ep_core e' = ep_core e"
proof -
  obtain r1 e1 where c: "ep_context (quic_logged a) e = (r1, e1)" by fastforce
  let ?e2 = "e1\<lparr>qe_lib := fold (\<lambda>(k, v). qa_set_default (quic_logged a) k v) transport_parameters (qe_lib e1)\<rparr>"
  obtain j e3 where j: "lib_call (qa_juice_create (quic_logged a)) ?e2 = (j, e3)" by fastforce
  obtain g e4 where g: "lib_call (qa_juice_gather (quic_logged a)) (e3\<lparr>qe_ice := True, qe_worker := True\<rparr>) = (g, e4)" by fastforce
  have "e' = e4" using assms c j g by (auto simp: ep_start_def Let_def split: sum.splits bool.splits)
  then show ?thesis using context_core [OF c] core_calls(4) [OF j] core_calls(5) [OF g] by (simp add: core_defaults)
qed

lemma quic_inv_start:
  assumes "ep_start (quic_logged a) (quic_ep_init r (q, no_log)) = (Inr u, e)"
  shows "quic_inv (quic_start e)"
proof -
  have c: "qe_streams e = []" "elog e = no_log" "qe_pending e = []"
    using start_core [OF assms] by (simp_all add: ep_core_def quic_ep_init_def elog_def)
  have "st_of e i = new_stream" for i by (simp add: st_of_def stream_at_def c)
  then show ?thesis
    by (simp add: quic_inv_def send_inv_def recv_inv_def chosen_inv_def sent_in_order_def quic_start_def c no_log_def new_stream_def
        received_def added_def fin_added_def fin_last_def adds_def unsent_def in_flight_def ending_def)
qed

lemma quic_reach_inv: "quic_reach a s \<Longrightarrow> quic_inv s"
  by (induction rule: quic_reach.induct) (auto intro: quic_inv_start quic_inv_step)

section \<open>Streams stay, and stay closed\<close>

definition stream_stays :: "u64 \<Rightarrow> 'q quic_sys \<Rightarrow> 'q quic_sys \<Rightarrow> bool" where
  "stream_stays i s s' \<longleftrightarrow> (stream_at (qy_ep s) i \<noteq> None \<longrightarrow> stream_at (qy_ep s') i \<noteq> None) \<and>
     (qs_remote_closed (st_of (qy_ep s) i) \<longrightarrow> qs_remote_closed (st_of (qy_ep s') i))"

lemma moves_stays: "qmoves (qy_ep s) (qy_ep s') \<Longrightarrow> stream_stays i s s'"
  by (simp add: stream_stays_def qmoves_def stream_moves_def)

lemma put_stays:
  assumes "stream_at (qy_ep s) j = Some st" "qs_remote_closed st' = qs_remote_closed st"
    and "qy_ep s' = put_stream j st' (qy_ep s) \<or> qy_ep s' = ep_wake (put_stream j st' (qy_ep s))"
  shows "stream_stays i s s'"
  using assms st_of_put [of "qy_ep s" j] st_of_at [OF assms(1)]
  by (auto simp: stream_stays_def stream_at_put)

lemma step_stays: "quic_step a s s' \<Longrightarrow> stream_stays i s s'"
proof (induction rule: quic_step.induct)
  case (q_reject s j chunk c ids e)
  obtain q where "e = (qy_ep s)\<lparr>qe_lib := (q, elog (qy_ep s))\<rparr>" using lib_call_logged(4) [OF q_reject(2)] by auto
  then show ?case by (simp add: stream_stays_def)
next
  case (q_add s j chunk c ids e)
  obtain q where "e = (qy_ep s)\<lparr>qe_lib := q\<rparr>" using lib_call_logged(4) [OF q_add(2)] by auto
  then show ?case by (simp add: stream_stays_def)
next
  case (q_pop s j n c ids)
  show ?case
  proof (cases "i = j")
    case True
    then show ?thesis
      by (cases "stream_at (qy_ep s) j") (auto simp: stream_stays_def st_of_def stream_at_upd pump_pop_def Let_def)
  next
    case False
    then show ?thesis by (simp add: stream_stays_def st_of_upd(2) stream_at_upd)
  qed
next
  case (q_write s j st d st')
  then show ?case by (intro put_stays [of s j st st']) (auto simp: quic_write_def split: if_splits)
next
  case (q_close s j st)
  then show ?case by (intro put_stays [of s j st "quic_close st"]) (auto simp: quic_close_def)
next
  case (q_read s j st len got r st')
  then show ?case using quic_read_takes [OF q_read(2)] by (intro put_stays [of s j st st']) auto
next
  case (q_take s ps b e)
  then show ?case using frame_moves(4) [OF q_take(3)] by (intro moves_stays) simp
next
  case (q_flush s e)
  then show ?case using flush_moves [OF q_flush(2)] by (intro moves_stays) simp
next
  case (q_remote d s r e)
  then show ?case using remote_moves [OF q_remote(1)] by (intro moves_stays) simp
next
  case (q_shutdown s e)
  then show ?case using frame_moves(5) [OF q_shutdown(1)] by (intro moves_stays) simp
qed (rule moves_stays; simp add: create_client_moves process_datagram_moves close_stream_moves frame_moves(1-3)
    make_streams_moves shutdown_free_moves)+

text \<open>While the worker ends: a stream is closed or will be.\<close>

definition released :: "u64 \<Rightarrow> 'q quic_sys \<Rightarrow> bool" where
  "released i s \<longleftrightarrow> stream_at (qy_ep s) i \<noteq> None \<and> (case qy_worker s of
      QW_Close ids \<Rightarrow> i \<in> set ids \<or> qs_remote_closed (st_of (qy_ep s) i)
    | QW_Ended \<Rightarrow> qs_remote_closed (st_of (qy_ep s) i)
    | _ \<Rightarrow> True)"

lemma released_step:
  assumes "quic_step a s s'" "released i s"
  shows "released i s'"
proof -
  have st: "stream_at (qy_ep s') i \<noteq> None" "qs_remote_closed (st_of (qy_ep s) i) \<Longrightarrow> qs_remote_closed (st_of (qy_ep s') i)"
    using step_stays [OF assms(1), of i] assms(2) by (auto simp: stream_stays_def released_def)
  have id: "i \<in> set (stream_ids (qy_ep s))"
    using assms(2) by (auto simp: released_def stream_at_def stream_ids_def dest: map_of_SomeD intro: rev_image_eqI)
  show ?thesis using assms(1)
  proof cases
    case (q_close1 j ids)
    have "i = j \<Longrightarrow> qs_remote_closed (st_of (qy_ep s') i)"
      using st_of_upd(1) [of "qy_ep s" i stream_closed i] assms(2) by (simp add: q_close1 released_def stream_closed_def)
    then show ?thesis using st assms(2) q_close1 by (auto simp: released_def)
  next
    case q_halt
    then show ?thesis using st id by (simp add: released_def)
  next
    case q_check
    then show ?thesis using st id by (simp add: released_def)
  qed (use st assms(2) in \<open>auto simp: released_def split: quic_worker.splits\<close>)
qed

section \<open>Runs\<close>

text \<open>A library that reports a connection, its end, or data, by the first byte of a datagram.\<close>

definition ex_quic :: "unit quic_api" where
  "ex_quic = \<lparr>qa_identity = (\<lambda>q. (True, q)), qa_store_identity = (\<lambda>q. (True, q)), qa_create = (\<lambda>b q. (True, q)),
     qa_remove_identity = id, qa_set_default = (\<lambda>k v q. q), qa_free = id, qa_client_cnx = (\<lambda>p q. (True, q)),
     qa_incoming = (\<lambda>d x y q. (case d of [] \<Rightarrow> [] | b # bs \<Rightarrow>
       if b = 1 then [Conn_Ready] else if b = 2 then [Conn_Close] else [Stream_Data 0 bs], q)),
     qa_first_cnx = (\<lambda>q. False), qa_add_to_stream = (\<lambda>i b c q. (True, q)), qa_prepare = (\<lambda>q. ((True, [], []), q)),
     qa_wake_delay = (\<lambda>q. 0), qa_juice_create = (\<lambda>q. (True, q)), qa_juice_gather = (\<lambda>q. (True, q)),
     qa_juice_send = (\<lambda>p q. (Juice_Sent, q)), qa_juice_remote = (\<lambda>d q. (True, q)), qa_juice_local = (\<lambda>q. None),
     qa_juice_destroy = id, qa_state_name = (\<lambda>st. [])\<rparr>"

definition ex_started :: "quic_role \<Rightarrow> unit quic_sys" where
  "ex_started r = quic_start ((quic_ep_init r ((), no_log))\<lparr>qe_ice := True, qe_quic := True, qe_worker := True\<rparr>)"

lemma ex_started_reach: "quic_reach ex_quic (ex_started r)"
proof -
  have "fold (\<lambda>(k, v). qa_set_default (quic_logged ex_quic) k v) ps w = w" for ps w
    by (induction ps) (auto simp: quic_logged_def ex_quic_def)
  then have "ep_start (quic_logged ex_quic) (quic_ep_init r ((), no_log)) =
      (Inr (), (quic_ep_init r ((), no_log))\<lparr>qe_ice := True, qe_quic := True, qe_worker := True\<rparr>)"
    by (cases r) (simp_all add: ep_start_def ep_context_def lib_call_def quic_logged_def ex_quic_def quic_ep_init_def Let_def)
  then show ?thesis unfolding ex_started_def by (rule qr_start)
qed

text \<open>A turn of the worker for one datagram, before any stream is there.\<close>

lemma packet_turn:
  assumes "quic_reach a s" "qy_worker s = QW_Wait" "\<not> qe_stopping (qy_ep s)" "qe_datagrams (qy_ep s) = []" "qe_ice (qy_ep s)"
    and "\<not> qe_ice_connected (qy_ep s)"
    and "e = process_datagram (quic_logged a) d ((qy_ep s)\<lparr>qe_work := False\<rparr>)" "qe_streams e = []" "\<not> qe_ice_connected e"
  shows "quic_reach a (s\<lparr>qy_ep := e, qy_worker := (if qe_failed e then QW_Close [] else QW_Wait)\<rparr>)"
proof -
  have "take_work (ice_recv d (qy_ep s)) = (([d], False), (qy_ep s)\<lparr>qe_work := False\<rparr>)"
    using assms(4,6) by (cases "qy_ep s") (simp add: take_work_def ice_recv_def)
  from q_take [of "s\<lparr>qy_ep := ice_recv d (qy_ep s)\<rparr>" "[d]" False _ a] this
  have t: "quic_step a (s\<lparr>qy_ep := ice_recv d (qy_ep s)\<rparr>) (s\<lparr>qy_ep := (qy_ep s)\<lparr>qe_work := False\<rparr>, qy_worker := QW_Packets [d] False\<rparr>)"
    using assms(2,3) by (simp add: ice_recv_def)
  note r1 = qr_step [OF qr_step [OF assms(1) q_recv [OF assms(5), of a d]] t]
  have "quic_reach a (s\<lparr>qy_ep := e, qy_worker := QW_Packets [] False\<rparr>)"
    using qr_step [OF r1 q_packet [of _ d "[]" a]] assms(7) by simp
  from qr_step [OF this q_snapshot [of _ "[]" a]] have r2: "quic_reach a (s\<lparr>qy_ep := e, qy_worker := QW_Pump []\<rparr>)"
    using assms(8) by (simp add: stream_ids_def)
  have "flush_quic (quic_logged a) e = Some e" using assms(9) by (simp add: flush_quic_def)
  with qr_step [OF r2 q_flush [of _ a e]] have "quic_reach a (s\<lparr>qy_ep := e, qy_worker := QW_Check\<rparr>)" by simp
  from qr_step [OF this q_check [of _ a]] show ?thesis using assms(8) by (cases "qe_failed e") (simp_all add: stream_ids_def)
qed

lemma ex_process:
  "process_datagram (quic_logged ex_quic) d e = (let evs = (case d of [] \<Rightarrow> [] | b # bs \<Rightarrow>
      if b = 1 then [Conn_Ready] else if b = 2 then [Conn_Close] else [Stream_Data 0 bs]);
      e1 = fold on_quic_event evs (e\<lparr>qe_lib := ((), (elog e)\<lparr>ql_events := ql_events (elog e) @ evs\<rparr>)\<rparr>)
    in if qe_conn e1 then e1 else e1\<lparr>qe_conn := False\<rparr>)"
  by (cases "qe_lib e") (simp add: process_datagram_def lib_call_def quic_logged_def ex_quic_def elog_def Let_def)

text \<open>The client with a connection.\<close>

definition ex_connected :: "unit quic_sys" where
  "ex_connected = (ex_started Quic_Client)\<lparr>qy_ep := (quic_ep_init Quic_Client ((), no_log\<lparr>ql_events := [Conn_Ready]\<rparr>))\<lparr>
     qe_ice := True, qe_quic := True, qe_worker := True, qe_conn := True, qe_established := True,
     qe_calls := [State_Changed ''connected'']\<rparr>\<rparr>"

lemma ex_connected_reach: "quic_reach ex_quic ex_connected"
  using packet_turn [OF ex_started_reach [of Quic_Client], of _ "[1]"]
  by (simp add: ex_process ex_started_def ex_connected_def quic_start_def quic_ep_init_def elog_def no_log_def on_quic_event_def
      mark_established_def ep_called_def Let_def)

text \<open>A client that wrote three bytes, and a host that got two of them.\<close>

definition ex_writer :: "unit quic_sys" where
  "ex_writer = (let l = no_log\<lparr>ql_events := [Conn_Ready], ql_added := [(0, [5, 6, 7], False)]\<rparr> in
     ex_connected\<lparr>qy_ep := (qy_ep ex_connected)\<lparr>qe_lib := ((), l), qe_streams := [(0, new_stream\<lparr>qs_tx := [5, 6, 7]\<rparr>)]\<rparr>,
       qy_worker := QW_Added 0 3 False [], qy_written := (\<lambda>_. [])(0 := [5, 6, 7])\<rparr>)"

lemma ex_writer_reach: "quic_reach ex_quic ex_writer"
proof -
  let ?e = "qy_ep ex_connected"
  let ?e1 = "?e\<lparr>qe_streams := [(0, new_stream)]\<rparr>"
  let ?e2 = "?e\<lparr>qe_streams := [(0, new_stream\<lparr>qs_tx := [5, 6, 7]\<rparr>)], qe_work := True\<rparr>"
  let ?e3 = "?e2\<lparr>qe_work := False\<rparr>"
  have e: "ep_connected ?e" "qe_role ?e = Quic_Client" "qy_asked ex_connected = []" "qy_worker ex_connected = QW_Wait"
    "\<not> qe_stopping ?e" "qe_datagrams ?e = []" "qe_conn ?e" "qe_established ?e" "\<not> qe_ice_connected ?e"
    "qe_lib ?e = ((), no_log\<lparr>ql_events := [Conn_Ready]\<rparr>)" "qe_streams ?e = []" "qy_written ex_connected = (\<lambda>_. [])"
    by (simp_all add: ex_connected_def ep_connected_def quic_ep_init_def ex_started_def quic_start_def)
  have "snd (make_streams 1 ?e) = ?e1"
    using e(11) by (simp add: make_streams_def ensure_stream_def stream_at_def Let_def)
  with qr_step [OF qr_step [OF ex_connected_reach q_ask [OF e(1,2), of ex_quic 1]] q_make [of 1]]
  have "quic_reach ex_quic (ex_connected\<lparr>qy_ep := ?e1, qy_asked := []\<rparr>)" using e(3) by simp
  moreover have "ex_connected\<lparr>qy_ep := x, qy_asked := []\<rparr> = ex_connected\<lparr>qy_ep := x\<rparr>" for x
    by (simp add: ex_connected_def ex_started_def quic_start_def)
  ultimately have r1: "quic_reach ex_quic (ex_connected\<lparr>qy_ep := ?e1\<rparr>)" by simp
  have r2: "quic_reach ex_quic (ex_connected\<lparr>qy_ep := ?e2, qy_written := (\<lambda>_. [])(0 := [5, 6, 7])\<rparr>)"
    using qr_step [OF r1 q_write [of _ 0 new_stream "[5, 6, 7]" "new_stream\<lparr>qs_tx := [5, 6, 7]\<rparr>"]] e(12)
    by (simp add: stream_at_def quic_write_def new_stream_def put_stream_def upd_stream_def ep_wake_def)
  have r3: "quic_reach ex_quic (ex_connected\<lparr>qy_written := (\<lambda>_. [])(0 := [5, 6, 7]), qy_ep := ?e3, qy_worker := QW_Packets [] False\<rparr>)"
    using qr_step [OF r2 q_take [of _ "[]" False ?e3]] e by (simp add: take_work_def)
  have r4: "quic_reach ex_quic (ex_connected\<lparr>qy_written := (\<lambda>_. [])(0 := [5, 6, 7]), qy_ep := ?e3, qy_worker := QW_Pump [0]\<rparr>)"
    using qr_step [OF r3 q_snapshot [of _ "[0]"]] e by (simp add: stream_ids_def)
  have r5: "quic_reach ex_quic (ex_connected\<lparr>qy_written := (\<lambda>_. [])(0 := [5, 6, 7]), qy_ep := ?e3, qy_worker := QW_Chosen 0 [5, 6, 7] False []\<rparr>)"
    using qr_step [OF r4 q_choose [of _ 0 "[]" "new_stream\<lparr>qs_tx := [5, 6, 7]\<rparr>" "[5, 6, 7]" False]]
    by (simp add: stream_at_def pump_peek_def new_stream_def kPumpChunk_def)
  let ?e4 = "?e3\<lparr>qe_lib := ((), no_log\<lparr>ql_events := [Conn_Ready], ql_added := [(0, [5, 6, 7], False)]\<rparr>)\<rparr>"
  have "lib_call (qa_add_to_stream (quic_logged ex_quic) 0 [5, 6, 7] False) ?e3 = (True, ?e4)"
    using e(10) by (simp add: lib_call_def quic_logged_def ex_quic_def no_log_def)
  with qr_step [OF r5 q_add [of _ 0 "[5, 6, 7]" False "[]" ex_quic ?e4]]
  have "quic_reach ex_quic (ex_connected\<lparr>qy_written := (\<lambda>_. [])(0 := [5, 6, 7]), qy_ep := ?e4, qy_worker := QW_Added 0 3 False []\<rparr>)"
    by (simp add: numeral_3_eq_3)
  then show ?thesis by (simp add: ex_writer_def ex_connected_def ex_started_def quic_start_def quic_ep_init_def Let_def)
qed

definition ex_reader :: "unit quic_sys" where
  "ex_reader = (ex_started Quic_Server)\<lparr>qy_ep := (quic_ep_init Quic_Server ((), no_log\<lparr>ql_events := [Stream_Data 0 [5, 6]]\<rparr>))\<lparr>
     qe_ice := True, qe_quic := True, qe_worker := True, qe_conn := True, qe_streams := [(0, new_stream\<lparr>qs_rx := [6]\<rparr>)],
     qe_calls := [Incoming_Stream 0]\<rparr>, qy_worker := QW_Packets [] False, qy_read := (\<lambda>_. [])(0 := [5])\<rparr>"

lemma ex_reader_reach: "quic_reach ex_quic ex_reader"
proof -
  let ?s = "ex_started Quic_Server"
  let ?e = "qy_ep ?s"
  have e: "qe_ice ?e" "qy_worker ?s = QW_Wait" "\<not> qe_stopping ?e" "take_work (ice_recv [3, 5, 6] ?e) = (([[3, 5, 6]], False), ?e)"
    by (simp_all add: ex_started_def quic_start_def quic_ep_init_def take_work_def ice_recv_def)
  have t: "quic_step ex_quic (?s\<lparr>qy_ep := ice_recv [3, 5, 6] ?e\<rparr>) (?s\<lparr>qy_worker := QW_Packets [[3, 5, 6]] False\<rparr>)"
    using q_take [of "?s\<lparr>qy_ep := ice_recv [3, 5, 6] ?e\<rparr>" "[[3, 5, 6]]" False ?e ex_quic] e by (simp add: ice_recv_def)
  let ?e2 = "(quic_ep_init Quic_Server ((), no_log\<lparr>ql_events := [Stream_Data 0 [5, 6]]\<rparr>))\<lparr>
     qe_ice := True, qe_quic := True, qe_worker := True, qe_conn := True, qe_streams := [(0, new_stream\<lparr>qs_rx := [5, 6]\<rparr>)],
     qe_calls := [Incoming_Stream 0]\<rparr>"
  have "process_datagram (quic_logged ex_quic) [3, 5, 6] ?e = ?e2"
    by (simp add: ex_process ex_started_def quic_start_def quic_ep_init_def elog_def no_log_def on_quic_event_def ensure_stream_def
        stream_at_def upd_stream_def ep_called_def new_stream_def Let_def)
  with qr_step [OF qr_step [OF qr_step [OF ex_started_reach q_recv [OF e(1), of ex_quic "[3, 5, 6]"]] t] q_packet [of _ "[3, 5, 6]" "[]"]]
  have "quic_reach ex_quic (?s\<lparr>qy_ep := ?e2, qy_worker := QW_Packets [] False\<rparr>)" by simp
  from qr_step [OF this q_read [of _ 0 "new_stream\<lparr>qs_rx := [5, 6]\<rparr>" 1 "[]" "Read_Done [5]" "new_stream\<lparr>qs_rx := [6]\<rparr>"]]
  show ?thesis
    by (simp add: ex_reader_def stream_at_def quic_read_def new_stream_def put_stream_def upd_stream_def ex_started_def quic_start_def
        quic_ep_init_def)
qed

section \<open>Properties\<close>

text \<open>C23: However reader, writer, closer and worker threads interleave: if what picoquic delivers
  on one side is a prefix of what was added on the other, the bytes read from a stream are a
  prefix of the bytes written to it, in order; the end is added once, after all bytes; and
  once the end was received and the queue is empty the reader has got everything that was
  written.\<close>

theorem quic_streams_keep_the_bytes:
  assumes "quic_reach a s" "quic_reach b t" "prefix (received i (sys_log t)) (added i (sys_log s))"
    and "fin_received i (sys_log t) \<Longrightarrow> fin_added i (sys_log s) \<and> received i (sys_log t) = added i (sys_log s)"
  shows "prefix (qy_read t i) (qy_written s i) \<and> fin_last i (sys_log s) \<and>
    (fin_received i (sys_log t) \<and> qs_rx (st_of (qy_ep t) i) = [] \<longrightarrow> qy_read t i = qy_written s i)"
proof -
  have s: "qy_written s i = added i (sys_log s) @ unsent s i" "fin_added i (sys_log s) \<longrightarrow> unsent s i = []" "fin_last i (sys_log s)"
    using quic_reach_inv [OF assms(1)] by (auto simp: quic_inv_def send_inv_def Let_def)
  have t: "received i (sys_log t) = qy_read t i @ qs_rx (st_of (qy_ep t) i)"
    using quic_reach_inv [OF assms(2)] by (simp add: quic_inv_def recv_inv_def)
  have "prefix (qy_read t i) (qy_written s i)"
    using assms(3) unfolding s(1) t by (auto simp: prefix_def)
  moreover have "qy_read t i = qy_written s i" if "fin_received i (sys_log t)" "qs_rx (st_of (qy_ep t) i) = []"
    using assms(4) [OF that(1)] that(2) s(1,2) t by simp
  ultimately show ?thesis using s(3) by blast
qed

theorem quic_streams_keep_the_bytes_witness:
  "prefix (qy_read ex_reader 0) (qy_written ex_writer 0) \<and> qy_read ex_reader 0 = [5] \<and> qy_written ex_writer 0 = [5, 6, 7]"
proof -
  have l: "sys_log ex_reader = no_log\<lparr>ql_events := [Stream_Data 0 [5, 6]]\<rparr>"
    "sys_log ex_writer = no_log\<lparr>ql_events := [Conn_Ready], ql_added := [(0, [5, 6, 7], False)]\<rparr>"
    by (simp_all add: ex_reader_def ex_writer_def elog_def quic_ep_init_def Let_def)
  have "prefix (received 0 (sys_log ex_reader)) (added 0 (sys_log ex_writer))" "\<not> fin_received 0 (sys_log ex_reader)"
    unfolding l by (simp_all add: received_def added_def adds_def fin_received_def no_log_def)
  with quic_streams_keep_the_bytes [OF ex_writer_reach ex_reader_reach] show ?thesis
    by (simp add: ex_reader_def ex_writer_def Let_def)
qed

text \<open>C24: While a QUIC endpoint has neither failed nor been stopped, the datagrams that ICE took,
  followed by those kept for the next turn, are exactly the datagrams that picoquic
  prepared, in order: a full ICE queue drops and reorders none.\<close>

theorem quic_datagrams_in_order:
  assumes "quic_reach a s" "\<not> qe_failed (qy_ep s)" "\<not> qe_stopping (qy_ep s)"
  shows "ql_sent (sys_log s) @ qe_pending (qy_ep s) = ql_prepared (sys_log s)"
  using quic_reach_inv [OF assms(1)] assms(2,3) by (simp add: quic_inv_def sent_in_order_def)

theorem quic_datagrams_in_order_witness:
  "ql_sent (sys_log ex_writer) @ qe_pending (qy_ep ex_writer) = ql_prepared (sys_log ex_writer)"
  using ex_writer_reach
  by (rule quic_datagrams_in_order) (simp_all add: ex_writer_def ex_connected_def quic_ep_init_def Let_def)

text \<open>C25: A stream that exists when the worker of a QUIC endpoint starts to end can be found when
  it has ended, and then no read on it waits and no write to it succeeds: nobody blocks on a
  dead connection.\<close>

theorem quic_readers_are_released:
  assumes "stream_at (qy_ep s) i \<noteq> None" "qy_worker s \<noteq> QW_Ended" "\<And>ids. qy_worker s \<noteq> QW_Close ids"
    and "(quic_step a)\<^sup>*\<^sup>* s s'" "qy_worker s' = QW_Ended"
  shows "\<exists>st. stream_at (qy_ep s') i = Some st \<and>
    (\<forall>len got d. case quic_read len got st of (r, _) \<Rightarrow> r \<noteq> Read_Wait d) \<and> (\<forall>d. fst (quic_write d st) = False)"
proof -
  have "released i s" using assms(1-3) by (auto simp: released_def split: quic_worker.split)
  with assms(4) have "released i s'" by (induction rule: rtranclp_induct) (auto intro: released_step)
  then obtain st where st: "stream_at (qy_ep s') i = Some st" "qs_remote_closed st"
    using assms(5) st_of_at by (auto simp: released_def)
  then show ?thesis by (auto simp: quic_read_def quic_write_def Let_def)
qed

theorem quic_readers_are_released_witness:
  "\<exists>s s' st. (quic_step ex_quic)\<^sup>*\<^sup>* s s' \<and> qy_worker s = QW_Wait \<and> qy_worker s' = QW_Ended \<and>
     stream_at (qy_ep s') 0 = Some st \<and> (\<forall>d. fst (quic_read 20 [] st) \<noteq> Read_Wait d)"
proof -
  let ?s = "ex_reader\<lparr>qy_ep := (qy_ep ex_reader)\<lparr>qe_stopping := True\<rparr>, qy_worker := QW_Wait\<rparr>"
  have k: "stream_ids (qy_ep ?s) = [0]" "stream_at (qy_ep ?s) 0 \<noteq> None" by (simp_all add: ex_reader_def stream_ids_def stream_at_def)
  have "quic_step ex_quic ?s (?s\<lparr>qy_worker := QW_Close [0]\<rparr>)" using q_halt [of ?s ex_quic] k(1) by simp
  moreover have "quic_step ex_quic (?s\<lparr>qy_worker := QW_Close [0]\<rparr>) (?s\<lparr>qy_ep := upd_stream 0 stream_closed (qy_ep ?s), qy_worker := QW_Close []\<rparr>)"
    using q_close1 [of "?s\<lparr>qy_worker := QW_Close [0]\<rparr>" 0 "[]" ex_quic] by simp
  moreover have "quic_step ex_quic (?s\<lparr>qy_ep := upd_stream 0 stream_closed (qy_ep ?s), qy_worker := QW_Close []\<rparr>)
      (?s\<lparr>qy_ep := upd_stream 0 stream_closed (qy_ep ?s), qy_worker := QW_Ended\<rparr>)"
    using q_end [of "?s\<lparr>qy_ep := upd_stream 0 stream_closed (qy_ep ?s), qy_worker := QW_Close []\<rparr>" ex_quic] by simp
  ultimately have r: "(quic_step ex_quic)\<^sup>*\<^sup>* ?s (?s\<lparr>qy_ep := upd_stream 0 stream_closed (qy_ep ?s), qy_worker := QW_Ended\<rparr>)"
    by (meson converse_rtranclp_into_rtranclp rtranclp.rtrancl_refl)
  from quic_readers_are_released [OF k(2) _ _ r] obtain st where
    "stream_at (qy_ep (?s\<lparr>qy_ep := upd_stream 0 stream_closed (qy_ep ?s), qy_worker := QW_Ended\<rparr>)) 0 = Some st"
    "\<And>d. fst (quic_read 20 [] st) \<noteq> Read_Wait d"
    by (auto simp: case_prod_unfold)
  with r show ?thesis by (intro exI [of _ ?s] exI conjI) (auto intro: r)
qed

text \<open>
  A stream that \<open>openStreams\<close> makes after the worker has ended is closed by nobody but its owner: a read
  on it waits for ever.
\<close>

lemma late_stream_blocks:
  "\<exists>s st. quic_reach ex_quic s \<and> qy_worker s = QW_Ended \<and> stream_at (qy_ep s) 0 = Some st \<and>
     fst (quic_read 20 [] st) = Read_Wait []"
proof -
  let ?e = "qy_ep ex_connected"
  have e: "ep_connected ?e" "qe_role ?e = Quic_Client" "qy_asked ex_connected = []" "qy_worker ex_connected = QW_Wait"
    "\<not> qe_stopping ?e" "qe_datagrams ?e = []" "\<not> qe_ice_connected ?e" "qe_streams ?e = []" "qe_ice ?e" "\<not> qe_work ?e"
    by (simp_all add: ex_connected_def ep_connected_def quic_ep_init_def ex_started_def quic_start_def)
  let ?s = "ex_connected\<lparr>qy_asked := [1]\<rparr>"
  have r: "quic_reach ex_quic ?s" using qr_step [OF ex_connected_reach q_ask [OF e(1,2), of ex_quic 1]] e(3) by simp
  let ?e1 = "process_datagram (quic_logged ex_quic) [2] (?e\<lparr>qe_work := False\<rparr>)"
  have f: "qe_failed ?e1" "qe_streams ?e1 = []" "\<not> qe_ice_connected ?e1"
    using e by (simp_all add: ex_process on_quic_event_def set_failure_def Let_def)
  from packet_turn [OF r, of ?e1 "[2]"] e f
  have "quic_reach ex_quic (?s\<lparr>qy_ep := ?e1, qy_worker := QW_Close []\<rparr>)" by simp
  from qr_step [OF qr_step [OF this q_end] q_make [of 1]]
  have r2: "quic_reach ex_quic (ex_connected\<lparr>qy_worker := QW_Ended, qy_ep := snd (make_streams 1 ?e1), qy_asked := []\<rparr>)" by simp
  have "stream_at (snd (make_streams 1 ?e1)) 0 = Some new_stream"
    using f(2) by (simp add: make_streams_def ensure_stream_def stream_at_def Let_def)
  then show ?thesis
    by (intro exI [of _ "ex_connected\<lparr>qy_worker := QW_Ended, qy_ep := snd (make_streams 1 ?e1), qy_asked := []\<rparr>"] exI [of _ new_stream])
      (use r2 in \<open>simp add: quic_read_def new_stream_def\<close>)
qed

end
