(* ===== verification/WebRelay.thy ===== *)
theory WebRelay
  imports Signaling "HOL-Library.List_Lexorder" "HOL-Library.Char_ord"
begin

text \<open>
  \<open>FirebaseCompatRelay\<close> of \<open>client/src/clients/web_compat.cpp\<close>: signals between a WebRTC host and its
  clients through a room of a Firebase database, which the two sides poll. The environment is that of
  \<open>Signaling\<close>; the callback gets the relay and works on the world, where the state of its owner is.
  A run is a sequence of rounds of the poller.
\<close>

section \<open>The database\<close>

text \<open>\<open>sync_http_compat\<close> differs from \<open>sync_http\<close> in its message and its time limit.\<close>

definition sync_http_compat :: "'w env \<Rightarrow> http_request \<Rightarrow> 'w \<Rightarrow> (string + int \<times> string) \<times> 'w" where
  "sync_http_compat e req w = (case qt_send e req w of (reply, w) \<Rightarrow>
     if \<not> hr_finished reply then (Inl ''Firebase compatibility signaling timed out'', w)
     else (case hr_error reply of
         Some msg \<Rightarrow> if hr_status reply = 0 then (Inl msg, w) else (Inr (hr_status reply, hr_body reply), w)
       | None \<Rightarrow> (Inr (hr_status reply, hr_body reply), w)))"

definition firebase_web_path :: "'w env \<Rightarrow> string \<Rightarrow> string" where
  "firebase_web_path e lookupId = ''/webRooms/'' @ qt_base64url e lookupId"

definition kFirebaseWebRoomMaxAgeMs :: int where
  "kFirebaseWebRoomMaxAgeMs = 30 * 24 * 60 * 60 * 1000"

definition json_object_at :: "json_object \<Rightarrow> string \<Rightarrow> json_object" where
  "json_object_at ob key = (case map_of ob key of Some (JObj o1) \<Rightarrow> o1 | _ \<Rightarrow> [])"

definition firebase_web_created_at_ms :: "json_object \<Rightarrow> int" where
  "firebase_web_created_at_ms room = (let
       host = json_object_at room ''host'';
       v = (if map_of host ''createdAt'' \<noteq> None then map_of host ''createdAt'' else map_of room ''createdAt'')
     in case v of
          Some (JNum raw) \<Rightarrow> if raw \<le> 0 then 0 else if raw < 20000000000 then \<lfloor>raw * 1000\<rfloor> else \<lfloor>raw\<rfloor>
        | _ \<Rightarrow> 0)"

definition firebase_web_room_expired :: "json_object \<Rightarrow> int \<Rightarrow> bool" where
  "firebase_web_room_expired room now = (let createdAtMs = firebase_web_created_at_ms room in
     createdAtMs \<le> 0 \<or> createdAtMs < now - kFirebaseWebRoomMaxAgeMs)"

definition firebase_web_request :: "'w env \<Rightarrow> string \<Rightarrow> string \<Rightarrow> string \<Rightarrow> http_request" where
  "firebase_web_request e path mth body = \<lparr>hq_method = mth, hq_url = fb_base_url e @ path @ ''.json'', hq_query = None,
     hq_headers = json_headers, hq_body = body\<rparr>"

definition http_failure :: "string \<Rightarrow> int \<Rightarrow> string \<Rightarrow> string" where
  "http_failure mth status resp = ''Firebase compatibility '' @ mth @ '' failed (HTTP '' @ int_string status @ ''): '' @ resp"

definition firebase_get_value :: "'w env \<Rightarrow> string \<Rightarrow> 'w \<Rightarrow> (string + json) \<times> 'w" where
  "firebase_get_value e path w = (case sync_http_compat e (firebase_web_request e path ''GET'' []) w of
      (Inl err, w) \<Rightarrow> (Inl err, w)
    | (Inr (status, resp), w) \<Rightarrow>
        if status \<noteq> 200 then (Inl (http_failure ''GET'' status resp), w)
        else if qt_trimmed e resp = ''null'' then (Inr JNull, w)
        else (case qt_from_json e resp of
            None \<Rightarrow> (Inl ''Firebase compatibility returned invalid JSON'', w)
          | Some j \<Rightarrow> (Inr j, w)))"

definition firebase_put_obj :: "'w env \<Rightarrow> string \<Rightarrow> json_object \<Rightarrow> 'w \<Rightarrow> (string + unit) \<times> 'w" where
  "firebase_put_obj e path ob w = (case sync_http_compat e (firebase_web_request e path ''PUT'' (qt_to_json e ob)) w of
      (Inl err, w) \<Rightarrow> (Inl err, w)
    | (Inr (status, resp), w) \<Rightarrow> if status = 200 then (Inr (), w) else (Inl (http_failure ''PUT'' status resp), w))"

definition firebase_post_obj :: "'w env \<Rightarrow> string \<Rightarrow> json_object \<Rightarrow> 'w \<Rightarrow> (string + unit) \<times> 'w" where
  "firebase_post_obj e path ob w = (case sync_http_compat e (firebase_web_request e path ''POST'' (qt_to_json e ob)) w of
      (Inl err, w) \<Rightarrow> (Inl err, w)
    | (Inr (status, resp), w) \<Rightarrow> if status = 200 then (Inr (), w) else (Inl (http_failure ''POST'' status resp), w))"

definition firebase_delete_path :: "'w env \<Rightarrow> string \<Rightarrow> 'w \<Rightarrow> (string + unit) \<times> 'w" where
  "firebase_delete_path e path w = (case sync_http_compat e (firebase_web_request e path ''DELETE'' []) w of
      (Inl err, w) \<Rightarrow> (Inl err, w)
    | (Inr (status, resp), w) \<Rightarrow>
        if status = 200 \<or> status = 204 then (Inr (), w) else (Inl (http_failure ''DELETE'' status resp), w))"

section \<open>The relay\<close>

record relay =
  rl_host :: bool
  rl_lookup :: string
  rl_path :: string
  rl_peer :: string
  rl_live :: bool
  rl_poller :: bool
  rl_seen_clients :: "string list" \<comment> \<open>in the order of the names\<close>
  rl_seen_signals :: "string list"

definition relay_init :: relay where
  "relay_init = \<lparr>rl_host = False, rl_lookup = [], rl_path = [], rl_peer = [], rl_live = False, rl_poller = False,
     rl_seen_clients = [], rl_seen_signals = []\<rparr>"

type_synonym 'w relay_callback = "json_object \<Rightarrow> relay \<Rightarrow> 'w \<Rightarrow> 'w"

definition b64url_json :: "'w env \<Rightarrow> json_object \<Rightarrow> string" where
  "b64url_json e ob = ''plain:'' @ qt_base64url e (qt_to_json e ob)"

definition start_host :: "'w env \<Rightarrow> string \<Rightarrow> 'w relay_callback \<Rightarrow> relay \<Rightarrow> 'w \<Rightarrow> (string + unit) \<times> relay \<times> 'w" where
  "start_host e lookupId cb r w =
     (if \<not> fb_configured e then (Inl ''Firebase fallback URL is not configured'', r, w)
      else (let path = firebase_web_path e lookupId;
          r = r\<lparr>rl_host := True, rl_lookup := lookupId, rl_path := path\<rparr>;
          enter = (\<lambda>w. case firebase_put_obj e path
              [(''v'', JNum 1), (''host'', JObj [(''createdAt'', JNum (of_int (qt_now_ms e w)))])] w of
              (Inl err, w) \<Rightarrow> (Inl err, r, w)
            | (Inr _, w) \<Rightarrow> (let r = r\<lparr>rl_live := True, rl_poller := True\<rparr>
                in (Inr (), r, cb [(''kind'', JStr ''ready''), (''role'', JStr ''host''), (''room'', JStr lookupId)] r w)))
        in case firebase_get_value e path w of
             (Inl err, w) \<Rightarrow> (Inl err, r, w)
           | (Inr JNull, w) \<Rightarrow> enter w
           | (Inr existing, w) \<Rightarrow>
               if (case existing of JObj room \<Rightarrow> firebase_web_room_expired room (qt_now_ms e w) | _ \<Rightarrow> False)
               then (case firebase_delete_path e path w of (_, w) \<Rightarrow> enter w)
               else (Inl ''Firebase web compatibility room already exists'', r, w)))"

definition start_client ::
  "'w env \<Rightarrow> ('w \<Rightarrow> string \<times> 'w) \<Rightarrow> string \<Rightarrow> 'w relay_callback \<Rightarrow> relay \<Rightarrow> 'w \<Rightarrow> (string + unit) \<times> relay \<times> 'w" where
  "start_client e compat_peer_id lookupId cb r w =
     (if \<not> fb_configured e then (Inl ''Firebase fallback URL is not configured'', r, w)
      else (let path = firebase_web_path e lookupId in
        case compat_peer_id w of (peer, w) \<Rightarrow>
        (let r = r\<lparr>rl_host := False, rl_lookup := lookupId, rl_path := path, rl_peer := peer\<rparr> in
        case firebase_get_value e path w of
          (Inl err, w) \<Rightarrow> (Inl err, r, w)
        | (Inr JNull, w) \<Rightarrow> (Inl ''no Firebase web compatibility room found for that code'', r, w)
        | (Inr room, w) \<Rightarrow>
            if (case room of JObj ob \<Rightarrow> firebase_web_room_expired ob (qt_now_ms e w) | _ \<Rightarrow> True)
            then (case firebase_delete_path e path w of (_, w) \<Rightarrow> (Inl ''Firebase web compatibility room expired'', r, w))
            else (case firebase_put_obj e (path @ ''/clients/'' @ peer) [(''joinedAt'', JNum (of_int (qt_now_ms e w)))] w of
                (Inl err, w) \<Rightarrow> (Inl err, r, w)
              | (Inr _, w) \<Rightarrow> (let r = r\<lparr>rl_live := True, rl_poller := True\<rparr>
                  in (Inr (), r, cb [(''kind'', JStr ''ready''), (''role'', JStr ''client''), (''room'', JStr lookupId),
                        (''peerId'', JStr peer)] r w))))))"

definition relay_send_signal :: "'w env \<Rightarrow> string \<Rightarrow> json_object \<Rightarrow> relay \<Rightarrow> 'w \<Rightarrow> 'w" where
  "relay_send_signal e peer payload r w = (if \<not> rl_live r then w
     else (let msg = [(''ciphertext'', JStr (b64url_json e payload)), (''at'', JNum (of_int (qt_now_ms e w)))]
       in if rl_host r then snd (firebase_post_obj e (rl_path r @ ''/signalsToClient/'' @ peer) msg w)
          else snd (firebase_post_obj e (rl_path r @ ''/signalsToHost'') (msg @ [(''peerId'', JStr (rl_peer r))]) w)))"

text \<open>The poller is joined before the last request.\<close>

definition relay_close :: "'w env \<Rightarrow> relay \<Rightarrow> 'w \<Rightarrow> relay \<times> 'w" where
  "relay_close e r w = (let wasLive = rl_live r; r = r\<lparr>rl_live := False, rl_poller := False\<rparr> in
     if \<not> wasLive \<or> rl_path r = [] then (r, w)
     else if rl_host r then (r, snd (firebase_delete_path e (rl_path r) w))
     else if rl_peer r \<noteq> [] then (r, snd (firebase_delete_path e (rl_path r @ ''/clients/'' @ rl_peer r) w))
     else (r, w))"

section \<open>Polling\<close>

definition joined_msg :: "string \<Rightarrow> json_object" where
  "joined_msg peer = [(''kind'', JStr ''client-joined''), (''peerId'', JStr peer)]"

definition left_msg :: "string \<Rightarrow> json_object" where
  "left_msg peer = [(''kind'', JStr ''client-left''), (''peerId'', JStr peer)]"

definition signal_msg :: "string \<Rightarrow> string \<Rightarrow> json_object" where
  "signal_msg peer c = [(''kind'', JStr ''signal''), (''peerId'', JStr peer), (''ciphertext'', JStr c)]"

fun announce_joined :: "'w relay_callback \<Rightarrow> string list \<Rightarrow> relay \<Rightarrow> 'w \<Rightarrow> relay \<times> 'w" where
  "announce_joined cb [] r w = (r, w)"
| "announce_joined cb (peer # peers) r w =
     (if peer \<in> set (rl_seen_clients r) then announce_joined cb peers r w
      else (let r = r\<lparr>rl_seen_clients := insort peer (rl_seen_clients r)\<rparr>
        in announce_joined cb peers r (cb (joined_msg peer) r w)))"

text \<open>The iterator runs over what was seen; a client that is gone is announced, then erased.\<close>

fun announce_left :: "'w relay_callback \<Rightarrow> string list \<Rightarrow> string list \<Rightarrow> relay \<Rightarrow> 'w \<Rightarrow> relay \<times> 'w" where
  "announce_left cb now [] r w = (r, w)"
| "announce_left cb now (peer # peers) r w =
     (if peer \<in> set now then announce_left cb now peers r w
      else (let w = cb (left_msg peer) r w
        in announce_left cb now peers (r\<lparr>rl_seen_clients := remove1 peer (rl_seen_clients r)\<rparr>) w))"

definition poll_clients :: "'w env \<Rightarrow> 'w relay_callback \<Rightarrow> relay \<Rightarrow> 'w \<Rightarrow> relay \<times> 'w" where
  "poll_clients e cb r w = (case firebase_get_value e (rl_path r @ ''/clients'') w of
      (Inr (JObj ob), w) \<Rightarrow> (let now = map fst ob in
        case announce_joined cb now r w of (r, w) \<Rightarrow> announce_left cb now (rl_seen_clients r) r w)
    | (_, w) \<Rightarrow> (r, w))"

text \<open>
  The loop over the signals in a reply, at \<open>base\<close> in the database; \<open>read\<close> says what to pass on.
\<close>

fun take_signals ::
  "'w env \<Rightarrow> 'w relay_callback \<Rightarrow> string \<Rightarrow> (json_object \<Rightarrow> json_object option) \<Rightarrow> json_object \<Rightarrow> relay \<Rightarrow> 'w \<Rightarrow> relay \<times> 'w" where
  "take_signals e cb base read [] r w = (r, w)"
| "take_signals e cb base read ((key, v) # obs) r w =
     (if key \<in> set (rl_seen_signals r) then take_signals e cb base read obs r w
      else (let r = r\<lparr>rl_seen_signals := key # rl_seen_signals r\<rparr>;
              w = (case read (case v of JObj ob \<Rightarrow> ob | _ \<Rightarrow> []) of Some msg \<Rightarrow> cb msg r w | None \<Rightarrow> w);
              w = snd (firebase_delete_path e (base @ ''/'' @ key) w)
        in take_signals e cb base read obs r w))"

definition host_signal :: "json_object \<Rightarrow> json_object option" where
  "host_signal v = (case (map_of v ''peerId'', map_of v ''ciphertext'') of
      (Some (JStr p), Some (JStr c)) \<Rightarrow> Some (signal_msg p c) | _ \<Rightarrow> None)"

definition client_signal :: "string \<Rightarrow> json_object \<Rightarrow> json_object option" where
  "client_signal peer v = (case map_of v ''ciphertext'' of Some (JStr c) \<Rightarrow> Some (signal_msg peer c) | _ \<Rightarrow> None)"

definition poll_signals ::
  "'w env \<Rightarrow> 'w relay_callback \<Rightarrow> string \<Rightarrow> (json_object \<Rightarrow> json_object option) \<Rightarrow> relay \<Rightarrow> 'w \<Rightarrow> relay \<times> 'w" where
  "poll_signals e cb base read r w = (case firebase_get_value e base w of
      (Inr (JObj ob), w) \<Rightarrow> take_signals e cb base read ob r w
    | (_, w) \<Rightarrow> (r, w))"

definition poll_host_round :: "'w env \<Rightarrow> 'w relay_callback \<Rightarrow> relay \<times> 'w \<Rightarrow> relay \<times> 'w" where
  "poll_host_round e cb = (\<lambda>(r, w). case poll_clients e cb r w of (r, w) \<Rightarrow>
     poll_signals e cb (rl_path r @ ''/signalsToHost'') host_signal r w)"

definition poll_client_round :: "'w env \<Rightarrow> 'w relay_callback \<Rightarrow> relay \<times> 'w \<Rightarrow> relay \<times> 'w" where
  "poll_client_round e cb = (\<lambda>(r, w). case firebase_get_value e (rl_path r) w of
      (Inr JNull, w) \<Rightarrow> (let w = cb [(''kind'', JStr ''host-left'')] r w in (r\<lparr>rl_live := False\<rparr>, w))
    | (_, w) \<Rightarrow> poll_signals e cb (rl_path r @ ''/signalsToClient/'' @ rl_peer r) (client_signal (rl_peer r)) r w)"

text \<open>The pollers: \<open>stopped\<close> reads in the world whether \<open>close\<close> has begun.\<close>

partial_function (option) relay_poll ::
  "(relay \<times> 'w \<Rightarrow> relay \<times> 'w) \<Rightarrow> ('w \<Rightarrow> bool) \<Rightarrow> relay \<times> 'w \<Rightarrow> (relay \<times> 'w) option" where
  "relay_poll turn stopped rw = (case rw of (r, w) \<Rightarrow>
     if \<not> rl_live r \<or> stopped w then Some rw else relay_poll turn stopped (turn rw))"

definition poll_host :: "'w env \<Rightarrow> 'w relay_callback \<Rightarrow> ('w \<Rightarrow> bool) \<Rightarrow> relay \<times> 'w \<Rightarrow> (relay \<times> 'w) option" where
  "poll_host e cb = relay_poll (poll_host_round e cb)"

definition poll_client :: "'w env \<Rightarrow> 'w relay_callback \<Rightarrow> ('w \<Rightarrow> bool) \<Rightarrow> relay \<times> 'w \<Rightarrow> (relay \<times> 'w) option" where
  "poll_client e cb = relay_poll (poll_client_round e cb)"

section \<open>What the owner hears\<close>

text \<open>The same environment on a world with a log, and a callback that logs what it gets.\<close>

definition with_log :: "'w env \<Rightarrow> ('w \<times> 'l) env" where
  "with_log e = \<lparr>qt_getenv = qt_getenv e,
     qt_send = (\<lambda>req (w, l). case qt_send e req w of (reply, w) \<Rightarrow> (reply, (w, l))),
     qt_to_json = qt_to_json e, qt_from_json = qt_from_json e, qt_trimmed = qt_trimmed e,
     qt_percent = qt_percent e, qt_base64url = qt_base64url e, qt_now_ms = (\<lambda>(w, l). qt_now_ms e w),
     kHardcodedWorkerUrl = kHardcodedWorkerUrl e, kHardcodedFirebaseUrl = kHardcodedFirebaseUrl e\<rparr>"

definition cb_logged :: "'w relay_callback \<Rightarrow> ('w \<times> json_object list) relay_callback" where
  "cb_logged cb = (\<lambda>ob r (w, l). (cb ob r w, l @ [ob]))"

lemma sync_keeps_log: "snd (snd (sync_http_compat (with_log e) req w)) = snd w"
  by (cases w) (simp add: sync_http_compat_def with_log_def split: prod.split option.split)

lemma sync_keeps_logD: "sync_http_compat (with_log e) req w = (x, w', l) \<Longrightarrow> l = snd w"
  using sync_keeps_log [of e req w] by simp

lemma firebase_keeps_log:
  "snd (snd (firebase_get_value (with_log e) path w)) = snd w" "snd (snd (firebase_delete_path (with_log e) path w)) = snd w"
  by (auto simp: firebase_get_value_def firebase_delete_path_def split: prod.split sum.split option.split dest!: sync_keeps_logD)

text \<open>A client is present or absent; \<open>None\<close> if it joins while present or leaves while absent.\<close>

fun replay :: "string \<Rightarrow> json_object list \<Rightarrow> bool \<Rightarrow> bool option" where
  "replay p [] b = Some b"
| "replay p (ob # obs) b = (if ob = joined_msg p then (if b then None else replay p obs True)
     else if ob = left_msg p then (if b then replay p obs False else None)
     else replay p obs b)"

definition is_signal :: "json_object \<Rightarrow> bool" where
  "is_signal ob \<longleftrightarrow> json_string ob ''kind'' = ''signal''"

lemma replay_append: "replay p (xs @ ys) b = Option.bind (replay p xs b) (replay p ys)"
  by (induction xs arbitrary: b) auto

lemma msg_kinds [simp]:
  "joined_msg p \<noteq> left_msg q" "left_msg q \<noteq> joined_msg p" "signal_msg x y \<noteq> joined_msg p" "signal_msg x y \<noteq> left_msg p"
  "joined_msg p = joined_msg q \<longleftrightarrow> p = q" "left_msg p = left_msg q \<longleftrightarrow> p = q"
  "\<not> is_signal (joined_msg p)" "\<not> is_signal (left_msg p)" "is_signal (signal_msg x y)"
  by (auto simp: joined_msg_def left_msg_def signal_msg_def is_signal_def json_string_def)

definition heard_ok :: "relay \<times> 'w \<times> json_object list \<Rightarrow> bool" where
  "heard_ok = (\<lambda>(r, w, log). distinct (rl_seen_clients r) \<and>
     (\<forall>p. replay p log False = Some (p \<in> set (rl_seen_clients r))) \<and>
     (\<exists>ds. distinct (map fst ds) \<and> set (map fst ds) \<subseteq> set (rl_seen_signals r) \<and> filter is_signal log = map snd ds))"

lemma heard_joined:
  assumes "heard_ok (r, w)" 
  shows "heard_ok (announce_joined (cb_logged cb) peers r w)"
  using assms
proof (induction "cb_logged cb" peers r w rule: announce_joined.induct)
  case (2 peer peers r w)
  let ?r = "r\<lparr>rl_seen_clients := insort peer (rl_seen_clients r)\<rparr>"
  have "heard_ok (?r, cb_logged cb (joined_msg peer) ?r w)" if "peer \<notin> set (rl_seen_clients r)"
    using 2(3) that
    by (cases w) (auto simp: heard_ok_def cb_logged_def replay_append distinct_insort set_insort_key)
  then show ?case using 2 by (auto simp: Let_def)
qed simp

lemma heard_left:
  assumes "heard_ok (r, w)" "distinct peers" "set peers \<subseteq> set (rl_seen_clients r)"
  shows "heard_ok (announce_left (cb_logged cb) now peers r w)"
  using assms
proof (induction "cb_logged cb" now peers r w rule: announce_left.induct)
  case (2 now peer peers r w)
  let ?r = "r\<lparr>rl_seen_clients := remove1 peer (rl_seen_clients r)\<rparr>"
  have "heard_ok (?r, cb_logged cb (left_msg peer) r w)"
    using 2(3-5) by (cases w) (auto simp: heard_ok_def cb_logged_def replay_append)
  moreover have "set peers \<subseteq> set (rl_seen_clients ?r)" using 2(3-5) by (auto simp: heard_ok_def)
  ultimately show ?case using 2 by (auto simp: Let_def)
qed simp

lemma heard_world: "heard_ok (r, w) \<Longrightarrow> snd w' = snd w \<Longrightarrow> heard_ok (r, w')"
  by (cases w; cases w') (simp add: heard_ok_def)

lemma heard_signals:
  assumes "heard_ok (r, w)" "\<And>v m. read v = Some m \<Longrightarrow> \<exists>p c. m = signal_msg p c"
  shows "heard_ok (take_signals (with_log e) (cb_logged cb) base read obs r w)"
  using assms(1)
proof (induction obs arbitrary: r w)
  case (Cons kv obs)
  obtain key v where kv: "kv = (key, v)" by (cases kv)
  show ?case
  proof (cases "key \<in> set (rl_seen_signals r)")
    case False
    let ?r = "r\<lparr>rl_seen_signals := key # rl_seen_signals r\<rparr>" and ?ob = "case v of JObj ob \<Rightarrow> ob | _ \<Rightarrow> []"
    let ?w = "case read ?ob of Some msg \<Rightarrow> cb_logged cb msg ?r w | None \<Rightarrow> w"
    obtain ds where ds: "distinct (map fst ds)" "set (map fst ds) \<subseteq> set (rl_seen_signals r)" "filter is_signal (snd w) = map snd ds"
      using Cons.prems by (auto simp: heard_ok_def split: prod.splits)
    have "heard_ok (?r, ?w)"
    proof (cases "read ?ob")
      case None
      then show ?thesis using Cons.prems ds by (auto simp: heard_ok_def split: prod.splits)
    next
      case (Some m)
      then obtain x y where m: "m = signal_msg x y" using assms(2) by blast
      have "distinct (map fst (ds @ [(key, m)]))" "set (map fst (ds @ [(key, m)])) \<subseteq> set (rl_seen_signals ?r)"
        "filter is_signal (snd w @ [m]) = map snd (ds @ [(key, m)])"
        using ds False m by auto
      then have "\<exists>ds. distinct (map fst ds) \<and> set (map fst ds) \<subseteq> set (rl_seen_signals ?r) \<and> filter is_signal (snd w @ [m]) = map snd ds"
        by blast
      then show ?thesis using Cons.prems Some m by (cases w) (auto simp: heard_ok_def cb_logged_def replay_append)
    qed
    from heard_world [OF this firebase_keeps_log(2)] show ?thesis using Cons.IH False by (simp add: kv Let_def)
  qed (use Cons kv in simp)
qed simp

lemma host_signals: "host_signal v = Some m \<Longrightarrow> \<exists>p c. m = signal_msg p c"
  by (auto simp: host_signal_def split: option.splits json.splits)

lemma heard_round:
  assumes "heard_ok rw"
  shows "heard_ok (poll_host_round (with_log e) (cb_logged cb) rw)"
proof -
  obtain r w where rw: "rw = (r, w)" by (cases rw)
  let ?cb = "cb_logged cb"
  have clients: "heard_ok (poll_clients (with_log e) ?cb r w)"
  proof -
    obtain j w1 where Pair: "firebase_get_value (with_log e) (rl_path r @ ''/clients'') w = (j, w1)" by (metis surj_pair)
    then have w1: "heard_ok (r, w1)"
      using assms rw heard_world firebase_keeps_log(1) [of e "rl_path r @ ''/clients''" w] by (metis snd_conv)
    show ?thesis
    proof (cases "\<exists>ob. j = Inr (JObj ob)")
      case True
      then obtain ob where j: "j = Inr (JObj ob)" by blast
      obtain r2 w2 where 2: "announce_joined ?cb (map fst ob) r w1 = (r2, w2)" by (metis surj_pair)
      have "heard_ok (r2, w2)" using heard_joined [OF w1, of cb "map fst ob"] 2 by simp
      then show ?thesis using heard_left [of r2 w2 "rl_seen_clients r2" cb "map fst ob"] 2 Pair j
        by (simp add: poll_clients_def heard_ok_def split: prod.splits)
    next
      case False
      then have "poll_clients (with_log e) ?cb r w = (r, w1)"
        using Pair by (auto simp: poll_clients_def split: sum.splits json.splits)
      then show ?thesis using w1 by simp
    qed
  qed
  obtain r1 w1 where c: "poll_clients (with_log e) ?cb r w = (r1, w1)" by (metis surj_pair)
  let ?base = "rl_path r1 @ ''/signalsToHost''"
  obtain j w2 where g: "firebase_get_value (with_log e) ?base w1 = (j, w2)" by (metis surj_pair)
  then have w2: "heard_ok (r1, w2)"
    using clients c heard_world firebase_keeps_log(1) [of e ?base w1] by (metis snd_conv)
  have "heard_ok (poll_signals (with_log e) ?cb ?base host_signal r1 w1)"
    using heard_signals [OF w2, of host_signal] host_signals w2 g
    by (auto simp: poll_signals_def split: sum.splits json.splits)
  then show ?thesis using rw c by (simp add: poll_host_round_def)
qed

section \<open>Properties\<close>


text \<open>A client of an example database joins and leaves, its signal is there twice.\<close>

definition ex_database :: "(nat \<times> (nat \<Rightarrow> string)) env" where
  "ex_database = \<lparr>qt_getenv = (\<lambda>_. None), qt_send = (\<lambda>req (n, f).
       (\<lparr>hr_finished = True, hr_status = 200, hr_body = f n, hr_error = None\<rparr>, (n + 1, f))),
     qt_to_json = (\<lambda>_. []), qt_from_json = (\<lambda>s. if s = ''clients'' then Some (JObj [(''p1'', JObj [])])
       else if s = ''signals'' then Some (JObj [(''k1'', JObj [(''peerId'', JStr ''p1''), (''ciphertext'', JStr ''plain:x'')])])
       else Some (JObj [])), qt_trimmed = id, qt_percent = id, qt_base64url = id,
     qt_now_ms = (\<lambda>_. 0), kHardcodedWorkerUrl = [], kHardcodedFirebaseUrl = ''https://x.firebaseio.com''\<rparr>"

definition ex_answers :: "nat \<Rightarrow> string" where
  "ex_answers n = (if n = 0 then ''clients'' else if n = 1 \<or> n = 4 then ''signals'' else ''none'')"


text \<open>A host takes a room only where the database has none, or an expired one.\<close>

lemma start_host_takes_free_rooms:
  assumes "start_host e lookupId cb r w = (Inr u, r', w')"
  shows "fb_configured e \<and> (\<exists>j w1. firebase_get_value e (firebase_web_path e lookupId) w = (Inr j, w1) \<and>
    (j = JNull \<or> (\<exists>room. j = JObj room \<and> firebase_web_room_expired room (qt_now_ms e w1))))"
  using assms by (auto simp: start_host_def Let_def split: if_splits sum.splits json.splits prod.splits)

text \<open>When the last client is gone the database answers \<open>null\<close>, which is no object: it is never announced.\<close>

lemma last_client_never_leaves:
  "firebase_get_value e (rl_path r @ ''/clients'') w = (Inr JNull, w') \<Longrightarrow> poll_clients e cb r w = (r, w')"
  by (simp add: poll_clients_def)

end
