(* ===== verification/WebNegotiate.thy ===== *)
theory WebNegotiate
  imports WebRelay WebHost
begin

text \<open>
  How the WebRTC host meets its peers: \<open>on_signal\<close>, \<open>create_peer\<close>, \<open>create_quic_peer\<close>, \<open>start\<close> and \<open>stop\<close> of
  \<open>WebRtcCompatHost\<close> in \<open>client/src/clients/web_compat.cpp\<close>. Peer connections and QUIC endpoints are
  numbers; libdatachannel, the endpoints of \<open>QuicEndpoint\<close> and the two signaling transports are a
  parameter. Each definition is a critical section or the code between two; \<open>on_signal\<close> puts them
  together for a signaling thread that nobody interrupts.
\<close>

section \<open>State\<close>

record 'w neg_host =
  ng_world :: 'w
  ng_live :: bool
  ng_ws_closed :: bool
  ng_ws_error :: string
  ng_pcs :: "string \<rightharpoonup> nat"
  ng_channels :: "string \<rightharpoonup> nat"
  ng_quic :: "string \<rightharpoonup> nat"
  ng_departed :: "string set"
  ng_timers :: "string list" \<comment> \<open>peers for which a timer thread was started\<close>
  ng_next :: nat
  ng_notified :: nat \<comment> \<open>calls of \<open>notifyClients\<close>\<close>

record 'w neg_api =
  np_native :: bool \<comment> \<open>a native server, and QUIC support\<close>
  np_unbase64 :: "string \<Rightarrow> string"
  np_create_pc :: "nat \<Rightarrow> string \<Rightarrow> 'w \<Rightarrow> 'w"
  np_pc_answer :: "nat \<Rightarrow> string \<Rightarrow> 'w \<Rightarrow> 'w"
  np_pc_candidate :: "nat \<Rightarrow> string \<Rightarrow> string \<Rightarrow> 'w \<Rightarrow> 'w"
  np_quic_start :: "nat \<Rightarrow> string \<Rightarrow> 'w \<Rightarrow> (string + unit) \<times> 'w"
  np_quic_remote :: "nat \<Rightarrow> string \<Rightarrow> 'w \<Rightarrow> (string + unit) \<times> 'w"
  np_quic_close :: "nat \<Rightarrow> 'w \<Rightarrow> 'w"
  np_ws_send :: "string \<Rightarrow> 'w \<Rightarrow> 'w"
  np_relay :: "'w \<Rightarrow> relay option"
  np_order :: "nat set \<Rightarrow> nat list" \<comment> \<open>in which a hash table gives its entries\<close>

definition unb64url_json :: "'w env \<Rightarrow> 'w neg_api \<Rightarrow> string \<Rightarrow> json_object" where
  "unb64url_json q a s = (if starts_with ''plain:'' s then parse_json_obj q (np_unbase64 a (drop 6 s)) else [])"

definition in_world :: "('w \<Rightarrow> 'w) \<Rightarrow> 'w neg_host \<Rightarrow> 'w neg_host" where
  "in_world f h = h\<lparr>ng_world := f (ng_world h)\<rparr>"

section \<open>Signals\<close>

definition plain_signal :: "'w env \<Rightarrow> string \<Rightarrow> json_object \<Rightarrow> string" where
  "plain_signal q peer payload = qt_to_json q (signal_msg peer (b64url_json q payload))"

definition send_signal :: "'w env \<Rightarrow> 'w neg_api \<Rightarrow> string \<Rightarrow> json_object \<Rightarrow> 'w neg_host \<Rightarrow> 'w neg_host" where
  "send_signal q a peer payload = in_world (\<lambda>w. case np_relay a w of
      Some r \<Rightarrow> relay_send_signal q peer payload r w
    | None \<Rightarrow> np_ws_send a (plain_signal q peer payload) w)"

definition quic_error_msg :: "string \<Rightarrow> json_object" where
  "quic_error_msg e = [(''type'', JStr ''native-quic-error''), (''message'', JStr e)]"

definition notify_clients :: "'w neg_host \<Rightarrow> 'w neg_host" where
  "notify_clients h = h\<lparr>ng_notified := ng_notified h + 1\<rparr>"

text \<open>What the callbacks of a peer connection send.\<close>

definition on_local_description :: "'w env \<Rightarrow> 'w neg_api \<Rightarrow> string \<Rightarrow> string \<Rightarrow> 'w neg_host \<Rightarrow> 'w neg_host" where
  "on_local_description q a peer desc h = (if \<not> ng_live h then h
     else send_signal q a peer [(''type'', JStr ''offer''), (''sdp'', JObj [(''type'', JStr ''offer''), (''sdp'', JStr desc)])] h)"

definition on_local_candidate :: "'w env \<Rightarrow> 'w neg_api \<Rightarrow> string \<Rightarrow> string \<Rightarrow> string \<Rightarrow> 'w neg_host \<Rightarrow> 'w neg_host" where
  "on_local_candidate q a peer cand mid h = (if \<not> ng_live h then h
     else send_signal q a peer [(''type'', JStr ''candidate''),
       (''candidate'', JObj [(''candidate'', JStr cand), (''sdpMid'', JStr mid)])] h)"

section \<open>Peer connections\<close>

text \<open>\<open>create_peer\<close>: the connection with its callbacks and channel, then the tables; whether the clients changed.\<close>

definition new_pc :: "'w neg_api \<Rightarrow> string \<Rightarrow> 'w neg_host \<Rightarrow> nat \<times> 'w neg_host" where
  "new_pc a peer h = (let i = ng_next h in (i, in_world (np_create_pc a i peer) (h\<lparr>ng_next := i + 1\<rparr>)))"

definition insert_pc :: "string \<Rightarrow> nat \<Rightarrow> 'w neg_host \<Rightarrow> bool \<times> 'w neg_host" where
  "insert_pc peer i h = (if \<not> ng_live h then (False, h)
     else (ng_channels h peer = None,
       h\<lparr>ng_pcs := (ng_pcs h)(peer \<mapsto> i), ng_channels := (ng_channels h)(peer \<mapsto> i)\<rparr>))"

definition notify_if :: "bool \<times> 'w neg_host \<Rightarrow> 'w neg_host" where
  "notify_if = (\<lambda>(changed, h). if changed then notify_clients h else h)"

definition create_peer :: "'w neg_api \<Rightarrow> string \<Rightarrow> 'w neg_host \<Rightarrow> 'w neg_host" where
  "create_peer a peer h = (if \<not> ng_live h then h
     else (case new_pc a peer h of (i, h) \<Rightarrow> notify_if (insert_pc peer i h)))"

text \<open>The callback of a channel that closed, under the lock.\<close>

definition drop_channel :: "string \<Rightarrow> 'w neg_host \<Rightarrow> bool \<times> 'w neg_host" where
  "drop_channel peer h = (ng_channels h peer \<noteq> None,
     h\<lparr>ng_channels := (ng_channels h)(peer := None), ng_pcs := (ng_pcs h)(peer := None)\<rparr>)"

section \<open>QUIC endpoints\<close>

definition quic_wanted :: "'w neg_api \<Rightarrow> string \<Rightarrow> 'w neg_host \<Rightarrow> bool" where
  "quic_wanted a peer h \<longleftrightarrow> ng_live h \<and> np_native a \<and> ng_quic h peer = None"

definition new_quic :: "'w env \<Rightarrow> 'w neg_api \<Rightarrow> string \<Rightarrow> 'w neg_host \<Rightarrow> nat option \<times> 'w neg_host" where
  "new_quic q a peer h = (let i = ng_next h; h = h\<lparr>ng_next := i + 1\<rparr> in
     case np_quic_start a i peer (ng_world h) of
       (Inl err, w) \<Rightarrow> (None, send_signal q a peer (quic_error_msg err) (h\<lparr>ng_world := w\<rparr>))
     | (Inr _, w) \<Rightarrow> (Some i, h\<lparr>ng_world := w\<rparr>))"

text \<open>Whether the endpoint was kept; if not it is closed.\<close>

definition insert_quic :: "string \<Rightarrow> nat \<Rightarrow> 'w neg_host \<Rightarrow> bool \<times> 'w neg_host" where
  "insert_quic peer i h = (if ng_live h then (True, h\<lparr>ng_quic := (ng_quic h)(peer \<mapsto> i)\<rparr>) else (False, h))"

definition close_quic :: "'w neg_api \<Rightarrow> nat \<Rightarrow> 'w neg_host \<Rightarrow> 'w neg_host" where
  "close_quic a i = in_world (np_quic_close a i)"

definition create_quic_peer :: "'w env \<Rightarrow> 'w neg_api \<Rightarrow> string \<Rightarrow> 'w neg_host \<Rightarrow> 'w neg_host" where
  "create_quic_peer q a peer h = (if \<not> quic_wanted a peer h then h
     else (case new_quic q a peer h of
         (None, h) \<Rightarrow> h
       | (Some i, h) \<Rightarrow> (case insert_quic peer i h of
           (True, h) \<Rightarrow> h
         | (False, h) \<Rightarrow> close_quic a i h)))"

definition describe :: "'w env \<Rightarrow> 'w neg_api \<Rightarrow> string \<Rightarrow> nat \<Rightarrow> string \<Rightarrow> 'w neg_host \<Rightarrow> 'w neg_host" where
  "describe q a peer i desc h = (case np_quic_remote a i desc (ng_world h) of
      (Inl err, w) \<Rightarrow> send_signal q a peer (quic_error_msg err) (h\<lparr>ng_world := w\<rparr>)
    | (Inr _, w) \<Rightarrow> h\<lparr>ng_world := w\<rparr>)"

definition give_description :: "'w env \<Rightarrow> 'w neg_api \<Rightarrow> string \<Rightarrow> string \<Rightarrow> 'w neg_host \<Rightarrow> 'w neg_host" where
  "give_description q a peer desc h = (case ng_quic h peer of None \<Rightarrow> h | Some i \<Rightarrow> describe q a peer i desc h)"

section \<open>Messages of the room\<close>

definition peer_joined :: "string \<Rightarrow> 'w neg_host \<Rightarrow> 'w neg_host" where
  "peer_joined peer h = (if \<not> ng_live h then h
     else h\<lparr>ng_departed := ng_departed h - {peer}, ng_timers := ng_timers h @ [peer]\<rparr>)"

text \<open>What the timer thread reads under the lock, 300 ms later.\<close>

definition wants_webrtc :: "string \<Rightarrow> 'w neg_host \<Rightarrow> bool" where
  "wants_webrtc peer h \<longleftrightarrow> ng_live h \<and> peer \<notin> ng_departed h \<and> ng_quic h peer = None \<and> ng_pcs h peer = None"

text \<open>The endpoint to close, and whether a channel was there.\<close>

definition forget_peer :: "string \<Rightarrow> 'w neg_host \<Rightarrow> (nat option \<times> bool) \<times> 'w neg_host" where
  "forget_peer peer h = ((ng_quic h peer, ng_channels h peer \<noteq> None),
     h\<lparr>ng_departed := insert peer (ng_departed h), ng_pcs := (ng_pcs h)(peer := None),
       ng_quic := (ng_quic h)(peer := None), ng_channels := (ng_channels h)(peer := None)\<rparr>)"

definition peer_left :: "'w neg_api \<Rightarrow> string \<Rightarrow> 'w neg_host \<Rightarrow> 'w neg_host" where
  "peer_left a peer h = (case forget_peer peer h of ((ep, changed), h) \<Rightarrow>
     let h = (case ep of None \<Rightarrow> h | Some i \<Rightarrow> close_quic a i h)
     in notify_if (changed, h))"

text \<open>An answer or a candidate for a connection that is there.\<close>

definition pc_signal :: "'w neg_api \<Rightarrow> string \<Rightarrow> json_object \<Rightarrow> 'w neg_host \<Rightarrow> 'w neg_host" where
  "pc_signal a peer sig h = (case ng_pcs h peer of
      None \<Rightarrow> h
    | Some i \<Rightarrow>
        if json_string sig ''type'' = ''answer''
        then in_world (np_pc_answer a i (json_string (json_object_at sig ''sdp'') ''sdp'')) h
        else if json_string sig ''type'' = ''candidate''
        then (let c = json_object_at sig ''candidate''
          in in_world (np_pc_candidate a i (json_string c ''candidate'') (json_string c ''sdpMid'')) h)
        else h)"

definition peer_signal :: "'w env \<Rightarrow> 'w neg_api \<Rightarrow> string \<Rightarrow> json_object \<Rightarrow> 'w neg_host \<Rightarrow> 'w neg_host" where
  "peer_signal q a peer sig h = (let t = json_string sig ''type'' in
     if sig = [] then h
     else if t = ''native-quic-hello'' then create_quic_peer q a peer h
     else if t = ''compat-hello'' then (if ng_pcs h peer = None then create_peer a peer h else h)
     else if t = ''native-quic-description''
     then (let h = (if ng_quic h peer = None then create_quic_peer q a peer h else h)
       in give_description q a peer (json_string sig ''description'') h)
     else pc_signal a peer sig h)"

definition on_signal :: "'w env \<Rightarrow> 'w neg_api \<Rightarrow> json_object \<Rightarrow> 'w neg_host \<Rightarrow> 'w neg_host" where
  "on_signal q a msg h = (let kind = json_string msg ''kind''; peer = json_string msg ''peerId'' in
     if kind = ''ready'' then h\<lparr>ng_live := True\<rparr>
     else if kind = ''error''
     then h\<lparr>ng_ws_error := json_string_or ''signaling error'' msg ''error'', ng_ws_closed := True\<rparr>
     else if kind = ''client-joined'' then peer_joined peer h
     else if kind = ''client-left'' then peer_left a peer h
     else if kind \<noteq> ''signal'' then h
     else peer_signal q a peer (unb64url_json q a (json_string msg ''ciphertext'')) h)"

section \<open>Start and stop\<close>

text \<open>
  The transports are tried in order: \<open>cloud\<close> is opening the socket and waiting, which ends in an
  exception or in whether the host is live; \<open>leave\<close> closes the socket, \<open>relay\<close> starts the other way.
\<close>

definition web_host_start ::
  "'w env \<Rightarrow> (string \<Rightarrow> 'w \<Rightarrow> bool) \<Rightarrow> (string \<Rightarrow> 'w neg_host \<Rightarrow> (string + unit) \<times> 'w neg_host) \<Rightarrow> ('w \<Rightarrow> 'w) \<Rightarrow>
     (string \<Rightarrow> 'w neg_host \<Rightarrow> (string + unit) \<times> 'w neg_host) \<Rightarrow> string \<Rightarrow> string \<Rightarrow> 'w neg_host \<Rightarrow> (string + unit) \<times> 'w neg_host" where
  "web_host_start q is_link cloud leave relay folder code h =
     (if \<not> looks_like_room_code code then (Inl ''WebRTC compatibility needs a 6- or 16-character room code'', h)
      else if is_link folder (ng_world h) then (Inl ''Cannot host a symlink, junction, or projected filesystem root'', h)
      else (let h = h\<lparr>ng_ws_closed := False, ng_ws_error := []\<rparr>;
          fallback = (\<lambda>cloudErr h.
            if \<not> fb_configured q
            then (Inl (cloudErr @ ''; Firebase fallback URL is not configured for WebRTC compatibility''), h)
            else (case relay (room_lookup_id code) h of
                (Inr _, h) \<Rightarrow> (Inr (), h\<lparr>ng_live := True\<rparr>)
              | (Inl err, h) \<Rightarrow> (Inl (cloudErr @ ''; Firebase WebRTC compatibility fallback failed: '' @ err), h)))
        in if \<not> sig_configured q
           then fallback ''Cloudflare signaling URL is not configured for WebRTC compatibility'' h
           else (case cloud (room_lookup_id code) h of
               (Inl what, h) \<Rightarrow> fallback what (in_world leave h)
             | (Inr _, h) \<Rightarrow>
                 if ng_live h then (Inr (), h)
                 else fallback (if ng_ws_error h = [] then ''Cloudflare WebRTC compatibility signaling did not become ready''
                     else ng_ws_error h) (in_world leave h))))"

text \<open>\<open>stop\<close>: its critical section gives the endpoints, whether there were clients, and the timers to join.\<close>

definition clear_tables :: "'w neg_host \<Rightarrow> (nat set \<times> bool) \<times> 'w neg_host" where
  "clear_tables h = ((ran (ng_quic h), ng_channels h \<noteq> Map.empty),
     h\<lparr>ng_quic := Map.empty, ng_pcs := Map.empty, ng_channels := Map.empty, ng_timers := []\<rparr>)"

text \<open>\<open>leave\<close> closes the transport, and with it the thread that calls \<open>on_signal\<close>.\<close>

definition web_host_stop :: "'w neg_api \<Rightarrow> ('w \<Rightarrow> 'w) \<Rightarrow> 'w neg_host \<Rightarrow> 'w neg_host" where
  "web_host_stop a leave h = (case clear_tables (in_world leave (h\<lparr>ng_live := False\<rparr>)) of ((eps, hadClients), h) \<Rightarrow>
     let h = fold (close_quic a) (np_order a eps) h
     in notify_if (hadClients, h))"

definition client_count :: "'w neg_host \<Rightarrow> nat" where
  "client_count h = card (dom (ng_channels h))"

end
