(* ===== verification/Spec2Isabelle.thy ===== *)
theory Spec2Isabelle
  imports FB_Prelude Wire Streams ChaCha20 Poly1305 Poly1305_Arith Poly1305_Block Poly1305_Correct Aead SecureChannel Handshake Paths OsFs ServerDispatch ServerSafety ServerSessions RemoteFs RamCache CacheBlocks CacheSafe CacheRead HostRemote CacheThreads Base91 Tokens Signaling NetAddr ClientConnect ClientRequests Session FuseOps MountedFile MountedOps FuseMount MountEject Cli CliMount WebHost WebHostSafe WebClient WebTransfer QuicEndpoint QuicThreads QuicSafe WebRelay WebNegotiate
begin

text \<open>
Folder Buddies shares a folder as a mounted disk: a host serves the folder to clients that mount
  it. The program is C++ with Qt, under \<open>client/\<close>. This development models its core and proves the
  statements marked C1 to C40. All paths below are under \<open>client/src\<close> unless they say otherwise.

  How the parts fit together. The host (\<open>app/session.cpp\<close>, \<open>start_hosting\<close>) starts a \<open>Server\<close> on the
  folder, picks an address to advertise, seals a token with address and secret, and publishes the
  sealed token in a room directory under an identifier derived from a room code. A client turns the
  code back into the token (\<open>resolve_share_code\<close>), opens eight authenticated and encrypted
  connections (\<open>clients/client.cpp\<close>), and mounts (\<open>fs/fuse_fs.cpp\<close>): each call of the kernel becomes
  requests that go through a RAM cache (\<open>fs/ram_cache.cpp\<close>), over one of the connections, to the
  server's dispatcher (\<open>server/server.cpp\<close>), which confines every path to the folder. Writes come back
  to the other clients as invalidations. \<open>app/cli.cpp\<close> ties this together on the command line. Web
  browsers, and hosts and clients without a direct connection, use the WebRTC compatibility protocol
  of \<open>clients/web_compat.cpp\<close>.

  The theories, in the order of their imports.

  Foundations. \<open>FB_Prelude\<close>: machine integers, their little-endian bytes, characters as bytes,
  association lists, theorem collections. \<open>Wire\<close> (\<open>include/net/common.h\<close>): operation codes, \<open>Writer\<close>,
  \<open>Reader\<close>, \<open>MsgHeader\<close>, attributes and their round trips. \<open>Streams\<close> (\<open>net/stream.cpp\<close>, \<open>common.h\<close>):
  \<open>send_all\<close>, \<open>recv_all\<close> over sockets that move any number of bytes per call.

  Cryptography. \<open>ChaCha20\<close>, \<open>Poly1305\<close>, \<open>Aead\<close> (\<open>crypto/crypto.cpp\<close>) on 32 and 64 bit words as in the
  code; \<open>Poly1305_Arith\<close>, \<open>Poly1305_Block\<close>, \<open>Poly1305_Correct\<close> prove that the five-limb code computes the
  polynomial modulo \<open>2^130 - 5\<close> of RFC 8439 (C2). \<open>SecureChannel\<close> and \<open>Handshake\<close> (\<open>include/crypto/auth.h\<close>):
  records, counters, key derivation, mutual authentication (C3 to C7). SHA-256, HMAC and Argon2id are
  parameters; no cryptographic hardness is assumed, the theorems name the tag or digest collision that
  an attack would need.

  Host. \<open>Paths\<close> models the parts of \<open>std::filesystem::path\<close> that the code uses, and \<open>path_within\<close>; \<open>OsFs\<close>
  the system calls as a record of functions, with a logging copy. \<open>ServerDispatch\<close> is the dispatcher with
  every operation; \<open>ServerSafety\<close> proves confinement, table invariants, handle lifetime and
  invalidations (C1, C8, and the refinement of \<open>resolve\<close> to a lookup); \<open>ServerSessions\<close> the life cycle of
  the server as a step relation over its threads, its accounting and that \<open>stop\<close> is never stuck.

  Client. \<open>RemoteFs\<close> is the interface all clients implement. \<open>RamCache\<close>, \<open>CacheBlocks\<close>, \<open>CacheSafe\<close>,
  \<open>CacheRead\<close> model the cache operation by operation, prove its invariants and that a cached read is the
  host's read; \<open>HostRemote\<close> instantiates the contract with the dispatcher; \<open>CacheThreads\<close> has the
  interleavings of fetches, handle use and invalidation. \<open>ClientConnect\<close> and \<open>ClientRequests\<close> model
  connecting (every socket closed on failure) and the request table shared by the reader threads.

  Rendezvous. \<open>Base91\<close>, \<open>Tokens\<close> (\<open>crypto/base91.cpp\<close>, \<open>crypto/token.cpp\<close>, \<open>net/signaling.cpp\<close>): codec, token,
  offline blobs, room codes, cloud records. \<open>Signaling\<close>: the Cloudflare and Firebase directories.
  \<open>NetAddr\<close> (\<open>net/netutil.cpp\<close>, \<open>net/upnp.cpp\<close>): advertised address and port mapping. \<open>Session\<close>: hosting and
  joining.

  Mount. \<open>FuseOps\<close>: the FUSE operations; \<open>MountedFile\<close> proves that what is written through mount, cache
  and server is what is read back, against an abstract file; \<open>MountedOps\<close>: listing and opening; \<open>FuseMount\<close>:
  \<open>Mount::start\<close> and \<open>Mount::stop\<close> with a ledger of FUSE objects; \<open>MountEject\<close>: the ejection race.

  Command line. \<open>Cli\<close>: arguments, \<open>cli_host\<close>, \<open>cli_connect\<close>, \<open>run_cli\<close>; \<open>CliMount\<close>: what the commands leave
  behind, over the contract of a mount.

  WebRTC compatibility (\<open>clients/web_compat.cpp\<close>). \<open>WebHost\<close>: path resolution and the requests of a peer's data
  channel; \<open>WebHostSafe\<close>: every path a peer can reach lies in the share, and why downloads are refused on
  POSIX systems; \<open>WebClient\<close>: the client as a \<open>RemoteFs\<close>; \<open>WebTransfer\<close>: the client against the host, over a
  channel that keeps the order of messages. \<open>WebRelay\<close>: signals through a Firebase room, each event once;
  \<open>WebNegotiate\<close>: how the host's signaling thread makes and drops connections.

  QUIC (\<open>net/native_quic.cpp\<close>). \<open>QuicEndpoint\<close>: streams, callbacks and the worker; \<open>QuicThreads\<close>: the threads as
  a step relation, and what each operation keeps; \<open>QuicSafe\<close>: bytes in order, no datagram lost, no reader
  left waiting.

  Conventions. A record holds an object's members, one definition stands for one function, state is
  passed explicitly. An error is the left side of a sum or \<open>None\<close>; a status is the number the code
  returns. What lies outside the repository (operating system, libfuse, Qt, libminiupnpc, picoquic,
  libjuice, libdatachannel, the kernel's random source, the hash functions) is a record of functions and an
  argument of the definitions; the contracts needed of it are hypotheses of the theorems, and their
  witnesses instantiate them. Locales state the interfaces between components (a remote reader, a mount, a
  table, a queue) and are interpreted on the model's definitions.

  Threads. Sequential code is a function; where the order of threads matters there is a step relation
  whose steps are the critical sections and atomic accesses of the code (\<open>ServerSessions\<close>, \<open>CacheThreads\<close>,
  \<open>ClientRequests\<close>, \<open>MountEject\<close>, \<open>QuicThreads\<close>), and the theorems quantify over all runs.

  Bounds and fuel. Integers keep their width. Loops that end are \<open>fun\<close> or \<open>function\<close> with a measure; the
  socket loops and the chunk loops have measures on the bytes left. The loops that wait for the outside
  world (a random tape that rejects, a clock) are \<open>partial_function\<close>, their results options, and the
  theorems say when they have a value. No theorem depends on a chosen amount of fuel.

  Not modelled. The window (\<open>app/mainwindow.cpp\<close>) and \<open>app/main.cpp\<close> are user interface over the
  operations modelled here; \<open>fs/projfs_mount.cpp\<close>, \<open>fs/projfs_loader.cpp\<close> and the Windows and macOS branches are
  callbacks of the Windows Projected File System and their platform code, of which the repository
  holds no interface; \<open>fs/fuse_backend.cpp\<close> loads a library; the self tests are tests; \<open>webapp/\<close> and
  \<open>databases/cloudflare/\<close> are other programs in JavaScript. Progress counters shown in the window and
  debug output are left out where the component's text says so. Of \<open>clients/web_compat.cpp\<close> the class
  \<open>NativeQuicRemoteClient\<close>, which joins signaling, endpoint and native client, is left out.
\<close>

end
